(* ===== verification/Scry_Prelude.thy ===== *)
theory Scry_Prelude
  imports Main "HOL-Library.Word" "HOL-Library.List_Lexorder" "HOL-Library.Char_ord"
begin

text \<open>
  What the component theories share: the machine types of the Rust sources, the
  integer operations of Rust's standard library that the code relies on
  (saturating, checked and wrapping arithmetic, \<open>to_be_bytes\<close>,
  \<open>str::parse::<u64>\<close>, decimal formatting), prefix and suffix stripping, and
  lookup and update in a listing of named entries, which models a directory or a
  table whose enumeration order is not specified.
\<close>

named_theorems sat_simps \<open>what the saturating and checked operations compute on naturals\<close>

section \<open>Machine types\<close>

type_synonym u8 = "8 word"
type_synonym u16 = "16 word"
type_synonym u32 = "32 word"
type_synonym u64 = "64 word"
type_synonym bytes = "u8 list"
type_synonym uuid = "128 word"

section \<open>Saturating and checked arithmetic\<close>

definition sat_add :: "'a::len word \<Rightarrow> 'a word \<Rightarrow> 'a word" where
  "sat_add a b = (if unat a + unat b < 2 ^ LENGTH('a) then a + b else - 1)"

definition sat_sub :: "'a::len word \<Rightarrow> 'a word \<Rightarrow> 'a word" where
  "sat_sub a b = (if a < b then 0 else a - b)"

definition sat_mul :: "'a::len word \<Rightarrow> 'a word \<Rightarrow> 'a word" where
  "sat_mul a b = (if unat a * unat b < 2 ^ LENGTH('a) then a * b else - 1)"

definition checked_add :: "'a::len word \<Rightarrow> 'a word \<Rightarrow> 'a word option" where
  "checked_add a b = (if unat a + unat b < 2 ^ LENGTH('a) then Some (a + b) else None)"

definition checked_sub :: "'a::len word \<Rightarrow> 'a word \<Rightarrow> 'a word option" where
  "checked_sub a b = (if a < b then None else Some (a - b))"

definition checked_mul :: "'a::len word \<Rightarrow> 'a word \<Rightarrow> 'a word option" where
  "checked_mul a b = (if unat a * unat b < 2 ^ LENGTH('a) then Some (a * b) else None)"

lemma unat_le_mask: "unat (a :: 'a::len word) \<le> 2 ^ LENGTH('a) - 1"
  using unsigned_less [of a, where ?'a = nat] by linarith

lemma unat_minus_one_eq: "unat (- 1 :: 'a::len word) = 2 ^ LENGTH('a) - 1"
  by (simp add: unsigned_minus_1_eq_mask mask_eq_exp_minus_1)

lemma unat_sat_add [sat_simps]:
  "unat (sat_add a (b :: 'a::len word)) = min (2 ^ LENGTH('a) - 1) (unat a + unat b)"
  by (auto simp: sat_add_def unat_minus_one_eq unat_word_ariths)

lemma unat_sat_sub [sat_simps]:
  "unat (sat_sub a (b :: 'a::len word)) = unat a - unat b"
  by (auto simp: sat_sub_def unat_sub_if' word_less_nat_alt)

lemma unat_sat_mul [sat_simps]:
  "unat (sat_mul a (b :: 'a::len word)) = min (2 ^ LENGTH('a) - 1) (unat a * unat b)"
  by (auto simp: sat_mul_def unat_minus_one_eq unat_word_ariths)

lemma checked_add_SomeD [sat_simps]:
  "checked_add a b = Some c \<longleftrightarrow> unat c = unat a + unat b"
  using unsigned_less [of c, where ?'a = nat]
  by (auto simp: checked_add_def unat_word_ariths word_eq_iff_unsigned [where ?'a = nat]
      simp del: unsigned_less)

lemma checked_sub_SomeD [sat_simps]:
  "checked_sub a b = Some c \<longleftrightarrow> b \<le> a \<and> unat c = unat a - unat b"
  by (auto simp: checked_sub_def unat_sub_if' word_less_nat_alt word_le_nat_alt
      word_eq_iff_unsigned [where ?'a = nat])

lemma checked_mul_SomeD [sat_simps]:
  "checked_mul a b = Some c \<longleftrightarrow> unat c = unat a * unat b"
  using unsigned_less [of c, where ?'a = nat]
  by (auto simp: checked_mul_def unat_word_ariths word_eq_iff_unsigned [where ?'a = nat]
      simp del: unsigned_less)

section \<open>Big-endian bytes\<close>

text \<open>\<open>be_digits n v\<close> writes \<open>v\<close> with \<open>n\<close> bytes, most significant first.\<close>

fun be_digits :: "nat \<Rightarrow> nat \<Rightarrow> bytes" where
  "be_digits 0 v = []"
| "be_digits (Suc n) v = be_digits n (v div 256) @ [of_nat (v mod 256)]"

definition be_value :: "bytes \<Rightarrow> nat" where
  "be_value bs = foldl (\<lambda>acc b. acc * 256 + unat b) 0 bs"

definition to_be_bytes :: "'a::len word \<Rightarrow> bytes" where
  "to_be_bytes w = be_digits (LENGTH('a) div 8) (unat w)"

definition from_be_bytes :: "bytes \<Rightarrow> 'a::len word" where
  "from_be_bytes bs = of_nat (be_value bs)"

lemma length_be_digits [simp]: "length (be_digits n v) = n"
  by (induction n arbitrary: v) auto

lemma be_value_snoc [simp]: "be_value (bs @ [b]) = be_value bs * 256 + unat b"
  by (simp add: be_value_def)

lemma be_value_Nil [simp]: "be_value [] = 0"
  by (simp add: be_value_def)

lemma unat_of_nat_byte [simp]: "unat (of_nat (v mod 256) :: u8) = v mod 256"
  by (simp add: unat_of_nat)

lemma be_value_digits: "be_value (be_digits n v) = v mod 256 ^ n"
proof (induction n arbitrary: v)
  case 0
  then show ?case by simp
next
  case (Suc n)
  have "v mod (256 * 256 ^ n) = 256 * (v div 256 mod 256 ^ n) + v mod 256"
    by (rule mod_mult2_eq)
  then show ?case using Suc by (simp add: mult.commute)
qed

lemma length_to_be_bytes [simp]: "length (to_be_bytes (w :: 'a::len word)) = LENGTH('a) div 8"
  by (simp add: to_be_bytes_def)

lemma from_to_be_bytes:
  assumes "8 * (LENGTH('a) div 8) = LENGTH('a)"
  shows "from_be_bytes (to_be_bytes w) = (w :: 'a::len word)"
proof -
  have "(256 :: nat) ^ (LENGTH('a) div 8) = 2 ^ LENGTH('a)"
    using power_mult [of "2 :: nat" 8 "LENGTH('a) div 8"] assms by simp
  then show ?thesis
    using unsigned_less [of w, where ?'a = nat] by (simp add: from_be_bytes_def to_be_bytes_def be_value_digits)
qed

lemma be_bytes_roundtrips [simp]:
  "from_be_bytes (to_be_bytes (a :: u16)) = a"
  "from_be_bytes (to_be_bytes (b :: u32)) = b"
  "from_be_bytes (to_be_bytes (c :: u64)) = c"
  by (simp_all add: from_to_be_bytes)

section \<open>Decimal formatting and parsing\<close>

definition digit_char :: "nat \<Rightarrow> char" where
  "digit_char d = char_of (48 + d)"

definition char_digit :: "char \<Rightarrow> nat option" where
  "char_digit c = (let v = of_char c :: nat in if 48 \<le> v \<and> v \<le> 57 then Some (v - 48) else None)"

text \<open>\<open>dec n\<close> is \<open>format!("{n}")\<close>; \<open>zero_pad w s\<close> pads on the left, as \<open>{:0w}\<close> does.\<close>

fun dec :: "nat \<Rightarrow> string" where
  "dec n = (if n < 10 then [digit_char n] else dec (n div 10) @ [digit_char (n mod 10)])"

declare dec.simps [simp del]

definition zero_pad :: "nat \<Rightarrow> string \<Rightarrow> string" where
  "zero_pad w s = replicate (w - length s) (digit_char 0) @ s"

text \<open>The digits of \<open>u64::from_str\<close>: every character a digit, no overflow on the way.\<close>

fun parse_digits :: "nat \<Rightarrow> string \<Rightarrow> nat option" where
  "parse_digits acc [] = Some acc"
| "parse_digits acc (c # cs) =
     (case char_digit c of
        None \<Rightarrow> None
      | Some d \<Rightarrow> if acc * 10 + d < 2 ^ 64 then parse_digits (acc * 10 + d) cs else None)"

text \<open>\<open>str::parse::<u64>\<close>: one optional leading plus sign, then at least one digit.\<close>

definition parse_u64 :: "string \<Rightarrow> u64 option" where
  "parse_u64 s =
     (let ds = (case s of c # cs \<Rightarrow> if c = CHR ''+'' then cs else s | [] \<Rightarrow> s)
      in if ds = [] then None else map_option of_nat (parse_digits 0 ds))"

lemma of_char_digit_char [simp]: "d < 10 \<Longrightarrow> of_char (digit_char d) = (48 + d :: nat)"
  by (simp add: digit_char_def)

lemma char_digit_digit_char [simp]: "d < 10 \<Longrightarrow> char_digit (digit_char d) = Some d"
  by (simp add: char_digit_def)

lemma digit_char_not_plus [simp]:
  assumes "d < 10"
  shows "digit_char d \<noteq> CHR ''+''"
proof
  assume "digit_char d = CHR ''+''"
  then have "of_char (digit_char d) = (of_char CHR ''+'' :: nat)" by (rule arg_cong)
  with assms show False by simp
qed

lemma dec_not_Nil [simp]: "dec n \<noteq> []"
  by (subst dec.simps) simp

lemma set_dec: "c \<in> set (dec n) \<Longrightarrow> \<exists>d < 10. c = digit_char d"
proof (induction n rule: dec.induct)
  case (1 n)
  then show ?case
    by (cases "n < 10") (auto simp: dec.simps [of n] intro: exI [of _ "n mod 10"])
qed

lemma plus_notin_dec [simp]: "CHR ''+'' \<notin> set (dec n)"
  using set_dec [of "CHR ''+''" n] digit_char_not_plus by metis

lemma hd_dec_not_plus: "hd (dec n) \<noteq> CHR ''+''"
  by (metis hd_in_set dec_not_Nil plus_notin_dec)

lemma parse_digits_append:
  "parse_digits acc (xs @ ys) =
     (case parse_digits acc xs of None \<Rightarrow> None | Some v \<Rightarrow> parse_digits v ys)"
  by (induction acc xs rule: parse_digits.induct) (auto split: option.splits)

lemma parse_digits_zeros: "parse_digits 0 (replicate k (digit_char 0)) = Some 0"
  by (induction k) auto

lemma parse_digits_dec: "n < 2 ^ 64 \<Longrightarrow> parse_digits 0 (dec n) = Some n"
proof (induction n rule: dec.induct)
  case (1 n)
  show ?case
  proof (cases "n < 10")
    case True
    then show ?thesis by (simp add: dec.simps [of n])
  next
    case False
    with 1 have "parse_digits 0 (dec (n div 10)) = Some (n div 10)" by simp
    with False "1.prems" show ?thesis
      by (simp add: dec.simps [of n] parse_digits_append)
  qed
qed

lemma parse_u64_zero_pad:
  "parse_u64 (zero_pad w (dec (unat (n :: u64)))) = Some n"
proof -
  let ?s = "zero_pad w (dec (unat n))"
  have "hd ?s \<noteq> CHR ''+''"
    using hd_dec_not_plus [of "unat n"]
    by (cases "w - length (dec (unat n))") (auto simp: zero_pad_def)
  moreover have "?s \<noteq> []" by (simp add: zero_pad_def)
  moreover have "parse_digits 0 ?s = Some (unat n)"
    using unsigned_less [of n, where ?'a = nat]
    by (simp add: zero_pad_def parse_digits_append parse_digits_zeros parse_digits_dec)
  ultimately show ?thesis
    by (auto simp: parse_u64_def Let_def split: list.splits)
qed

section \<open>Prefixes and suffixes of strings\<close>

fun strip_prefix :: "'a list \<Rightarrow> 'a list \<Rightarrow> 'a list option" where
  "strip_prefix [] s = Some s"
| "strip_prefix (p # ps) [] = None"
| "strip_prefix (p # ps) (c # cs) = (if p = c then strip_prefix ps cs else None)"

definition strip_suffix :: "'a list \<Rightarrow> 'a list \<Rightarrow> 'a list option" where
  "strip_suffix p s = map_option rev (strip_prefix (rev p) (rev s))"

lemma strip_prefix_append [simp]: "strip_prefix p (p @ s) = Some s"
  by (induction p) auto

lemma strip_prefix_SomeD: "strip_prefix p s = Some r \<longleftrightarrow> s = p @ r"
  by (induction p s rule: strip_prefix.induct) auto

lemma strip_suffix_append [simp]: "strip_suffix p (s @ p) = Some s"
  by (simp add: strip_suffix_def)

lemma strip_suffix_SomeD: "strip_suffix p s = Some r \<longleftrightarrow> s = r @ p"
proof
  assume "strip_suffix p s = Some r"
  then have "rev s = rev p @ rev r"
    by (auto simp: strip_suffix_def strip_prefix_SomeD)
  then show "s = r @ p" by (metis rev_append rev_rev_ident)
qed simp

text \<open>\<open>str::split\<close> on one character: always at least one piece.\<close>

fun split_on :: "'a \<Rightarrow> 'a list \<Rightarrow> 'a list list" where
  "split_on d [] = [[]]"
| "split_on d (c # cs) =
     (if c = d then [] # split_on d cs
      else case split_on d cs of [] \<Rightarrow> [[c]] | p # ps \<Rightarrow> (c # p) # ps)"

lemma split_on_not_Nil [simp]: "split_on d s \<noteq> []"
  by (induction s) (auto split: list.splits)

lemma split_on_append:
  "d \<notin> set p \<Longrightarrow> split_on d (p @ d # s) = p # split_on d s"
  by (induction p) auto

lemma split_on_notin: "d \<notin> set p \<Longrightarrow> split_on d p = [p]"
  by (induction p) auto

lemma hd_split_on_notin: "d \<notin> set (hd (split_on d s))"
  by (induction s) (auto split: list.splits)

section \<open>Ordered maps of lists\<close>

text \<open>\<open>map.entry(k).or_default().push(v)\<close> on a \<open>BTreeMap\<close>, kept as a list sorted by key.\<close>

fun btree_push :: "'k :: linorder \<Rightarrow> 'v \<Rightarrow> ('k \<times> 'v list) list \<Rightarrow> ('k \<times> 'v list) list" where
  "btree_push k v [] = [(k, [v])]"
| "btree_push k v ((k', vs) # g) =
     (if k < k' then (k, [v]) # (k', vs) # g
      else if k = k' then (k', vs @ [v]) # g
      else (k', vs) # btree_push k v g)"

lemma fst_btree_push: "fst ` set (btree_push k v g) = insert k (fst ` set g)"
  by (induction g rule: btree_push.induct) auto

lemma sorted_btree_push:
  "sorted_wrt (<) (map fst g) \<Longrightarrow> sorted_wrt (<) (map fst (btree_push k v g))"
proof (induction k v g rule: btree_push.induct)
  case (2 k v k' vs g)
  have set: "set (map fst (btree_push k v g)) = insert k (fst ` set g)"
    using fst_btree_push [of k v g] by simp
  from 2 set show ?case by (fastforce simp: image_iff)
qed simp

lemma map_of_btree_push:
  "sorted_wrt (<) (map fst g) \<Longrightarrow> map_of (btree_push k v g) k' =
     (if k' = k then Some ((case map_of g k of None \<Rightarrow> [] | Some vs \<Rightarrow> vs) @ [v]) else map_of g k')"
proof (induction k v g rule: btree_push.induct)
  case (2 k v k2 vs g)
  show ?case
  proof (cases "k < k2")
    case True
    then have "map_of ((k2, vs) # g) k = None"
      using 2 by (auto simp: map_of_eq_None_iff)
    with True show ?thesis by auto
  qed (use 2 in auto)
qed simp

definition btree_groups :: "('v \<Rightarrow> 'k :: linorder) \<Rightarrow> 'v list \<Rightarrow> ('k \<times> 'v list) list" where
  "btree_groups key vs = fold (\<lambda>v. btree_push (key v) v) vs []"

lemma sorted_btree_groups: "sorted_wrt (<) (map fst (btree_groups key vs))"
proof -
  have "sorted_wrt (<) (map fst g) \<Longrightarrow> sorted_wrt (<) (map fst (fold (\<lambda>v. btree_push (key v) v) vs g))" for g
    by (induction vs arbitrary: g) (auto simp: sorted_btree_push)
  then show ?thesis by (simp add: btree_groups_def)
qed

lemma map_of_btree_groups:
  "map_of (btree_groups key vs) k =
     (if k \<in> key ` set vs then Some (filter (\<lambda>v. key v = k) vs) else None)"
proof (induction vs rule: rev_induct)
  case (snoc v vs)
  have "btree_groups key (vs @ [v]) = btree_push (key v) v (btree_groups key vs)"
    by (simp add: btree_groups_def)
  moreover have "filter (\<lambda>w. key w = key v) vs = []" if "key v \<notin> key ` set vs"
    using that by (simp add: filter_empty_conv) (metis image_eqI)
  ultimately show ?case using snoc
    by (auto simp: map_of_btree_push sorted_btree_groups)
qed (simp add: btree_groups_def)

lemma distinct_btree_groups: "distinct (map fst (btree_groups key vs))"
  using sorted_btree_groups [of key vs] by (simp add: strict_sorted_iff)

lemma btree_groups_iff:
  "(k, g) \<in> set (btree_groups key vs) \<longleftrightarrow> k \<in> key ` set vs \<and> g = filter (\<lambda>v. key v = k) vs"
proof -
  have "(k, g) \<in> set (btree_groups key vs) \<longleftrightarrow> map_of (btree_groups key vs) k = Some g"
    using distinct_btree_groups [of key vs] by simp
  then show ?thesis by (auto simp: map_of_btree_groups)
qed

section \<open>Counting on machine words\<close>

lemma unat_plus_one: "(x :: 'a :: len word) < - 1 \<Longrightarrow> unat (x + 1) = unat x + 1"
proof -
  assume "x < - 1"
  then have "1 + x \<noteq> 0" by (metis add_eq_0_iff less_irrefl minus_minus)
  then show ?thesis using unatSuc [of x] by (simp add: add.commute)
qed

lemma less_plus_one: "(x :: 'a :: len word) < - 1 \<Longrightarrow> x < x + 1"
  by (simp add: word_less_nat_alt unat_plus_one)

lemma less_plus_one_iff: "(x :: 'a :: len word) < x + 1 \<Longrightarrow> y < x + 1 \<longleftrightarrow> y \<le> x"
  by unat_arith

section \<open>Runs of fallible steps and their simulation\<close>

fun run_steps :: "('e \<Rightarrow> 's \<Rightarrow> 'err + 's) \<Rightarrow> 'e list \<Rightarrow> 's \<Rightarrow> 'err + 's" where
  "run_steps step [] s = Inr s"
| "run_steps step (e # es) s =
     (case step e s of Inl err \<Rightarrow> Inl err | Inr s' \<Rightarrow> run_steps step es s')"

lemma run_steps_append:
  "run_steps step (es @ fs) s =
     (case run_steps step es s of Inl err \<Rightarrow> Inl err | Inr s' \<Rightarrow> run_steps step fs s')"
  by (induction es arbitrary: s) (auto split: sum.splits)

text \<open>
  A concrete component simulates an abstract one: every event succeeds and stays related,
  as long as a budget that each event uses at most one unit of is not exhausted.
\<close>

locale budgeted_simulation =
  fixes rep :: "'a \<Rightarrow> 'c \<Rightarrow> bool"
    and cstep :: "'e \<Rightarrow> 'c \<Rightarrow> 'err + 'c"
    and astep :: "'e \<Rightarrow> 'a \<Rightarrow> 'a"
    and cost :: "'a \<Rightarrow> nat"
    and limit :: nat
  assumes step_sim: "rep a c \<Longrightarrow> cost a < limit \<Longrightarrow> \<exists>c'. cstep e c = Inr c' \<and> rep (astep e a) c'"
    and step_cost: "rep a c \<Longrightarrow> cost a < limit \<Longrightarrow> cost (astep e a) \<le> cost a + 1"
begin

lemma run_sim:
  "rep a c \<Longrightarrow> cost a + length es \<le> limit \<Longrightarrow>
     \<exists>c'. run_steps cstep es c = Inr c' \<and> rep (fold astep es a) c'
        \<and> cost (fold astep es a) \<le> cost a + length es"
proof (induction es arbitrary: a c)
  case Nil
  then show ?case by simp
next
  case (Cons e es)
  then obtain c' where c': "cstep e c = Inr c'" "rep (astep e a) c'"
    using step_sim [of a c e] by auto
  moreover have "cost (astep e a) \<le> cost a + 1"
    using Cons.prems step_cost [of a c e] by simp
  ultimately show ?case using Cons.IH [of "astep e a" c'] Cons.prems by auto
qed

end

end
