(* ===== verification/Wire.thy ===== *)
theory Wire
  imports Scry_Prelude
begin

text \<open>
  The byte-aligned part of the bit stream of \<^verbatim>\<open>src/crates/binschema-runtime/src/bitstream.rs\<close>, the
  encoder and decoder that \<^verbatim>\<open>src/crates/proto/src/generated.rs\<close> has for a batch of dummy records,
  and the streaming decoder of \<^verbatim>\<open>src/crates/proto/src/streaming.rs\<close> for the same bytes, which hands
  each record to an appender. A decoder is the payload and its byte offset; the bit offset is zero
  at every call of these methods. A Rust string is its bytes, which are valid UTF-8 (\<open>utf8\<close>).
\<close>

section \<open>UTF-8\<close>

definition continuation :: "u8 \<Rightarrow> bool" where
  "continuation b \<longleftrightarrow> 0x80 \<le> b \<and> b \<le> 0xBF"

text \<open>What \<open>from_utf8\<close> accepts: no overlong form, no surrogate, nothing above U+10FFFF.\<close>

fun utf8 :: "bytes \<Rightarrow> bool" where
  "utf8 [] = True"
| "utf8 (a # bs) =
     (if a < 0x80 then utf8 bs
      else case bs of
        [] \<Rightarrow> False
      | b # bs2 \<Rightarrow>
          if 0xC2 \<le> a \<and> a \<le> 0xDF then continuation b \<and> utf8 bs2
          else case bs2 of
            [] \<Rightarrow> False
          | c # bs3 \<Rightarrow>
              if 0xE0 \<le> a \<and> a \<le> 0xEF then
                (if a = 0xE0 then 0xA0 \<le> b \<and> b \<le> 0xBF
                 else if a = 0xED then 0x80 \<le> b \<and> b \<le> 0x9F
                 else continuation b) \<and> continuation c \<and> utf8 bs3
              else case bs3 of
                [] \<Rightarrow> False
              | d # bs4 \<Rightarrow>
                  0xF0 \<le> a \<and> a \<le> 0xF4 \<and>
                  (if a = 0xF0 then 0x90 \<le> b \<and> b \<le> 0xBF
                   else if a = 0xF4 then 0x80 \<le> b \<and> b \<le> 0x8F
                   else continuation b) \<and> continuation c \<and> continuation d \<and> utf8 bs4)"

section \<open>Aligned reads and writes\<close>

datatype bin_error = UnexpectedEof | InvalidUtf8 | OutOfBounds nat

definition read_u16_be :: "bytes \<Rightarrow> nat \<Rightarrow> bin_error + u16 \<times> nat" where
  "read_u16_be bs off =
     (if off + 2 > length bs then Inl UnexpectedEof
      else Inr (from_be_bytes [bs ! off, bs ! (off + 1)], off + 2))"

definition read_u32_be :: "bytes \<Rightarrow> nat \<Rightarrow> bin_error + u32 \<times> nat" where
  "read_u32_be bs off =
     (if off + 4 > length bs then Inl UnexpectedEof
      else Inr (from_be_bytes [bs ! off, bs ! (off + 1), bs ! (off + 2), bs ! (off + 3)], off + 4))"

definition read_u64_be :: "bytes \<Rightarrow> nat \<Rightarrow> bin_error + u64 \<times> nat" where
  "read_u64_be bs off =
     (if off + 8 > length bs then Inl UnexpectedEof
      else Inr (from_be_bytes (take 8 (drop off bs)), off + 8))"

definition read_bytes_vec :: "bytes \<Rightarrow> nat \<Rightarrow> nat \<Rightarrow> bin_error + bytes \<times> nat" where
  "read_bytes_vec bs off n =
     (if n > length bs - off then Inl UnexpectedEof else Inr (take n (drop off bs), off + n))"

definition seek :: "bytes \<Rightarrow> nat \<Rightarrow> bin_error + nat" where
  "seek bs pos = (if pos > length bs then Inl (OutOfBounds pos) else Inr pos)"

section \<open>The generated codec of a batch\<close>

record dummy_record =
  dr_ts_unix_nano :: u64
  dr_key :: bytes
  dr_value :: bytes

definition dummy_record_encode :: "dummy_record \<Rightarrow> bytes" where
  "dummy_record_encode r =
     to_be_bytes (dr_ts_unix_nano r) @ to_be_bytes (of_nat (length (dr_key r)) :: u16) @ dr_key r
       @ to_be_bytes (of_nat (length (dr_value r)) :: u32) @ dr_value r"

definition dummy_batch_encode :: "dummy_record list \<Rightarrow> bytes" where
  "dummy_batch_encode rs = to_be_bytes (of_nat (length rs) :: u32) @ concat (map dummy_record_encode rs)"

definition dummy_record_decode :: "bytes \<Rightarrow> nat \<Rightarrow> bin_error + dummy_record \<times> nat" where
  "dummy_record_decode bs off =
     (case read_u64_be bs off of Inl e \<Rightarrow> Inl e | Inr (ts, off1) \<Rightarrow>
      case read_u16_be bs off1 of Inl e \<Rightarrow> Inl e | Inr (klen, off2) \<Rightarrow>
      case read_bytes_vec bs off2 (unat klen) of Inl e \<Rightarrow> Inl e | Inr (key, off3) \<Rightarrow>
      if \<not> utf8 key then Inl InvalidUtf8 else
      case read_u32_be bs off3 of Inl e \<Rightarrow> Inl e | Inr (vlen, off4) \<Rightarrow>
      case read_bytes_vec bs off4 (unat vlen) of Inl e \<Rightarrow> Inl e | Inr (val, off5) \<Rightarrow>
      Inr (\<lparr>dr_ts_unix_nano = ts, dr_key = key, dr_value = val\<rparr>, off5))"

fun dummy_records_decode :: "nat \<Rightarrow> bytes \<Rightarrow> nat \<Rightarrow> bin_error + dummy_record list" where
  "dummy_records_decode 0 bs off = Inr []"
| "dummy_records_decode (Suc n) bs off =
     (case dummy_record_decode bs off of Inl e \<Rightarrow> Inl e | Inr (r, off') \<Rightarrow>
      case dummy_records_decode n bs off' of Inl e \<Rightarrow> Inl e | Inr rs \<Rightarrow> Inr (r # rs))"

definition dummy_batch_decode :: "bytes \<Rightarrow> bin_error + dummy_record list" where
  "dummy_batch_decode bs =
     (case read_u32_be bs 0 of Inl e \<Rightarrow> Inl e | Inr (count, off) \<Rightarrow> dummy_records_decode (unat count) bs off)"

section \<open>The streaming decoder\<close>

text \<open>
  The sums of an offset and a length read from the payload stay far below the range of
  \<open>usize\<close>, so \<open>checked_add\<close> always succeeds.
\<close>

definition read_raw_record :: "bytes \<Rightarrow> nat \<Rightarrow> bin_error + (u64 \<times> bytes \<times> bytes) \<times> nat" where
  "read_raw_record payload off =
     (case read_u64_be payload off of Inl e \<Rightarrow> Inl e | Inr (ts, off1) \<Rightarrow>
      case read_u16_be payload off1 of Inl e \<Rightarrow> Inl e | Inr (key_len, key_start) \<Rightarrow>
      let key_end = key_start + unat key_len in
      if key_end > length payload then Inl UnexpectedEof else
      let key = take (key_end - key_start) (drop key_start payload) in
      case seek payload key_end of Inl e \<Rightarrow> Inl e | Inr off3 \<Rightarrow>
      case read_u32_be payload off3 of Inl e \<Rightarrow> Inl e | Inr (value_len, value_start) \<Rightarrow>
      let value_end = value_start + unat value_len in
      if value_end > length payload then Inl UnexpectedEof else
      let val = take (value_end - value_start) (drop value_start payload) in
      case seek payload value_end of Inl e \<Rightarrow> Inl e | Inr off5 \<Rightarrow> Inr ((ts, key, val), off5))"

fun decode_dummy_records_into ::
  "(u64 \<Rightarrow> bytes \<Rightarrow> bytes \<Rightarrow> 'a \<Rightarrow> 'a) \<Rightarrow> nat \<Rightarrow> bytes \<Rightarrow> nat \<Rightarrow> 'a \<Rightarrow> (bin_error + unit) \<times> 'a" where
  "decode_dummy_records_into append_raw 0 payload off app = (Inr (), app)"
| "decode_dummy_records_into append_raw (Suc n) payload off app =
     (case read_raw_record payload off of
        Inl e \<Rightarrow> (Inl e, app)
      | Inr ((ts, key, val), off') \<Rightarrow> decode_dummy_records_into append_raw n payload off' (append_raw ts key val app))"

definition decode_dummy_batch_into ::
  "(u64 \<Rightarrow> bytes \<Rightarrow> bytes \<Rightarrow> 'a \<Rightarrow> 'a) \<Rightarrow> bytes \<Rightarrow> 'a \<Rightarrow> (bin_error + nat) \<times> 'a" where
  "decode_dummy_batch_into append_raw payload app =
     (case read_u32_be payload 0 of Inl e \<Rightarrow> (Inl e, app) | Inr (count, off) \<Rightarrow>
      case decode_dummy_records_into append_raw (unat count) payload off app of
        (Inl e, app') \<Rightarrow> (Inl e, app')
      | (Inr _, app') \<Rightarrow> (Inr (unat count), app'))"

text \<open>Collecting the records instead of appending them, without the check of the keys.\<close>

definition collect_raw :: "u64 \<Rightarrow> bytes \<Rightarrow> bytes \<Rightarrow> dummy_record list \<Rightarrow> dummy_record list" where
  "collect_raw ts key val rs = rs @ [\<lparr>dr_ts_unix_nano = ts, dr_key = key, dr_value = val\<rparr>]"

definition batch_records :: "bytes \<Rightarrow> dummy_record list" where
  "batch_records payload = snd (decode_dummy_batch_into collect_raw payload [])"

section \<open>Both decoders read the same records\<close>

lemmas read_defs = read_u16_be_def read_u32_be_def read_u64_be_def read_bytes_vec_def seek_def

lemma collect_raw_record [simp]: "collect_raw (dr_ts_unix_nano r) (dr_key r) (dr_value r) rs = rs @ [r]"
  by (simp add: collect_raw_def)

lemma decode_into_collect:
  assumes "\<And>ts k v a. rows (append_raw ts k v a) = collect_raw ts k v (rows a)"
  shows "decode_dummy_records_into append_raw n bs off a = (r, a') \<Longrightarrow>
    decode_dummy_records_into collect_raw n bs off (rows a) = (r, rows a')"
  by (induction n arbitrary: off a) (auto simp: assms [symmetric] split: sum.splits prod.splits)

lemma collect_accumulates:
  "decode_dummy_records_into collect_raw n bs off rs =
     (case decode_dummy_records_into collect_raw n bs off [] of (r, qs) \<Rightarrow> (r, rs @ qs))"
proof (induction n arbitrary: off rs)
  case (Suc n)
  show ?case
  proof (cases "read_raw_record bs off")
    case (Inr x)
    obtain ts k v off' where x: "x = ((ts, k, v), off')" by (metis prod.collapse)
    let ?r = "\<lparr>dr_ts_unix_nano = ts, dr_key = k, dr_value = v\<rparr>"
    show ?thesis
      using Suc.IH [of off' "rs @ [?r]"] Suc.IH [of off' "[?r]"]
      by (simp add: Inr x collect_raw_def split: prod.splits)
  qed simp
qed simp

text \<open>Decoding into any appender appends the records of the payload, as long as it appends one by one.\<close>

lemma decode_into_rows:
  assumes "\<And>ts k v a. rows (append_raw ts k v a) = collect_raw ts k v (rows a)"
    and "decode_dummy_batch_into append_raw payload a = (r, a')"
  shows "rows a' = rows a @ batch_records payload"
    and "isl r \<longleftrightarrow> isl (fst (decode_dummy_batch_into collect_raw payload []))"
proof -
  have "rows a' = rows a @ batch_records payload \<and>
      (isl r \<longleftrightarrow> isl (fst (decode_dummy_batch_into collect_raw payload [])))"
  proof (cases "read_u32_be payload 0")
    case (Inl e)
    with assms(2) show ?thesis by (auto simp: batch_records_def decode_dummy_batch_into_def)
  next
    case (Inr x)
    obtain count off where x: "x = (count, off)" by force
    obtain q b where q: "decode_dummy_records_into append_raw (unat count) payload off a = (q, b)" by force
    from decode_into_collect [OF assms(1) q] collect_accumulates [of "unat count" payload off "rows a"]
    have "case decode_dummy_records_into collect_raw (unat count) payload off [] of (r', qs) \<Rightarrow>
        r' = q \<and> rows b = rows a @ qs" by (auto split: prod.splits)
    with assms(2) Inr x q show ?thesis
      by (auto simp: batch_records_def decode_dummy_batch_into_def split: sum.splits prod.splits)
  qed
  then show "rows a' = rows a @ batch_records payload"
    "isl r \<longleftrightarrow> isl (fst (decode_dummy_batch_into collect_raw payload []))" by auto
qed

text \<open>One record: the generated decoder accepts what the streaming one accepts with a valid key.\<close>

lemma record_decode_iff:
  "dummy_record_decode bs off = Inr (r, off') \<longleftrightarrow>
     read_raw_record bs off = Inr ((dr_ts_unix_nano r, dr_key r, dr_value r), off') \<and> utf8 (dr_key r)"
  by (cases r) (auto simp: dummy_record_decode_def read_raw_record_def read_defs Let_def split: sum.splits prod.splits if_splits)

lemma records_decode_iff:
  "dummy_records_decode n bs off = Inr rs \<longleftrightarrow>
     decode_dummy_records_into collect_raw n bs off [] = (Inr (), rs) \<and> (\<forall>r \<in> set rs. utf8 (dr_key r))"
proof (induction n arbitrary: off rs)
  case (Suc n)
  show ?case
  proof (cases "read_raw_record bs off")
    case (Inl e)
    then have "dummy_record_decode bs off \<noteq> Inr x" for x using record_decode_iff [of bs off] by (cases x) auto
    then show ?thesis using Inl by (auto split: sum.splits)
  next
    case (Inr x)
    obtain ts k v off' where x: "x = ((ts, k, v), off')" by (metis prod.collapse)
    let ?r = "\<lparr>dr_ts_unix_nano = ts, dr_key = k, dr_value = v\<rparr>"
    have dec: "dummy_record_decode bs off = Inr (r, o') \<longleftrightarrow> r = ?r \<and> o' = off' \<and> utf8 k" for r o'
      unfolding record_decode_iff Inr x by auto
    have step: "decode_dummy_records_into collect_raw (Suc n) bs off [] = (Inr (), rs) \<longleftrightarrow>
        (\<exists>qs. decode_dummy_records_into collect_raw n bs off' [] = (Inr (), qs) \<and> rs = ?r # qs)"
      using collect_accumulates [of n bs off' "[?r]"]
      by (auto simp: Inr x collect_raw_def split: prod.splits)
    show ?thesis
    proof (cases "utf8 k")
      case True
      with dec have "dummy_record_decode bs off = Inr (?r, off')" by simp
      then have "dummy_records_decode (Suc n) bs off = Inr rs \<longleftrightarrow>
          (\<exists>qs. dummy_records_decode n bs off' = Inr qs \<and> rs = ?r # qs)" by (auto split: sum.splits)
      with Suc.IH step True show ?thesis by auto
    next
      case False
      then have "isl (dummy_record_decode bs off)"
        using dec by (metis prod.collapse sum.collapse(2))
      with step False show ?thesis by (auto split: sum.splits)
    qed
  qed
qed auto

lemma batch_decode_iff:
  "dummy_batch_decode bs = Inr rs \<longleftrightarrow>
     decode_dummy_batch_into collect_raw bs [] = (Inr (length rs), rs) \<and> (\<forall>r \<in> set rs. utf8 (dr_key r))"
proof (cases "read_u32_be bs 0")
  case (Inr x)
  obtain count off where x: "x = (count, off)" by force
  have len: "decode_dummy_records_into collect_raw n bs off qs = (Inr (), rs) \<Longrightarrow> length rs = n + length qs" for n off qs
    by (induction n arbitrary: off qs) (auto simp: collect_raw_def split: sum.splits prod.splits)
  have "decode_dummy_batch_into collect_raw bs [] = (Inr (length rs), rs) \<longleftrightarrow>
      decode_dummy_records_into collect_raw (unat count) bs off [] = (Inr (), rs)"
    using len [of "unat count" off "[]"] by (auto simp: decode_dummy_batch_into_def Inr x split: prod.splits sum.splits)
  then show ?thesis by (simp add: dummy_batch_decode_def records_decode_iff Inr x)
qed (simp add: dummy_batch_decode_def decode_dummy_batch_into_def)

text \<open>A record takes fourteen bytes of the payload besides its key and its value.\<close>

lemma read_raw_record_size:
  "read_raw_record bs off = Inr ((ts, k, v), off') \<Longrightarrow> off' = off + 14 + length k + length v \<and> off' \<le> length bs"
  by (auto simp: read_raw_record_def read_defs Let_def split: sum.splits prod.splits if_splits)

definition record_bytes :: "dummy_record \<Rightarrow> nat" where
  "record_bytes r = 16 + length (dr_key r) + length (dr_value r)"

lemma collected_size:
  "decode_dummy_records_into collect_raw n bs off [] = (r, rs) \<Longrightarrow> off \<le> length bs \<Longrightarrow>
     off + sum_list (map (\<lambda>r. 14 + length (dr_key r) + length (dr_value r)) rs) \<le> length bs"
proof (induction n arbitrary: off rs r)
  case (Suc n)
  show ?case
  proof (cases "read_raw_record bs off")
    case (Inr x)
    obtain ts k v off' where x: "x = ((ts, k, v), off')" by (metis prod.collapse)
    obtain q qs where q: "decode_dummy_records_into collect_raw n bs off' [] = (q, qs)" by force
    with Suc.prems(1) collect_accumulates [of n bs off' "collect_raw ts k v []"]
    have "rs = collect_raw ts k v [] @ qs" by (simp add: Inr x)
    with Suc.IH [OF q] read_raw_record_size [OF Inr [unfolded x]] show ?thesis by (simp add: collect_raw_def)
  qed (use Suc.prems in simp)
qed simp

lemma batch_records_size: "sum_list (map record_bytes (batch_records payload)) \<le> 2 * length payload"
proof -
  have double: "sum_list (map record_bytes rs) \<le> 2 * sum_list (map (\<lambda>r. 14 + length (dr_key r) + length (dr_value r)) rs)" for rs
    by (induction rs) (auto simp: record_bytes_def)
  show ?thesis
  proof (cases "read_u32_be payload 0")
    case (Inr x)
    obtain count off where x: "x = (count, off)" by force
    obtain q rs where q: "decode_dummy_records_into collect_raw (unat count) payload off [] = (q, rs)" by force
    have "off \<le> length payload" using Inr x by (auto simp: read_u32_be_def split: if_splits)
    with collected_size [OF q] double [of rs] Inr x q show ?thesis
      by (auto simp: batch_records_def decode_dummy_batch_into_def split: sum.splits)
  qed (simp add: batch_records_def decode_dummy_batch_into_def)
qed

section \<open>What the encoder writes is read back\<close>

lemma read_be:
  "read_u16_be (pre @ to_be_bytes (a :: u16) @ post) (length pre) = Inr (a, length pre + 2)"
  "read_u32_be (pre @ to_be_bytes (b :: u32) @ post) (length pre) = Inr (b, length pre + 4)"
  "read_u64_be (pre @ to_be_bytes (c :: u64) @ post) (length pre) = Inr (c, length pre + 8)"
proof -
  have two: "[xs ! 0, xs ! 1] = xs" if "length xs = 2" for xs :: bytes
    using that by (auto simp: numeral_2_eq_2 length_Suc_conv)
  have four: "[xs ! 0, xs ! 1, xs ! 2, xs ! 3] = xs" if "length xs = 4" for xs :: bytes
    using that by (auto simp: numeral_eq_Suc length_Suc_conv)
  show "read_u16_be (pre @ to_be_bytes a @ post) (length pre) = Inr (a, length pre + 2)"
    using two [of "to_be_bytes a"] by (simp add: read_u16_be_def nth_append)
  show "read_u32_be (pre @ to_be_bytes b @ post) (length pre) = Inr (b, length pre + 4)"
    using four [of "to_be_bytes b"] by (simp add: read_u32_be_def nth_append)
  show "read_u64_be (pre @ to_be_bytes c @ post) (length pre) = Inr (c, length pre + 8)"
    by (simp add: read_u64_be_def)
qed

lemma read_raw_encoded:
  assumes "length (dr_key r) < 2 ^ 16" "length (dr_value r) < 2 ^ 32" "bs = pre @ dummy_record_encode r @ post"
  shows "read_raw_record bs (length pre) = Inr ((dr_ts_unix_nano r, dr_key r, dr_value r), length pre + length (dummy_record_encode r))"
proof -
  let ?ts = "to_be_bytes (dr_ts_unix_nano r)" and ?kl = "to_be_bytes (of_nat (length (dr_key r)) :: u16)"
    and ?vl = "to_be_bytes (of_nat (length (dr_value r)) :: u32)"
  have bs: "bs = pre @ ?ts @ ?kl @ dr_key r @ ?vl @ dr_value r @ post"
    by (simp add: assms(3) dummy_record_encode_def)
  have n: "unat (of_nat (length (dr_key r)) :: u16) = length (dr_key r)" "unat (of_nat (length (dr_value r)) :: u32) = length (dr_value r)"
    using assms(1,2) by (simp_all add: unat_of_nat)
  have 1: "read_u64_be bs (length pre) = Inr (dr_ts_unix_nano r, length pre + 8)" unfolding bs by (rule read_be(3))
  have 2: "read_u16_be bs (length pre + 8) = Inr (of_nat (length (dr_key r)), length pre + 10)"
    using read_be(1) [of "pre @ ?ts" "of_nat (length (dr_key r))" "dr_key r @ ?vl @ dr_value r @ post"] by (simp add: bs)
  have 3: "read_u32_be bs (length pre + 10 + length (dr_key r)) = Inr (of_nat (length (dr_value r)), length pre + 14 + length (dr_key r))"
    using read_be(2) [of "pre @ ?ts @ ?kl @ dr_key r" "of_nat (length (dr_value r))" "dr_value r @ post"] by (simp add: bs add.assoc)
  show ?thesis
    unfolding read_raw_record_def 1 sum.case prod.case 2 n Let_def by (simp add: 3 seek_def n) (simp add: bs dummy_record_encode_def)
qed

lemma records_encoded:
  assumes "\<forall>r \<in> set rs. length (dr_key r) < 2 ^ 16 \<and> length (dr_value r) < 2 ^ 32"
    and "bs = pre @ concat (map dummy_record_encode rs) @ post"
  shows "decode_dummy_records_into collect_raw (length rs) bs (length pre) [] = (Inr (), rs)"
  using assms
proof (induction rs arbitrary: pre)
  case (Cons r rs)
  have "read_raw_record bs (length pre) = Inr ((dr_ts_unix_nano r, dr_key r, dr_value r), length (pre @ dummy_record_encode r))"
    using read_raw_encoded [of r bs pre "concat (map dummy_record_encode rs) @ post"] Cons.prems by simp
  moreover have "decode_dummy_records_into collect_raw (length rs) bs (length (pre @ dummy_record_encode r)) [] = (Inr (), rs)"
    using Cons.prems by (intro Cons.IH) auto
  ultimately show ?case
    using collect_accumulates [of "length rs" bs "length (pre @ dummy_record_encode r)" "[r]"] by simp
qed simp

text \<open>C21: the two decoders of a batch agree on what the encoder writes. Records whose keys and values
  fit their length fields are read back by the generated decoder as they were written, and the
  streaming decoder hands exactly them, in order, to whatever appender it is given; on any other
  payload the generated decoder accepts precisely what the streaming decoder accepts with valid keys,
  with the same records.\<close>

theorem dummy_codec_roundtrip:
  assumes "\<forall>r \<in> set rs. length (dr_key r) < 2 ^ 16 \<and> length (dr_value r) < 2 ^ 32 \<and> utf8 (dr_key r)" and "length rs < 2 ^ 32"
    and "\<And>ts k v a. rows (append_raw ts k v a) = rows a @ [\<lparr>dr_ts_unix_nano = ts, dr_key = k, dr_value = v\<rparr>]"
  shows "dummy_batch_decode (dummy_batch_encode rs) = Inr rs \<and>
    (\<exists>b. decode_dummy_batch_into append_raw (dummy_batch_encode rs) a = (Inr (length rs), b) \<and> rows b = rows a @ rs) \<and>
    (\<forall>payload qs. dummy_batch_decode payload = Inr qs \<longleftrightarrow>
       decode_dummy_batch_into collect_raw payload [] = (Inr (length qs), qs) \<and> (\<forall>r \<in> set qs. utf8 (dr_key r)))"
proof -
  let ?bs = "dummy_batch_encode rs" and ?n = "of_nat (length rs) :: u32"
  have n: "unat ?n = length rs" using assms(2) by (simp add: unat_of_nat)
  have count: "read_u32_be ?bs 0 = Inr (?n, 4)"
    using read_be(2) [of "[]" ?n] by (simp add: dummy_batch_encode_def)
  have recs: "decode_dummy_records_into collect_raw (length rs) ?bs 4 [] = (Inr (), rs)"
    using records_encoded [of rs ?bs "to_be_bytes ?n" "[]"] assms(1) by (simp add: dummy_batch_encode_def)
  then have collected: "decode_dummy_batch_into collect_raw ?bs [] = (Inr (length rs), rs)"
    by (simp add: decode_dummy_batch_into_def count n)
  have appends: "rows (append_raw ts k v a) = collect_raw ts k v (rows a)" for ts k v a
    by (simp add: assms(3) collect_raw_def)
  obtain r b where b: "decode_dummy_batch_into append_raw ?bs a = (r, b)" by force
  from decode_into_rows [OF appends b] collected have "rows b = rows a @ rs" "\<not> isl r"
    by (auto simp: batch_records_def)
  moreover from b \<open>\<not> isl r\<close> have "r = Inr (length rs)"
    by (auto simp: decode_dummy_batch_into_def count n split: sum.splits prod.splits)
  ultimately show ?thesis using b collected assms(1) batch_decode_iff by blast
qed

theorem dummy_codec_roundtrip_witness:
  "dummy_batch_decode (dummy_batch_encode [\<lparr>dr_ts_unix_nano = 9, dr_key = [0x61, 0xC3, 0xA9], dr_value = [7, 0]\<rparr>]) =
     Inr [\<lparr>dr_ts_unix_nano = 9, dr_key = [0x61, 0xC3, 0xA9], dr_value = [7, 0]\<rparr>]"
  using dummy_codec_roundtrip [of "[\<lparr>dr_ts_unix_nano = 9, dr_key = [0x61, 0xC3, 0xA9], dr_value = [7, 0]\<rparr>]"
      "\<lambda>rs. rs" collect_raw "[]"]
  by (simp add: continuation_def collect_raw_def)

end
