(* ===== verification/Storage_Layout.thy ===== *)
theory Storage_Layout
  imports Scry_Prelude
begin

text \<open>
  Ownership of object-store keys, \<^verbatim>\<open>src/crates/storage-layout/src/lib.rs\<close>: which keys
  belong to the control plane and are never telemetry blocks.
\<close>

definition CATALOG_CONTROL_ROOT :: string where
  "CATALOG_CONTROL_ROOT = ''_catalog''"

definition SCRY_CONTROL_ROOT :: string where
  "SCRY_CONTROL_ROOT = ''_scry''"

datatype object_namespace =
    Telemetry
  | CatalogControl
  | ScryControl "string option"

definition classify_object_key :: "string \<Rightarrow> object_namespace" where
  "classify_object_key key =
     (case split_on CHR ''/'' key of
        [] \<Rightarrow> Telemetry
      | first # rest \<Rightarrow>
          if first = CATALOG_CONTROL_ROOT then CatalogControl
          else if first = SCRY_CONTROL_ROOT
          then ScryControl (case rest of [] \<Rightarrow> None | s # _ \<Rightarrow> if s = [] then None else Some s)
          else Telemetry)"

definition is_reserved_control_key :: "string \<Rightarrow> bool" where
  "is_reserved_control_key key \<longleftrightarrow> classify_object_key key \<noteq> Telemetry"

definition is_reserved_control_prefix :: "string \<Rightarrow> bool" where
  "is_reserved_control_prefix prefix =
     (let first = hd (split_on CHR ''/'' prefix)
      in first = CATALOG_CONTROL_ROOT \<or> first = SCRY_CONTROL_ROOT)"

lemma reserved_key_iff_prefix: "is_reserved_control_key key \<longleftrightarrow> is_reserved_control_prefix key"
  by (auto simp: is_reserved_control_key_def is_reserved_control_prefix_def
      classify_object_key_def split: list.split)

lemma split_under_signal:
  "CHR ''/'' \<notin> set sig \<Longrightarrow> split_on CHR ''/'' (sig @ CHR ''/'' # rest) = sig # split_on CHR ''/'' rest"
  by (rule split_on_append)

lemma reserved_under_signal:
  "CHR ''/'' \<notin> set sig \<Longrightarrow>
     is_reserved_control_key (sig @ CHR ''/'' # rest) \<longleftrightarrow> is_reserved_control_prefix sig"
  by (simp add: reserved_key_iff_prefix is_reserved_control_prefix_def split_on_append
      split_on_notin)

end
