(* ===== verification/Block.thy ===== *)
theory Block
  imports Storage_Layout
begin

text \<open>
  Block sidecars and block objects: \<^verbatim>\<open>src/crates/block/src/meta.rs\<close> and the upload and
  deletion of a block's objects in \<^verbatim>\<open>src/crates/block/src/lib.rs\<close>.

  The calendar of \<^verbatim>\<open>chrono\<close> is a parameter \<open>ymd\<close> from seconds to the year, month and day
  strings, the text of a UUID a parameter \<open>ustr\<close>, the length of a JSON encoded UUID list a
  parameter \<open>json_len\<close>. The object store is a map from keys to bytes; what the \<open>n\<close>-th call to
  it answers is a parameter \<open>oc\<close>, and a call that reports an error may or may not have taken
  effect.
\<close>

section \<open>Sidecar metadata\<close>

definition MAX_COMPACTED_ANCESTORS :: nat where
  "MAX_COMPACTED_ANCESTORS = 584"

definition MAX_COMPACTED_ANCESTRY_BYTES :: nat where
  "MAX_COMPACTED_ANCESTRY_BYTES = 24 * 1024"

record block_meta =
  bm_uuid :: uuid
  bm_signal :: string
  bm_writer_id :: uuid
  bm_ts_min_unix_nano :: u64
  bm_ts_max_unix_nano :: u64
  bm_row_count :: u64
  bm_byte_size :: u64
  bm_schema_version :: u32
  bm_level :: u32
  bm_compacted_from :: "uuid list"
  bm_producer_version :: string
  bm_label_fingerprint_bloom :: "bytes option"
  bm_has_postings :: bool
  bm_postings_size_bytes :: "u64 option"
  bm_series_types :: "(u64 \<times> u8) list option"
  bm_all_fingerprints :: "u64 list option"
  bm_has_body_bloom :: bool
  bm_body_bloom_size_bytes :: "u64 option"
  bm_meta_json_size_bytes :: "u64 option"
  bm_wal_seg_max :: "u64 option"
  bm_wal_shard :: "u32 option"

datatype ancestry_error =
    NoInputs
  | SelfCompaction uuid
  | DuplicateInput uuid
  | InputContainsItself uuid
  | InputContainsOutput uuid
  | UnsortedAncestry uuid
  | NonCanonical
  | TooManyAncestors
  | EncodedTooLarge

text \<open>\<open>windows(2).any(|pair| pair[0] >= pair[1])\<close>\<close>

fun unsorted_windows :: "uuid list \<Rightarrow> bool" where
  "unsorted_windows (x # y # zs) = (x \<ge> y \<or> unsorted_windows (y # zs))"
| "unsorted_windows _ = False"

definition deserialize_compacted_from ::
  "(uuid list \<Rightarrow> nat) \<Rightarrow> uuid list \<Rightarrow> ancestry_error + uuid list" where
  "deserialize_compacted_from json_len ancestors =
     (if length ancestors > MAX_COMPACTED_ANCESTORS then Inl TooManyAncestors
      else if unsorted_windows ancestors then Inl NonCanonical
      else if json_len ancestors > MAX_COMPACTED_ANCESTRY_BYTES then Inl EncodedTooLarge
      else Inr ancestors)"

fun closure_loop ::
  "uuid \<Rightarrow> uuid set \<Rightarrow> uuid set \<Rightarrow> block_meta list \<Rightarrow> ancestry_error + uuid set" where
  "closure_loop out direct closure [] = Inr closure"
| "closure_loop out direct closure (i # is) =
     (if bm_uuid i = out then Inl (SelfCompaction out)
      else if bm_uuid i \<in> direct then Inl (DuplicateInput (bm_uuid i))
      else if bm_uuid i \<in> set (bm_compacted_from i) then Inl (InputContainsItself (bm_uuid i))
      else if out \<in> set (bm_compacted_from i) then Inl (InputContainsOutput (bm_uuid i))
      else if unsorted_windows (bm_compacted_from i) then Inl (UnsortedAncestry (bm_uuid i))
      else
        (let closure' = insert (bm_uuid i) closure \<union> set (bm_compacted_from i)
         in if card closure' > MAX_COMPACTED_ANCESTORS then Inl TooManyAncestors
            else closure_loop out (insert (bm_uuid i) direct) closure' is))"

definition compacted_ancestor_closure ::
  "(uuid list \<Rightarrow> nat) \<Rightarrow> uuid \<Rightarrow> block_meta list \<Rightarrow> ancestry_error + uuid list" where
  "compacted_ancestor_closure json_len output_uuid inputs =
     (if inputs = [] then Inl NoInputs
      else case closure_loop output_uuid {} {} inputs of
             Inl e \<Rightarrow> Inl e
           | Inr closure \<Rightarrow>
               (let ancestors = sorted_list_of_set closure
                in if json_len ancestors > MAX_COMPACTED_ANCESTRY_BYTES then Inl EncodedTooLarge
                   else Inr ancestors))"

section \<open>Ancestry closures\<close>

lemma unsorted_windows_iff: "unsorted_windows xs \<longleftrightarrow> \<not> sorted_wrt (<) xs"
proof (induction xs rule: unsorted_windows.induct)
  case (1 x y zs)
  then show ?case by (auto simp: not_le) (metis dual_order.strict_trans leI not_less)
qed auto

lemma unsorted_windows_strict: "unsorted_windows xs \<longleftrightarrow> \<not> (sorted xs \<and> distinct xs)"
  by (simp add: unsorted_windows_iff strict_sorted_iff)

definition closure_of :: "block_meta list \<Rightarrow> uuid set" where
  "closure_of is = (\<Union>i \<in> set is. insert (bm_uuid i) (set (bm_compacted_from i)))"

definition input_ok :: "uuid \<Rightarrow> block_meta \<Rightarrow> bool" where
  "input_ok out i \<longleftrightarrow> bm_uuid i \<noteq> out \<and> bm_uuid i \<notin> set (bm_compacted_from i) \<and>
     out \<notin> set (bm_compacted_from i) \<and> \<not> unsorted_windows (bm_compacted_from i)"

lemma closure_of_simps [simp]:
  "closure_of [] = {}"
  "closure_of (i # is) = insert (bm_uuid i) (set (bm_compacted_from i)) \<union> closure_of is"
  by (auto simp: closure_of_def)

lemma finite_closure_of [simp]: "finite (closure_of is)"
  by (simp add: closure_of_def)

lemma closure_loop_InrD:
  "closure_loop out direct cl is = Inr r \<Longrightarrow>
     r = cl \<union> closure_of is \<and> (\<forall>i \<in> set is. input_ok out i) \<and> distinct (map bm_uuid is)
       \<and> direct \<inter> bm_uuid ` set is = {} \<and> (is \<noteq> [] \<longrightarrow> card r \<le> MAX_COMPACTED_ANCESTORS)"
proof (induction out direct cl "is" rule: closure_loop.induct)
  case (2 out direct cl i "is")
  let ?cl = "insert (bm_uuid i) cl \<union> set (bm_compacted_from i)"
  from "2.prems" have head: "input_ok out i" "bm_uuid i \<notin> direct"
      "card ?cl \<le> MAX_COMPACTED_ANCESTORS"
    and rest: "closure_loop out (insert (bm_uuid i) direct) ?cl is = Inr r"
    by (auto simp: input_ok_def Let_def not_less split: if_splits)
  have "r = ?cl \<union> closure_of is \<and> (\<forall>j \<in> set is. input_ok out j) \<and> distinct (map bm_uuid is)
      \<and> insert (bm_uuid i) direct \<inter> bm_uuid ` set is = {}
      \<and> (is \<noteq> [] \<longrightarrow> card r \<le> MAX_COMPACTED_ANCESTORS)"
    using "2.prems" rest by (intro "2.IH") (auto simp: Let_def split: if_splits)
  with head rest show ?case by (cases "is") auto
qed simp

lemma closure_loop_Inr:
  "finite cl \<Longrightarrow> \<forall>i \<in> set is. input_ok out i \<Longrightarrow> distinct (map bm_uuid is) \<Longrightarrow>
     direct \<inter> bm_uuid ` set is = {} \<Longrightarrow> card (cl \<union> closure_of is) \<le> MAX_COMPACTED_ANCESTORS \<Longrightarrow>
     closure_loop out direct cl is = Inr (cl \<union> closure_of is)"
proof (induction out direct cl "is" rule: closure_loop.induct)
  case (2 out direct cl i "is")
  let ?cl = "insert (bm_uuid i) cl \<union> set (bm_compacted_from i)"
  have eq: "?cl \<union> closure_of is = cl \<union> closure_of (i # is)" by auto
  have "card ?cl \<le> card (cl \<union> closure_of (i # is))"
    using "2.prems"(1) by (intro card_mono) auto
  with "2.prems"(5) have c: "card ?cl \<le> MAX_COMPACTED_ANCESTORS" by simp
  with 2 have "closure_loop out (insert (bm_uuid i) direct) ?cl is = Inr (?cl \<union> closure_of is)"
    by (intro "2.IH") (auto simp: input_ok_def eq [symmetric] Un_assoc insert_commute)
  with "2.prems" c eq show ?case by (auto simp: input_ok_def Let_def)
qed simp

section \<open>Objects of a block\<close>

definition block_path ::
  "(u64 \<Rightarrow> string \<times> string \<times> string) \<Rightarrow> (uuid \<Rightarrow> string) \<Rightarrow>
     string \<Rightarrow> u64 \<Rightarrow> uuid \<Rightarrow> uuid \<Rightarrow> string \<Rightarrow> string" where
  "block_path ymd ustr signal ts_min writer_id block_uuid kind =
     (let secs = ts_min div 1000000000; (y, m, d) = ymd secs
      in signal @ ''/'' @ y @ ''/'' @ m @ ''/'' @ d @ ''/'' @ ustr writer_id @ ''/''
           @ ustr block_uuid @ ''.'' @ kind)"

definition PUT_ATTEMPTS :: nat where
  "PUT_ATTEMPTS = 3"

definition put_backoff :: "nat \<Rightarrow> nat" where
  "put_backoff retry = 250 * 4 ^ (retry - 1)"

datatype store_error = NotFound | Denied | OtherError

text \<open>
  The answer of one call: success, a denial, or another error and whether the call took
  effect anyway.
\<close>

datatype call_outcome = CallOk | CallDenied | CallFailed bool

record store =
  objects :: "string \<rightharpoonup> bytes"
  calls :: nat
  slept_ms :: nat

definition store_put ::
  "(nat \<Rightarrow> call_outcome) \<Rightarrow> string \<Rightarrow> bytes \<Rightarrow> store \<Rightarrow> (store_error + unit) \<times> store" where
  "store_put oc path body s =
     (let s1 = s\<lparr>calls := calls s + 1\<rparr>; s2 = s1\<lparr>objects := (objects s)(path \<mapsto> body)\<rparr>
      in case oc (calls s) of
           CallOk \<Rightarrow> (Inr (), s2)
         | CallDenied \<Rightarrow> (Inl Denied, s1)
         | CallFailed landed \<Rightarrow> (Inl OtherError, if landed then s2 else s1))"

definition store_delete ::
  "(nat \<Rightarrow> call_outcome) \<Rightarrow> string \<Rightarrow> store \<Rightarrow> (store_error + unit) \<times> store" where
  "store_delete oc path s =
     (let s1 = s\<lparr>calls := calls s + 1\<rparr>; s2 = s1\<lparr>objects := (objects s)(path := None)\<rparr>
      in case oc (calls s) of
           CallOk \<Rightarrow> (if objects s path = None then Inl NotFound else Inr (), s2)
         | CallDenied \<Rightarrow> (Inl Denied, s1)
         | CallFailed landed \<Rightarrow> (Inl OtherError, if landed then s2 else s1))"

function put_loop ::
  "(nat \<Rightarrow> call_outcome) \<Rightarrow> string \<Rightarrow> bytes \<Rightarrow> nat \<Rightarrow> store \<Rightarrow> (store_error + unit) \<times> store" where
  "put_loop oc path body attempt s =
     (case store_put oc path body s of
        (Inr _, s') \<Rightarrow> (Inr (), s')
      | (Inl e, s') \<Rightarrow>
          if attempt < PUT_ATTEMPTS
          then put_loop oc path body (attempt + 1)
                 (s'\<lparr>slept_ms := slept_ms s' + put_backoff attempt\<rparr>)
          else (Inl e, s'))"
  by pat_completeness auto
termination
  by (relation "measure (\<lambda>(_, _, _, attempt, _). PUT_ATTEMPTS - attempt)") auto

declare put_loop.simps [simp del]

fun put_block_objects ::
  "(nat \<Rightarrow> call_outcome) \<Rightarrow> (string \<times> bytes) list \<Rightarrow> store \<Rightarrow> (store_error + unit) \<times> store" where
  "put_block_objects oc [] s = (Inr (), s)"
| "put_block_objects oc ((path, body) # puts) s =
     (case put_loop oc path body 1 s of
        (Inl e, s') \<Rightarrow> (Inl e, s')
      | (Inr _, s') \<Rightarrow> put_block_objects oc puts s')"

definition block_kinds :: "block_meta \<Rightarrow> string list" where
  "block_kinds bm =
     [''parquet''] @ (if bm_has_postings bm then [''postings.parquet''] else [])
       @ (if bm_has_body_bloom bm then [''body.bloom''] else []) @ [''meta.json'']"

definition meta_path ::
  "(u64 \<Rightarrow> string \<times> string \<times> string) \<Rightarrow> (uuid \<Rightarrow> string) \<Rightarrow> block_meta \<Rightarrow> string \<Rightarrow> string" where
  "meta_path ymd ustr bm kind =
     block_path ymd ustr (bm_signal bm) (bm_ts_min_unix_nano bm) (bm_writer_id bm) (bm_uuid bm) kind"

fun delete_paths ::
  "(nat \<Rightarrow> call_outcome) \<Rightarrow> string list \<Rightarrow> store \<Rightarrow> (store_error + unit) \<times> store" where
  "delete_paths oc [] s = (Inr (), s)"
| "delete_paths oc (path # paths) s =
     (case store_delete oc path s of
        (Inr _, s') \<Rightarrow> delete_paths oc paths s'
      | (Inl e, s') \<Rightarrow> if e = NotFound then delete_paths oc paths s' else (Inl e, s'))"

definition delete_block_objects ::
  "(u64 \<Rightarrow> string \<times> string \<times> string) \<Rightarrow> (uuid \<Rightarrow> string) \<Rightarrow> (nat \<Rightarrow> call_outcome) \<Rightarrow>
     block_meta \<Rightarrow> store \<Rightarrow> (store_error + unit) \<times> store" where
  "delete_block_objects ymd ustr oc bm s =
     delete_paths oc (map (meta_path ymd ustr bm) (block_kinds bm)) s"

section \<open>Uploads commit last\<close>

lemma put_loop_objects:
  "put_loop oc path body n s = (r, s') \<Longrightarrow>
     objects s' = objects s \<and> isl r \<or> objects s' = (objects s)(path \<mapsto> body)"
proof (induction oc path body n s rule: put_loop.induct)
  case (1 oc path body n s)
  obtain r1 s1 where s1: "store_put oc path body s = (r1, s1)" by force
  then have put: "objects s1 = objects s \<and> isl r1 \<or> objects s1 = (objects s)(path \<mapsto> body)"
    by (auto simp: store_put_def Let_def split: call_outcome.splits if_splits)
  note unfold = "1.prems" [unfolded put_loop.simps [of oc path body n s] s1]
  show ?case
  proof (cases r1)
    case (Inr u)
    with unfold put show ?thesis by auto
  next
    case (Inl e)
    show ?thesis
    proof (cases "n < PUT_ATTEMPTS")
      case True
      with Inl unfold have
        "put_loop oc path body (n + 1) (s1\<lparr>slept_ms := slept_ms s1 + put_backoff n\<rparr>) = (r, s')"
        by simp
      from "1.IH" [OF s1 [symmetric] Inl True this] put show ?thesis by auto
    next
      case False
      with Inl unfold put show ?thesis by auto
    qed
  qed
qed

lemma put_loop_calls:
  "put_loop oc path body n s = (r, s') \<Longrightarrow> calls s' \<le> calls s + 1 + (PUT_ATTEMPTS - n)"
proof (induction oc path body n s rule: put_loop.induct)
  case (1 oc path body n s)
  obtain r1 s1 where s1: "store_put oc path body s = (r1, s1)" by force
  then have put: "calls s1 = calls s + 1"
    by (auto simp: store_put_def Let_def split: call_outcome.splits if_splits)
  note unfold = "1.prems" [unfolded put_loop.simps [of oc path body n s] s1]
  show ?case
  proof (cases "\<exists>e. r1 = Inl e \<and> n < PUT_ATTEMPTS")
    case True
    then obtain e where e: "r1 = Inl e" "n < PUT_ATTEMPTS" by blast
    with unfold have
      "put_loop oc path body (n + 1) (s1\<lparr>slept_ms := slept_ms s1 + put_backoff n\<rparr>) = (r, s')"
      by simp
    from "1.IH" [OF s1 [symmetric] e this] put e(2) show ?thesis by simp
  next
    case False
    with unfold put show ?thesis by (cases r1) auto
  qed
qed

lemma put_block_objects_append:
  "put_block_objects oc (xs @ ys) s =
     (case put_block_objects oc xs s of
        (Inl e, s') \<Rightarrow> (Inl e, s')
      | (Inr _, s') \<Rightarrow> put_block_objects oc ys s')"
  by (induction oc xs s rule: put_block_objects.induct) (auto split: sum.splits prod.splits)

lemma put_block_objects_other:
  "put_block_objects oc puts s = (r, s') \<Longrightarrow> p \<notin> fst ` set puts \<Longrightarrow> objects s' p = objects s p"
proof (induction oc puts s rule: put_block_objects.induct)
  case (2 oc path body puts s)
  obtain r1 s1 where s1: "put_loop oc path body 1 s = (r1, s1)" by force
  with put_loop_objects [OF s1] "2.prems" have "objects s1 p = objects s p" by auto
  with 2 s1 show ?case by (cases r1) auto
qed simp

lemma put_block_objects_all:
  "put_block_objects oc puts s = (Inr u, s') \<Longrightarrow> distinct (map fst puts) \<Longrightarrow>
     (p, b) \<in> set puts \<Longrightarrow> objects s' p = Some b"
proof (induction oc puts s rule: put_block_objects.induct)
  case (2 oc path body puts s)
  obtain r1 s1 where s1: "put_loop oc path body 1 s = (r1, s1)" by force
  with "2.prems"(1) obtain v where v: "r1 = Inr v" "put_block_objects oc puts s1 = (Inr u, s')"
    by (cases r1) auto
  show ?case
  proof (cases "(p, b) \<in> set puts")
    case True
    with "2.IH" [OF s1 [symmetric] v] "2.prems"(2) show ?thesis by simp
  next
    case False
    with "2.prems" have "p = path" "b = body" "path \<notin> fst ` set puts" by auto
    moreover have "objects s1 path = Some body" using put_loop_objects [OF s1] v by auto
    ultimately show ?thesis using put_block_objects_other [OF v(2)] by simp
  qed
qed simp

lemma put_block_objects_marker:
  assumes "put_block_objects oc (puts @ [(mp, mb)]) s = (r, s')"
    and "distinct (map fst (puts @ [(mp, mb)]))" and "objects s mp = None" and present: "objects s' mp \<noteq> None"
  shows "objects s' mp = Some mb \<and> (\<forall>(p, b) \<in> set puts. objects s' p = Some b)"
proof -
  obtain r1 s1 where s1: "put_block_objects oc puts s = (r1, s1)" by force
  have mp: "objects s1 mp = None"
    using put_block_objects_other [OF s1, of mp] assms(2,3) by simp
  show ?thesis
  proof (cases r1)
    case (Inl e)
    with assms(1) s1 have "s' = s1" by (simp add: put_block_objects_append)
    with mp present show ?thesis by simp
  next
    case (Inr u)
    with assms(1) s1 have one: "put_block_objects oc [(mp, mb)] s1 = (r, s')"
      by (simp add: put_block_objects_append)
    then obtain r2 where "put_loop oc mp mb 1 s1 = (r2, s')" by (auto split: prod.splits sum.splits)
    from put_loop_objects [OF this] present mp have "objects s' = (objects s1)(mp \<mapsto> mb)" by auto
    moreover have "\<forall>(p, b) \<in> set puts. objects s1 p = Some b"
      using put_block_objects_all [of oc puts s u s1] s1 Inr assms(2) by auto
    ultimately show ?thesis using assms(2) by force
  qed
qed

lemma put_block_objects_calls:
  "put_block_objects oc puts s = (r, s') \<Longrightarrow> calls s' \<le> calls s + PUT_ATTEMPTS * length puts"
proof (induction oc puts s rule: put_block_objects.induct)
  case (2 oc path body puts s)
  obtain r1 s1 where s1: "put_loop oc path body 1 s = (r1, s1)" by force
  have "calls s1 \<le> calls s + PUT_ATTEMPTS"
    using put_loop_calls [OF s1] by (simp add: PUT_ATTEMPTS_def)
  with 2 s1 show ?case by (cases r1) force+
qed simp

section \<open>Deletions take the commit marker last\<close>

lemma store_delete_objects:
  "store_delete oc path s = (r, s') \<Longrightarrow>
     objects s' = objects s \<and> r \<noteq> Inr () \<and> r \<noteq> Inl NotFound \<or>
     objects s' = (objects s)(path := None)"
  by (auto simp: store_delete_def Let_def split: call_outcome.splits if_splits)

lemma delete_paths_append:
  "delete_paths oc (xs @ ys) s =
     (case delete_paths oc xs s of
        (Inl e, s') \<Rightarrow> (Inl e, s')
      | (Inr _, s') \<Rightarrow> delete_paths oc ys s')"
  by (induction oc xs s rule: delete_paths.induct) (auto split: sum.splits prod.splits)

lemma delete_paths_step:
  assumes "delete_paths oc (path # paths) s = (r, s')"
  obtains (stop) "isl r" "objects s' = objects s \<or> objects s' = (objects s)(path := None)"
  | (go) s1 where "objects s1 = (objects s)(path := None)" "delete_paths oc paths s1 = (r, s')"
    "\<exists>r1. store_delete oc path s = (r1, s1) \<and> (r1 = Inr () \<or> r1 = Inl NotFound)"
proof -
  obtain r1 s1 where s1: "store_delete oc path s = (r1, s1)" by force
  note del = store_delete_objects [OF s1]
  show thesis
  proof (cases "r1 = Inr () \<or> r1 = Inl NotFound")
    case True
    with assms s1 have "delete_paths oc paths s1 = (r, s')" by auto
    with go del s1 True show thesis by blast
  next
    case False
    with assms s1 have "r = r1" "s' = s1" "isl r1"
      by (auto split: sum.splits if_splits)
    with stop del show thesis by blast
  qed
qed

lemma delete_paths_other:
  "delete_paths oc paths s = (r, s') \<Longrightarrow> p \<notin> set paths \<Longrightarrow> objects s' p = objects s p"
proof (induction paths arbitrary: s)
  case (Cons path paths)
  from Cons.prems(1) show ?case
    by (cases rule: delete_paths_step) (use Cons in auto)
qed simp

lemma delete_paths_less:
  "delete_paths oc paths s = (r, s') \<Longrightarrow> objects s' p = objects s p \<or> objects s' p = None"
proof (induction paths arbitrary: s)
  case (Cons path paths)
  from Cons.prems(1) show ?case
  proof (cases rule: delete_paths_step)
    case (go s1)
    with Cons.IH [OF go(2)] show ?thesis by (auto split: if_splits)
  qed (auto split: if_splits)
qed simp

lemma delete_paths_absent:
  "delete_paths oc paths s = (r, s') \<Longrightarrow> objects s p = None \<Longrightarrow> objects s' p = None"
proof (induction paths arbitrary: s)
  case (Cons path paths)
  from Cons.prems(1) show ?case
    by (cases rule: delete_paths_step) (use Cons in auto)
qed simp

lemma delete_paths_all:
  "delete_paths oc paths s = (Inr u, s') \<Longrightarrow> p \<in> set paths \<Longrightarrow> objects s' p = None"
proof (induction paths arbitrary: s)
  case (Cons path paths)
  from Cons.prems(1) show ?case
  proof (cases rule: delete_paths_step)
    case (go s1)
    with Cons.IH [OF go(2)] delete_paths_absent [OF go(2), of p] Cons.prems(2) show ?thesis by auto
  qed simp
qed simp

lemma meta_path_inject [simp]: "meta_path ymd ustr bm k = meta_path ymd ustr bm k' \<longleftrightarrow> k = k'"
  by (simp add: meta_path_def block_path_def split: prod.split)

section \<open>Properties\<close>

text \<open>C14: the ancestor closure of a compaction output. It is computed exactly when there are
  inputs, they are distinct blocks other than the output, no ancestry is non-canonical,
  mentions its own block or the output, and the whole closure fits the limit; and then it is
  the strictly sorted list of all inputs and all their ancestors, does not contain the output,
  and is accepted again when the sidecar is read back. \<open>json_len\<close> is the documented size of a
  JSON array of UUID strings.\<close>

theorem compacted_ancestor_closure_correct:
  assumes json: "\<And>xs. json_len xs = (if xs = [] then 2 else 39 * length xs + 1)"
  shows "compacted_ancestor_closure json_len out is = Inr as \<longleftrightarrow>
     is \<noteq> [] \<and> distinct (map bm_uuid is) \<and>
     (\<forall>i \<in> set is. bm_uuid i \<noteq> out \<and> bm_uuid i \<notin> set (bm_compacted_from i) \<and>
        out \<notin> set (bm_compacted_from i) \<and> sorted_wrt (<) (bm_compacted_from i)) \<and>
     sorted_wrt (<) as \<and>
     set as = (\<Union>i \<in> set is. insert (bm_uuid i) (set (bm_compacted_from i))) \<and>
     out \<notin> set as \<and> deserialize_compacted_from json_len as = Inr as"
    (is "?L \<longleftrightarrow> ?R")
proof -
  have small: "\<not> MAX_COMPACTED_ANCESTRY_BYTES < json_len xs"
    if "length xs \<le> MAX_COMPACTED_ANCESTORS" for xs
    using that by (auto simp: json MAX_COMPACTED_ANCESTRY_BYTES_def MAX_COMPACTED_ANCESTORS_def)
  show ?thesis
  proof
    assume ?L
    then obtain cl where cl: "closure_loop out {} {} is = Inr cl" and ne: "is \<noteq> []"
      and as: "as = sorted_list_of_set cl"
      by (auto simp: compacted_ancestor_closure_def Let_def split: if_splits sum.splits)
    note D = closure_loop_InrD [OF cl]
    then have "length as \<le> MAX_COMPACTED_ANCESTORS" using ne as by auto
    with D ne as small [of as] show ?R
      by (auto simp: input_ok_def unsorted_windows_iff closure_of_def
          deserialize_compacted_from_def)
  next
    assume R: ?R
    then have len: "length as \<le> MAX_COMPACTED_ANCESTORS" and set: "set as = closure_of is"
      by (auto simp: deserialize_compacted_from_def closure_of_def split: if_splits)
    have "distinct as" "sorted as" using R by (auto simp: strict_sorted_iff)
    with set len have "card (closure_of is) \<le> MAX_COMPACTED_ANCESTORS"
      and as: "sorted_list_of_set (closure_of is) = as"
      by (metis distinct_card) (metis \<open>distinct as\<close> \<open>sorted as\<close> set
          sorted_list_of_set.idem_if_sorted_distinct)
    then have "closure_loop out {} {} is = Inr ({} \<union> closure_of is)"
      using R by (intro closure_loop_Inr) (auto simp: input_ok_def unsorted_windows_iff)
    with R as small [OF len] show ?L by (simp add: compacted_ancestor_closure_def)
  qed
qed

definition sample_meta :: "uuid \<Rightarrow> uuid list \<Rightarrow> block_meta" where
  "sample_meta u cf = \<lparr>bm_uuid = u, bm_signal = ''logs'', bm_writer_id = 0,
     bm_ts_min_unix_nano = 1, bm_ts_max_unix_nano = 2, bm_row_count = 1, bm_byte_size = 1,
     bm_schema_version = 1, bm_level = 0, bm_compacted_from = cf, bm_producer_version = ''test'',
     bm_label_fingerprint_bloom = None, bm_has_postings = False, bm_postings_size_bytes = None,
     bm_series_types = None, bm_all_fingerprints = None, bm_has_body_bloom = False,
     bm_body_bloom_size_bytes = None, bm_meta_json_size_bytes = None, bm_wal_seg_max = None,
     bm_wal_shard = None\<rparr>"

theorem compacted_ancestor_closure_correct_witness:
  "compacted_ancestor_closure (\<lambda>xs. if xs = [] then 2 else 39 * length xs + 1) 9
     [sample_meta 7 [3, 5]] = Inr [3, 5, 7]"
  by (subst compacted_ancestor_closure_correct)
     (auto simp: sample_meta_def deserialize_compacted_from_def MAX_COMPACTED_ANCESTORS_def
       MAX_COMPACTED_ANCESTRY_BYTES_def)

text \<open>C17: an upload commits last. When a block's objects are new keys, then whatever the object
  store answers, also errors of calls that did take effect: if the sidecar, the last object, is
  present afterwards then every other object is present with its bytes; success means all of
  them are; no other key changes; and at most three calls per object are made.\<close>

theorem put_block_objects_commit:
  assumes "put_block_objects oc (puts @ [(mp, mb)]) s = (r, s')"
    and "distinct (map fst (puts @ [(mp, mb)]))" and "objects s mp = None"
  shows "(objects s' mp \<noteq> None \<longrightarrow> objects s' mp = Some mb \<and> (\<forall>(p, b) \<in> set puts. objects s' p = Some b)) \<and>
    (r = Inr () \<longrightarrow> (\<forall>(p, b) \<in> set (puts @ [(mp, mb)]). objects s' p = Some b)) \<and>
    (\<forall>p. p \<notin> fst ` set (puts @ [(mp, mb)]) \<longrightarrow> objects s' p = objects s p) \<and>
    calls s' \<le> calls s + 3 * (length puts + 1)"
proof -
  have all: "r = Inr () \<longrightarrow> (\<forall>(p, b) \<in> set (puts @ [(mp, mb)]). objects s' p = Some b)"
    using put_block_objects_all [of oc "puts @ [(mp, mb)]" s "()" s'] assms(1,2) by auto
  have other: "\<forall>p. p \<notin> fst ` set (puts @ [(mp, mb)]) \<longrightarrow> objects s' p = objects s p"
    using put_block_objects_other [OF assms(1)] by blast
  have calls: "calls s' \<le> calls s + 3 * (length puts + 1)"
    using put_block_objects_calls [OF assms(1)] by (simp add: PUT_ATTEMPTS_def)
  from put_block_objects_marker [OF assms] all other calls show ?thesis by blast
qed

theorem put_block_objects_commit_witness:
  "\<exists>s'. put_block_objects (\<lambda>n. if n = 0 then CallFailed True else CallOk)
      ([(''a.parquet'', [1])] @ [(''a.meta.json'', [2])])
      \<lparr>objects = Map.empty, calls = 0, slept_ms = 0\<rparr> = (Inr (), s') \<and>
      objects s' ''a.parquet'' = Some [1] \<and> calls s' \<le> 6"
proof -
  let ?oc = "\<lambda>n. if n = 0 then CallFailed True else CallOk"
  let ?s = "\<lparr>objects = Map.empty, calls = 0, slept_ms = 0\<rparr>"
  obtain r s' where run: "put_block_objects ?oc ([(''a.parquet'', [1])] @ [(''a.meta.json'', [2])]) ?s
      = (r, s')" by force
  then have "r = Inr ()"
    by (auto simp: put_loop.simps store_put_def PUT_ATTEMPTS_def split: if_splits)
  with put_block_objects_commit [OF run] run show ?thesis by auto
qed

text \<open>C20: a deletion removes the commit marker last. Whatever the object store answers, the
  sidecar is gone afterwards only if every other object of the block is gone, success means all
  are gone, deleting again succeeds once the store answers, and no object of another key
  changes.\<close>

theorem delete_block_objects_marker_last:
  assumes "delete_block_objects ymd ustr oc bm s = (r, s')"
    and "objects s (meta_path ymd ustr bm ''meta.json'') \<noteq> None"
  shows "(objects s' (meta_path ymd ustr bm ''meta.json'') = None \<longrightarrow>
       (\<forall>k \<in> set (block_kinds bm). objects s' (meta_path ymd ustr bm k) = None)) \<and>
    (r = Inr () \<longrightarrow> (\<forall>k \<in> set (block_kinds bm). objects s' (meta_path ymd ustr bm k) = None)) \<and>
    (\<forall>p. p \<notin> meta_path ymd ustr bm ` set (block_kinds bm) \<longrightarrow> objects s' p = objects s p) \<and>
    fst (delete_block_objects ymd ustr (\<lambda>_. CallOk) bm s') = Inr ()"
proof -
  let ?p = "meta_path ymd ustr bm"
  obtain ks where ks: "block_kinds bm = ks @ [''meta.json'']" "''meta.json'' \<notin> set ks"
    by (auto simp: block_kinds_def)
  note run = assms(1) [unfolded delete_block_objects_def]
  have all: "r = Inr () \<longrightarrow> (\<forall>k \<in> set (block_kinds bm). objects s' (?p k) = None)"
    using delete_paths_all [of oc "map ?p (block_kinds bm)" s "()" s'] run by auto
  have other: "\<forall>p. p \<notin> ?p ` set (block_kinds bm) \<longrightarrow> objects s' p = objects s p"
    using delete_paths_other [OF run] by simp
  have ok: "fst (delete_paths (\<lambda>_. CallOk) ps t) = Inr ()" for ps t
    by (induction ps arbitrary: t) (auto simp: store_delete_def)
  obtain r1 s1 where s1: "delete_paths oc (map ?p ks) s = (r1, s1)" by force
  have notin: "?p ''meta.json'' \<notin> set (map ?p ks)" using ks(2) by auto
  have mp: "objects s1 (?p ''meta.json'') \<noteq> None"
    using delete_paths_other [OF s1 notin] assms(2) by simp
  have "\<forall>k \<in> set (block_kinds bm). objects s' (?p k) = None"
    if gone: "objects s' (?p ''meta.json'') = None"
  proof (cases r1)
    case (Inl e)
    with run s1 ks have "s' = s1" by (simp add: delete_paths_append)
    with mp gone show ?thesis by simp
  next
    case (Inr u)
    with run s1 ks have one: "delete_paths oc [?p ''meta.json''] s1 = (r, s')"
      by (simp add: delete_paths_append)
    have "objects s' (?p k) = None" if "k \<in> set ks" for k
      using delete_paths_absent [OF one] delete_paths_all [of oc "map ?p ks" s u s1] s1 Inr that
      by simp
    with gone ks show ?thesis by auto
  qed
  with all other ok show ?thesis by (auto simp: delete_block_objects_def)
qed

theorem delete_block_objects_marker_last_witness:
  "\<exists>s'. delete_block_objects (\<lambda>_. (''2026'', ''01'', ''02'')) (\<lambda>_. ''u'') (\<lambda>_. CallOk)
       (sample_meta 3 []) \<lparr>objects = (\<lambda>_. Some [1]), calls = 0, slept_ms = 0\<rparr> = (Inr (), s') \<and>
     objects s' (meta_path (\<lambda>_. (''2026'', ''01'', ''02'')) (\<lambda>_. ''u'') (sample_meta 3 []) ''parquet'')
       = None"
proof -
  let ?y = "\<lambda>_. (''2026'', ''01'', ''02'')" and ?u = "\<lambda>_. ''u''"
  let ?s = "\<lparr>objects = (\<lambda>_. Some [1]), calls = 0, slept_ms = 0\<rparr>"
  obtain r s' where run: "delete_block_objects ?y ?u (\<lambda>_. CallOk) (sample_meta 3 []) ?s = (r, s')"
    by force
  then have "r = Inr ()"
    by (auto simp: delete_block_objects_def block_kinds_def sample_meta_def store_delete_def)
  with delete_block_objects_marker_last [OF run] run show ?thesis
    by (auto simp: block_kinds_def sample_meta_def)
qed

end
