(* ===== verification/Builder.thy ===== *)
theory Builder
  imports Wire Block
begin

text \<open>
  Block builders: the configuration and the trait of \<^verbatim>\<open>src/crates/block/src/lib.rs\<close> as a record of
  operations, the laws the ingest pipeline relies on as a locale, and the builder of
  \<^verbatim>\<open>src/crates/block/src/dummy.rs\<close> with its column buffers, which provides them. The offsets of a
  column are \<open>i32\<close> and wrap; \<open>holds\<close> says which records the buffers stand for, and below
  2^31 bytes every slot reads back its record.

  The parquet writer, the JSON writer, the calendar and the text of a UUID are arguments. A panic of
  the encoder, which the upload sees as a failed task, is the error \<open>EncodePanicked\<close>.
\<close>

section \<open>Configuration and the trait\<close>

text \<open>The target rate of false positives, an \<open>f64\<close>, is kept as its bits.\<close>

record block_builder_config =
  bc_max_rows :: u64
  bc_target_bytes :: u64
  bc_row_group_size :: nat
  bc_compression_level :: int
  bc_bloom_ngram :: nat
  bc_bloom_target_fpr :: u64
  bc_wal_seg_max :: "u64 option"
  bc_wal_shard :: "u32 option"

definition block_builder_config_default :: block_builder_config where
  "block_builder_config_default = \<lparr>bc_max_rows = 1000000, bc_target_bytes = 128 * 1024 * 1024,
     bc_row_group_size = 1024 * 1024, bc_compression_level = 3, bc_bloom_ngram = 3,
     bc_bloom_target_fpr = 0x3F847AE147AE147B, bc_wal_seg_max = None, bc_wal_shard = None\<rparr>"

datatype upload_error = EncodePanicked | EncodeFailed | PutFailed store_error

text \<open>
  The last operation consumes the builder. Its first argument is the UUID \<open>now_v7\<close> would give,
  its second what the calls of the object store answer.
\<close>

record 'b builder_ops =
  bo_signal :: string
  bo_new :: "uuid \<Rightarrow> block_builder_config \<Rightarrow> 'b"
  bo_is_empty :: "'b \<Rightarrow> bool"
  bo_should_close :: "'b \<Rightarrow> bool"
  bo_content_schema_key :: "'b \<Rightarrow> u64 option"
  bo_merge :: "'b \<Rightarrow> 'b \<Rightarrow> 'b \<times> 'b"
  bo_reset :: "'b \<Rightarrow> 'b"
  bo_set_compression_level :: "int \<Rightarrow> 'b \<Rightarrow> 'b"
  bo_set_wal_seg_max :: "u64 \<Rightarrow> 'b \<Rightarrow> 'b"
  bo_set_wal_shard :: "u32 \<Rightarrow> 'b \<Rightarrow> 'b"
  bo_set_block_uuid :: "uuid \<Rightarrow> 'b \<Rightarrow> 'b"
  bo_finish_and_upload :: "uuid \<Rightarrow> (nat \<Rightarrow> call_outcome) \<Rightarrow> 'b \<Rightarrow> store \<Rightarrow>
     (upload_error + block_meta option) \<times> store"

text \<open>
  What the pipeline needs of a builder and of the decoder of its signal: which records a builder
  holds, that every operation keeps, empties or joins them, that an open builder is small, and that a
  successful upload leaves a complete block of exactly these records in the store.
\<close>

definition weigh :: "('r \<Rightarrow> nat) \<Rightarrow> 'r list \<Rightarrow> nat" where
  "weigh bytes_of rs = sum_list (map bytes_of rs)"

lemma weigh_simps [simp]:
  "weigh bytes_of [] = 0" "weigh bytes_of (r # rs) = bytes_of r + weigh bytes_of rs" "weigh bytes_of (rs @ qs) = weigh bytes_of rs + weigh bytes_of qs"
  by (simp_all add: weigh_def)

locale block_builder =
  fixes ops :: "'b builder_ops"
    and decode :: "bytes \<Rightarrow> 'b \<Rightarrow> (bin_error + nat) \<times> 'b"
    and holds :: "block_builder_config \<Rightarrow> 'b \<Rightarrow> 'r list \<Rightarrow> bool"
    and bytes_of :: "'r \<Rightarrow> nat"
    and payload_rows :: "bytes \<Rightarrow> 'r list"
    and stored :: "store \<Rightarrow> block_meta \<Rightarrow> 'r list \<Rightarrow> bool"
  assumes new_holds: "holds c (bo_new ops w c) []"
    and is_empty_iff: "holds c b rs \<Longrightarrow> bo_is_empty ops b \<longleftrightarrow> rs = []"
    and merge_holds: "holds c a rs \<Longrightarrow> holds c b qs \<Longrightarrow> bo_merge ops a b = (a', b') \<Longrightarrow>
      holds c a' (rs @ qs) \<and> holds c b' []"
    and reset_holds: "holds c b rs \<Longrightarrow> holds c (bo_reset ops b) []"
    and set_holds: "holds c b rs \<Longrightarrow> holds c (bo_set_compression_level ops l b) rs"
      "holds c b rs \<Longrightarrow> holds c (bo_set_wal_seg_max ops seg b) rs"
      "holds c b rs \<Longrightarrow> holds c (bo_set_wal_shard ops sh b) rs"
      "holds c b rs \<Longrightarrow> holds c (bo_set_block_uuid ops u b) rs"
    and open_small: "holds c b rs \<Longrightarrow> weigh bytes_of rs < 2 ^ 31 \<Longrightarrow> \<not> bo_should_close ops b \<Longrightarrow>
      weigh bytes_of rs < unat (bc_target_bytes c)"
    and finish_stored: "holds c b rs \<Longrightarrow> weigh bytes_of rs < 2 ^ 31 \<Longrightarrow>
      bo_finish_and_upload ops u oc b s = (Inr (Some m), s') \<Longrightarrow> stored s' m rs"
    and finish_none: "holds c b rs \<Longrightarrow> bo_finish_and_upload ops u oc b s = (Inr None, s') \<Longrightarrow> rs = []"
    and decode_holds: "holds c b rs \<Longrightarrow> decode payload b = (Inr n, b') \<Longrightarrow> holds c b' (rs @ payload_rows payload)"
    and payload_small: "weigh bytes_of (payload_rows payload) \<le> 2 * length payload"

section \<open>The dummy builder\<close>

record dummy_builder =
  db_writer_id :: uuid
  db_block_uuid :: "uuid option"
  db_cfg :: block_builder_config
  db_ts :: "u64 list"
  db_key_offsets :: "32 word list"
  db_key_data :: bytes
  db_value_offsets :: "32 word list"
  db_value_data :: bytes
  db_bytes_est :: u64
  db_ts_min :: u64
  db_ts_max :: u64

definition dummy_new :: "uuid \<Rightarrow> block_builder_config \<Rightarrow> dummy_builder" where
  "dummy_new writer_id cfg = \<lparr>db_writer_id = writer_id, db_block_uuid = None, db_cfg = cfg, db_ts = [],
     db_key_offsets = [0], db_key_data = [], db_value_offsets = [0], db_value_data = [], db_bytes_est = 0,
     db_ts_min = - 1, db_ts_max = 0\<rparr>"

definition dummy_row_count :: "dummy_builder \<Rightarrow> u64" where
  "dummy_row_count b = of_nat (length (db_ts b))"

definition dummy_is_empty :: "dummy_builder \<Rightarrow> bool" where
  "dummy_is_empty b \<longleftrightarrow> db_ts b = []"

definition dummy_should_close :: "dummy_builder \<Rightarrow> bool" where
  "dummy_should_close b \<longleftrightarrow> dummy_row_count b \<ge> bc_max_rows (db_cfg b) \<or> db_bytes_est b \<ge> bc_target_bytes (db_cfg b)"

definition dummy_reset :: "dummy_builder \<Rightarrow> dummy_builder" where
  "dummy_reset b = b\<lparr>db_ts := [], db_key_data := [], db_key_offsets := [0], db_value_data := [],
     db_value_offsets := [0], db_bytes_est := 0, db_ts_min := - 1, db_ts_max := 0\<rparr>"

definition dummy_merge :: "dummy_builder \<Rightarrow> dummy_builder \<Rightarrow> dummy_builder \<times> dummy_builder" where
  "dummy_merge self other =
     (let key_base = of_nat (length (db_key_data self)); val_base = of_nat (length (db_value_data self))
      in (self\<lparr>db_ts := db_ts self @ db_ts other,
             db_key_data := db_key_data self @ db_key_data other,
             db_key_offsets := db_key_offsets self @ map (\<lambda>off. off + key_base) (tl (db_key_offsets other)),
             db_value_data := db_value_data self @ db_value_data other,
             db_value_offsets := db_value_offsets self @ map (\<lambda>off. off + val_base) (tl (db_value_offsets other)),
             db_bytes_est := db_bytes_est self + db_bytes_est other,
             db_ts_min := min (db_ts_min self) (db_ts_min other),
             db_ts_max := max (db_ts_max self) (db_ts_max other)\<rparr>,
          other\<lparr>db_ts := [], db_key_data := [], db_key_offsets := [0], db_value_data := [], db_value_offsets := [0],
             db_bytes_est := 0, db_ts_min := - 1, db_ts_max := 0\<rparr>))"

definition dummy_append_raw :: "u64 \<Rightarrow> bytes \<Rightarrow> bytes \<Rightarrow> dummy_builder \<Rightarrow> dummy_builder" where
  "dummy_append_raw ts key val b =
     (let key_data = db_key_data b @ key; value_data = db_value_data b @ val
      in b\<lparr>db_ts_min := min (db_ts_min b) ts, db_ts_max := max (db_ts_max b) ts,
           db_bytes_est := db_bytes_est b + (16 + of_nat (length key) + of_nat (length val)),
           db_ts := db_ts b @ [ts],
           db_key_data := key_data, db_key_offsets := db_key_offsets b @ [of_nat (length key_data)],
           db_value_data := value_data, db_value_offsets := db_value_offsets b @ [of_nat (length value_data)]\<rparr>)"

definition dummy_set_compression_level :: "int \<Rightarrow> dummy_builder \<Rightarrow> dummy_builder" where
  "dummy_set_compression_level level b = b\<lparr>db_cfg := (db_cfg b)\<lparr>bc_compression_level := level\<rparr>\<rparr>"

definition dummy_set_wal_seg_max :: "u64 \<Rightarrow> dummy_builder \<Rightarrow> dummy_builder" where
  "dummy_set_wal_seg_max seg b = b\<lparr>db_cfg := (db_cfg b)\<lparr>bc_wal_seg_max := Some seg\<rparr>\<rparr>"

definition dummy_set_wal_shard :: "u32 \<Rightarrow> dummy_builder \<Rightarrow> dummy_builder" where
  "dummy_set_wal_shard shard b = b\<lparr>db_cfg := (db_cfg b)\<lparr>bc_wal_shard := Some shard\<rparr>\<rparr>"

definition dummy_set_block_uuid :: "uuid \<Rightarrow> dummy_builder \<Rightarrow> dummy_builder" where
  "dummy_set_block_uuid u b = b\<lparr>db_block_uuid := Some u\<rparr>"

section \<open>Encoding and upload\<close>

record encode_env =
  en_ymd :: "u64 \<Rightarrow> string \<times> string \<times> string"
  en_ustr :: "uuid \<Rightarrow> string"
  en_parquet :: "block_builder_config \<Rightarrow> (u64 \<times> bytes \<times> bytes) list \<Rightarrow> bytes option"
  en_ser :: "block_meta \<Rightarrow> bytes option"
  en_version :: string

text \<open>\<open>as usize\<close> of an \<open>i32\<close> extends the sign; a slice outside the data panics.\<close>

definition i32_as_usize :: "32 word \<Rightarrow> nat" where
  "i32_as_usize off = unat (scast off :: 64 word)"

definition csr_slot :: "32 word list \<Rightarrow> bytes \<Rightarrow> nat \<Rightarrow> bytes option" where
  "csr_slot offsets data i =
     (if i + 1 < length offsets then
        (let start = i32_as_usize (offsets ! i); stop = i32_as_usize (offsets ! (i + 1))
         in if start \<le> stop \<and> stop \<le> length data then Some (take (stop - start) (drop start data)) else None)
      else None)"

definition dummy_meta :: "encode_env \<Rightarrow> uuid \<Rightarrow> nat \<Rightarrow> bytes \<Rightarrow> dummy_builder \<Rightarrow> block_meta" where
  "dummy_meta env block_uuid n body b =
     \<lparr>bm_uuid = block_uuid, bm_signal = ''dummy'', bm_writer_id = db_writer_id b,
      bm_ts_min_unix_nano = db_ts_min b, bm_ts_max_unix_nano = db_ts_max b, bm_row_count = of_nat n,
      bm_byte_size = of_nat (length body), bm_schema_version = 1, bm_level = 0, bm_compacted_from = [],
      bm_producer_version = en_version env, bm_label_fingerprint_bloom = None, bm_has_postings = False,
      bm_postings_size_bytes = None, bm_series_types = None, bm_all_fingerprints = None,
      bm_has_body_bloom = False, bm_body_bloom_size_bytes = None, bm_meta_json_size_bytes = None,
      bm_wal_seg_max = bc_wal_seg_max (db_cfg b), bm_wal_shard = bc_wal_shard (db_cfg b)\<rparr>"

definition dummy_columns :: "dummy_builder \<Rightarrow> (u64 \<times> bytes \<times> bytes) list option" where
  "dummy_columns b =
     (let n = length (db_ts b);
          order = sort_key (\<lambda>i. db_ts b ! i) [0..<unat (of_nat n :: u32)];
          ts_arr = map (\<lambda>i. db_ts b ! i) order
      in Option.bind (those (map (\<lambda>i. Option.bind (csr_slot (db_key_offsets b) (db_key_data b) i)
                                        (\<lambda>key. if utf8 key then Some key else None)) order))
           (\<lambda>key_arr. Option.bind (those (map (csr_slot (db_value_offsets b) (db_value_data b)) order))
           (\<lambda>val_arr. Some (zip ts_arr (zip key_arr val_arr)))))"

definition dummy_encode ::
  "encode_env \<Rightarrow> uuid \<Rightarrow> dummy_builder \<Rightarrow> upload_error + block_meta \<times> (string \<times> bytes) list" where
  "dummy_encode env now_v7 b =
     (case dummy_columns b of
        None \<Rightarrow> Inl EncodePanicked
      | Some columns \<Rightarrow>
          (case en_parquet env (db_cfg b) columns of
             None \<Rightarrow> Inl EncodeFailed
           | Some body \<Rightarrow>
               (let block_uuid = (case db_block_uuid b of Some u \<Rightarrow> u | None \<Rightarrow> now_v7);
                    path = block_path (en_ymd env) (en_ustr env) ''dummy'' (db_ts_min b) (db_writer_id b) block_uuid;
                    bm = dummy_meta env block_uuid (length (db_ts b)) body b
                in case en_ser env bm of
                     None \<Rightarrow> Inl EncodeFailed
                   | Some meta_bytes \<Rightarrow>
                       Inr (bm\<lparr>bm_meta_json_size_bytes := Some (of_nat (length meta_bytes))\<rparr>,
                            [(path ''parquet'', body), (path ''meta.json'', meta_bytes)]))))"

definition dummy_finish_and_upload ::
  "encode_env \<Rightarrow> uuid \<Rightarrow> (nat \<Rightarrow> call_outcome) \<Rightarrow> dummy_builder \<Rightarrow> store \<Rightarrow>
     (upload_error + block_meta option) \<times> store" where
  "dummy_finish_and_upload env now_v7 oc b s =
     (if dummy_is_empty b then (Inr None, s)
      else case dummy_encode env now_v7 b of
        Inl e \<Rightarrow> (Inl e, s)
      | Inr (bm, puts) \<Rightarrow>
          (case put_block_objects oc puts s of
             (Inl e, s') \<Rightarrow> (Inl (PutFailed e), s')
           | (Inr _, s') \<Rightarrow> (Inr (Some bm), s')))"

definition dummy_ops :: "encode_env \<Rightarrow> dummy_builder builder_ops" where
  "dummy_ops env = \<lparr>bo_signal = ''dummy'', bo_new = dummy_new, bo_is_empty = dummy_is_empty,
     bo_should_close = dummy_should_close, bo_content_schema_key = (\<lambda>_. None), bo_merge = dummy_merge,
     bo_reset = dummy_reset, bo_set_compression_level = dummy_set_compression_level,
     bo_set_wal_seg_max = dummy_set_wal_seg_max, bo_set_wal_shard = dummy_set_wal_shard,
     bo_set_block_uuid = dummy_set_block_uuid, bo_finish_and_upload = dummy_finish_and_upload env\<rparr>"

section \<open>Which records the buffers stand for\<close>

definition offsets_of :: "bytes list \<Rightarrow> 32 word list" where
  "offsets_of ks = map (\<lambda>j. of_nat (length (concat (take j ks)))) [0..<length ks + 1]"

definition dummy_holds :: "block_builder_config \<Rightarrow> dummy_builder \<Rightarrow> dummy_record list \<Rightarrow> bool" where
  "dummy_holds c b rs \<longleftrightarrow> db_ts b = map dr_ts_unix_nano rs \<and>
     db_key_data b = concat (map dr_key rs) \<and> db_key_offsets b = offsets_of (map dr_key rs) \<and>
     db_value_data b = concat (map dr_value rs) \<and> db_value_offsets b = offsets_of (map dr_value rs) \<and>
     db_bytes_est b = of_nat (weigh record_bytes rs) \<and>
     db_ts_min b = foldr (min \<circ> dr_ts_unix_nano) rs (- 1) \<and> db_ts_max b = foldr (max \<circ> dr_ts_unix_nano) rs 0 \<and>
     bc_target_bytes (db_cfg b) = bc_target_bytes c \<and> bc_max_rows (db_cfg b) = bc_max_rows c"

lemma length_offsets [simp]: "length (offsets_of ks) = Suc (length ks)"
  by (simp add: offsets_of_def)

lemma offsets_Nil [simp]: "offsets_of [] = [0]"
  by (simp add: offsets_of_def)

lemma nth_offsets: "j \<le> length ks \<Longrightarrow> offsets_of ks ! j = of_nat (length (concat (take j ks)))"
  by (simp add: offsets_of_def del: upt_Suc)

lemma offsets_append:
  "offsets_of (ks @ ls) = offsets_of ks @ map (\<lambda>off. off + of_nat (length (concat ks))) (tl (offsets_of ls))"
proof (rule nth_equalityI, goal_cases)
  case (2 j)
  show ?case
  proof (cases "j \<le> length ks")
    case False
    then obtain i where i: "j = Suc (length ks + i)" using less_imp_Suc_add not_le by blast
    with 2 have "tl (offsets_of ls) ! i = of_nat (length (concat (take (Suc i) ls)))"
      by (simp add: nth_tl nth_offsets)
    with i 2 show ?thesis by (simp add: nth_offsets nth_append)
  qed (use 2 in \<open>simp add: nth_offsets nth_append\<close>)
qed simp

lemma offsets_snoc: "offsets_of (ks @ [k]) = offsets_of ks @ [of_nat (length (concat ks) + length k)]"
proof -
  have "offsets_of [k] = [0, of_nat (length k)]" by (simp add: offsets_of_def)
  then show ?thesis by (simp add: offsets_append add.commute)
qed

lemma min_top [simp]: "min x (- 1) = (x :: 'a :: len word)" "min (- 1) x = x"
  by (simp_all add: min_def order.antisym)

lemma fold_min_from: "foldr (min \<circ> f) rs z = min z (foldr (min \<circ> f) rs (- 1 :: 'a :: len word))"
  by (induction rs) (simp_all add: min.left_commute)

lemma fold_max_from: "foldr (max \<circ> f) rs z = max z (foldr (max \<circ> f) rs (0 :: 'a :: len word))"
  by (induction rs) (simp_all add: max.left_commute)

lemma fold_min_append:
  "foldr (min \<circ> f) (rs @ qs) (- 1 :: 'a :: len word) = min (foldr (min \<circ> f) rs (- 1)) (foldr (min \<circ> f) qs (- 1))"
  by (subst foldr_append, subst fold_min_from) (simp add: min.commute)

lemma fold_max_append:
  "foldr (max \<circ> f) (rs @ qs) (0 :: 'a :: len word) = max (foldr (max \<circ> f) rs 0) (foldr (max \<circ> f) qs 0)"
  by (subst foldr_append, subst fold_max_from) (simp add: max.commute)

lemma dummy_new_holds: "dummy_holds c (dummy_new w c) []"
  by (simp add: dummy_holds_def dummy_new_def)

lemma dummy_append_holds:
  assumes "dummy_holds c b rs"
  shows "dummy_holds c (dummy_append_raw ts k v b) (collect_raw ts k v rs)"
proof -
  let ?r = "\<lparr>dr_ts_unix_nano = ts, dr_key = k, dr_value = v\<rparr>"
  have "foldr (min \<circ> dr_ts_unix_nano) (rs @ [?r]) (- 1) = min (foldr (min \<circ> dr_ts_unix_nano) rs (- 1)) ts"
    "foldr (max \<circ> dr_ts_unix_nano) (rs @ [?r]) 0 = max (foldr (max \<circ> dr_ts_unix_nano) rs 0) ts"
    by (simp_all only: fold_min_append fold_max_append) simp_all
  with assms show ?thesis
    by (simp add: dummy_holds_def dummy_append_raw_def collect_raw_def Let_def offsets_snoc record_bytes_def del: foldr_append)
qed

lemma dummy_merge_holds:
  assumes a: "dummy_holds c a rs" and b: "dummy_holds c b qs" and "dummy_merge a b = (a', b')"
  shows "dummy_holds c a' (rs @ qs) \<and> dummy_holds c b' []"
proof -
  have "a' = fst (dummy_merge a b)" "b' = snd (dummy_merge a b)" using assms(3) by simp_all
  then show ?thesis using a b
    by (simp add: dummy_holds_def dummy_merge_def Let_def offsets_append fold_min_append fold_max_append del: foldr_append)
qed

lemma dummy_decode_holds:
  assumes "dummy_holds c b rs" "decode_dummy_batch_into dummy_append_raw payload b = (r, b')"
  shows "dummy_holds c b' (rs @ batch_records payload)"
proof -
  have step: "decode_dummy_records_into dummy_append_raw n bs off b = (q, b') \<Longrightarrow> dummy_holds c b rs \<Longrightarrow>
      dummy_holds c b' (snd (decode_dummy_records_into collect_raw n bs off rs))" for n bs off b q b' rs
    by (induction n arbitrary: off b rs) (auto split: sum.splits prod.splits intro: dummy_append_holds)
  show ?thesis
  proof (cases "read_u32_be payload 0")
    case (Inr x)
    obtain count off where x: "x = (count, off)" by force
    from assms(2) obtain q where "decode_dummy_records_into dummy_append_raw (unat count) payload off b = (q, b')"
      by (auto simp: decode_dummy_batch_into_def Inr x split: sum.splits prod.splits)
    from step [OF this assms(1)] show ?thesis
      by (subst (asm) collect_accumulates)
         (auto simp: batch_records_def decode_dummy_batch_into_def Inr x split: sum.splits prod.splits)
  qed (use assms in \<open>auto simp: batch_records_def decode_dummy_batch_into_def\<close>)
qed

section \<open>Slots read back\<close>

lemma i32_as_usize_of_nat: "n < 2 ^ 31 \<Longrightarrow> i32_as_usize (of_nat n) = n"
proof -
  assume n: "n < 2 ^ 31"
  then have "signed_take_bit 31 (int n) = int n" by (intro signed_take_bit_int_eq_self) auto
  then have "sint (of_nat n :: 32 word) = int n" by (simp add: signed_of_nat)
  then have "(scast (of_nat n :: 32 word) :: 64 word) = of_nat n" by (simp add: signed_of_nat)
  with n show ?thesis by (simp add: i32_as_usize_def unat_of_nat)
qed

lemma csr_slot_read:
  assumes "length (concat ks) < 2 ^ 31" "i < length ks"
  shows "csr_slot (offsets_of ks) (concat ks) i = Some (ks ! i)"
proof -
  let ?n = "\<lambda>j. length (concat (take j ks))"
  have split: "concat ks = concat (take i ks) @ ks ! i @ concat (drop (Suc i) ks)"
    using id_take_nth_drop [OF assms(2)] by (metis concat.simps(2) concat_append)
  have suc: "concat (take (Suc i) ks) = concat (take i ks) @ ks ! i"
    using assms(2) by (simp add: take_Suc_conv_app_nth)
  have "length (concat (take i ks)) + length (ks ! i) + length (concat (drop (Suc i) ks)) < 2 ^ 31"
    using assms(1) unfolding split by simp
  then have n: "i32_as_usize (offsets_of ks ! i) = ?n i" "i32_as_usize (offsets_of ks ! Suc i) = ?n i + length (ks ! i)"
    using assms(2) suc by (simp_all add: nth_offsets i32_as_usize_of_nat del: of_nat_add)
  have "take (length (ks ! i)) (drop (?n i) (concat ks)) = ks ! i" "?n i + length (ks ! i) \<le> length (concat ks)"
    unfolding split by simp_all
  then show ?thesis using assms(2) by (simp add: csr_slot_def Let_def n)
qed

definition dummy_row :: "dummy_record \<Rightarrow> u64 \<times> bytes \<times> bytes" where
  "dummy_row r = (dr_ts_unix_nano r, dr_key r, dr_value r)"

lemma weigh_record_bytes:
  "weigh record_bytes rs = 16 * length rs + length (concat (map dr_key rs)) + length (concat (map dr_value rs))"
  by (induction rs) (auto simp: record_bytes_def)

lemma those_Some [simp]: "those (map (\<lambda>x. Some (f x)) xs) = Some (map f xs)"
  by (induction xs) simp_all

lemma those_None: "x \<in> set xs \<Longrightarrow> f x = None \<Longrightarrow> those (map f xs) = None"
  by (induction xs) (auto split: option.splits)

lemma sort_key_map: "sort_key k (map f xs) = map f (sort_key (k \<circ> f) xs)"
proof -
  have "insort_key k (f x) (map f xs) = map f (insort_key (k \<circ> f) x xs)" for x xs by (induction xs) auto
  then show ?thesis by (induction xs) simp_all
qed

lemma sort_key_cong: "(\<And>x. x \<in> set xs \<Longrightarrow> f x = g x) \<Longrightarrow> sort_key f xs = sort_key g xs"
proof (induction xs)
  case (Cons x xs)
  have "insort_key f x ys = insort_key g x ys" if "set ys \<subseteq> set (x # xs)" for ys
    using that Cons.prems by (induction ys) auto
  from this [of "sort_key g xs"] Cons show ?case by auto
qed simp

text \<open>The columns handed to parquet: the records in order of time, or a panic when a key is not text.\<close>

lemma dummy_columns_holds:
  assumes "dummy_holds c b rs" "weigh record_bytes rs < 2 ^ 31"
  shows "dummy_columns b =
    (if \<forall>r \<in> set rs. utf8 (dr_key r) then Some (map dummy_row (sort_key dr_ts_unix_nano rs)) else None)"
proof -
  let ?n = "length rs" and ?order = "sort_key (\<lambda>i. db_ts b ! i) [0..<length rs]"
  have b: "db_ts b = map dr_ts_unix_nano rs" "db_key_data b = concat (map dr_key rs)"
    "db_key_offsets b = offsets_of (map dr_key rs)" "db_value_data b = concat (map dr_value rs)"
    "db_value_offsets b = offsets_of (map dr_value rs)" using assms(1) by (simp_all add: dummy_holds_def)
  have small: "?n < 2 ^ 32" "length (concat (map dr_key rs)) < 2 ^ 31" "length (concat (map dr_value rs)) < 2 ^ 31"
    using assms(2) by (simp_all add: weigh_record_bytes)
  have n: "unat (of_nat (length (db_ts b)) :: u32) = ?n" using small(1) by (simp add: b unat_of_nat)
  have key: "csr_slot (db_key_offsets b) (db_key_data b) i = Some (dr_key (rs ! i))" if "i < ?n" for i
    using csr_slot_read [of "map dr_key rs" i] small that by (simp add: b)
  have val: "csr_slot (db_value_offsets b) (db_value_data b) i = Some (dr_value (rs ! i))" if "i < ?n" for i
    using csr_slot_read [of "map dr_value rs" i] small that by (simp add: b)
  have vals: "those (map (csr_slot (db_value_offsets b) (db_value_data b)) ?order) = Some (map (\<lambda>i. dr_value (rs ! i)) ?order)"
    using val by (subst map_cong [OF refl, of _ _ "\<lambda>i. Some (dr_value (rs ! i))"]) auto
  let ?k = "\<lambda>i. Option.bind (csr_slot (db_key_offsets b) (db_key_data b) i) (\<lambda>key. if utf8 key then Some key else None)"
  have keys: "those (map ?k ?order) = (if \<forall>r \<in> set rs. utf8 (dr_key r) then Some (map (\<lambda>i. dr_key (rs ! i)) ?order) else None)"
  proof (cases "\<forall>r \<in> set rs. utf8 (dr_key r)")
    case True
    then have eq: "map ?k ?order = map (\<lambda>i. Some (dr_key (rs ! i))) ?order" by (intro map_cong) (auto simp: key)
    show ?thesis unfolding eq using True by simp
  next
    case False
    then obtain i where "i < ?n" "\<not> utf8 (dr_key (rs ! i))" by (auto simp: in_set_conv_nth)
    with key have "?k i = None" "i \<in> set ?order" by auto
    with False show ?thesis by (simp add: those_None)
  qed
  have "sort_key dr_ts_unix_nano (map ((!) rs) [0..<?n]) = map ((!) rs) (sort_key (dr_ts_unix_nano \<circ> (!) rs) [0..<?n])"
    by (rule sort_key_map)
  moreover have "sort_key (dr_ts_unix_nano \<circ> (!) rs) [0..<?n] = ?order"
    by (rule sort_key_cong) (auto simp: b)
  ultimately have sorted: "sort_key dr_ts_unix_nano rs = map ((!) rs) ?order" by (simp add: map_nth)
  have "zip (map (\<lambda>i. db_ts b ! i) ?order) (zip (map (\<lambda>i. dr_key (rs ! i)) ?order) (map (\<lambda>i. dr_value (rs ! i)) ?order)) =
      map dummy_row (sort_key dr_ts_unix_nano rs)"
    unfolding sorted by (auto simp: zip_map1 zip_map2 zip_same_conv_map dummy_row_def b)
  then show ?thesis by (simp add: dummy_columns_def Let_def n keys vals)
qed

text \<open>
  A block in the store: the main object is what the parquet writer makes of these records in order of
  time, all with keys that are text, and the sidecar, which is present too, has their number and their
  first and last time.
\<close>

definition dummy_stored :: "encode_env \<Rightarrow> store \<Rightarrow> block_meta \<Rightarrow> dummy_record list \<Rightarrow> bool" where
  "dummy_stored env s m rs \<longleftrightarrow>
     (\<exists>cfg body mb. en_parquet env cfg (map dummy_row (sort_key dr_ts_unix_nano rs)) = Some body \<and>
        objects s (meta_path (en_ymd env) (en_ustr env) m ''parquet'') = Some body \<and>
        en_ser env (m\<lparr>bm_meta_json_size_bytes := None\<rparr>) = Some mb \<and>
        objects s (meta_path (en_ymd env) (en_ustr env) m ''meta.json'') = Some mb) \<and>
     (\<forall>r \<in> set rs. utf8 (dr_key r)) \<and>
     bm_row_count m = of_nat (length rs) \<and> bm_ts_min_unix_nano m = foldr (min \<circ> dr_ts_unix_nano) rs (- 1) \<and>
     bm_ts_max_unix_nano m = foldr (max \<circ> dr_ts_unix_nano) rs 0"

lemma dummy_finish_stored:
  assumes "dummy_holds c b rs" "weigh record_bytes rs < 2 ^ 31"
    and "dummy_finish_and_upload env u oc b s = (Inr (Some m), s')"
  shows "dummy_stored env s' m rs"
proof -
  let ?u = "case db_block_uuid b of Some u \<Rightarrow> u | None \<Rightarrow> u"
  let ?path = "block_path (en_ymd env) (en_ustr env) ''dummy'' (db_ts_min b) (db_writer_id b) ?u"
  have cols: "dummy_columns b = Some (map dummy_row (sort_key dr_ts_unix_nano rs))" and valid: "\<forall>r \<in> set rs. utf8 (dr_key r)"
    using assms(3) dummy_columns_holds [OF assms(1,2)]
    by (auto simp: dummy_finish_and_upload_def dummy_encode_def split: if_splits)
  obtain body mb where body: "en_parquet env (db_cfg b) (map dummy_row (sort_key dr_ts_unix_nano rs)) = Some body"
      "en_ser env (dummy_meta env ?u (length (db_ts b)) body b) = Some mb"
      "m = (dummy_meta env ?u (length (db_ts b)) body b)\<lparr>bm_meta_json_size_bytes := Some (of_nat (length mb))\<rparr>"
      "put_block_objects oc [(?path ''parquet'', body), (?path ''meta.json'', mb)] s = (Inr (), s')"
    using assms(3) by (auto simp: dummy_finish_and_upload_def dummy_encode_def cols Let_def split: if_splits option.splits sum.splits prod.splits)
  have "?path ''parquet'' \<noteq> ?path ''meta.json''" by (simp add: block_path_def Let_def split: prod.splits)
  with put_block_objects_all [OF body(4)] have "objects s' (?path ''parquet'') = Some body" "objects s' (?path ''meta.json'') = Some mb"
    by auto
  moreover have "m\<lparr>bm_meta_json_size_bytes := None\<rparr> = dummy_meta env ?u (length (db_ts b)) body b"
    by (simp add: body(3) dummy_meta_def)
  moreover have "meta_path (en_ymd env) (en_ustr env) m = ?path" by (auto simp: body(3) dummy_meta_def meta_path_def)
  moreover have "bm_row_count m = of_nat (length rs)" "bm_ts_min_unix_nano m = foldr (min \<circ> dr_ts_unix_nano) rs (- 1)"
    "bm_ts_max_unix_nano m = foldr (max \<circ> dr_ts_unix_nano) rs 0"
    using assms(1) by (simp_all add: body(3) dummy_meta_def dummy_holds_def)
  ultimately show ?thesis using body(1,2) valid unfolding dummy_stored_def by metis
qed

interpretation dummy: block_builder "dummy_ops env" "decode_dummy_batch_into dummy_append_raw" dummy_holds record_bytes
    batch_records "dummy_stored env" for env
proof (unfold_locales, goal_cases)
  case (1 c w)
  show ?case by (simp add: dummy_ops_def dummy_new_holds)
next
  case (2 c b rs)
  then show ?case by (simp add: dummy_ops_def dummy_is_empty_def dummy_holds_def)
next
  case (3 c a rs b qs a' b')
  then show ?case by (simp add: dummy_ops_def dummy_merge_holds)
next
  case (9 c b rs)
  then show ?case
    by (auto simp: dummy_ops_def dummy_should_close_def dummy_holds_def not_le word_less_nat_alt unat_of_nat)
next
  case (10 c b rs u oc s m s')
  then show ?case by (simp add: dummy_ops_def dummy_finish_stored)
next
  case (11 c b rs u oc s s')
  then show ?case
    by (auto simp: dummy_ops_def dummy_finish_and_upload_def dummy_is_empty_def dummy_holds_def split: if_splits sum.splits prod.splits)
next
  case (12 c b rs payload n b')
  then show ?case by (simp add: dummy_decode_holds)
next
  case (13 payload)
  show ?case using batch_records_size by (simp add: weigh_def)
qed (auto simp: dummy_ops_def dummy_holds_def dummy_reset_def dummy_set_compression_level_def dummy_set_wal_seg_max_def
    dummy_set_wal_shard_def dummy_set_block_uuid_def)

text \<open>A record whose key is not text is taken in, and then no upload of its builder can succeed.\<close>

lemma dummy_finish_panics:
  assumes "dummy_holds c b rs" "weigh record_bytes rs < 2 ^ 31" "r \<in> set rs" "\<not> utf8 (dr_key r)"
  shows "dummy_finish_and_upload env u oc b s = (Inl EncodePanicked, s)"
proof -
  have "\<not> dummy_is_empty b" using assms by (auto simp: dummy_is_empty_def dummy_holds_def)
  moreover have "dummy_columns b = None" using dummy_columns_holds [OF assms(1,2)] assms(3,4) by auto
  ultimately show ?thesis by (simp add: dummy_finish_and_upload_def dummy_encode_def)
qed

section \<open>Decoding beside the lock\<close>

lemma dummy_builder_determined:
  assumes "dummy_holds c a rs" "dummy_holds c b rs" "db_writer_id a = db_writer_id b" "db_block_uuid a = db_block_uuid b" "db_cfg a = db_cfg b"
  shows "a = b"
  using assms by (simp add: dummy_holds_def)

lemma dummy_decode_keeps:
  assumes "decode_dummy_batch_into dummy_append_raw payload b = (r, b')"
  shows "db_writer_id b' = db_writer_id b" "db_block_uuid b' = db_block_uuid b" "db_cfg b' = db_cfg b"
proof -
  have "decode_dummy_records_into dummy_append_raw n bs off b = (q, b') \<Longrightarrow>
      db_writer_id b' = db_writer_id b \<and> db_block_uuid b' = db_block_uuid b \<and> db_cfg b' = db_cfg b" for n bs off b q b'
    by (induction n arbitrary: off b) (fastforce simp: dummy_append_raw_def Let_def split: sum.splits prod.splits)+
  with assms show "db_writer_id b' = db_writer_id b" "db_block_uuid b' = db_block_uuid b" "db_cfg b' = db_cfg b"
    by (fastforce simp: decode_dummy_batch_into_def split: sum.splits prod.splits)+
qed

lemma decode_result: "fst (decode_dummy_batch_into f payload a) = fst (decode_dummy_batch_into g payload b)"
proof -
  have eq: "fst (decode_dummy_records_into f k bs off a) = fst (decode_dummy_records_into g k bs off b)" for k bs off a b
    by (induction k arbitrary: off a b) (auto split: sum.splits prod.splits)
  show ?thesis
  proof (cases "read_u32_be payload 0")
    case (Inr x)
    with eq [of "unat (fst x)" payload "snd x" a b] show ?thesis
      by (auto simp: decode_dummy_batch_into_def split: sum.splits prod.splits)
  qed (simp add: decode_dummy_batch_into_def)
qed

text \<open>C25: decoding beside the lock changes nothing. Decoding a batch into a private scratch builder and
  merging that into the shared one leaves the shared builder in every field as if the batch had been
  decoded straight into it, whatever it held before and also where the 32-bit offsets wrap, and leaves
  the scratch builder as a new one.\<close>

theorem dummy_merge_is_direct_decode:
  assumes "dummy_holds (db_cfg b) b rs"
    and "decode_dummy_batch_into dummy_append_raw payload (dummy_new w (db_cfg b)) = (Inr n, scratch)"
    and "dummy_merge b scratch = (merged, emptied)"
  shows "decode_dummy_batch_into dummy_append_raw payload b = (Inr n, merged) \<and> emptied = dummy_new w (db_cfg b)"
proof -
  let ?c = "db_cfg b"
  obtain r direct where direct: "decode_dummy_batch_into dummy_append_raw payload b = (r, direct)" by force
  have scratch: "dummy_holds ?c scratch (batch_records payload)"
    using dummy_decode_holds [OF dummy_new_holds assms(2)] by simp
  note m = dummy_merge_holds [OF assms(1) scratch assms(3)]
  have "db_writer_id merged = db_writer_id b" "db_block_uuid merged = db_block_uuid b" "db_cfg merged = ?c"
    using assms(3) by (auto simp: dummy_merge_def Let_def)
  with dummy_builder_determined [OF dummy_decode_holds [OF assms(1) direct]] m dummy_decode_keeps [OF direct]
  have "direct = merged" by auto
  have "db_writer_id emptied = w" "db_block_uuid emptied = None" "db_cfg emptied = ?c"
    using assms(3) dummy_decode_keeps [OF assms(2)] by (auto simp: dummy_merge_def dummy_new_def Let_def)
  with m dummy_builder_determined [OF _ dummy_new_holds] have "emptied = dummy_new w ?c" by (auto simp: dummy_new_def)
  have "r = Inr n" using decode_result [of dummy_append_raw payload b dummy_append_raw "dummy_new w ?c"] assms(2) direct by simp
  with direct \<open>direct = merged\<close> \<open>emptied = dummy_new w ?c\<close> show ?thesis by simp
qed

definition one_record_batch :: bytes where
  "one_record_batch = [0, 0, 0, 1, 0, 0, 0, 0, 0, 0, 0, 9, 0, 1, 0x61, 0, 0, 0, 2, 7, 0]"

lemmas batch_eval = one_record_batch_def decode_dummy_batch_into_def read_u32_be_def read_u64_be_def read_u16_be_def
  read_raw_record_def seek_def from_be_bytes_def be_value_def Let_def

theorem dummy_merge_is_direct_decode_witness:
  "\<exists>merged scratch. decode_dummy_batch_into dummy_append_raw one_record_batch (dummy_new 8 block_builder_config_default) = (Inr 1, scratch) \<and>
     dummy_merge (dummy_new 7 block_builder_config_default) scratch = (merged, dummy_new 8 block_builder_config_default) \<and>
     decode_dummy_batch_into dummy_append_raw one_record_batch (dummy_new 7 block_builder_config_default) = (Inr 1, merged)"
proof -
  let ?b = "dummy_new 7 block_builder_config_default" and ?w = "dummy_new 8 block_builder_config_default"
  have cfg: "db_cfg ?b = block_builder_config_default" by (simp add: dummy_new_def)
  obtain scratch where "decode_dummy_batch_into dummy_append_raw one_record_batch ?w = (Inr 1, scratch)"
    by (simp add: batch_eval)
  moreover obtain merged emptied where "dummy_merge ?b scratch = (merged, emptied)" by force
  ultimately show ?thesis
    using dummy_merge_is_direct_decode [of ?b "[]" one_record_batch 8 1 scratch merged emptied] dummy_new_holds
    unfolding cfg by blast
qed

end
