(* ===== verification/Wal.thy ===== *)
theory Wal
  imports Scry_Prelude "HOL-Library.AList"
begin

text \<open>
  The per-writer, per-signal write-ahead log of \<^verbatim>\<open>src/crates/wal/src/lib.rs\<close>.

  The signal directory is a listing of file names and contents in the order
  \<open>read_dir\<close> happens to give. The active segment is written through a buffered
  writer: \<open>current\<close> is every byte written to it, and how many of them the operating
  system has at a crash is not determined (\<open>crash\<close>). The CRC function of
  \<^verbatim>\<open>crc32fast\<close> is a parameter \<open>crc\<close>. Failing reads, writes and fsyncs are not
  modelled; \<open>create_new\<close> on an existing name, a missing file at replay and every
  check of the code itself are.
\<close>

section \<open>Constants, errors and state\<close>

definition FRAME_HEADER_SIZE :: nat where
  "FRAME_HEADER_SIZE = 8"

definition DEFAULT_MAX_SEGMENT_BYTES :: u64 where
  "DEFAULT_MAX_SEGMENT_BYTES = 256 * 1024 * 1024"

definition MAX_REPLAY_FRAME_BYTES :: u32 where
  "MAX_REPLAY_FRAME_BYTES = 32 * 1024 * 1024"

datatype wal_error =
    PayloadExceedsReplayLimit
  | PayloadExceedsU32
  | SegmentExists string
  | ReleaseOfActive u64 u64
  | ReplayOpenFailed u64
  | OversizedFrame u64 u32

type_synonym dir = "(string \<times> bytes) list"

record wal =
  files :: dir
  current_seq :: u64
  current :: bytes
  current_bytes :: u64
  max_segment_bytes :: u64

section \<open>Frame headers and segment names\<close>

definition encode_header :: "u32 \<Rightarrow> u32 \<Rightarrow> bytes" where
  "encode_header len crc = to_be_bytes len @ to_be_bytes crc"

definition decode_header :: "bytes \<Rightarrow> u32 \<times> u32" where
  "decode_header hdr = (from_be_bytes (take 4 hdr), from_be_bytes (take 4 (drop 4 hdr)))"

definition segment_path :: "u64 \<Rightarrow> string" where
  "segment_path seq = ''wal-'' @ zero_pad 20 (dec (unat seq)) @ ''.log''"

definition parse_segment_filename :: "string \<Rightarrow> u64 option" where
  "parse_segment_filename s =
     Option.bind (strip_prefix ''wal-'' s) (\<lambda>r. Option.bind (strip_suffix ''.log'' r) parse_u64)"

section \<open>Opening, appending, rotating\<close>

text \<open>The sequence numbers that the names of a directory parse to, in listing order.\<close>

definition dir_seqs :: "dir \<Rightarrow> u64 list" where
  "dir_seqs d = List.map_filter (\<lambda>(name, _). parse_segment_filename name) d"

fun max_seq :: "u64 option \<Rightarrow> u64 list \<Rightarrow> u64 option" where
  "max_seq m [] = m"
| "max_seq m (s # ss) = max_seq (Some (case m of None \<Rightarrow> s | Some m' \<Rightarrow> max m' s)) ss"

definition create_new :: "string \<Rightarrow> dir \<Rightarrow> wal_error + dir" where
  "create_new name d =
     (if name \<in> fst ` set d then Inl (SegmentExists name) else Inr (d @ [(name, [])]))"

definition wal_open :: "u64 \<Rightarrow> dir \<Rightarrow> wal_error + wal" where
  "wal_open max_bytes d =
     (let next_seq = (case max_seq None (dir_seqs d) of None \<Rightarrow> 0 | Some m \<Rightarrow> m + 1)
      in case create_new (segment_path next_seq) d of
           Inl e \<Rightarrow> Inl e
         | Inr d' \<Rightarrow> Inr \<lparr>files = d', current_seq = next_seq, current = [], current_bytes = 0,
                         max_segment_bytes = max_bytes\<rparr>)"

text \<open>
  Rotation flushes the writer, creates the next segment and only then swaps. When the
  next name is taken the flush has happened and everything else is unchanged.
\<close>

definition flush :: "wal \<Rightarrow> wal" where
  "flush w = w\<lparr>files := AList.update (segment_path (current_seq w)) (current w) (files w)\<rparr>"

definition wal_rotate :: "wal \<Rightarrow> (wal_error + u64) \<times> wal" where
  "wal_rotate w =
     (let w1 = flush w; sealed_seq = current_seq w; next_seq = sealed_seq + 1
      in case create_new (segment_path next_seq) (files w1) of
           Inl e \<Rightarrow> (Inl e, w1)
         | Inr d \<Rightarrow> (Inr sealed_seq,
             w1\<lparr>files := d, current_seq := next_seq, current := [], current_bytes := 0\<rparr>))"

definition wal_append :: "(bytes \<Rightarrow> u32) \<Rightarrow> wal \<Rightarrow> bytes \<Rightarrow> (wal_error + unit) \<times> wal" where
  "wal_append crc w payload =
     (if length payload > unat MAX_REPLAY_FRAME_BYTES then (Inl PayloadExceedsReplayLimit, w)
      else if length payload \<ge> 2 ^ 32 then (Inl PayloadExceedsU32, w)
      else
        (let header = encode_header (of_nat (length payload)) (crc payload);
             w1 = w\<lparr>current := current w @ header @ payload,
                    current_bytes := current_bytes w + of_nat (FRAME_HEADER_SIZE)
                                       + of_nat (length payload)\<rparr>
         in if current_bytes w1 \<ge> max_segment_bytes w1
            then (case wal_rotate w1 of
                    (Inl e, w2) \<Rightarrow> (Inl e, w2)
                  | (Inr _, w2) \<Rightarrow> (Inr (), w2))
            else (Inr (), w1)))"

section \<open>Releasing uploaded segments\<close>

definition prepare_release :: "wal \<Rightarrow> u64 \<Rightarrow> wal_error + unit" where
  "prepare_release w up_to =
     (if up_to \<ge> current_seq w then Inl (ReleaseOfActive up_to (current_seq w)) else Inr ())"

definition releasable :: "u64 \<Rightarrow> u64 \<Rightarrow> string \<Rightarrow> bool" where
  "releasable lo hi name =
     (case parse_segment_filename name of None \<Rightarrow> False | Some seq \<Rightarrow> seq \<ge> lo \<and> seq \<le> hi)"

definition release_segments :: "u64 \<Rightarrow> u64 \<Rightarrow> dir \<Rightarrow> dir" where
  "release_segments lo hi d = filter (\<lambda>(name, _). \<not> releasable lo hi name) d"

definition mark_uploaded :: "wal \<Rightarrow> u64 \<Rightarrow> u64 \<Rightarrow> (wal_error + unit) \<times> wal" where
  "mark_uploaded w lo hi =
     (case prepare_release w hi of
        Inl e \<Rightarrow> (Inl e, w)
      | Inr _ \<Rightarrow> (Inr (), w\<lparr>files := release_segments lo hi (files w)\<rparr>))"

section \<open>Replay\<close>

record replay_iter =
  ri_dir :: dir
  ri_seqs :: "u64 list"
  ri_file :: "bytes option"
  ri_seq :: u64

definition wal_replay :: "wal \<Rightarrow> replay_iter" where
  "wal_replay w = \<lparr>ri_dir = files w,
     ri_seqs = sort (filter (\<lambda>s. s < current_seq w) (dir_seqs (files w))),
     ri_file = None, ri_seq = 0\<rparr>"

text \<open>What one attempt to read a frame from the rest of a segment finds.\<close>

datatype frame_read = SegmentEnd | TornTail | Oversized u32 bytes | Frame bytes bytes

definition read_frame :: "(bytes \<Rightarrow> u32) \<Rightarrow> bytes \<Rightarrow> frame_read" where
  "read_frame crc f =
     (if f = [] then SegmentEnd
      else if length f < FRAME_HEADER_SIZE then TornTail
      else
        (let (len, crc_expected) = decode_header (take FRAME_HEADER_SIZE f);
             rest = drop FRAME_HEADER_SIZE f
         in if len > MAX_REPLAY_FRAME_BYTES then Oversized len rest
            else if length rest < unat len then TornTail
            else if crc (take (unat len) rest) \<noteq> crc_expected then TornTail
            else Frame (take (unat len) rest) (drop (unat len) rest)))"

function replay_next ::
  "(bytes \<Rightarrow> u32) \<Rightarrow> replay_iter \<Rightarrow> (wal_error + bytes) option \<times> replay_iter" where
  "replay_next crc it =
     (case ri_file it of
        None \<Rightarrow>
          (case ri_seqs it of
             [] \<Rightarrow> (None, it)
           | seq # seqs \<Rightarrow>
               (case map_of (ri_dir it) (segment_path seq) of
                  None \<Rightarrow> (Some (Inl (ReplayOpenFailed seq)), it\<lparr>ri_seqs := seqs, ri_seq := seq\<rparr>)
                | Some f \<Rightarrow>
                    replay_next crc (it\<lparr>ri_seqs := seqs, ri_seq := seq, ri_file := Some f\<rparr>)))
      | Some f \<Rightarrow>
          (case read_frame crc f of
             SegmentEnd \<Rightarrow> replay_next crc (it\<lparr>ri_file := None\<rparr>)
           | TornTail \<Rightarrow> replay_next crc (it\<lparr>ri_file := None\<rparr>)
           | Oversized len rest \<Rightarrow>
               (Some (Inl (OversizedFrame (ri_seq it) len)), it\<lparr>ri_file := Some rest\<rparr>)
           | Frame payload rest \<Rightarrow> (Some (Inr payload), it\<lparr>ri_file := Some rest\<rparr>)))"
  by pat_completeness auto
termination
  by (relation "measure (\<lambda>(_, it). 2 * length (ri_seqs it) + (if ri_file it = None then 0 else 1))")
     auto

declare replay_next.simps [simp del]

text \<open>
  The loop of the only consumer, \<open>for frame in wal.replay()? { let p = frame?; ... }\<close>:
  it takes payloads until the iterator ends or yields an error.
\<close>

definition pending_bytes :: "replay_iter \<Rightarrow> nat" where
  "pending_bytes it =
     (case ri_file it of None \<Rightarrow> 0 | Some f \<Rightarrow> length f)
     + sum_list (map (\<lambda>s. case map_of (ri_dir it) (segment_path s) of None \<Rightarrow> 0 | Some f \<Rightarrow> length f)
                     (ri_seqs it))"

lemma read_frame_Frame_shorter: "read_frame crc f = Frame p r \<Longrightarrow> length r < length f"
  by (auto simp: read_frame_def FRAME_HEADER_SIZE_def Let_def split: if_splits prod.splits)

lemma replay_next_consumes:
  "replay_next crc it = (Some (Inr p), it') \<Longrightarrow> pending_bytes it' < pending_bytes it"
proof (induction crc it rule: replay_next.induct)
  case (1 crc it)
  show ?case
  proof (cases "ri_file it")
    case None
    with 1 show ?thesis
      by (fastforce simp: replay_next.simps [of crc it] pending_bytes_def
          split: list.splits option.splits)
  next
    case (Some f)
    show ?thesis
    proof (cases "read_frame crc f")
      case (Frame q r)
      with Some "1.prems" read_frame_Frame_shorter [OF Frame] show ?thesis
        by (auto simp: replay_next.simps [of crc it] pending_bytes_def)
    qed (use Some 1 in \<open>auto simp: replay_next.simps [of crc it] pending_bytes_def\<close>)
  qed
qed

function replay_all :: "(bytes \<Rightarrow> u32) \<Rightarrow> replay_iter \<Rightarrow> bytes list \<times> wal_error option" where
  "replay_all crc it =
     (case replay_next crc it of
        (None, _) \<Rightarrow> ([], None)
      | (Some (Inl e), _) \<Rightarrow> ([], Some e)
      | (Some (Inr p), it') \<Rightarrow> (case replay_all crc it' of (ps, e) \<Rightarrow> (p # ps, e)))"
  by pat_completeness auto
termination
  by (relation "measure (\<lambda>(_, it). pending_bytes it)") (auto dest: sym replay_next_consumes)

declare replay_all.simps [simp del]

section \<open>What the frames of a segment decode to\<close>

definition frame_bytes :: "(bytes \<Rightarrow> u32) \<Rightarrow> bytes \<Rightarrow> bytes" where
  "frame_bytes crc p = encode_header (of_nat (length p)) (crc p) @ p"

definition seg_bytes :: "(bytes \<Rightarrow> u32) \<Rightarrow> bytes list \<Rightarrow> bytes" where
  "seg_bytes crc ps = concat (map (frame_bytes crc) ps)"

abbreviation fits :: "bytes \<Rightarrow> bool" where
  "fits p \<equiv> length p \<le> unat MAX_REPLAY_FRAME_BYTES"

text \<open>One segment read on its own: its payloads and the length of an oversized frame, if any.\<close>

function segment_records :: "(bytes \<Rightarrow> u32) \<Rightarrow> bytes \<Rightarrow> bytes list \<times> u32 option" where
  "segment_records crc f =
     (case read_frame crc f of
        Frame p r \<Rightarrow> (case segment_records crc r of (ps, e) \<Rightarrow> (p # ps, e))
      | Oversized len _ \<Rightarrow> ([], Some len)
      | _ \<Rightarrow> ([], None))"
  by pat_completeness auto
termination
  by (relation "measure (\<lambda>(_, f). length f)") (auto dest: read_frame_Frame_shorter)

declare segment_records.simps [simp del]

fun replay_segments :: "(bytes \<Rightarrow> u32) \<Rightarrow> dir \<Rightarrow> u64 list \<Rightarrow> bytes list \<times> wal_error option" where
  "replay_segments crc d [] = ([], None)"
| "replay_segments crc d (s # ss) =
     (case map_of d (segment_path s) of
        None \<Rightarrow> ([], Some (ReplayOpenFailed s))
      | Some f \<Rightarrow>
          (case segment_records crc f of
             (ps, Some len) \<Rightarrow> (ps, Some (OversizedFrame s len))
           | (ps, None) \<Rightarrow> (case replay_segments crc d ss of (qs, e) \<Rightarrow> (ps @ qs, e))))"

lemma decode_encode_header [simp]: "decode_header (encode_header len crc) = (len, crc)"
  by (simp add: decode_header_def encode_header_def)

lemma length_encode_header [simp]: "length (encode_header len crc) = FRAME_HEADER_SIZE"
  by (simp add: encode_header_def FRAME_HEADER_SIZE_def)

lemma length_frame_bytes [simp]: "length (frame_bytes crc p) = FRAME_HEADER_SIZE + length p"
  by (simp add: frame_bytes_def)

lemma unat_MAX_REPLAY [simp]: "unat MAX_REPLAY_FRAME_BYTES = 33554432"
  by (simp add: MAX_REPLAY_FRAME_BYTES_def)

lemma unat_payload_length: "fits p \<Longrightarrow> unat (of_nat (length p) :: u32) = length p"
  by (simp add: unat_of_nat)

lemma payload_length_le: "fits p \<Longrightarrow> (of_nat (length p) :: u32) \<le> MAX_REPLAY_FRAME_BYTES"
  by (simp add: word_le_nat_alt unat_payload_length)

lemma read_frame_frame:
  assumes "fits p"
  shows "read_frame crc (frame_bytes crc p @ rest) = Frame p rest"
proof -
  have "frame_bytes crc p @ rest \<noteq> []"
    by (metis FRAME_HEADER_SIZE_def add_is_0 append_is_Nil_conv length_0_conv
        length_frame_bytes zero_neq_numeral)
  moreover have "\<not> MAX_REPLAY_FRAME_BYTES < of_nat (length p)"
    using payload_length_le [OF assms] by simp
  ultimately show ?thesis
    using unat_payload_length [OF assms]
    by (simp add: read_frame_def frame_bytes_def)
qed

text \<open>A frame cut anywhere short of its end is the end of the segment or a torn tail.\<close>

lemma read_frame_cut:
  assumes "fits p" and "k < length (frame_bytes crc p)"
  shows "read_frame crc (take k (frame_bytes crc p)) \<in> {SegmentEnd, TornTail}"
proof (cases "k < FRAME_HEADER_SIZE")
  case True
  then show ?thesis by (simp add: read_frame_def)
next
  case False
  then obtain j where j: "k = FRAME_HEADER_SIZE + j" by (metis le_add_diff_inverse not_less)
  with assms(2) have "j < length p" by simp
  moreover have "take k (frame_bytes crc p) = encode_header (of_nat (length p)) (crc p) @ take j p"
    by (simp add: frame_bytes_def j)
  moreover have "\<not> MAX_REPLAY_FRAME_BYTES < of_nat (length p)"
    using payload_length_le [OF assms(1)] by simp
  ultimately show ?thesis
    using unat_payload_length [OF assms(1)] by (simp add: read_frame_def)
qed

text \<open>How many whole frames the first \<open>k\<close> bytes of a segment hold.\<close>

fun whole_frames :: "nat \<Rightarrow> bytes list \<Rightarrow> nat" where
  "whole_frames k [] = 0"
| "whole_frames k (p # ps) =
     (if k < FRAME_HEADER_SIZE + length p then 0
      else Suc (whole_frames (k - (FRAME_HEADER_SIZE + length p)) ps))"

lemma whole_frames_le: "whole_frames k ps \<le> length ps"
  by (induction k ps rule: whole_frames.induct) auto

lemma seg_bytes_simps [simp]:
  "seg_bytes crc [] = []"
  "seg_bytes crc (p # ps) = frame_bytes crc p @ seg_bytes crc ps"
  "seg_bytes crc (ps @ qs) = seg_bytes crc ps @ seg_bytes crc qs"
  by (simp_all add: seg_bytes_def)

lemma segment_records_Nil [simp]: "segment_records crc [] = ([], None)"
  by (subst segment_records.simps) (simp add: read_frame_def)

lemma segment_records_frame:
  "fits p \<Longrightarrow> segment_records crc (frame_bytes crc p @ rest) =
     (case segment_records crc rest of (ps, e) \<Rightarrow> (p # ps, e))"
  by (subst segment_records.simps) (simp add: read_frame_frame)

lemma segment_records_seg_append:
  "\<forall>p \<in> set ps. fits p \<Longrightarrow> segment_records crc (seg_bytes crc ps @ rest) =
     (case segment_records crc rest of (qs, e) \<Rightarrow> (ps @ qs, e))"
  by (induction ps) (auto simp: segment_records_frame split: prod.splits)

lemma segment_records_seg:
  "\<forall>p \<in> set ps. fits p \<Longrightarrow> segment_records crc (seg_bytes crc ps) = (ps, None)"
  using segment_records_seg_append [of ps crc "[]"] by simp

lemma segment_records_torn:
  assumes "read_frame crc f \<in> {SegmentEnd, TornTail}"
  shows "segment_records crc f = ([], None)"
  using assms by (subst segment_records.simps) auto

lemma segment_records_take:
  "\<forall>p \<in> set ps. fits p \<Longrightarrow>
     segment_records crc (take k (seg_bytes crc ps)) = (take (whole_frames k ps) ps, None)"
proof (induction k ps rule: whole_frames.induct)
  case (1 k)
  then show ?case by simp
next
  case (2 k p ps)
  then have p: "fits p" by simp
  show ?case
  proof (cases "k < FRAME_HEADER_SIZE + length p")
    case True
    then have "take k (seg_bytes crc (p # ps)) = take k (frame_bytes crc p)" by simp
    moreover have "segment_records crc (take k (frame_bytes crc p)) = ([], None)"
      using True p by (intro segment_records_torn read_frame_cut) auto
    ultimately show ?thesis using True by simp
  next
    case False
    then have "take k (seg_bytes crc (p # ps)) =
        frame_bytes crc p @ take (k - (FRAME_HEADER_SIZE + length p)) (seg_bytes crc ps)"
      by simp
    with False 2 p show ?thesis by (simp add: segment_records_frame)
  qed
qed

section \<open>The iterator reads the segments one after the other\<close>

lemma replay_next_file:
  assumes "ri_file it = Some f"
  shows "replay_next crc it =
     (case read_frame crc f of
        Oversized len rest \<Rightarrow>
          (Some (Inl (OversizedFrame (ri_seq it) len)), it\<lparr>ri_file := Some rest\<rparr>)
      | Frame payload rest \<Rightarrow> (Some (Inr payload), it\<lparr>ri_file := Some rest\<rparr>)
      | _ \<Rightarrow> replay_next crc (it\<lparr>ri_file := None\<rparr>))"
  using assms by (simp add: replay_next.simps [of crc it] split: frame_read.split)

lemma replay_next_no_file:
  assumes "ri_file it = None"
  shows "replay_next crc it =
     (case ri_seqs it of
        [] \<Rightarrow> (None, it)
      | seq # seqs \<Rightarrow>
          (case map_of (ri_dir it) (segment_path seq) of
             None \<Rightarrow> (Some (Inl (ReplayOpenFailed seq)), it\<lparr>ri_seqs := seqs, ri_seq := seq\<rparr>)
           | Some f \<Rightarrow> replay_next crc (it\<lparr>ri_seqs := seqs, ri_seq := seq, ri_file := Some f\<rparr>)))"
  using assms by (simp add: replay_next.simps [of crc it] split: list.split option.split)

lemma replay_all_file:
  "replay_all crc \<lparr>ri_dir = d, ri_seqs = ss, ri_file = Some f, ri_seq = s\<rparr> =
     (case segment_records crc f of
        (ps, Some len) \<Rightarrow> (ps, Some (OversizedFrame s len))
      | (ps, None) \<Rightarrow>
          (case replay_all crc \<lparr>ri_dir = d, ri_seqs = ss, ri_file = None, ri_seq = s\<rparr> of
             (qs, e) \<Rightarrow> (ps @ qs, e)))"
proof (induction crc f rule: segment_records.induct)
  case (1 crc f)
  let ?it = "\<lparr>ri_dir = d, ri_seqs = ss, ri_file = Some f, ri_seq = s\<rparr>"
  let ?nofile = "\<lparr>ri_dir = d, ri_seqs = ss, ri_file = None, ri_seq = s\<rparr>"
  show ?case
  proof (cases "read_frame crc f")
    case (Frame p r)
    have "replay_next crc ?it = (Some (Inr p), ?it\<lparr>ri_file := Some r\<rparr>)"
      by (simp add: replay_next_file Frame)
    with 1 [OF Frame] show ?thesis
      by (subst replay_all.simps, subst segment_records.simps)
         (auto simp: Frame split: prod.splits option.splits)
  next
    case (Oversized len r)
    have "replay_next crc ?it = (Some (Inl (OversizedFrame s len)), ?it\<lparr>ri_file := Some r\<rparr>)"
      by (simp add: replay_next_file Oversized)
    then show ?thesis
      by (subst replay_all.simps, subst segment_records.simps) (simp add: Oversized)
  next
    case SegmentEnd
    have "replay_next crc ?it = replay_next crc ?nofile"
      by (simp add: replay_next_file [where f = f] SegmentEnd)
    then have "replay_all crc ?it = replay_all crc ?nofile"
      by (simp add: replay_all.simps)
    then show ?thesis by (subst segment_records.simps) (simp add: SegmentEnd)
  next
    case TornTail
    have "replay_next crc ?it = replay_next crc ?nofile"
      by (simp add: replay_next_file [where f = f] TornTail)
    then have "replay_all crc ?it = replay_all crc ?nofile"
      by (simp add: replay_all.simps)
    then show ?thesis by (subst segment_records.simps) (simp add: TornTail)
  qed
qed

lemma replay_all_segments:
  "replay_all crc \<lparr>ri_dir = d, ri_seqs = ss, ri_file = None, ri_seq = s0\<rparr>
     = replay_segments crc d ss"
proof (induction ss arbitrary: s0)
  case Nil
  show ?case by (simp add: replay_all.simps replay_next_no_file)
next
  case (Cons s ss)
  let ?it = "\<lparr>ri_dir = d, ri_seqs = s # ss, ri_file = None, ri_seq = s0\<rparr>"
  show ?case
  proof (cases "map_of d (segment_path s)")
    case None
    then show ?thesis by (simp add: replay_all.simps replay_next_no_file)
  next
    case (Some f)
    then have "replay_next crc ?it =
        replay_next crc \<lparr>ri_dir = d, ri_seqs = ss, ri_file = Some f, ri_seq = s\<rparr>"
      by (simp add: replay_next_no_file)
    then have "replay_all crc ?it =
        replay_all crc \<lparr>ri_dir = d, ri_seqs = ss, ri_file = Some f, ri_seq = s\<rparr>"
      by (simp add: replay_all.simps)
    with Some Cons.IH show ?thesis
      by (auto simp: replay_all_file split: prod.splits option.splits)
  qed
qed

lemma replay_all_wal:
  "replay_all crc (wal_replay w) =
     replay_segments crc (files w) (sort (filter (\<lambda>s. s < current_seq w) (dir_seqs (files w))))"
  by (simp add: wal_replay_def replay_all_segments)

section \<open>Segment names\<close>

lemma parse_segment_path [simp]: "parse_segment_filename (segment_path s) = Some s"
proof -
  have "strip_prefix ''wal-'' (segment_path s) = Some (zero_pad 20 (dec (unat s)) @ ''.log'')"
    unfolding segment_path_def by (rule strip_prefix_append)
  then show ?thesis
    by (simp only: parse_segment_filename_def bind.bind_lunit strip_suffix_append
        parse_u64_zero_pad)
qed

lemma segment_path_inject [simp]: "segment_path s = segment_path t \<longleftrightarrow> s = t"
  by (metis option.inject parse_segment_path)

section \<open>Crashes and the abstract log\<close>

text \<open>
  A crash leaves the directory with the segments as they are, except that of the active
  one only some prefix of what was written to it is there.
\<close>

definition crash :: "nat \<Rightarrow> wal \<Rightarrow> dir" where
  "crash k w = AList.update (segment_path (current_seq w)) (take k (current w)) (files w)"

datatype wal_event = Append bytes | Rotate | Release u64 u64 | CrashReopen nat

fun wal_step :: "(bytes \<Rightarrow> u32) \<Rightarrow> wal_event \<Rightarrow> wal \<Rightarrow> wal_error + wal" where
  "wal_step crc (Append p) w = Inr (snd (wal_append crc w p))"
| "wal_step crc Rotate w = (case wal_rotate w of (Inl e, _) \<Rightarrow> Inl e | (Inr _, w') \<Rightarrow> Inr w')"
| "wal_step crc (Release lo hi) w = Inr (snd (mark_uploaded w lo hi))"
| "wal_step crc (CrashReopen k) w = wal_open (max_segment_bytes w) (crash k w)"

text \<open>
  The abstract log: the records of every sealed segment that is still there, and the
  records of the active one.
\<close>

record awal =
  sealed :: "u64 \<rightharpoonup> bytes list"
  aseq :: u64
  active :: "bytes list"
  acap :: u64

definition a_rotate :: "awal \<Rightarrow> awal" where
  "a_rotate a = a\<lparr>sealed := (sealed a)(aseq a \<mapsto> active a), aseq := aseq a + 1, active := []\<rparr>"

definition active_size :: "awal \<Rightarrow> nat" where
  "active_size a = sum_list (map (\<lambda>p. FRAME_HEADER_SIZE + length p) (active a))"

fun a_step :: "wal_event \<Rightarrow> awal \<Rightarrow> awal" where
  "a_step (Append p) a =
     (if \<not> fits p then a
      else let a' = a\<lparr>active := active a @ [p]\<rparr>
           in if of_nat (active_size a') \<ge> acap a then a_rotate a' else a')"
| "a_step Rotate a = a_rotate a"
| "a_step (Release lo hi) a =
     (if hi \<ge> aseq a then a else a\<lparr>sealed := sealed a |` (- {lo..hi})\<rparr>)"
| "a_step (CrashReopen k) a = a_rotate (a\<lparr>active := take (whole_frames k (active a)) (active a)\<rparr>)"

definition a_init :: "u64 \<Rightarrow> awal" where
  "a_init cap = \<lparr>sealed = Map.empty, aseq = 0, active = [], acap = cap\<rparr>"

definition a_records :: "awal \<Rightarrow> bytes list" where
  "a_records a = concat (map (\<lambda>s. the (sealed a s)) (sorted_list_of_set (dom (sealed a))))"

definition dir_ok :: "dir \<Rightarrow> u64 \<Rightarrow> bool" where
  "dir_ok d seq \<longleftrightarrow> distinct (map fst d) \<and> segment_path seq \<in> fst ` set d \<and>
     (\<forall>n \<in> fst ` set d. \<forall>s. parse_segment_filename n = Some s \<longrightarrow> n = segment_path s \<and> s \<le> seq)"

definition sealed_in :: "(bytes \<Rightarrow> u32) \<Rightarrow> dir \<Rightarrow> u64 \<Rightarrow> (u64 \<rightharpoonup> bytes list) \<Rightarrow> bool" where
  "sealed_in crc d seq sl \<longleftrightarrow> dom sl \<subseteq> {..<seq} \<and>
     (\<forall>s < seq. map_option (segment_records crc) (map_of d (segment_path s))
                  = map_option (\<lambda>ps. (ps, None)) (sl s))"

definition wal_rep :: "(bytes \<Rightarrow> u32) \<Rightarrow> awal \<Rightarrow> wal \<Rightarrow> bool" where
  "wal_rep crc a w \<longleftrightarrow> current_seq w = aseq a \<and> max_segment_bytes w = acap a \<and>
     dir_ok (files w) (aseq a) \<and> sealed_in crc (files w) (aseq a) (sealed a) \<and>
     (\<forall>p \<in> set (active a). fits p) \<and> current w = seg_bytes crc (active a) \<and>
     current_bytes w = of_nat (active_size a)"

section \<open>The directory\<close>

lemma fst_update [simp]: "fst ` set (AList.update k v d) = insert k (fst ` set d)"
  by (simp add: AList.dom_update)

lemma distinct_fst_update: "distinct (map fst d) \<Longrightarrow> distinct (map fst (AList.update k v d))"
  by (rule AList.distinct_update)

lemma dir_ok_update:
  "dir_ok d seq \<Longrightarrow> dir_ok (AList.update (segment_path seq) f d) seq"
  by (auto simp: dir_ok_def distinct_fst_update)

lemma dir_okD:
  "dir_ok d seq \<Longrightarrow> (n, f) \<in> set d \<Longrightarrow> parse_segment_filename n = Some s
     \<Longrightarrow> n = segment_path s \<and> s \<le> seq"
  by (auto simp: dir_ok_def)

lemma dir_ok_fresh: "dir_ok d seq \<Longrightarrow> seq < t \<Longrightarrow> segment_path t \<notin> fst ` set d"
proof
  assume d: "dir_ok d seq" and t: "seq < t" and "segment_path t \<in> fst ` set d"
  then obtain f where "(segment_path t, f) \<in> set d" by auto
  with dir_okD [OF d this, of t] t show False by simp
qed

lemma dir_ok_create:
  assumes "dir_ok d seq" and "seq < t"
  shows "create_new (segment_path t) d = Inr (d @ [(segment_path t, [])])"
    and "dir_ok (d @ [(segment_path t, [])]) t"
proof -
  note new = dir_ok_fresh [OF assms]
  then show "create_new (segment_path t) d = Inr (d @ [(segment_path t, [])])"
    by (simp add: create_new_def)
  have "n = segment_path s \<and> s \<le> t"
    if "n \<in> fst ` set d" "parse_segment_filename n = Some s" for n s
    using that dir_okD [OF assms(1)] assms(2) by force
  with assms new show "dir_ok (d @ [(segment_path t, [])]) t"
    unfolding dir_ok_def by auto
qed

lemma releasable_segment_path [simp]: "releasable lo hi (segment_path s) \<longleftrightarrow> lo \<le> s \<and> s \<le> hi"
  by (simp add: releasable_def)

lemma fst_release [simp]:
  "fst ` set (release_segments lo hi d) = {n \<in> fst ` set d. \<not> releasable lo hi n}"
  by (auto simp: release_segments_def image_iff split: prod.splits)

lemma map_of_release:
  "map_of (release_segments lo hi d) n = (if releasable lo hi n then None else map_of d n)"
  by (induction d) (auto simp: release_segments_def)

lemma distinct_release:
  "distinct (map fst d) \<Longrightarrow> distinct (map fst (release_segments lo hi d))"
  by (simp add: release_segments_def distinct_map_filter)

lemma dir_ok_release:
  "dir_ok d seq \<Longrightarrow> hi < seq \<Longrightarrow> dir_ok (release_segments lo hi d) seq"
  by (auto simp: dir_ok_def distinct_release)

lemma sealed_in_update:
  "sealed_in crc d seq sl \<Longrightarrow> sealed_in crc (AList.update (segment_path seq) f d) seq sl"
  by (auto simp: sealed_in_def AList.update_conv')

lemma map_of_snoc_other [simp]: "n \<noteq> k \<Longrightarrow> map_of (d @ [(k, v)]) n = map_of d n"
  by (simp add: map_add_def split: option.split)

lemma sealed_in_snoc:
  "sealed_in crc d seq sl \<Longrightarrow> seq \<le> t \<Longrightarrow> sealed_in crc (d @ [(segment_path t, f)]) seq sl"
  unfolding sealed_in_def by (metis leD map_of_snoc_other segment_path_inject)

lemma sealed_in_seal:
  assumes "sealed_in crc d seq sl" "seq < seq + 1" "segment_records crc f = (ps, None)"
  shows "sealed_in crc (AList.update (segment_path seq) f d) (seq + 1) (sl(seq \<mapsto> ps))"
proof -
  have lt: "s < seq + 1 \<longleftrightarrow> s < seq \<or> s = seq" for s
    using less_plus_one_iff [OF assms(2), of s] by auto
  from assms(1,3) show ?thesis
    unfolding sealed_in_def lt lessThan_def by (auto simp: AList.update_conv')
qed

lemma sealed_in_release:
  "sealed_in crc d seq sl \<Longrightarrow> sealed_in crc (release_segments lo hi d) seq (sl |` (- {lo..hi}))"
  by (auto simp: sealed_in_def map_of_release restrict_map_def subset_iff domIff)

section \<open>Every operation implements its abstract one\<close>

lemma length_seg_bytes: "length (seg_bytes crc (active a)) = active_size a"
  by (simp add: seg_bytes_def active_size_def length_concat comp_def)

lemma wal_rotate_rep:
  assumes "wal_rep crc a w" and "aseq a < - 1"
  shows "\<exists>w'. wal_rotate w = (Inr (aseq a), w') \<and> wal_rep crc (a_rotate a) w'"
proof -
  let ?d = "AList.update (segment_path (aseq a)) (seg_bytes crc (active a)) (files w)"
  have ok: "dir_ok ?d (aseq a)" and le: "aseq a < aseq a + 1"
    using assms dir_ok_update less_plus_one by (auto simp: wal_rep_def)
  have "sealed_in crc ?d (aseq a + 1) ((sealed a)(aseq a \<mapsto> active a))"
    using assms by (intro sealed_in_seal le) (auto simp: wal_rep_def segment_records_seg)
  note 1 = sealed_in_snoc [OF this order_refl]
  note 2 = dir_ok_create [OF ok le]
  from assms show ?thesis
    by (auto simp: wal_rotate_def flush_def Let_def wal_rep_def a_rotate_def 1 2 active_size_def)
qed

lemma wal_append_rep:
  assumes "wal_rep crc a w" and "aseq a < - 1" and "fits p"
  shows "\<exists>w'. wal_append crc w p = (Inr (), w') \<and> wal_rep crc (a_step (Append p) a) w'"
proof -
  let ?a = "a\<lparr>active := active a @ [p]\<rparr>"
  let ?w = "w\<lparr>current := current w @ frame_bytes crc p,
               current_bytes := current_bytes w + of_nat FRAME_HEADER_SIZE + of_nat (length p)\<rparr>"
  have rep: "wal_rep crc ?a ?w"
    using assms by (auto simp: wal_rep_def active_size_def)
  have app: "wal_append crc w p =
      (if current_bytes ?w \<ge> max_segment_bytes ?w
       then (case wal_rotate ?w of (Inl e, w2) \<Rightarrow> (Inl e, w2) | (Inr _, w2) \<Rightarrow> (Inr (), w2))
       else (Inr (), ?w))"
    using assms(3) by (simp add: wal_append_def Let_def frame_bytes_def)
  show ?thesis
  proof (cases "of_nat (active_size ?a) \<ge> acap a")
    case True
    with rep have "current_bytes ?w \<ge> max_segment_bytes ?w" by (simp add: wal_rep_def)
    with wal_rotate_rep [OF rep] assms True show ?thesis by (auto simp: app Let_def)
  next
    case False
    with rep have "\<not> current_bytes ?w \<ge> max_segment_bytes ?w" by (simp add: wal_rep_def)
    with rep assms(3) False show ?thesis by (auto simp: app Let_def)
  qed
qed

lemma wal_append_rejects:
  "\<not> fits p \<Longrightarrow> wal_append crc w p = (Inl PayloadExceedsReplayLimit, w)"
  by (simp add: wal_append_def)

lemma mark_uploaded_rep:
  assumes "wal_rep crc a w"
  shows "wal_rep crc (a_step (Release lo hi) a) (snd (mark_uploaded w lo hi))"
  using assms
  by (auto simp: mark_uploaded_def prepare_release_def wal_rep_def dir_ok_release sealed_in_release
      active_size_def)

lemma max_seq_bound:
  "\<forall>s \<in> set ss. s \<le> t \<Longrightarrow> (\<forall>s. m = Some s \<longrightarrow> s \<le> t) \<Longrightarrow> t \<in> set ss \<or> m = Some t \<Longrightarrow>
     max_seq m ss = Some t"
proof (induction ss arbitrary: m)
  case (Cons s ss)
  let ?m = "Some (case m of None \<Rightarrow> s | Some m' \<Rightarrow> max m' s)"
  have "max_seq ?m ss = Some t"
    using Cons.prems by (intro Cons.IH) (auto split: option.split simp: max_def)
  then show ?case by simp
qed auto

lemma set_dir_seqs: "set (dir_seqs d) = {s. \<exists>n \<in> fst ` set d. parse_segment_filename n = Some s}"
  by (force simp: dir_seqs_def List.map_filter_def)

lemma max_seq_dir:
  assumes "dir_ok d seq"
  shows "max_seq None (dir_seqs d) = Some seq"
proof (rule max_seq_bound)
  show "\<forall>s \<in> set (dir_seqs d). s \<le> seq"
    using assms unfolding set_dir_seqs dir_ok_def by blast
  have "segment_path seq \<in> fst ` set d" using assms unfolding dir_ok_def by blast
  then show "seq \<in> set (dir_seqs d) \<or> None = Some seq"
    unfolding set_dir_seqs using parse_segment_path by blast
qed simp

lemma wal_reopen_rep:
  assumes "wal_rep crc a w" and "aseq a < - 1"
  shows "\<exists>w'. wal_open (max_segment_bytes w) (crash k w) = Inr w' \<and>
           wal_rep crc (a_step (CrashReopen k) a) w'"
proof -
  have ok: "dir_ok (crash k w) (aseq a)" and le: "aseq a < aseq a + 1"
    using assms dir_ok_update less_plus_one by (auto simp: wal_rep_def crash_def)
  have "sealed_in crc (crash k w) (aseq a + 1)
          ((sealed a)(aseq a \<mapsto> take (whole_frames k (active a)) (active a)))"
    using assms unfolding crash_def
    by (auto intro!: sealed_in_seal le simp: wal_rep_def segment_records_take)
  note 1 = sealed_in_snoc [OF this order_refl]
  note 2 = dir_ok_create [OF ok le]
  from assms show ?thesis
    by (auto simp: wal_open_def Let_def max_seq_dir [OF ok] wal_rep_def a_rotate_def 1 2 active_size_def)
qed

lemma wal_open_empty: "\<exists>w. wal_open cap [] = Inr w \<and> wal_rep crc (a_init cap) w"
  by (auto simp: wal_open_def dir_seqs_def List.map_filter_def create_new_def wal_rep_def
      a_init_def dir_ok_def sealed_in_def active_size_def)

lemma a_step_cost:
  "aseq a < - 1 \<Longrightarrow> unat (aseq (a_step e a)) \<le> unat (aseq a) + 1"
  by (cases e) (auto simp: a_rotate_def Let_def unat_plus_one)

interpretation wal_sim: budgeted_simulation "wal_rep crc" "wal_step crc" a_step
    "\<lambda>a. unat (aseq a)" "unat (- 1 :: u64)" for crc
proof (unfold_locales, goal_cases)
  case (1 a w e)
  then have "aseq a < - 1" by (simp add: word_less_nat_alt)
  with 1(1) show ?case
  proof (cases e)
    case (Append p)
    show ?thesis
    proof (cases "fits p")
      case True
      with wal_append_rep [OF 1(1) \<open>aseq a < - 1\<close>] show ?thesis
        unfolding Append by (metis snd_conv wal_step.simps(1))
    qed (use 1(1) in \<open>simp add: Append wal_append_rejects\<close>)
  next
    case Rotate
    with wal_rotate_rep [OF 1(1) \<open>aseq a < - 1\<close>] show ?thesis by auto
  next
    case (Release lo hi)
    with mark_uploaded_rep [OF 1(1)] show ?thesis by auto
  next
    case (CrashReopen k)
    with wal_reopen_rep [OF 1(1) \<open>aseq a < - 1\<close>] show ?thesis by auto
  qed
next
  case (2 a w e)
  then show ?case using a_step_cost [of a e] by (simp add: word_less_nat_alt)
qed

section \<open>What a replay of a represented log yields\<close>

lemma distinct_dir_seqs:
  assumes "dir_ok d seq"
  shows "distinct (dir_seqs d)"
proof -
  have "distinct (map fst d) \<Longrightarrow>
      \<forall>n \<in> fst ` set d. \<forall>s. parse_segment_filename n = Some s \<longrightarrow> n = segment_path s \<Longrightarrow>
      distinct (dir_seqs d)"
  proof (induction d)
    case (Cons x d)
    obtain n f where x: "x = (n, f)" by force
    have "s \<notin> set (dir_seqs d)" if "parse_segment_filename n = Some s" for s
    proof
      assume "s \<in> set (dir_seqs d)"
      then obtain m where m: "m \<in> fst ` set d" "parse_segment_filename m = Some s"
        by (auto simp: set_dir_seqs)
      with Cons.prems(2) that have "m = segment_path s" "n = segment_path s" by (auto simp: x)
      with m(1) Cons.prems(1) show False by (simp add: x)
    qed
    moreover have "dir_seqs (x # d) = (case parse_segment_filename n of None \<Rightarrow> dir_seqs d
        | Some s \<Rightarrow> s # dir_seqs d)"
      by (simp add: dir_seqs_def List.map_filter_simps x split: option.split)
    ultimately show ?case using Cons by (auto split: option.split)
  qed (simp add: dir_seqs_def List.map_filter_simps)
  then show ?thesis using assms unfolding dir_ok_def by blast
qed

lemma dir_seqs_iff:
  assumes "dir_ok d seq"
  shows "s \<in> set (dir_seqs d) \<longleftrightarrow> segment_path s \<in> fst ` set d"
proof
  assume "s \<in> set (dir_seqs d)"
  then obtain n where n: "n \<in> fst ` set d" "parse_segment_filename n = Some s"
    by (auto simp: set_dir_seqs)
  with dir_okD [OF assms _ n(2)] have "n = segment_path s" by auto
  with n show "segment_path s \<in> fst ` set d" by simp
next
  assume "segment_path s \<in> fst ` set d"
  then show "s \<in> set (dir_seqs d)" unfolding set_dir_seqs using parse_segment_path by blast
qed

lemma replay_seqs:
  assumes "dir_ok d seq" and "sealed_in crc d seq sl"
  shows "sort (filter (\<lambda>s. s < seq) (dir_seqs d)) = sorted_list_of_set (dom sl)"
proof -
  have "s \<in> dom sl \<longleftrightarrow> s < seq \<and> s \<in> set (dir_seqs d)" for s
  proof (cases "s < seq")
    case True
    then have "map_option (segment_records crc) (map_of d (segment_path s))
        = map_option (\<lambda>ps. (ps, None)) (sl s)"
      using assms(2) unfolding sealed_in_def by simp
    then have "s \<in> dom sl \<longleftrightarrow> segment_path s \<in> fst ` set d"
      by (metis domIff map_of_eq_None_iff option.map_disc_iff)
    with True show ?thesis by (simp add: dir_seqs_iff [OF assms(1)])
  next
    case False
    then show ?thesis using assms(2) by (auto simp: sealed_in_def)
  qed
  then have "dom sl = set (filter (\<lambda>s. s < seq) (dir_seqs d))" by auto
  then show ?thesis
    by (simp add: sorted_list_of_set_sort_remdups distinct_dir_seqs [OF assms(1)]
        distinct_remdups_id del: set_filter)
qed

lemma replay_segments_sealed:
  assumes "sealed_in crc d seq sl"
  shows "set ss \<subseteq> dom sl \<Longrightarrow> replay_segments crc d ss = (concat (map (\<lambda>s. the (sl s)) ss), None)"
proof (induction ss)
  case (Cons s ss)
  then obtain ps where ps: "sl s = Some ps" by auto
  then have "s < seq" using assms by (auto simp: sealed_in_def)
  with ps assms have "map_option (segment_records crc) (map_of d (segment_path s)) = Some (ps, None)"
    unfolding sealed_in_def by simp
  then obtain f where
    "map_of d (segment_path s) = Some f" "segment_records crc f = (ps, None)"
    by (cases "map_of d (segment_path s)") auto
  with ps Cons show ?case by simp
qed simp

lemma replay_rep:
  assumes "wal_rep crc a w"
  shows "replay_all crc (wal_replay w) = (a_records a, None)"
proof -
  have "dir_ok (files w) (aseq a)" "sealed_in crc (files w) (aseq a) (sealed a)"
    "current_seq w = aseq a"
    using assms by (auto simp: wal_rep_def)
  then show ?thesis
    by (simp add: replay_all_wal replay_seqs a_records_def replay_segments_sealed)
qed

lemma max_seq_None:
  "max_seq m ss = None \<longleftrightarrow> m = None \<and> ss = []"
  by (induction ss arbitrary: m) (auto split: option.splits)

lemma max_seq_upper:
  "max_seq m ss = Some t \<Longrightarrow> (\<forall>s \<in> set ss. s \<le> t) \<and> (\<forall>s. m = Some s \<longrightarrow> s \<le> t)"
  by (induction ss arbitrary: m) (fastforce split: option.splits)+

lemma wal_open_fresh_seq:
  assumes "\<forall>s \<in> set (dir_seqs d). s < - 1"
  shows "\<exists>seq. (case max_seq None (dir_seqs d) of None \<Rightarrow> 0 | Some m \<Rightarrow> m + 1) = seq \<and>
           (\<forall>s \<in> set (dir_seqs d). s < seq)"
proof (cases "max_seq None (dir_seqs d)")
  case None
  then show ?thesis by (simp add: max_seq_None)
next
  case (Some m)
  have "max_seq m' ss = Some t \<Longrightarrow> t \<in> set ss \<or> m' = Some t" for m' ss t
    by (induction ss arbitrary: m') (fastforce split: option.splits simp: max_def if_splits)+
  from this [OF Some] assms have "m < m + 1" by (simp add: less_plus_one)
  with Some max_seq_upper [OF Some] show ?thesis by (auto intro: le_less_trans)
qed

lemma seq_of_name: "segment_path t \<in> fst ` set d \<Longrightarrow> t \<in> set (dir_seqs d)"
  unfolding set_dir_seqs using parse_segment_path by blast

lemma read_frame_crc_mismatch:
  assumes "fits p" and "c \<noteq> crc p"
  shows "read_frame crc (encode_header (of_nat (length p)) c @ p @ rest) = TornTail"
proof -
  have "\<not> MAX_REPLAY_FRAME_BYTES < of_nat (length p)"
    using payload_length_le [OF assms(1)] by simp
  moreover have "encode_header (of_nat (length p)) c \<noteq> []"
    using length_encode_header [of "of_nat (length p)" c] FRAME_HEADER_SIZE_def by fastforce
  ultimately show ?thesis
    using unat_payload_length [OF assms(1)] assms(2) by (simp add: read_frame_def)
qed

lemma read_frame_oversized:
  assumes "len > MAX_REPLAY_FRAME_BYTES"
  shows "read_frame crc (encode_header len c @ rest) = Oversized len rest"
proof -
  have "encode_header len c \<noteq> []"
    using length_encode_header [of len c] FRAME_HEADER_SIZE_def by fastforce
  then show ?thesis using assms by (simp add: read_frame_def)
qed

section \<open>Properties\<close>

text \<open>C8: crash recovery of the write-ahead log. From an empty directory, after any sequence
  of appends, rotations, releases and crashes followed by a reopen (fewer than 2^64 - 2 of
  them, so that the sequence number does not wrap), a last crash at any point \<open>k\<close> of the
  buffered segment leaves a directory that opens, and its replay yields without an error, in
  append order, exactly the records the abstract log holds: those of every sealed segment that
  was not released, then the records of the active segment whose frames were complete.\<close>

theorem wal_crash_recovery:
  assumes "Suc (length es) \<le> unat (- 1 :: u64)"
  shows "\<exists>w w' w''. wal_open cap [] = Inr w \<and> run_steps (wal_step crc) es w = Inr w' \<and>
     wal_open (max_segment_bytes w') (crash k w') = Inr w'' \<and>
     replay_all crc (wal_replay w'') =
       (a_records (a_step (CrashReopen k) (fold a_step es (a_init cap))), None)"
proof -
  obtain w where w: "wal_open cap [] = Inr w" "wal_rep crc (a_init cap) w"
    using wal_open_empty by blast
  have "unat (aseq (a_init cap)) + length (es @ [CrashReopen k]) \<le> unat (- 1 :: u64)"
    using assms by (simp add: a_init_def)
  from wal_sim.run_sim [OF w(2) this] obtain w'' where
    w'': "run_steps (wal_step crc) (es @ [CrashReopen k]) w = Inr w''"
    "wal_rep crc (a_step (CrashReopen k) (fold a_step es (a_init cap))) w''" by auto
  from w''(1) obtain w' where "run_steps (wal_step crc) es w = Inr w'"
    "wal_open (max_segment_bytes w') (crash k w') = Inr w''"
    by (auto simp: run_steps_append split: sum.splits)
  with w(1) replay_rep [OF w''(2)] show ?thesis by blast
qed

theorem wal_crash_recovery_witness:
  "\<exists>w w' w''. wal_open 1000 [] = Inr w \<and>
     run_steps (wal_step (\<lambda>_. 7)) [Append [1, 2], Rotate, Append [3], Append [4]] w = Inr w' \<and>
     wal_open (max_segment_bytes w') (crash 17 w') = Inr w'' \<and>
     replay_all (\<lambda>_. 7) (wal_replay w'') = ([[1, 2], [3]], None)"
proof -
  have "{0, 1 :: u64} = set [0, 1]" by simp
  then have "sorted_list_of_set {0, 1 :: u64} = [0, 1]"
    by (simp only: sorted_list_of_set_sort_remdups) simp
  then have rec: "a_records (a_step (CrashReopen 17)
      (fold a_step [Append [1, 2], Rotate, Append [3], Append [4]] (a_init 1000))) = [[1, 2], [3]]"
    by (simp add: a_records_def a_init_def a_rotate_def active_size_def FRAME_HEADER_SIZE_def
        insert_commute)
  have "Suc (length [Append [1, 2], Rotate, Append [3], Append [4]]) \<le> unat (- 1 :: u64)"
    by (simp add: unsigned_minus_1_eq_mask mask_eq_exp_minus_1)
  from wal_crash_recovery [OF this, of 1000 "\<lambda>_. 7" 17] show ?thesis unfolding rec .
qed

text \<open>Releasing is exact. A release whose upper bound is sealed deletes precisely the files
  whose names parse into the range, keeps the contents of every other file, does not touch the
  active segment, and repeating it changes nothing.\<close>

lemma mark_uploaded_exact:
  assumes "hi < current_seq w"
  shows "\<exists>w'. mark_uploaded w lo hi = (Inr (), w') \<and>
     (\<forall>n. map_of (files w') n =
        (case parse_segment_filename n of
           Some s \<Rightarrow> if lo \<le> s \<and> s \<le> hi then None else map_of (files w) n
         | None \<Rightarrow> map_of (files w) n)) \<and>
     map_of (files w') (segment_path (current_seq w)) = map_of (files w) (segment_path (current_seq w)) \<and>
     current_seq w' = current_seq w \<and> current w' = current w \<and>
     mark_uploaded w' lo hi = (Inr (), w')"
proof -
  let ?w = "w\<lparr>files := release_segments lo hi (files w)\<rparr>"
  have eq: "mark_uploaded w lo hi = (Inr (), ?w)" "mark_uploaded ?w lo hi = (Inr (), ?w)"
    using assms by (simp_all add: mark_uploaded_def prepare_release_def release_segments_def
        not_le split_def)
  have "map_of (files ?w) n =
        (case parse_segment_filename n of
           Some s \<Rightarrow> if lo \<le> s \<and> s \<le> hi then None else map_of (files w) n
         | None \<Rightarrow> map_of (files w) n)" for n
    by (simp add: map_of_release releasable_def split: option.split)
  with eq assms show ?thesis by (intro exI [of _ ?w]) (auto simp: map_of_release)
qed

text \<open>Opening never reuses a segment. Whatever the directory holds, also names the log would
  not write itself, opening succeeds with a sequence number above every one present, keeps all
  files and adds one empty segment, as long as no name carries the largest 64-bit number.\<close>

lemma wal_open_fresh:
  assumes "\<forall>s \<in> set (dir_seqs d). s < - 1"
  shows "\<exists>w. wal_open cap d = Inr w \<and> files w = d @ [(segment_path (current_seq w), [])] \<and>
     (\<forall>s \<in> set (dir_seqs d). s < current_seq w) \<and> segment_path (current_seq w) \<notin> fst ` set d \<and>
     current w = [] \<and> current_bytes w = 0"
proof -
  obtain seq where seq: "(case max_seq None (dir_seqs d) of None \<Rightarrow> 0 | Some m \<Rightarrow> m + 1) = seq"
    "\<forall>s \<in> set (dir_seqs d). s < seq" using wal_open_fresh_seq [OF assms] by blast
  then have "segment_path seq \<notin> fst ` set d" using seq_of_name by blast
  with seq show ?thesis by (simp add: wal_open_def create_new_def)
qed

text \<open>C27: a damaged frame in the middle of a segment. When the checksum of a complete frame does
  not match, replay drops that frame and every frame after it in the segment, whatever they
  hold, goes on with the next segment, and reports no error.\<close>

theorem replay_drops_after_crc_mismatch:
  assumes "\<forall>q \<in> set ps. fits q" and "fits p" and "c \<noteq> crc p"
    and "map_of d (segment_path s) =
           Some (seg_bytes crc ps @ (encode_header (of_nat (length p)) c @ p) @ rest)"
  shows "replay_all crc \<lparr>ri_dir = d, ri_seqs = s # ss, ri_file = None, ri_seq = s0\<rparr> =
     (let (qs, e) = replay_all crc \<lparr>ri_dir = d, ri_seqs = ss, ri_file = None, ri_seq = s\<rparr>
      in (ps @ qs, e))"
  using assms
  by (simp add: replay_all_segments segment_records_seg_append segment_records_torn
      read_frame_crc_mismatch split: prod.split)

theorem replay_drops_after_crc_mismatch_witness:
  "replay_all (\<lambda>_. 7) \<lparr>ri_dir = [(segment_path 0, seg_bytes (\<lambda>_. 7) [[5]]
       @ (encode_header (of_nat (length [1 :: u8])) 8 @ [1]) @ seg_bytes (\<lambda>_. 7) [[2]])],
     ri_seqs = [0], ri_file = None, ri_seq = 0\<rparr> = ([[5]], None)"
  using replay_drops_after_crc_mismatch [of "[[5]]" "[1]" 8 "\<lambda>_. 7"
      "[(segment_path 0, seg_bytes (\<lambda>_. 7) [[5]]
        @ (encode_header (of_nat (length [1 :: u8])) 8 @ [1]) @ seg_bytes (\<lambda>_. 7) [[2]])]"
      0 "seg_bytes (\<lambda>_. 7) [[2]]" "[]" 0]
  by (simp add: replay_all_segments)

text \<open>A length header beyond the replay limit is refused. Replay yields the frames before it
  and then fails with the segment and the declared length; nothing of any later segment is
  returned.\<close>

lemma replay_oversized_fails:
  assumes "\<forall>q \<in> set ps. fits q" and "len > MAX_REPLAY_FRAME_BYTES"
    and "map_of d (segment_path s) = Some (seg_bytes crc ps @ encode_header len c @ rest)"
  shows "replay_all crc \<lparr>ri_dir = d, ri_seqs = s # ss, ri_file = None, ri_seq = s0\<rparr> =
     (ps, Some (OversizedFrame s len))"
  using assms
  by (simp add: replay_all_segments segment_records_seg_append read_frame_oversized
      segment_records.simps [of crc "encode_header len c @ rest"])

end
