(* ===== verification/Bloom.thy ===== *)
theory Bloom
  imports Block
begin

text \<open>
  The full-text skip index of log blocks: \<^verbatim>\<open>src/crates/block/src/bloom.rs\<close>. A body and a
  pattern are the bytes of their strings. The hash of a gram, a pair of seeded 64-bit
  xxHashes, is the parameter \<open>hash\<close>; the floating point part of the sizing formula is the
  parameter \<open>fp\<close>, a function from the number of grams to the raw bit count and from both
  counts to the raw number of probes, before the code clamps them to at least 1. A panic (an
  index out of range, a remainder by zero) is \<open>None\<close>.
\<close>

unbundle bit_operations_syntax

section \<open>Model\<close>

definition USIZE_MAX :: nat where
  "USIZE_MAX = 2 ^ 64 - 1"

definition MAGIC :: bytes where
  "MAGIC = [0x53, 0x42, 0x4C, 0x4D]"

definition FORMAT_VERSION :: u8 where
  "FORMAT_VERSION = 1"

definition HEADER_LEN :: nat where
  "HEADER_LEN = 4 + 1 + 1 + 4 + 8"

definition BYTES_PER_DISTINCT_GRAM :: nat where
  "BYTES_PER_DISTINCT_GRAM = 40"

type_synonym gram_hash = "bytes \<Rightarrow> u64 \<times> u64"

record float_params =
  fp_bits :: "u64 \<Rightarrow> u64"
  fp_probes :: "u64 \<Rightarrow> u64 \<Rightarrow> u32"

record body_bloom =
  bb_ngram :: u8
  bb_k :: u32
  bb_m_bits :: u64
  bb_bits :: bytes

record body_bloom_builder =
  bd_ngram :: nat
  bd_seen :: "u64 set"
  bd_grams :: "(u64 \<times> u64) list"

text \<open>\<open>slice.windows(n)\<close>\<close>

definition windows :: "nat \<Rightarrow> 'a list \<Rightarrow> 'a list list" where
  "windows n xs = map (\<lambda>i. take n (drop i xs)) [0..<length xs + 1 - n]"

definition builder_new :: "nat \<Rightarrow> body_bloom_builder" where
  "builder_new cfg_ngram = \<lparr>bd_ngram = min (max cfg_ngram 1) 255, bd_seen = {}, bd_grams = []\<rparr>"

fun add_windows ::
  "gram_hash \<Rightarrow> nat \<Rightarrow> bytes list \<Rightarrow> body_bloom_builder \<Rightarrow> bool \<times> body_bloom_builder" where
  "add_windows hash max_bytes [] b = (True, b)"
| "add_windows hash max_bytes (w # ws) b =
     (let (h1, h2) = hash w
      in if h1 \<in> bd_seen b then add_windows hash max_bytes ws b
         else if min USIZE_MAX (min USIZE_MAX (length (bd_grams b) + 1) * BYTES_PER_DISTINCT_GRAM) > max_bytes
         then (False, b)
         else add_windows hash max_bytes ws
                (b\<lparr>bd_seen := insert h1 (bd_seen b), bd_grams := bd_grams b @ [(h1, h2)]\<rparr>))"

definition add_body_bounded ::
  "gram_hash \<Rightarrow> bytes \<Rightarrow> nat \<Rightarrow> body_bloom_builder \<Rightarrow> bool \<times> body_bloom_builder" where
  "add_body_bounded hash body max_bytes b =
     (if length body < bd_ngram b then (True, b)
      else add_windows hash max_bytes (windows (bd_ngram b) body) b)"

definition add_body :: "gram_hash \<Rightarrow> bytes \<Rightarrow> body_bloom_builder \<Rightarrow> body_bloom_builder" where
  "add_body hash body b = snd (add_body_bounded hash body USIZE_MAX b)"

definition estimated_bytes :: "body_bloom_builder \<Rightarrow> nat" where
  "estimated_bytes b = min USIZE_MAX (length (bd_grams b) * BYTES_PER_DISTINCT_GRAM)"

definition optimal_params :: "float_params \<Rightarrow> u64 \<Rightarrow> u64 \<times> u32" where
  "optimal_params fp n =
     (if n = 0 then (1, 1)
      else let m_bits = max (fp_bits fp n) 1; k = fp_probes fp m_bits n in (m_bits, max k 1))"

definition gram_pos :: "u64 \<Rightarrow> u64 \<Rightarrow> u64 \<Rightarrow> nat \<Rightarrow> u64" where
  "gram_pos m_bits h1 h2 i = (h1 + of_nat i * h2) mod m_bits"

fun set_positions :: "u64 list \<Rightarrow> bytes \<Rightarrow> bytes option" where
  "set_positions [] bits = Some bits"
| "set_positions (pos # ps) bits =
     (let j = unat (pos div 8)
      in if j < length bits
         then set_positions ps (bits[j := bits ! j OR push_bit (unat (pos mod 8)) 1])
         else None)"

definition set_gram :: "u64 \<times> u64 \<Rightarrow> body_bloom \<Rightarrow> body_bloom option" where
  "set_gram h b =
     (if bb_m_bits b = 0 \<and> bb_k b \<noteq> 0 then None
      else map_option (\<lambda>bits. b\<lparr>bb_bits := bits\<rparr>)
        (set_positions (map (gram_pos (bb_m_bits b) (fst h) (snd h)) [0..<unat (bb_k b)]) (bb_bits b)))"

fun test_positions :: "u64 list \<Rightarrow> bytes \<Rightarrow> bool option" where
  "test_positions [] bits = Some True"
| "test_positions (pos # ps) bits =
     (let j = unat (pos div 8)
      in if j < length bits
         then (if bits ! j AND push_bit (unat (pos mod 8)) 1 = 0 then Some False
               else test_positions ps bits)
         else None)"

definition test_gram :: "u64 \<times> u64 \<Rightarrow> body_bloom \<Rightarrow> bool option" where
  "test_gram h b =
     (if bb_m_bits b = 0 \<and> bb_k b \<noteq> 0 then None
      else test_positions (map (gram_pos (bb_m_bits b) (fst h) (snd h)) [0..<unat (bb_k b)]) (bb_bits b))"

fun set_grams :: "(u64 \<times> u64) list \<Rightarrow> body_bloom \<Rightarrow> body_bloom option" where
  "set_grams [] b = Some b"
| "set_grams (h # hs) b = (case set_gram h b of None \<Rightarrow> None | Some b' \<Rightarrow> set_grams hs b')"

text \<open>The outer option is the panic, the inner one the returned \<open>Option\<close>.\<close>

definition finish_bounded :: "float_params \<Rightarrow> nat \<Rightarrow> body_bloom_builder \<Rightarrow> body_bloom option option" where
  "finish_bounded fp max_bytes b =
     (let n = of_nat (length (bd_grams b)); (m_bits, k) = optimal_params fp n;
          bit_bytes = (unat m_bits + 7) div 8
      in if min USIZE_MAX (estimated_bytes b + bit_bytes) > max_bytes then Some None
         else map_option Some (set_grams (bd_grams b)
                \<lparr>bb_ngram = of_nat (bd_ngram b), bb_k = k, bb_m_bits = m_bits,
                 bb_bits = replicate bit_bytes 0\<rparr>))"

definition finish :: "float_params \<Rightarrow> body_bloom_builder \<Rightarrow> body_bloom option" where
  "finish fp b = (case finish_bounded fp USIZE_MAX b of Some (Some x) \<Rightarrow> Some x | _ \<Rightarrow> None)"

definition build_from_bodies ::
  "gram_hash \<Rightarrow> float_params \<Rightarrow> bytes list \<Rightarrow> nat \<Rightarrow> body_bloom option" where
  "build_from_bodies hash fp bodies cfg_ngram =
     finish fp (fold (add_body hash) bodies (builder_new cfg_ngram))"

fun test_windows :: "gram_hash \<Rightarrow> body_bloom \<Rightarrow> bytes list \<Rightarrow> bool option" where
  "test_windows hash b [] = Some True"
| "test_windows hash b (w # ws) =
     (case test_gram (hash w) b of
        None \<Rightarrow> None
      | Some present \<Rightarrow> if \<not> present then Some False else test_windows hash b ws)"

definition contains_pattern :: "gram_hash \<Rightarrow> body_bloom \<Rightarrow> bytes \<Rightarrow> bool option" where
  "contains_pattern hash b pattern =
     (let ngram = unat (bb_ngram b)
      in if length pattern < ngram then Some True
         else if ngram = 0 then None
         else test_windows hash b (windows ngram pattern))"

definition byte_len :: "body_bloom \<Rightarrow> nat" where
  "byte_len b = HEADER_LEN + length (bb_bits b)"

definition to_bytes_bounded :: "body_bloom \<Rightarrow> nat \<Rightarrow> bytes option" where
  "to_bytes_bounded b max_bytes =
     (if byte_len b > max_bytes then None
      else Some (MAGIC @ [FORMAT_VERSION] @ [bb_ngram b] @ to_be_bytes (bb_k b)
                   @ to_be_bytes (bb_m_bits b) @ bb_bits b))"

definition to_bytes :: "body_bloom \<Rightarrow> bytes option" where
  "to_bytes b = to_bytes_bounded b USIZE_MAX"

definition from_bytes :: "bytes \<Rightarrow> body_bloom option" where
  "from_bytes buf =
     (if length buf < HEADER_LEN \<or> take 4 buf \<noteq> MAGIC \<or> buf ! 4 \<noteq> FORMAT_VERSION then None
      else
        (let ngram = buf ! 5; k = from_be_bytes (take 4 (drop 6 buf));
             m_bits = from_be_bytes (take 8 (drop 10 buf));
             expected_bytes = (unat (m_bits :: u64) + 7) div 8
         in if length buf < HEADER_LEN + expected_bytes then None
            else Some \<lparr>bb_ngram = ngram, bb_k = k, bb_m_bits = m_bits,
                       bb_bits = take expected_bytes (drop HEADER_LEN buf)\<rparr>))"

section \<open>Windows\<close>

lemma in_windows_iff:
  "0 < n \<Longrightarrow> w \<in> set (windows n xs) \<longleftrightarrow> length w = n \<and> (\<exists>us vs. xs = us @ w @ vs)"
proof
  assume n: "0 < n" and "w \<in> set (windows n xs)"
  then obtain i where i: "i < length xs + 1 - n" "w = take n (drop i xs)"
    by (auto simp: windows_def)
  then have "xs = take i xs @ w @ drop n (drop i xs)" by (simp del: drop_drop)
  with i n show "length w = n \<and> (\<exists>us vs. xs = us @ w @ vs)" by auto
next
  assume n: "0 < n" and "length w = n \<and> (\<exists>us vs. xs = us @ w @ vs)"
  then obtain us vs where "length w = n" "xs = us @ w @ vs" by blast
  then have "w = take n (drop (length us) xs)" "length us < length xs + 1 - n" using n by auto
  then show "w \<in> set (windows n xs)" by (auto simp: windows_def)
qed

lemma windows_of_infix:
  "0 < n \<Longrightarrow> set (windows n ps) \<subseteq> set (windows n (us @ ps @ vs))"
proof
  fix w assume n: "0 < n" and "w \<in> set (windows n ps)"
  then obtain xs ys where "length w = n" "ps = xs @ w @ ys" by (auto simp: in_windows_iff)
  then have "us @ ps @ vs = (us @ xs) @ w @ (ys @ vs)" by simp
  with n \<open>length w = n\<close> show "w \<in> set (windows n (us @ ps @ vs))" unfolding in_windows_iff [OF n] by blast
qed

section \<open>The accumulator\<close>

definition builder_ok :: "body_bloom_builder \<Rightarrow> bool" where
  "builder_ok b \<longleftrightarrow> 1 \<le> bd_ngram b \<and> bd_ngram b \<le> 255 \<and> bd_seen b = fst ` set (bd_grams b)"

lemma builder_ok_new [simp]: "builder_ok (builder_new n)"
  by (simp add: builder_ok_def builder_new_def)

lemma add_windows_Cons:
  "hash w = (h1, h2) \<Longrightarrow> add_windows hash mx (w # ws) b =
     (if h1 \<in> bd_seen b then add_windows hash mx ws b
      else if estimated_bytes (b\<lparr>bd_grams := bd_grams b @ [(h1, h2)]\<rparr>) > mx then (False, b)
      else add_windows hash mx ws
             (b\<lparr>bd_seen := insert h1 (bd_seen b), bd_grams := bd_grams b @ [(h1, h2)]\<rparr>))"
proof -
  have "min USIZE_MAX (min USIZE_MAX (length (bd_grams b) + 1) * BYTES_PER_DISTINCT_GRAM) =
      estimated_bytes (b\<lparr>bd_grams := bd_grams b @ [(h1, h2)]\<rparr>)"
    by (simp add: estimated_bytes_def USIZE_MAX_def BYTES_PER_DISTINCT_GRAM_def min_def)
  then show "hash w = (h1, h2) \<Longrightarrow> ?thesis" by (simp only: add_windows.simps Let_def prod.case)
qed

declare add_windows.simps(2) [simp del]

lemma add_windows_spec:
  "add_windows hash mx ws b = (ok, b') \<Longrightarrow> builder_ok b \<Longrightarrow>
     builder_ok b' \<and> bd_ngram b' = bd_ngram b \<and> set (bd_grams b) \<subseteq> set (bd_grams b') \<and>
     set (bd_grams b') \<subseteq> set (bd_grams b) \<union> hash ` set ws \<and>
     (ok \<longrightarrow> fst ` hash ` set ws \<subseteq> bd_seen b')"
proof (induction ws arbitrary: b)
  case (Cons w ws)
  obtain h1 h2 where h: "hash w = (h1, h2)" by force
  let ?b = "b\<lparr>bd_seen := insert h1 (bd_seen b), bd_grams := bd_grams b @ [(h1, h2)]\<rparr>"
  have ok': "builder_ok ?b" using Cons.prems(2) by (simp add: builder_ok_def)
  note run = Cons.prems(1) [unfolded add_windows_Cons [of hash w, OF h]]
  consider (seen) "h1 \<in> bd_seen b" "add_windows hash mx ws b = (ok, b')"
    | (full) "b' = b" "\<not> ok"
    | (new) "add_windows hash mx ws ?b = (ok, b')"
  proof (cases "h1 \<in> bd_seen b")
    case True
    with run that(1) show thesis by simp
  next
    case False
    show thesis
    proof (cases "estimated_bytes (b\<lparr>bd_grams := bd_grams b @ [(h1, h2)]\<rparr>) > mx")
      case True
      with run False that(2) show thesis by simp
    next
      case small: False
      have "add_windows hash mx ws ?b = (ok, b')"
        using run unfolding if_not_P [OF False] if_not_P [OF small] .
      then show thesis by (rule that(3))
    qed
  qed
  then show ?case
  proof cases
    case seen
    note * = Cons.IH [OF seen(2) Cons.prems(2)]
    then have "h1 \<in> bd_seen b'" using seen(1) Cons.prems(2) unfolding builder_ok_def by blast
    with * h show ?thesis by auto
  next
    case full
    with Cons.prems(2) show ?thesis by blast
  next
    case new
    note * = Cons.IH [OF new ok']
    then have "(h1, h2) \<in> set (bd_grams b')" by simp
    with * have "h1 \<in> bd_seen b'" unfolding builder_ok_def by (metis fst_conv imageI)
    with * h show ?thesis by simp
  qed
qed auto

lemma add_windows_unbounded: "fst (add_windows hash USIZE_MAX ws b)"
proof (induction ws arbitrary: b)
  case (Cons w ws)
  obtain h1 h2 where h: "hash w = (h1, h2)" by force
  with Cons show ?case by (simp add: add_windows_Cons estimated_bytes_def)
qed simp

lemma add_windows_bounded:
  "add_windows hash mx ws b = (ok, b') \<Longrightarrow> estimated_bytes b \<le> mx \<Longrightarrow> estimated_bytes b' \<le> mx"
proof (induction ws arbitrary: b)
  case (Cons w ws)
  obtain h1 h2 where h: "hash w = (h1, h2)" by force
  have upd: "estimated_bytes (b\<lparr>bd_seen := S, bd_grams := g\<rparr>) = estimated_bytes (b\<lparr>bd_grams := g\<rparr>)" for S g
    by (simp add: estimated_bytes_def)
  from Cons show ?case by (auto simp: add_windows_Cons [of hash w, OF h] upd not_less split: if_splits)
qed simp

section \<open>The bit array\<close>

definition bit_on :: "bytes \<Rightarrow> u64 \<Rightarrow> bool" where
  "bit_on bits pos \<longleftrightarrow> bit (bits ! unat (pos div 8)) (unat (pos mod 8))"

definition in_range :: "bytes \<Rightarrow> u64 \<Rightarrow> bool" where
  "in_range bits pos \<longleftrightarrow> unat (pos div 8) < length bits"

lemma unat_mod_8: "unat (pos mod 8 :: u64) < 8"
  by (simp add: unat_mod)

lemma pos_eq_iff: "(pos :: u64) = p \<longleftrightarrow> unat (pos div 8) = unat (p div 8) \<and> unat (pos mod 8) = unat (p mod 8)"
proof
  assume "unat (pos div 8) = unat (p div 8) \<and> unat (pos mod 8) = unat (p mod 8)"
  then have "unat pos div 8 = unat p div 8" "unat pos mod 8 = unat p mod 8"
    by (simp_all add: unat_div unat_mod)
  then have "unat pos = unat p" by (metis div_mult_mod_eq)
  then show "pos = p" by (rule unsigned_word_eqI)
qed simp

lemma bit_on_update:
  assumes "in_range bits pos" and "in_range bits p"
  shows "bit_on (bits[unat (pos div 8) := bits ! unat (pos div 8) OR push_bit (unat (pos mod 8)) 1]) p
           \<longleftrightarrow> bit_on bits p \<or> p = pos"
  using assms unat_mod_8 [of pos]
  by (auto simp: bit_on_def in_range_def nth_list_update bit_or_iff bit_exp_iff pos_eq_iff [of p])

lemma set_positions_spec:
  "list_all (in_range bits) ps \<Longrightarrow>
     \<exists>bits'. set_positions ps bits = Some bits' \<and> length bits' = length bits \<and>
       (\<forall>p. in_range bits p \<longrightarrow> bit_on bits' p \<longleftrightarrow> bit_on bits p \<or> p \<in> set ps)"
proof (induction ps arbitrary: bits)
  case (Cons pos ps)
  define b1 where "b1 = bits[unat (pos div 8) := bits ! unat (pos div 8) OR push_bit (unat (pos mod 8)) 1]"
  have range: "in_range b1 = in_range bits" "length b1 = length bits"
    by (auto simp: in_range_def b1_def)
  with Cons.prems have "list_all (in_range b1) ps" by simp
  from Cons.IH [OF this] obtain bits' where *: "set_positions ps b1 = Some bits'" "length bits' = length bits"
    "\<forall>p. in_range bits p \<longrightarrow> bit_on bits' p \<longleftrightarrow> bit_on b1 p \<or> p \<in> set ps" unfolding range by blast
  have pos: "in_range bits pos" using Cons.prems by simp
  then have "set_positions (pos # ps) bits = Some bits'"
    using *(1) unfolding in_range_def b1_def set_positions.simps Let_def by simp
  with * bit_on_update [OF pos, folded b1_def] show ?case by auto
qed simp

lemma test_positions_iff:
  "list_all (in_range bits) ps \<Longrightarrow> test_positions ps bits = Some (\<forall>p \<in> set ps. bit_on bits p)"
proof (induction ps)
  case (Cons pos ps)
  have "bits ! unat (pos div 8) AND push_bit (unat (pos mod 8)) 1 = 0 \<longleftrightarrow> \<not> bit_on bits pos"
    by (simp add: bit_on_def push_bit_eq_mult and_exp_eq_0_iff_not_bit)
  with Cons show ?case by (auto simp: in_range_def Let_def)
qed simp

definition bloom_ok :: "body_bloom \<Rightarrow> bool" where
  "bloom_ok b \<longleftrightarrow> 1 \<le> bb_m_bits b \<and> length (bb_bits b) = (unat (bb_m_bits b) + 7) div 8"

definition gram_positions :: "body_bloom \<Rightarrow> u64 \<times> u64 \<Rightarrow> u64 list" where
  "gram_positions b h = map (gram_pos (bb_m_bits b) (fst h) (snd h)) [0..<unat (bb_k b)]"

lemma one_le_word: "1 \<le> (m :: u64) \<longleftrightarrow> 0 < unat m"
  by (metis One_nat_def Suc_le_eq unat_1 word_le_nat_alt)

lemma gram_positions_in_range:
  assumes "bloom_ok b"
  shows "list_all (in_range (bb_bits b)) (gram_positions b h)"
proof -
  have m: "0 < unat (bb_m_bits b)" using assms by (simp add: bloom_ok_def one_le_word)
  have "in_range (bb_bits b) (gram_pos (bb_m_bits b) h1 h2 i)" for h1 h2 i
  proof -
    have "unat (gram_pos (bb_m_bits b) h1 h2 i) < unat (bb_m_bits b)"
      using m by (simp add: gram_pos_def unat_mod)
    then have "unat (gram_pos (bb_m_bits b) h1 h2 i) div 8 < (unat (bb_m_bits b) + 7) div 8" by linarith
    then show ?thesis using assms by (simp add: in_range_def bloom_ok_def unat_div)
  qed
  then show ?thesis by (simp add: gram_positions_def list_all_iff)
qed

lemma set_gram_spec:
  assumes "bloom_ok b"
  shows "\<exists>b'. set_gram h b = Some b' \<and> bloom_ok b' \<and> bb_ngram b' = bb_ngram b \<and> bb_k b' = bb_k b \<and>
      bb_m_bits b' = bb_m_bits b \<and>
      (\<forall>p. in_range (bb_bits b) p \<longrightarrow> bit_on (bb_bits b') p \<longleftrightarrow> bit_on (bb_bits b) p \<or> p \<in> set (gram_positions b h))"
proof -
  have "bb_m_bits b \<noteq> 0" using assms by (auto simp: bloom_ok_def)
  with set_positions_spec [OF gram_positions_in_range [OF assms, of h]] assms show ?thesis
    by (auto simp: set_gram_def gram_positions_def bloom_ok_def)
qed

lemma test_gram_iff:
  "bloom_ok b \<Longrightarrow> test_gram h b = Some (\<forall>p \<in> set (gram_positions b h). bit_on (bb_bits b) p)"
  using test_positions_iff [OF gram_positions_in_range, of b h]
  by (auto simp: test_gram_def gram_positions_def bloom_ok_def)

lemma set_grams_spec:
  "bloom_ok b \<Longrightarrow> \<exists>b'. set_grams hs b = Some b' \<and> bloom_ok b' \<and> bb_ngram b' = bb_ngram b \<and>
     bb_k b' = bb_k b \<and> bb_m_bits b' = bb_m_bits b \<and>
     (\<forall>p. in_range (bb_bits b) p \<longrightarrow>
        bit_on (bb_bits b') p \<longleftrightarrow> bit_on (bb_bits b) p \<or> (\<exists>h \<in> set hs. p \<in> set (gram_positions b h)))"
proof (induction hs arbitrary: b)
  case (Cons h hs)
  from set_gram_spec [OF Cons.prems, of h] obtain b1 where b1: "set_gram h b = Some b1" "bloom_ok b1"
    "bb_ngram b1 = bb_ngram b" "bb_k b1 = bb_k b" "bb_m_bits b1 = bb_m_bits b"
    "\<forall>p. in_range (bb_bits b) p \<longrightarrow> bit_on (bb_bits b1) p \<longleftrightarrow> bit_on (bb_bits b) p \<or> p \<in> set (gram_positions b h)"
    by blast
  have pos: "gram_positions b1 = gram_positions b" by (rule ext) (simp add: gram_positions_def b1)
  have "length (bb_bits b1) = length (bb_bits b)" using b1(2,5) Cons.prems by (simp add: bloom_ok_def)
  then have range: "in_range (bb_bits b1) = in_range (bb_bits b)" by (intro ext) (simp add: in_range_def)
  from Cons.IH [OF b1(2)] b1 show ?case by (auto simp: pos range)
qed simp

section \<open>Building and probing\<close>

lemma add_body_bounded_eq: "add_body_bounded hash body mx b = add_windows hash mx (windows (bd_ngram b) body) b"
  by (simp add: add_body_bounded_def windows_def)

definition grams_of :: "nat \<Rightarrow> bytes set \<Rightarrow> bytes set" where
  "grams_of n bodies = (\<Union>body \<in> bodies. set (windows n body))"

definition collision_free :: "gram_hash \<Rightarrow> bytes set \<Rightarrow> bool" where
  "collision_free hash W \<longleftrightarrow> (\<forall>x \<in> W. \<forall>y \<in> W. fst (hash x) = fst (hash y) \<longrightarrow> hash x = hash y)"

definition indexed :: "gram_hash \<Rightarrow> body_bloom_builder \<Rightarrow> bytes \<Rightarrow> bool" where
  "indexed hash b body \<longleftrightarrow> fst ` hash ` set (windows (bd_ngram b) body) \<subseteq> bd_seen b"

lemma add_body_bounded_spec:
  assumes "builder_ok b" and "add_body_bounded hash body mx b = (ok, b')"
  shows "builder_ok b'" and "bd_ngram b' = bd_ngram b" and "set (bd_grams b) \<subseteq> set (bd_grams b')"
    and "set (bd_grams b') \<subseteq> set (bd_grams b) \<union> hash ` set (windows (bd_ngram b) body)" and "ok \<Longrightarrow> indexed hash b' body"
    and "indexed hash b body' \<Longrightarrow> indexed hash b' body'"
proof -
  note spec = add_windows_spec [OF assms(2) [unfolded add_body_bounded_eq] assms(1)]
  from spec show "builder_ok b'" and ngram: "bd_ngram b' = bd_ngram b" and grams: "set (bd_grams b) \<subseteq> set (bd_grams b')"
    and "set (bd_grams b') \<subseteq> set (bd_grams b) \<union> hash ` set (windows (bd_ngram b) body)"
    and "ok \<Longrightarrow> indexed hash b' body"
    by (auto simp: indexed_def)
  have "bd_seen b \<subseteq> bd_seen b'" using spec assms(1) grams unfolding builder_ok_def by auto
  with ngram show "indexed hash b body' \<Longrightarrow> indexed hash b' body'" by (auto simp: indexed_def)
qed

lemma add_bodies_spec:
  assumes "builder_ok b" and "set (bd_grams b) \<subseteq> hash ` W" and "grams_of (bd_ngram b) (set bodies) \<subseteq> W"
  shows "builder_ok (fold (add_body hash) bodies b) \<and>
     bd_ngram (fold (add_body hash) bodies b) = bd_ngram b \<and>
     set (bd_grams (fold (add_body hash) bodies b)) \<subseteq> hash ` W \<and>
     (\<forall>body. indexed hash b body \<or> body \<in> set bodies \<longrightarrow> indexed hash (fold (add_body hash) bodies b) body)"
  using assms
proof (induction bodies arbitrary: b)
  case (Cons body bodies)
  obtain ok b' where b': "add_body_bounded hash body USIZE_MAX b = (ok, b')" by force
  then have ok: "ok" using add_windows_unbounded [of hash "windows (bd_ngram b) body" b]
    by (simp add: add_body_bounded_eq)
  note spec = add_body_bounded_spec [OF Cons.prems(1) b']
  have step: "add_body hash body b = b'" by (simp add: add_body_def b')
  have "set (windows (bd_ngram b) body) \<subseteq> W" using Cons.prems(3) by (auto simp: grams_of_def)
  then have "set (bd_grams b') \<subseteq> hash ` W" using spec(4) Cons.prems(2) by blast
  moreover have "grams_of (bd_ngram b') (set bodies) \<subseteq> W" using spec(2) Cons.prems(3) by (auto simp: grams_of_def)
  ultimately show ?case
    using Cons.IH [OF spec(1)] spec(2) spec(5) [OF ok] spec(6) by (simp add: step)
qed simp

lemma optimal_params_pos: "optimal_params fp n = (m, k) \<Longrightarrow> 1 \<le> m \<and> 1 \<le> k"
  by (auto simp: optimal_params_def Let_def split: if_splits)

lemma finish_bounded_spec:
  assumes "builder_ok b"
  shows "\<exists>r. finish_bounded fp mx b = Some r \<and>
     (r = None \<longleftrightarrow> mx < min USIZE_MAX (estimated_bytes b +
        (unat (fst (optimal_params fp (of_nat (length (bd_grams b))))) + 7) div 8)) \<and>
     (\<forall>bloom. r = Some bloom \<longrightarrow> bloom_ok bloom \<and> unat (bb_ngram bloom) = bd_ngram b \<and>
        (\<forall>h \<in> set (bd_grams b). test_gram h bloom = Some True))"
proof -
  obtain m k where mk: "optimal_params fp (of_nat (length (bd_grams b))) = (m, k)" by force
  let ?z = "\<lparr>bb_ngram = of_nat (bd_ngram b), bb_k = k, bb_m_bits = m, bb_bits = replicate ((unat m + 7) div 8) 0\<rparr>"
  have z: "bloom_ok ?z" using optimal_params_pos [OF mk] by (simp add: bloom_ok_def)
  from set_grams_spec [OF z, of "bd_grams b"] obtain b' where b': "set_grams (bd_grams b) ?z = Some b'"
    "bloom_ok b'" "bb_ngram b' = of_nat (bd_ngram b)" "bb_k b' = k" "bb_m_bits b' = m"
    "\<forall>p. in_range (bb_bits ?z) p \<longrightarrow>
        bit_on (bb_bits b') p \<longleftrightarrow> bit_on (bb_bits ?z) p \<or> (\<exists>h \<in> set (bd_grams b). p \<in> set (gram_positions ?z h))"
    by auto
  have pos: "gram_positions b' = gram_positions ?z" by (rule ext) (simp add: gram_positions_def b')
  have "test_gram h b' = Some True" if "h \<in> set (bd_grams b)" for h
    using b'(6) that gram_positions_in_range [OF z, of h]
    by (auto simp: test_gram_iff [OF b'(2)] pos list_all_iff)
  moreover have "unat (bb_ngram b') = bd_ngram b"
    using assms b'(3) by (simp add: builder_ok_def unat_of_nat)
  ultimately show ?thesis using b'(1,2) by (auto simp: finish_bounded_def mk Let_def)
qed

lemma test_windows_True:
  "(\<And>w. w \<in> set ws \<Longrightarrow> test_gram (hash w) b = Some True) \<Longrightarrow> test_windows hash b ws = Some True"
  by (induction ws) auto

lemma indexed_probe:
  assumes inj: "collision_free hash W"
    and ok: "builder_ok b" and grams: "set (bd_grams b) \<subseteq> hash ` W"
    and W: "set (windows (bd_ngram b) (us @ pat @ vs)) \<subseteq> W"
    and fin: "finish_bounded fp mx b = Some (Some bloom)"
    and body: "indexed hash b (us @ pat @ vs)"
  shows "contains_pattern hash bloom pat = Some True"
proof -
  from finish_bounded_spec [OF ok, of fp mx] fin have n: "unat (bb_ngram bloom) = bd_ngram b"
    and set: "\<forall>h \<in> set (bd_grams b). test_gram h bloom = Some True" by auto
  have pos: "0 < bd_ngram b" using ok by (simp add: builder_ok_def)
  have "test_gram (hash w) bloom = Some True" if w: "w \<in> set (windows (bd_ngram b) pat)" for w
  proof -
    have w': "w \<in> set (windows (bd_ngram b) (us @ pat @ vs))" using w windows_of_infix [OF pos, of pat us vs] by blast
    then have "fst (hash w) \<in> bd_seen b" using body by (auto simp: indexed_def)
    then obtain h where h: "h \<in> set (bd_grams b)" "fst h = fst (hash w)"
      using ok by (auto simp: builder_ok_def)
    have "w \<in> W" using w' W by blast
    moreover obtain x where "x \<in> W" "h = hash x" using h(1) grams by blast
    ultimately have "h = hash w" using h(2) inj unfolding collision_free_def by blast
    with set h show ?thesis by auto
  qed
  with test_windows_True pos show ?thesis by (simp add: contains_pattern_def n Let_def)
qed

section \<open>Reading a sidecar back\<close>

lemma byte_len_small: "bloom_ok b \<Longrightarrow> byte_len b \<le> USIZE_MAX"
  using unat_le_mask [of "bb_m_bits b"] by (simp add: byte_len_def bloom_ok_def HEADER_LEN_def USIZE_MAX_def)

lemma to_bytes_bounded_read:
  assumes "bloom_ok b" and "to_bytes_bounded b mx = Some bs"
  shows "from_bytes (bs @ rest) = Some b" and "length bs = byte_len b"
proof -
  have len: "length (bb_bits b) = (unat (bb_m_bits b) + 7) div 8" using assms(1) by (simp add: bloom_ok_def)
  have bs: "bs = MAGIC @ [FORMAT_VERSION] @ [bb_ngram b] @ to_be_bytes (bb_k b) @ to_be_bytes (bb_m_bits b) @ bb_bits b"
    using assms(2) by (simp add: to_bytes_bounded_def split: if_splits)
  show "length bs = byte_len b" by (simp add: bs byte_len_def HEADER_LEN_def MAGIC_def)
  show "from_bytes (bs @ rest) = Some b"
    by (simp add: bs from_bytes_def HEADER_LEN_def MAGIC_def FORMAT_VERSION_def len Let_def)
qed

section \<open>Properties\<close>

text \<open>C23: no false negatives. When no two different grams of the bodies agree on the first hash
  without agreeing on the second, building the index never panics, and every byte string that
  occurs in one of the bodies is reported as possibly present, whatever the sizing formula gives:
  skipping a block on the answer \<open>false\<close> never skips a match.\<close>

theorem bloom_no_false_negatives:
  assumes "collision_free hash (grams_of (bd_ngram (builder_new n)) (set bodies))"
    and "us @ pat @ vs \<in> set bodies"
  shows "\<exists>bloom. build_from_bodies hash fp bodies n = Some bloom \<and> bloom_ok bloom \<and>
     contains_pattern hash bloom pat = Some True"
proof -
  let ?b = "fold (add_body hash) bodies (builder_new n)" and ?W = "grams_of (bd_ngram (builder_new n)) (set bodies)"
  have "set (bd_grams (builder_new n)) \<subseteq> hash ` ?W" by (simp add: builder_new_def)
  from add_bodies_spec [OF builder_ok_new this subset_refl] assms(2)
  have b: "builder_ok ?b" "set (bd_grams ?b) \<subseteq> hash ` ?W" "bd_ngram ?b = bd_ngram (builder_new n)"
    "indexed hash ?b (us @ pat @ vs)" by auto
  have "set (windows (bd_ngram ?b) (us @ pat @ vs)) \<subseteq> ?W" using assms(2) b(3) by (auto simp: grams_of_def)
  note probe = indexed_probe [OF assms(1) b(1,2) this _ b(4)]
  from finish_bounded_spec [OF b(1), of fp USIZE_MAX] obtain bloom where
    bloom: "finish_bounded fp USIZE_MAX ?b = Some (Some bloom)" "bloom_ok bloom" by auto
  from probe [OF bloom(1)] bloom show ?thesis by (simp add: build_from_bodies_def finish_def)
qed

theorem bloom_no_false_negatives_witness:
  "\<exists>bloom. build_from_bodies (\<lambda>g. (of_nat (be_value g), of_nat (be_value g)))
       \<lparr>fp_bits = (\<lambda>_. 64), fp_probes = (\<lambda>_ _. 3)\<rparr> [[9], [1, 2, 3, 4]] 3 = Some bloom \<and>
     contains_pattern (\<lambda>g. (of_nat (be_value g), of_nat (be_value g))) bloom [2, 3, 4] = Some True"
proof -
  let ?h = "\<lambda>g. (of_nat (be_value g), of_nat (be_value g))"
  have "[1] @ [2, 3, 4] @ [] \<in> set [[9], [1, 2, 3, 4]]" by simp
  from bloom_no_false_negatives [where hash = ?h, OF _ this] show ?thesis by (auto simp: collision_free_def)
qed

text \<open>The sidecar round trip. Every well-formed index is serialised, into as many bytes as
  announced, and reading these bytes back gives the same index, also when more bytes follow.\<close>

lemma bloom_roundtrip:
  assumes "bloom_ok b"
  shows "\<exists>bs. to_bytes b = Some bs \<and> length bs = byte_len b \<and> from_bytes (bs @ rest) = Some b"
proof -
  obtain bs where bs: "to_bytes_bounded b USIZE_MAX = Some bs"
    using byte_len_small [OF assms] by (simp add: to_bytes_bounded_def)
  from to_bytes_bounded_read [OF assms bs] bs show ?thesis by (simp add: to_bytes_def)
qed

lemma add_windows_seen: "fst ` hash ` set ws \<subseteq> bd_seen b \<Longrightarrow> add_windows hash mx ws b = (True, b)"
proof (induction ws)
  case (Cons w ws)
  obtain h1 h2 where h: "hash w = (h1, h2)" by force
  with Cons show ?case by (simp add: add_windows_Cons [of hash w, OF h])
qed simp

text \<open>C39: grams are deduplicated on the first hash alone. Whatever the hash function and the sizing, a
  body each of whose grams agrees on the first hash with some gram of the bodies before it leaves the
  index as it was, also when the second hashes differ: its own probe positions are never set, and a
  probe for it is answered from the bits of the other bodies.\<close>

theorem bloom_collision_drops_body:
  assumes "\<forall>g \<in> grams_of (bd_ngram (builder_new n)) {body}.
      \<exists>g' \<in> grams_of (bd_ngram (builder_new n)) (set bodies). fst (hash g') = fst (hash g)"
  shows "build_from_bodies hash fp (bodies @ [body]) n = build_from_bodies hash fp bodies n"
proof -
  let ?b = "fold (add_body hash) bodies (builder_new n)" and ?W = "grams_of (bd_ngram (builder_new n)) (set bodies)"
  have "set (bd_grams (builder_new n)) \<subseteq> hash ` ?W" by (simp add: builder_new_def)
  from add_bodies_spec [OF builder_ok_new this subset_refl]
  have b: "bd_ngram ?b = bd_ngram (builder_new n)" "\<forall>x \<in> set bodies. indexed hash ?b x" by auto
  then have "fst ` hash ` ?W \<subseteq> bd_seen ?b" by (auto simp: grams_of_def indexed_def)
  moreover have "fst ` hash ` set (windows (bd_ngram ?b) body) \<subseteq> fst ` hash ` ?W"
  proof
    fix h assume "h \<in> fst ` hash ` set (windows (bd_ngram ?b) body)"
    then obtain g where "g \<in> set (windows (bd_ngram ?b) body)" "h = fst (hash g)" by auto
    then obtain g' where "g' \<in> ?W" "fst (hash g') = h" using assms b(1) by (fastforce simp: grams_of_def)
    then show "h \<in> fst ` hash ` ?W" by blast
  qed
  ultimately have "add_body hash body ?b = ?b" by (simp add: add_body_def add_body_bounded_eq add_windows_seen)
  then show ?thesis by (simp add: build_from_bodies_def)
qed

text \<open>A false negative: the grams \<open>[1]\<close> and \<open>[2]\<close> share the first hash only, and the indexed body \<open>[2]\<close> is
  reported as certainly absent.\<close>

definition shared_first_hash :: gram_hash where
  "shared_first_hash g = (0, if g = [1] then 0 else 1)"

definition eight_bits :: float_params where
  "eight_bits = \<lparr>fp_bits = (\<lambda>_. 8), fp_probes = (\<lambda>_ _. 2)\<rparr>"

theorem bloom_collision_drops_body_witness:
  "\<exists>bloom. build_from_bodies shared_first_hash eight_bits ([[1]] @ [[2]]) 1 = Some bloom \<and>
     contains_pattern shared_first_hash bloom [2] = Some False"
proof -
  have one: "bd_ngram (builder_new 1) = 1" by (simp add: builder_new_def)
  have "build_from_bodies shared_first_hash eight_bits ([[1]] @ [[2]]) 1 = build_from_bodies shared_first_hash eight_bits [[1]] 1"
    by (rule bloom_collision_drops_body) (simp add: one grams_of_def windows_def shared_first_hash_def)
  also have "\<dots> = Some \<lparr>bb_ngram = 1, bb_k = 2, bb_m_bits = 8, bb_bits = [1]\<rparr>"
    by (simp add: build_from_bodies_def builder_new_def add_body_def add_body_bounded_def windows_def shared_first_hash_def
        eight_bits_def add_windows.simps(2) finish_def finish_bounded_def optimal_params_def estimated_bytes_def
        set_gram_def gram_pos_def USIZE_MAX_def BYTES_PER_DISTINCT_GRAM_def Let_def upt_rec)
  finally have "build_from_bodies shared_first_hash eight_bits ([[1]] @ [[2]]) 1 = Some \<lparr>bb_ngram = 1, bb_k = 2, bb_m_bits = 8, bb_bits = [1]\<rparr>" .
  moreover have "contains_pattern shared_first_hash \<lparr>bb_ngram = 1, bb_k = 2, bb_m_bits = 8, bb_bits = [1]\<rparr> [2] = Some False"
    by code_simp
  ultimately show ?thesis by blast
qed

lemma from_bytes_bits: "from_bytes buf = Some b \<Longrightarrow> length (bb_bits b) = (unat (bb_m_bits b) + 7) div 8"
  by (auto simp: from_bytes_def Let_def split: if_splits)

lemma test_windows_None:
  "ws \<noteq> [] \<Longrightarrow> \<forall>w \<in> set ws. test_gram (hash w) b = None \<Longrightarrow> test_windows hash b ws = None"
  by (cases ws) auto

lemma test_windows_Some: "\<forall>w \<in> set ws. test_gram (hash w) b \<noteq> None \<Longrightarrow> test_windows hash b ws \<noteq> None"
  by (induction ws) auto

text \<open>C40: when a probe of a sidecar panics. For every byte string that is read back as an index and every
  pattern, the probe panics exactly if the pattern is not shorter than the gram length and the header
  has gram length zero, or no bits and a positive number of probes. Such headers are not rejected: one
  without bits is read back whatever its other fields and the bytes behind it are.\<close>

theorem bloom_probe_panics_iff:
  assumes "from_bytes buf = Some b"
  shows "(contains_pattern hash b pat = None \<longleftrightarrow>
       unat (bb_ngram b) \<le> length pat \<and> (bb_ngram b = 0 \<or> bb_m_bits b = 0 \<and> bb_k b \<noteq> 0)) \<and>
     from_bytes (MAGIC @ [FORMAT_VERSION, ngram] @ to_be_bytes k @ to_be_bytes (0 :: u64) @ rest) =
       Some \<lparr>bb_ngram = ngram, bb_k = k, bb_m_bits = 0, bb_bits = []\<rparr>"
proof -
  let ?n = "unat (bb_ngram b)"
  have "contains_pattern hash b pat = None \<longleftrightarrow> ?n \<le> length pat \<and> (bb_ngram b = 0 \<or> bb_m_bits b = 0 \<and> bb_k b \<noteq> 0)"
  proof (cases "?n \<le> length pat \<and> bb_ngram b \<noteq> 0")
    case True
    then have run: "contains_pattern hash b pat = test_windows hash b (windows ?n pat)"
      by (simp add: contains_pattern_def unat_eq_0 Let_def)
    have ne: "windows ?n pat \<noteq> []" using True by (simp add: windows_def)
    show ?thesis
    proof (cases "bb_m_bits b = 0 \<and> bb_k b \<noteq> 0")
      case zero: True
      then show ?thesis using True ne by (simp add: run test_windows_None test_gram_def)
    next
      case False
      have "test_gram h b \<noteq> None" for h
      proof (cases "bb_m_bits b = 0")
        case True
        with False show ?thesis by (simp add: test_gram_def)
      next
        case nz: False
        then have "bloom_ok b" using from_bytes_bits [OF assms] by (simp add: bloom_ok_def one_le_word unat_gt_0)
        then show ?thesis by (simp add: test_gram_iff)
      qed
      then show ?thesis using True False by (simp add: run test_windows_Some)
    qed
  qed (auto simp: contains_pattern_def Let_def)
  moreover have "from_bytes (MAGIC @ [FORMAT_VERSION, ngram] @ to_be_bytes k @ to_be_bytes (0 :: u64) @ rest) =
       Some \<lparr>bb_ngram = ngram, bb_k = k, bb_m_bits = 0, bb_bits = []\<rparr>"
    by (simp add: from_bytes_def HEADER_LEN_def MAGIC_def FORMAT_VERSION_def Let_def)
  ultimately show ?thesis by blast
qed

theorem bloom_probe_panics_iff_witness:
  "\<exists>b. from_bytes (MAGIC @ [FORMAT_VERSION, 1] @ to_be_bytes (1 :: u32) @ to_be_bytes (0 :: u64) @ []) = Some b \<and>
     contains_pattern (\<lambda>_. (0, 0)) b [97] = None"
proof -
  let ?b = "\<lparr>bb_ngram = 1, bb_k = 1, bb_m_bits = 0, bb_bits = []\<rparr>"
  let ?buf = "MAGIC @ [FORMAT_VERSION, 1] @ to_be_bytes (1 :: u32) @ to_be_bytes (0 :: u64) @ []"
  have "from_bytes ?buf = Some ?b" by (simp add: from_bytes_def HEADER_LEN_def MAGIC_def FORMAT_VERSION_def Let_def)
  with bloom_probe_panics_iff [OF this, of "\<lambda>_. (0, 0)" "[97]"] show ?thesis by simp
qed

end
