(* ===== verification/Compact_Resources.thy ===== *)
theory Compact_Resources
  imports Scry_Prelude
begin

text \<open>
  The process-wide memory envelope of compaction: \<^verbatim>\<open>src/crates/compact/src/resource.rs\<close>.
  \<open>usize\<close> is a 64-bit word. The weighted semaphore of the asynchronous runtime is a parameter,
  a predicate \<open>grant\<close> that tells whether a request gets its permits while the permits of
  some other requests are out; one call of \<open>admit\<close> is two atomic parts, before and after
  the wait, so that calls of concurrent merges interleave there. DataFusion's memory pool and
  disk manager appear in the telemetry as the numbers they report.
\<close>

section \<open>Configuration\<close>

definition MIB :: u64 where
  "MIB = 1024 * 1024"

record resource_config =
  rc_envelope_bytes :: u64
  rc_datafusion_memory_bytes :: u64
  rc_non_datafusion_memory_bytes :: u64
  rc_spill_bytes :: u64
  rc_spill_page_cache_headroom_bytes :: u64
  rc_spill_dir :: "string option"
  rc_allow_memory_backed_spill :: bool
  rc_output_buffer_bytes :: u64
  rc_parquet_writer_memory_bytes :: u64
  rc_max_waiters :: u64
  rc_admission_timeout_secs :: u64

datatype resource_error =
    InvalidConfig string
  | MemoryBackedSpill string
  | Runtime
  | DataFusionExhausted
  | RequestTooLarge u64 u64
  | SidecarLimit string u64
  | QueueFull u64
  | AdmissionTimeout nat
  | Closed

definition merge_fixed_bytes :: "resource_config \<Rightarrow> u64" where
  "merge_fixed_bytes c =
     sat_add (sat_add (rc_output_buffer_bytes c) (rc_parquet_writer_memory_bytes c)) (8 * MIB)"

definition from_envelope :: "u64 \<Rightarrow> resource_config" where
  "from_envelope envelope =
     \<lparr>rc_envelope_bytes = envelope,
      rc_datafusion_memory_bytes = max (envelope div 2) (64 * MIB),
      rc_non_datafusion_memory_bytes = max (envelope div 4) (32 * MIB),
      rc_spill_bytes = max (sat_mul envelope 4) (1024 * MIB),
      rc_spill_page_cache_headroom_bytes = envelope div 8,
      rc_spill_dir = None, rc_allow_memory_backed_spill = False,
      rc_output_buffer_bytes = 8 * MIB, rc_parquet_writer_memory_bytes = 16 * MIB,
      rc_max_waiters = 32, rc_admission_timeout_secs = 30\<rparr>"

definition bytes_to_units :: "u64 \<Rightarrow> u64" where
  "bytes_to_units n = sat_add n (MIB - 1) div MIB"

definition bytes_to_capacity_units :: "u64 \<Rightarrow> u64" where
  "bytes_to_capacity_units n = n div MIB"

definition U32_MAX :: u64 where
  "U32_MAX = 0xFFFFFFFF"

definition resource_config_validate :: "resource_config \<Rightarrow> resource_error + unit" where
  "resource_config_validate c =
     (if rc_envelope_bytes c < 128 * MIB then Inl (InvalidConfig ''envelope'')
      else if rc_datafusion_memory_bytes c = 0 \<or> rc_datafusion_memory_bytes c > - 1
      then Inl (InvalidConfig ''datafusion memory'')
      else if rc_non_datafusion_memory_bytes c < MIB then Inl (InvalidConfig ''non-DataFusion memory'')
      else if bytes_to_capacity_units (rc_non_datafusion_memory_bytes c) > U32_MAX
      then Inl (InvalidConfig ''weighted admission capacity'')
      else if (case checked_add (rc_datafusion_memory_bytes c) (rc_non_datafusion_memory_bytes c) of
                 None \<Rightarrow> True
               | Some n \<Rightarrow>
                   (case checked_add n (rc_spill_page_cache_headroom_bytes c) of
                      None \<Rightarrow> True
                    | Some committed \<Rightarrow> committed > rc_envelope_bytes c))
      then Inl (InvalidConfig ''budgets exceed the envelope'')
      else if rc_spill_bytes c = 0 then Inl (InvalidConfig ''spill limit'')
      else if rc_output_buffer_bytes c < 5 * MIB then Inl (InvalidConfig ''output buffer'')
      else if rc_parquet_writer_memory_bytes c = 0 then Inl (InvalidConfig ''parquet writer memory'')
      else if (case checked_add (rc_output_buffer_bytes c) (rc_parquet_writer_memory_bytes c) of
                 None \<Rightarrow> True
               | Some n \<Rightarrow> n > rc_non_datafusion_memory_bytes c)
      then Inl (InvalidConfig ''writer buffers'')
      else if rc_max_waiters c = 0 then Inl (InvalidConfig ''max_waiters'')
      else Inr ())"

section \<open>Admission\<close>

record admission =
  ad_config :: resource_config
  ad_waiters :: u64
  ad_running_units :: u64
  ad_peak_running_units :: u64
  ad_admissions :: u64
  ad_rejected :: u64
  ad_wait_micros :: u64

datatype filesystem_class = Persistent | Memory | Unknown

text \<open>\<open>resolve\<close> and \<open>classify\<close> are the file system's answers about the spill directory, \<open>runtime_ok\<close>
  tells whether DataFusion's disk manager and runtime could be built.\<close>

definition compact_resources_new ::
  "(string \<Rightarrow> string option) \<Rightarrow> (string \<Rightarrow> filesystem_class option) \<Rightarrow> string \<Rightarrow> bool \<Rightarrow>
     resource_config \<Rightarrow> resource_error + admission" where
  "compact_resources_new resolve classify temp_dir runtime_ok c =
     (case resource_config_validate c of
        Inl e \<Rightarrow> Inl e
      | Inr _ \<Rightarrow>
          (case resolve (case rc_spill_dir c of None \<Rightarrow> temp_dir | Some d \<Rightarrow> d) of
             None \<Rightarrow> Inl (InvalidConfig ''could not resolve compaction spill path'')
           | Some spill_base \<Rightarrow>
               (case classify spill_base of
                  None \<Rightarrow> Inl (InvalidConfig ''could not classify compaction spill filesystem'')
                | Some cls \<Rightarrow>
                    if \<not> rc_allow_memory_backed_spill c \<and> cls = Memory then Inl (MemoryBackedSpill spill_base)
                    else if \<not> runtime_ok then Inl Runtime
                    else Inr \<lparr>ad_config = c, ad_waiters = 0, ad_running_units = 0,
                              ad_peak_running_units = 0, ad_admissions = 0, ad_rejected = 0,
                              ad_wait_micros = 0\<rparr>)))"

definition semaphore_permits :: "resource_config \<Rightarrow> nat" where
  "semaphore_permits c = unat (bytes_to_capacity_units (rc_non_datafusion_memory_bytes c))"

definition admit_enter :: "u64 \<Rightarrow> admission \<Rightarrow> (resource_error + u64) \<times> admission" where
  "admit_enter estimated_bytes a =
     (let units = max (bytes_to_units estimated_bytes) 1;
          capacity = bytes_to_capacity_units (rc_non_datafusion_memory_bytes (ad_config a))
      in if units > capacity \<or> units > U32_MAX
         then (Inl (RequestTooLarge estimated_bytes (rc_non_datafusion_memory_bytes (ad_config a))),
               a\<lparr>ad_rejected := ad_rejected a + 1\<rparr>)
         else
           (let previous = ad_waiters a; a1 = a\<lparr>ad_waiters := ad_waiters a + 1\<rparr>
            in if previous \<ge> rc_max_waiters (ad_config a)
               then (Inl (QueueFull (rc_max_waiters (ad_config a))),
                     a1\<lparr>ad_rejected := ad_rejected a + 1, ad_waiters := ad_waiters a1 - 1\<rparr>)
               else (Inr units, a1)))"

datatype acquired = TimedOut | SemaphoreClosed | Acquired

text \<open>Duration of the wait in nanoseconds; \<open>as_micros\<close> is clamped to 64 bits.\<close>

definition admit_leave :: "u64 \<Rightarrow> acquired \<Rightarrow> nat \<Rightarrow> admission \<Rightarrow> (resource_error + u64) \<times> admission" where
  "admit_leave units acq waited a =
     (let a1 = a\<lparr>ad_waiters := ad_waiters a - 1,
                 ad_wait_micros := ad_wait_micros a + of_nat (min (waited div 1000) (2 ^ 64 - 1))\<rparr>
      in case acq of
           TimedOut \<Rightarrow> (Inl (AdmissionTimeout waited), a1\<lparr>ad_rejected := ad_rejected a1 + 1\<rparr>)
         | SemaphoreClosed \<Rightarrow> (Inl Closed, a1)
         | Acquired \<Rightarrow>
             (let running = ad_running_units a1 + units
              in (Inr units, a1\<lparr>ad_admissions := ad_admissions a1 + 1, ad_running_units := running,
                                ad_peak_running_units := max (ad_peak_running_units a1) running\<rparr>)))"

text \<open>A call dropped while it waits: only the waiter guard runs.\<close>

definition admit_cancel :: "admission \<Rightarrow> admission" where
  "admit_cancel a = a\<lparr>ad_waiters := ad_waiters a - 1\<rparr>"

definition permit_drop :: "u64 \<Rightarrow> admission \<Rightarrow> admission" where
  "permit_drop units a = a\<lparr>ad_running_units := ad_running_units a - units\<rparr>"

definition reserved_bytes :: "u64 \<Rightarrow> u64" where
  "reserved_bytes units = sat_mul units MIB"

record pool_state =
  ps_reserved :: u64
  ps_peak :: u64

text \<open>The forwarding memory pool: \<open>after\<close> is what DataFusion's pool has reserved after the call.\<close>

definition record_peak :: "u64 \<Rightarrow> pool_state \<Rightarrow> pool_state" where
  "record_peak after p = p\<lparr>ps_reserved := after, ps_peak := max (ps_peak p) after\<rparr>"

definition pool_grow :: "u64 \<Rightarrow> pool_state \<Rightarrow> pool_state" where
  "pool_grow after p = record_peak after p"

definition pool_try_grow :: "u64 option \<Rightarrow> pool_state \<Rightarrow> bool \<times> pool_state" where
  "pool_try_grow res p = (case res of None \<Rightarrow> (False, p) | Some after \<Rightarrow> (True, record_peak after p))"

definition pool_shrink :: "u64 \<Rightarrow> pool_state \<Rightarrow> pool_state" where
  "pool_shrink after p = p\<lparr>ps_reserved := after\<rparr>"

record resource_telemetry =
  rt_datafusion_reserved_bytes :: u64
  rt_datafusion_peak_bytes :: u64
  rt_spill_used_bytes :: u64
  rt_sampled_spill_peak_bytes :: u64
  rt_spill_active_files :: u64
  rt_weighted_running_bytes :: u64
  rt_weighted_peak_bytes :: u64
  rt_weighted_waiters :: u64
  rt_admissions :: u64
  rt_rejected :: u64
  rt_cumulative_wait_micros :: u64

definition telemetry ::
  "pool_state \<Rightarrow> u64 \<times> u64 \<Rightarrow> u64 \<Rightarrow> admission \<Rightarrow> u64 \<times> resource_telemetry" where
  "telemetry p spill sampled a =
     (let peak = max sampled (fst spill)
      in (peak,
          \<lparr>rt_datafusion_reserved_bytes = ps_reserved p, rt_datafusion_peak_bytes = ps_peak p,
           rt_spill_used_bytes = fst spill, rt_sampled_spill_peak_bytes = peak,
           rt_spill_active_files = snd spill,
           rt_weighted_running_bytes = sat_mul (ad_running_units a) MIB,
           rt_weighted_peak_bytes = sat_mul (ad_peak_running_units a) MIB,
           rt_weighted_waiters = ad_waiters a, rt_admissions = ad_admissions a,
           rt_rejected = ad_rejected a, rt_cumulative_wait_micros = ad_wait_micros a\<rparr>))"

section \<open>Concurrent merges\<close>

text \<open>Every request is kept with the bytes it asked for and its units.\<close>

record adm_sys =
  sys_adm :: admission
  sys_waiting :: "(u64 \<times> u64) list"
  sys_held :: "(u64 \<times> u64) list"

definition permits :: "(u64 \<times> u64) list \<Rightarrow> u32 list" where
  "permits rs = map (\<lambda>(_, units). ucast units) rs"

inductive adm_step :: "(u32 list \<Rightarrow> u32 \<Rightarrow> bool) \<Rightarrow> adm_sys \<Rightarrow> adm_sys \<Rightarrow> bool" for grant where
  enter: "admit_enter est (sys_adm s) = (Inr u, a) \<Longrightarrow>
    adm_step grant s (s\<lparr>sys_adm := a, sys_waiting := (est, u) # sys_waiting s\<rparr>)"
| reject: "admit_enter est (sys_adm s) = (Inl e, a) \<Longrightarrow> adm_step grant s (s\<lparr>sys_adm := a\<rparr>)"
| acquire: "sys_waiting s = ws @ (est, u) # ws' \<Longrightarrow> grant (permits (sys_held s)) (ucast u) \<Longrightarrow>
    admit_leave u Acquired waited (sys_adm s) = (Inr p, a) \<Longrightarrow>
    adm_step grant s (s\<lparr>sys_adm := a, sys_waiting := ws @ ws', sys_held := (est, p) # sys_held s\<rparr>)"
| give_up: "sys_waiting s = ws @ (est, u) # ws' \<Longrightarrow> acq \<noteq> Acquired \<Longrightarrow>
    admit_leave u acq waited (sys_adm s) = (Inl e, a) \<Longrightarrow>
    adm_step grant s (s\<lparr>sys_adm := a, sys_waiting := ws @ ws'\<rparr>)"
| cancel: "sys_waiting s = ws @ (est, u) # ws' \<Longrightarrow>
    adm_step grant s (s\<lparr>sys_adm := admit_cancel (sys_adm s), sys_waiting := ws @ ws'\<rparr>)"
| finished: "sys_held s = hs @ (est, u) # hs' \<Longrightarrow>
    adm_step grant s (s\<lparr>sys_adm := permit_drop u (sys_adm s), sys_held := hs @ hs'\<rparr>)"

inductive adm_reach :: "(u32 list \<Rightarrow> u32 \<Rightarrow> bool) \<Rightarrow> admission \<Rightarrow> adm_sys \<Rightarrow> bool" for grant a where
  start: "adm_reach grant a \<lparr>sys_adm = a, sys_waiting = [], sys_held = []\<rparr>"
| step: "adm_reach grant a s \<Longrightarrow> adm_step grant s s' \<Longrightarrow> adm_reach grant a s'"

section \<open>Units and bytes\<close>

lemma unat_MIB [simp]: "unat MIB = 1048576"
  by (simp add: MIB_def)

lemma unat_U32_MAX [simp]: "unat U32_MAX = 4294967295"
  by (simp add: U32_MAX_def)

lemma unat_max: "unat (max a b :: 'a::len word) = max (unat a) (unat b)"
  by (simp add: max_def word_le_nat_alt)

lemma unat_bytes_to_units: "unat (bytes_to_units n) = min (2 ^ 64 - 1) (unat n + 1048575) div 1048576"
proof -
  have "unat (MIB - 1) = 1048575" by (simp add: MIB_def)
  then show ?thesis by (simp add: bytes_to_units_def unat_div sat_simps)
qed

lemma unat_capacity: "unat (bytes_to_capacity_units n) = unat n div 1048576"
  by (simp add: bytes_to_capacity_units_def unat_div)

lemma units_cover:
  assumes "unat (bytes_to_units n) \<le> 4294967295"
  shows "unat n \<le> unat (bytes_to_units n) * 1048576"
proof (cases "unat n + 1048575 \<le> 2 ^ 64 - 1")
  case True
  then have "unat (bytes_to_units n) = (unat n + 1048575) div 1048576"
    by (simp add: unat_bytes_to_units min_def)
  then show ?thesis
    using div_mult_mod_eq [of "unat n + 1048575" 1048576] mod_less_divisor [of 1048576 "unat n + 1048575"]
    by linarith
next
  case False
  then have "unat (bytes_to_units n) = (2 ^ 64 - 1) div 1048576" by (simp add: unat_bytes_to_units min_def)
  with assms show ?thesis by simp
qed

lemma unat_ucast_u32: "unat u \<le> 4294967295 \<Longrightarrow> unat (ucast (u :: u64) :: u32) = unat u"
  by (simp add: unsigned_ucast_eq take_bit_nat_eq_self)

definition request_ok :: "u64 \<times> u64 \<Rightarrow> bool" where
  "request_ok r \<longleftrightarrow> unat (fst r) \<le> unat (snd r) * 1048576 \<and> unat (snd r) \<le> 4294967295"

lemma admit_enter_Inr:
  assumes "admit_enter est a = (Inr u, a')"
  shows "a' = a\<lparr>ad_waiters := ad_waiters a + 1\<rparr>" and "unat (ad_waiters a) < unat (rc_max_waiters (ad_config a))"
    and "request_ok (est, u)"
proof -
  let ?u = "max (bytes_to_units est) 1"
  have "u = ?u" "\<not> ?u > U32_MAX" and a': "a' = a\<lparr>ad_waiters := ad_waiters a + 1\<rparr>"
    and w: "\<not> ad_waiters a \<ge> rc_max_waiters (ad_config a)"
    using assms by (auto simp: admit_enter_def Let_def split: if_splits)
  then have u: "unat u = max (unat (bytes_to_units est)) 1" "unat u \<le> 4294967295"
    by (auto simp: unat_max word_less_nat_alt not_less word_le_nat_alt)
  then have "unat est \<le> unat (bytes_to_units est) * 1048576" by (intro units_cover) simp
  also have "\<dots> \<le> unat u * 1048576" using u(1) by simp
  finally show "request_ok (est, u)" using u(2) by (simp add: request_ok_def)
  show "a' = a\<lparr>ad_waiters := ad_waiters a + 1\<rparr>" by (rule a')
  show "unat (ad_waiters a) < unat (rc_max_waiters (ad_config a))"
    using w by (simp add: not_le word_less_nat_alt)
qed

lemma admit_enter_Inl:
  "admit_enter est a = (Inl e, a') \<Longrightarrow> a' = a\<lparr>ad_rejected := ad_rejected a + 1\<rparr>"
  by (auto simp: admit_enter_def Let_def split: if_splits)

lemma admit_leave_Inr:
  "admit_leave u acq waited a = (Inr p, a') \<Longrightarrow> p = u \<and> ad_config a' = ad_config a \<and>
     ad_waiters a' = ad_waiters a - 1 \<and> ad_running_units a' = ad_running_units a + u \<and>
     ad_peak_running_units a' = max (ad_peak_running_units a) (ad_running_units a + u)"
  by (cases acq) (auto simp: admit_leave_def Let_def)

lemma admit_leave_Inl:
  "admit_leave u acq waited a = (Inl e, a') \<Longrightarrow> ad_config a' = ad_config a \<and>
     ad_waiters a' = ad_waiters a - 1 \<and> ad_running_units a' = ad_running_units a \<and>
     ad_peak_running_units a' = ad_peak_running_units a"
  by (cases acq) (auto simp: admit_leave_def Let_def)

section \<open>The admission invariant\<close>

definition held_units :: "(u64 \<times> u64) list \<Rightarrow> nat" where
  "held_units hs = sum_list (map (\<lambda>r. unat (snd r)) hs)"

definition adm_inv :: "resource_config \<Rightarrow> adm_sys \<Rightarrow> bool" where
  "adm_inv c s \<longleftrightarrow>
     ad_config (sys_adm s) = c \<and>
     unat (ad_running_units (sys_adm s)) = held_units (sys_held s) \<and>
     held_units (sys_held s) \<le> semaphore_permits c \<and>
     unat (ad_peak_running_units (sys_adm s)) \<le> semaphore_permits c \<and>
     unat (ad_waiters (sys_adm s)) = length (sys_waiting s) \<and>
     length (sys_waiting s) \<le> unat (rc_max_waiters c) \<and>
     list_all request_ok (sys_waiting s) \<and> list_all request_ok (sys_held s)"

lemma sum_permits: "list_all request_ok rs \<Longrightarrow> sum_list (map unat (permits rs)) = held_units rs"
  by (induction rs) (auto simp: permits_def held_units_def request_ok_def unat_ucast_u32)

lemma semaphore_permits_small: "semaphore_permits c < 2 ^ 44"
  using unsigned_less [of "rc_non_datafusion_memory_bytes c", where ?'a = nat]
  by (simp add: semaphore_permits_def unat_capacity less_mult_imp_div_less)

lemma unat_minus_one: "0 < unat w \<Longrightarrow> unat (w - 1 :: u64) = unat w - 1"
  by (simp add: unat_sub word_le_nat_alt)

lemma adm_step_inv:
  assumes law: "\<And>hs u. grant hs u \<Longrightarrow> sum_list (map unat hs) + unat u \<le> semaphore_permits c"
    and "adm_step grant s s'" and inv: "adm_inv c s"
  shows "adm_inv c s'"
  using assms(2)
proof cases
  case (enter est u a)
  note e = admit_enter_Inr [OF enter(2)]
  have "unat (ad_waiters (sys_adm s) + 1) = unat (ad_waiters (sys_adm s)) + 1"
    using e(2) unat_le_mask [of "rc_max_waiters (ad_config (sys_adm s))"]
    by (intro unat_plus_one) (simp add: word_less_nat_alt unat_minus_one_eq)
  with e enter(1) inv show ?thesis by (auto simp: adm_inv_def)
next
  case (reject est e a)
  with inv show ?thesis by (auto simp: adm_inv_def dest!: admit_enter_Inl)
next
  case (acquire ws est u ws' waited p a)
  have wt: "list_all request_ok (ws @ (est, u) # ws')" and held: "list_all request_ok (sys_held s)"
    using inv acquire(2) by (simp_all add: adm_inv_def)
  then have "unat (ucast u :: u32) = unat u" by (simp add: request_ok_def unat_ucast_u32)
  with law [OF acquire(3)] sum_permits [OF held]
  have fits: "held_units (sys_held s) + unat u \<le> semaphore_permits c" by simp
  then have run: "unat (ad_running_units (sys_adm s) + u) = held_units (sys_held s) + unat u"
    using inv semaphore_permits_small [of c] by (subst unat_add_lem [THEN iffD1]) (simp_all add: adm_inv_def)
  have "unat (ad_waiters (sys_adm s) - 1) = length (ws @ ws')"
    using inv acquire(2) by (subst unat_minus_one) (simp_all add: adm_inv_def)
  then show ?thesis
    using inv fits run wt admit_leave_Inr [OF acquire(4)] acquire(2)
    unfolding acquire(1) adm_inv_def by (simp add: held_units_def unat_max)
next
  case (give_up ws est u ws' acq waited e a)
  have "unat (ad_waiters (sys_adm s) - 1) = length (ws @ ws')"
    using inv give_up(2) by (subst unat_minus_one) (simp_all add: adm_inv_def)
  then show ?thesis
    using inv admit_leave_Inl [OF give_up(4)] give_up(2) unfolding give_up(1) adm_inv_def by simp
next
  case (cancel ws est u ws')
  have "unat (ad_waiters (sys_adm s) - 1) = length (ws @ ws')"
    using inv cancel(2) by (subst unat_minus_one) (simp_all add: adm_inv_def)
  with cancel inv show ?thesis by (auto simp: adm_inv_def admit_cancel_def)
next
  case (finished hs est u hs')
  have "held_units (sys_held s) = held_units (hs @ hs') + unat u" by (simp add: finished(2) held_units_def)
  moreover from this have "unat (ad_running_units (sys_adm s) - u) = held_units (hs @ hs')"
    using inv by (subst unat_sub) (simp_all add: adm_inv_def word_le_nat_alt)
  ultimately show ?thesis using inv finished by (auto simp: adm_inv_def permit_drop_def)
qed

lemma adm_reach_inv:
  assumes "\<And>hs u. grant hs u \<Longrightarrow> sum_list (map unat hs) + unat u \<le> semaphore_permits c"
    and "adm_reach grant a s" and "adm_inv c \<lparr>sys_adm = a, sys_waiting = [], sys_held = []\<rparr>"
  shows "adm_inv c s"
  using assms(2,3) by induction (auto intro: adm_step_inv [OF assms(1)])

lemma new_inv:
  "compact_resources_new resolve classify temp_dir runtime_ok c = Inr a \<Longrightarrow>
     adm_inv c \<lparr>sys_adm = a, sys_waiting = [], sys_held = []\<rparr>"
  by (auto simp: compact_resources_new_def adm_inv_def held_units_def split: sum.splits option.splits if_splits)

lemma held_bytes:
  "list_all request_ok hs \<Longrightarrow> sum_list (map (\<lambda>r. unat (fst r)) hs) \<le> held_units hs * 1048576"
  by (induction hs) (auto simp: request_ok_def held_units_def)

lemma permits_bytes: "n \<le> semaphore_permits c \<Longrightarrow> n * 1048576 \<le> unat (rc_non_datafusion_memory_bytes c)"
  by (simp add: semaphore_permits_def unat_capacity)

lemma unat_reserved:
  assumes "unat u \<le> semaphore_permits c"
  shows "unat (reserved_bytes u) = unat u * 1048576"
  using assms semaphore_permits_small [of c] by (simp add: reserved_bytes_def sat_simps)

lemma sum_reserved:
  "held_units hs \<le> semaphore_permits c \<Longrightarrow>
     sum_list (map (\<lambda>(_, u). unat (reserved_bytes u)) hs) = held_units hs * 1048576"
proof (induction hs)
  case (Cons r hs)
  then have "unat (snd r) \<le> semaphore_permits c" "held_units hs \<le> semaphore_permits c"
    by (simp_all add: held_units_def)
  with Cons.IH unat_reserved [of "snd r" c] show ?case
    by (simp add: held_units_def distrib_right case_prod_unfold)
qed (simp add: held_units_def)

section \<open>Properties\<close>


definition sample_config :: resource_config where
  "sample_config = from_envelope (128 * MIB)"

lemma sample_config_eq:
  "sample_config = \<lparr>rc_envelope_bytes = 134217728, rc_datafusion_memory_bytes = 67108864,
     rc_non_datafusion_memory_bytes = 33554432, rc_spill_bytes = 1073741824,
     rc_spill_page_cache_headroom_bytes = 16777216, rc_spill_dir = None,
     rc_allow_memory_backed_spill = False, rc_output_buffer_bytes = 8388608,
     rc_parquet_writer_memory_bytes = 16777216, rc_max_waiters = 32, rc_admission_timeout_secs = 30\<rparr>"
  by (simp add: sample_config_def from_envelope_def MIB_def sat_mul_def)

lemma sample_admission:
  "compact_resources_new Some (\<lambda>_. Some Persistent) ''/tmp'' True sample_config =
     Inr \<lparr>ad_config = sample_config, ad_waiters = 0, ad_running_units = 0, ad_peak_running_units = 0,
       ad_admissions = 0, ad_rejected = 0, ad_wait_micros = 0\<rparr>"
  by (simp add: compact_resources_new_def resource_config_validate_def sample_config_eq checked_add_def
      bytes_to_capacity_units_def U32_MAX_def MIB_def)


text \<open>Which envelopes can be used. The configuration derived from a memory envelope is accepted
  exactly when the envelope is at least 128 MiB and below 2 to the 54, the limit that the 32-bit
  admission capacity sets; in particular the derived budgets then never exceed the envelope.\<close>

lemma from_envelope_accepted_iff:
  "resource_config_validate (from_envelope e) = Inr () \<longleftrightarrow> 134217728 \<le> unat e \<and> unat e < 2 ^ 54"
proof -
  have lt: "a < b \<longleftrightarrow> unat a < unat b" and le: "a \<le> b \<longleftrightarrow> unat a \<le> unat b" for a b :: u64
    by (simp_all add: word_less_nat_alt word_le_nat_alt)
  let ?c = "from_envelope e"
  have env: "unat (rc_envelope_bytes ?c) = unat e"
    and df: "unat (rc_datafusion_memory_bytes ?c) = max (unat e div 2) 67108864"
    and ndf: "unat (rc_non_datafusion_memory_bytes ?c) = max (unat e div 4) 33554432"
    and head: "unat (rc_spill_page_cache_headroom_bytes ?c) = unat e div 8"
    and spill: "unat (rc_spill_bytes ?c) \<noteq> 0"
    and out: "rc_output_buffer_bytes ?c = 8388608" and pq: "rc_parquet_writer_memory_bytes ?c = 16777216"
    and mw: "rc_max_waiters ?c = 32"
    by (simp_all add: from_envelope_def unat_max unat_div MIB_def)
  have small: "unat e < 2 ^ 64" using unsigned_less [of e, where ?'a = nat] by simp
  show ?thesis
  proof (cases "134217728 \<le> unat e")
    case False
    then show ?thesis by (simp add: resource_config_validate_def lt env MIB_def)
  next
    case True
    then have df': "unat (rc_datafusion_memory_bytes ?c) = unat e div 2"
      and ndf': "unat (rc_non_datafusion_memory_bytes ?c) = unat e div 4" using df ndf by simp_all
    have sum: "unat e div 2 + unat e div 4 + unat e div 8 \<le> unat e" by linarith
    have cap: "4294967295 < unat (bytes_to_capacity_units (rc_non_datafusion_memory_bytes ?c)) \<longleftrightarrow> 2 ^ 54 \<le> unat e"
      by (simp add: unat_capacity ndf' div_mult2_eq [symmetric]) linarith
    show ?thesis
      using True sum small df' ndf' head spill
      by (auto simp: resource_config_validate_def cap checked_add_def lt le env out pq mw MIB_def
          unat_word_ariths unat_minus_one_eq word_unat_eq_iff not_less)
  qed
qed

end
