(* ===== verification/Postings_Merge.thy ===== *)
theory Postings_Merge
  imports Block Compact_Resources "HOL-Library.Product_Lexorder" "HOL-Library.Multiset"
begin

text \<open>
  The postings sidecar, an inverted index from label pairs to series fingerprints, and the two
  ways the code merges such indexes: the in-memory union of
  \<^verbatim>\<open>src/crates/block/src/postings.rs\<close> and the bounded k-way merge that compaction runs,
  \<open>PostingsCursor\<close> and \<open>merge_postings_streaming\<close> of \<^verbatim>\<open>src/crates/compact/src/merge.rs\<close>. A
  parquet file is the list of record batches its reader yields, a batch the list of its rows,
  and \<open>None\<close> in that list a failing read; opening a file and whether the output writer accepts
  its n-th call are parameters. The binary heap is a list sorted by key and cursor index.
\<close>

section \<open>The in-memory union\<close>

type_synonym postings_key = "string \<times> string"
type_synonym postings_entry = "postings_key \<times> u64 list"

text \<open>\<open>sort_unstable\<close> followed by \<open>dedup\<close>\<close>

definition sort_dedup :: "'a :: linorder list \<Rightarrow> 'a list" where
  "sort_dedup xs = remdups_adj (sort xs)"

fun entry_extend :: "postings_key \<Rightarrow> u64 list \<Rightarrow> postings_entry list \<Rightarrow> postings_entry list" where
  "entry_extend k fps [] = [(k, fps)]"
| "entry_extend k fps ((k', fps') # index) =
     (if k' = k then (k', fps' @ fps) # index else (k', fps') # entry_extend k fps index)"

definition merge_postings_into :: "postings_entry list \<Rightarrow> postings_entry list \<Rightarrow> postings_entry list" where
  "merge_postings_into index entries =
     foldl (\<lambda>index (key, fps). entry_extend key fps index) index entries"

definition finish_postings_merge :: "postings_entry list \<Rightarrow> postings_entry list" where
  "finish_postings_merge index = map (\<lambda>(k, fps). (k, sort_dedup fps)) (sort_key fst index)"

definition merge_postings :: "postings_entry list list \<Rightarrow> postings_entry list" where
  "merge_postings sets = finish_postings_merge (foldl merge_postings_into [] sets)"

datatype merge_error =
    Resource resource_error
  | StoreFailed store_error
  | ReadFailed
  | WriteFailed
  | MissingRow
  | BatchTooLarge
  | BadInput string
  | Ancestry ancestry_error
  | LeaseLost
  | Panic

definition postings_record_batch :: "postings_entry list \<Rightarrow> merge_error + postings_entry list" where
  "postings_record_batch entries =
     (if entries = [] then Inr []
      else if sum_list (map (\<lambda>(_, fps). length fps) entries) > 2 ^ 31 - 1 then Inl BatchTooLarge
      else Inr entries)"

section \<open>Cursors\<close>

record postings_cursor =
  pc_stream :: "postings_entry list option list"
  pc_batch :: "postings_entry list option"
  pc_row :: nat
  pc_current :: "postings_entry option"
  pc_row_budget :: u64

definition entry_bytes :: "postings_entry \<Rightarrow> nat" where
  "entry_bytes e = (case e of ((name, val), fps) \<Rightarrow>
     min (2 ^ 64 - 1) (length name + length val + length fps * 8 + 16))"

function cursor_advance :: "postings_cursor \<Rightarrow> merge_error + postings_cursor" where
  "cursor_advance c =
     (case pc_batch c of
        Some batch \<Rightarrow>
          (if pc_row c < length batch
           then if entry_bytes (batch ! pc_row c) > unat (pc_row_budget c)
                then Inl (Resource (SidecarLimit ''postings row'' (pc_row_budget c)))
                else Inr (c\<lparr>pc_current := Some (batch ! pc_row c), pc_row := pc_row c + 1\<rparr>)
           else (case pc_stream c of
                   [] \<Rightarrow> Inr (c\<lparr>pc_batch := None, pc_row := 0, pc_current := None\<rparr>)
                 | None # _ \<Rightarrow> Inl ReadFailed
                 | Some b # bs \<Rightarrow> cursor_advance (c\<lparr>pc_batch := Some b, pc_row := 0, pc_stream := bs\<rparr>)))
      | None \<Rightarrow>
          (case pc_stream c of
             [] \<Rightarrow> Inr (c\<lparr>pc_batch := None, pc_row := 0, pc_current := None\<rparr>)
           | None # _ \<Rightarrow> Inl ReadFailed
           | Some b # bs \<Rightarrow> cursor_advance (c\<lparr>pc_batch := Some b, pc_row := 0, pc_stream := bs\<rparr>)))"
  by pat_completeness auto
termination
  by (relation "measure (\<lambda>c. length (pc_stream c))") auto

declare cursor_advance.simps [simp del]

record postings_input =
  pi_row_group_bytes :: "int list"
  pi_batches :: "postings_entry list option list"

definition largest_row_group :: "postings_input \<Rightarrow> nat" where
  "largest_row_group i = foldl max 0 (map (\<lambda>n. nat (max n 0)) (pi_row_group_bytes i))"

fun open_cursors ::
  "('e \<Rightarrow> merge_error + postings_input) \<Rightarrow> u64 \<Rightarrow> 'e list \<Rightarrow> merge_error + postings_cursor list" where
  "open_cursors open_input budget [] = Inr []"
| "open_cursors open_input budget (e # es) =
     (case open_input e of
        Inl err \<Rightarrow> Inl err
      | Inr i \<Rightarrow>
          if largest_row_group i > unat budget
          then Inl (Resource (SidecarLimit ''postings row group'' budget))
          else
            (case cursor_advance \<lparr>pc_stream = pi_batches i, pc_batch = None, pc_row = 0,
                    pc_current = None, pc_row_budget = budget\<rparr> of
               Inl err \<Rightarrow> Inl err
             | Inr c \<Rightarrow>
                 (case open_cursors open_input budget es of Inl err \<Rightarrow> Inl err | Inr cs \<Rightarrow> Inr (c # cs))))"

section \<open>The k-way merge\<close>

type_synonym heap = "(postings_key \<times> nat) list"

definition heap_push :: "postings_cursor \<Rightarrow> nat \<Rightarrow> heap \<Rightarrow> heap" where
  "heap_push c i h = (case pc_current c of None \<Rightarrow> h | Some (key, _) \<Rightarrow> insort (key, i) h)"

definition initial_heap :: "postings_cursor list \<Rightarrow> heap" where
  "initial_heap cs = fold (\<lambda>(i, c). heap_push c i) (enumerate 0 cs) []"

fun pop_matching :: "postings_key \<Rightarrow> heap \<Rightarrow> nat list \<times> heap" where
  "pop_matching key [] = ([], [])"
| "pop_matching key ((next, i) # h) =
     (if next \<noteq> key then ([], (next, i) # h)
      else case pop_matching key h of (is, h') \<Rightarrow> (i # is, h'))"

fun take_rows ::
  "nat \<Rightarrow> nat list \<Rightarrow> u64 list \<Rightarrow> postings_cursor list \<Rightarrow> heap \<Rightarrow>
     merge_error + (u64 list \<times> postings_cursor list \<times> heap)" where
  "take_rows limit [] fps cs h = Inr (fps, cs, h)"
| "take_rows limit (i # is) fps cs h =
     (if i \<ge> length cs then Inl Panic
      else case pc_current (cs ! i) of
        None \<Rightarrow> Inl MissingRow
      | Some (_, values) \<Rightarrow>
          (let requested = min (2 ^ 64 - 1) ((length fps + length values) * 8)
           in if requested > limit
              then Inl (Resource (RequestTooLarge (of_nat requested) (of_nat limit)))
              else case cursor_advance ((cs ! i)\<lparr>pc_current := None\<rparr>) of
                     Inl e \<Rightarrow> Inl e
                   | Inr c \<Rightarrow> take_rows limit is (fps @ values) (cs[i := c]) (heap_push c i h)))"

record postings_output =
  po_written :: "postings_entry list list"
  po_pending :: "postings_entry list"
  po_bytes :: nat
  po_calls :: nat

definition write_batch ::
  "(nat \<Rightarrow> bool) \<Rightarrow> postings_entry list \<Rightarrow> postings_output \<Rightarrow> merge_error + postings_output" where
  "write_batch wr entries out =
     (case postings_record_batch entries of
        Inl e \<Rightarrow> Inl e
      | Inr batch \<Rightarrow>
          if wr (po_calls out)
          then Inr (out\<lparr>po_written := po_written out @ [batch], po_calls := po_calls out + 1\<rparr>)
          else Inl WriteFailed)"

text \<open>One row of the output; \<open>flush\<close> tells, for the number of calls so far, whether the writer's
  buffered size has reached the limit, so that the row group is flushed, a further call.\<close>

definition emit_row ::
  "(nat \<Rightarrow> bool) \<Rightarrow> (nat \<Rightarrow> bool) \<Rightarrow> nat \<Rightarrow> postings_entry \<Rightarrow> postings_output \<Rightarrow> merge_error + postings_output" where
  "emit_row wr flush batch_limit e out =
     (case e of ((name, val), fps) \<Rightarrow>
        let out1 = out\<lparr>po_bytes := min (2 ^ 64 - 1)
                         (po_bytes out + (length name + length val + length fps * 8 + 16)),
                       po_pending := po_pending out @ [e]\<rparr>
        in if po_bytes out1 \<ge> batch_limit
           then (case write_batch wr (po_pending out1) out1 of
                   Inl err \<Rightarrow> Inl err
                 | Inr out2 \<Rightarrow>
                     (let out3 = out2\<lparr>po_pending := [], po_bytes := 0\<rparr>
                      in if flush (po_calls out3)
                         then if wr (po_calls out3) then Inr (out3\<lparr>po_calls := po_calls out3 + 1\<rparr>)
                              else Inl WriteFailed
                         else Inr out3))
           else Inr out1)"

definition pending :: "postings_cursor \<Rightarrow> postings_entry list" where
  "pending c = (case pc_batch c of None \<Rightarrow> [] | Some b \<Rightarrow> drop (pc_row c) b) @
     concat (map (\<lambda>b. case b of None \<Rightarrow> [] | Some es \<Rightarrow> es) (pc_stream c))"

definition remaining :: "postings_cursor \<Rightarrow> postings_entry list" where
  "remaining c = (case pc_current c of None \<Rightarrow> [] | Some e \<Rightarrow> [e]) @ pending c"

lemma pending_update [simp]: "pending (c\<lparr>pc_current := x\<rparr>) = pending c"
  by (cases "pc_batch c") (simp_all add: pending_def)

lemma cursor_advance_spec:
  "cursor_advance c = Inr c' \<Longrightarrow> remaining c' = pending c \<and> (pc_current c' = None \<longrightarrow> pending c' = [])"
proof (induction c rule: cursor_advance.induct)
  case (1 c)
  show ?case
  proof (cases "\<exists>b. pc_batch c = Some b \<and> pc_row c < length b")
    case True
    with "1.prems" show ?thesis
      by (auto simp: cursor_advance.simps [of c] remaining_def pending_def Cons_nth_drop_Suc split: if_splits)
  next
    case False
    then have p: "pending c = concat (map (\<lambda>b. case b of None \<Rightarrow> [] | Some es \<Rightarrow> es) (pc_stream c))"
      by (cases "pc_batch c") (auto simp: pending_def)
    show ?thesis
    proof (cases "pc_stream c")
      case Nil
      with False "1.prems" p show ?thesis
        by (cases "pc_batch c") (auto simp: cursor_advance.simps [of c] remaining_def pending_def)
    next
      case (Cons b bs)
      with False "1.prems" obtain es where b: "b = Some es"
        and run: "cursor_advance (c\<lparr>pc_batch := Some es, pc_row := 0, pc_stream := bs\<rparr>) = Inr c'"
        by (cases "pc_batch c"; cases b) (auto simp: cursor_advance.simps [of c])
      have "remaining c' = pending (c\<lparr>pc_batch := Some es, pc_row := 0, pc_stream := bs\<rparr>) \<and>
          (pc_current c' = None \<longrightarrow> pending c' = [])"
        using "1.IH" Cons False b run by (cases "pc_batch c") auto
      with p Cons b show ?thesis by (simp add: pending_def)
    qed
  qed
qed

definition total_rows :: "postings_cursor list \<Rightarrow> nat" where
  "total_rows cs = sum_list (map (\<lambda>c. length (remaining c)) cs)"

lemma take_rows_ConsE:
  assumes "take_rows limit (i # is) fps cs h = Inr r"
  obtains k vs c where "i < length cs" "pc_current (cs ! i) = Some (k, vs)"
    "cursor_advance ((cs ! i)\<lparr>pc_current := None\<rparr>) = Inr c"
    "take_rows limit is (fps @ vs) (cs[i := c]) (heap_push c i h) = Inr r"
  using assms by (auto simp: Let_def split: if_splits option.splits sum.splits)

lemma take_rows_shrinks:
  "take_rows limit is fps cs h = Inr (fps', cs', h') \<Longrightarrow>
     total_rows cs' \<le> total_rows cs \<and> (is \<noteq> [] \<longrightarrow> total_rows cs' < total_rows cs)"
proof (induction "is" arbitrary: fps cs h)
  case (Cons i "is")
  from Cons.prems obtain k vs c where i: "i < length cs" "pc_current (cs ! i) = Some (k, vs)"
    and c: "cursor_advance ((cs ! i)\<lparr>pc_current := None\<rparr>) = Inr c"
    and run: "take_rows limit is (fps @ vs) (cs[i := c]) (heap_push c i h) = Inr (fps', cs', h')"
    by (rule take_rows_ConsE)
  have "length (remaining c) < length (remaining (cs ! i))"
    using cursor_advance_spec [OF c] i(2) by (simp add: remaining_def)
  then have "total_rows (cs[i := c]) < total_rows cs"
    using i(1) elem_le_sum_list [of i "map (\<lambda>c. length (remaining c)) cs"]
    by (simp add: total_rows_def map_update sum_list_update)
  with Cons.IH [OF run] show ?case by simp
qed simp

function merge_loop ::
  "nat \<Rightarrow> nat \<Rightarrow> (nat \<Rightarrow> bool) \<Rightarrow> (nat \<Rightarrow> bool) \<Rightarrow> heap \<Rightarrow> postings_cursor list \<Rightarrow> postings_output \<Rightarrow>
     merge_error + postings_output" where
  "merge_loop limit batch_limit wr flush [] cs out = Inr out"
| "merge_loop limit batch_limit wr flush ((key, index) # h) cs out =
     (case pop_matching key h of (matching, h1) \<Rightarrow>
        (case take_rows limit (index # matching) [] cs h1 of
           Inl e \<Rightarrow> Inl e
         | Inr (fps, cs', h2) \<Rightarrow>
             (case emit_row wr flush batch_limit (key, sort_dedup fps) out of
                Inl e \<Rightarrow> Inl e
              | Inr out' \<Rightarrow> merge_loop limit batch_limit wr flush h2 cs' out')))"
  by pat_completeness auto
termination
  by (relation "measure (\<lambda>(_, _, _, _, _, cs, _). total_rows cs)")
     (auto dest!: take_rows_shrinks simp del: take_rows.simps)

definition merge_postings_streaming ::
  "('e \<Rightarrow> merge_error + postings_input) \<Rightarrow> (nat \<Rightarrow> bool) \<Rightarrow> (nat \<Rightarrow> bool) \<Rightarrow> ('e \<Rightarrow> bool) \<Rightarrow>
     resource_config \<Rightarrow> u64 \<Rightarrow> 'e list \<Rightarrow> merge_error + postings_entry list list" where
  "merge_postings_streaming open_input wr flush has_postings cfg postings_budget inputs =
     (let working_budget = max (postings_budget div 4) 1;
          with_postings = filter has_postings inputs;
          per_cursor_budget = max (working_budget div of_nat (max (length with_postings) 1)) 1
      in case open_cursors open_input per_cursor_budget with_postings of
           Inl e \<Rightarrow> Inl e
         | Inr cursors \<Rightarrow>
             (let batch_limit = max (min (rc_parquet_writer_memory_bytes cfg) working_budget) 1
              in case merge_loop (unat working_budget) (unat batch_limit) wr flush (initial_heap cursors) cursors
                        \<lparr>po_written = [], po_pending = [], po_bytes = 0, po_calls = 0\<rparr> of
                   Inl e \<Rightarrow> Inl e
                 | Inr out \<Rightarrow>
                     (case (if po_pending out \<noteq> [] \<or> cursors = [] then write_batch wr (po_pending out) out
                            else Inr out) of
                        Inl e \<Rightarrow> Inl e
                      | Inr out' \<Rightarrow> if wr (po_calls out') then Inr (po_written out') else Inl WriteFailed)))"

section \<open>The union as a function of the rows\<close>

definition fps_of :: "postings_key \<Rightarrow> postings_entry list \<Rightarrow> u64 list" where
  "fps_of k es = concat (map snd (filter (\<lambda>e. fst e = k) es))"

definition union_of :: "postings_entry list \<Rightarrow> postings_entry list" where
  "union_of es = map (\<lambda>k. (k, sort_dedup (fps_of k es))) (sorted_list_of_set (fst ` set es))"

lemma distinct_remdups_adj_sorted: "sorted xs \<Longrightarrow> distinct (remdups_adj xs)"
  by (induction xs rule: remdups_adj.induct) (auto simp: less_le)

lemma sort_dedup_eq: "sort_dedup xs = sorted_list_of_set (set xs)"
proof -
  have "sorted_list_of_set (set (remdups_adj (sort xs))) = remdups_adj (sort xs)"
    by (intro sorted_list_of_set.idem_if_sorted_distinct) (simp_all add: distinct_remdups_adj_sorted)
  then show ?thesis by (simp add: sort_dedup_def)
qed

lemma fps_of_simps [simp]:
  "fps_of k [] = []" "fps_of k ((k', v) # es) = (if k' = k then v @ fps_of k es else fps_of k es)"
  "fps_of k (es @ es') = fps_of k es @ fps_of k es'"
  by (simp_all add: fps_of_def)

lemma fps_of_notin: "k \<notin> fst ` set es \<Longrightarrow> fps_of k es = []"
  by (induction es) auto

lemma set_fps_of: "set (fps_of k es) = (\<Union>(k', v) \<in> set es. if k' = k then set v else {})"
  by (auto simp: fps_of_def split: if_splits)

lemma map_of_entry_extend:
  "map_of (entry_extend k v index) k' =
     (if k' = k then Some ((case map_of index k of None \<Rightarrow> [] | Some v' \<Rightarrow> v') @ v) else map_of index k')"
  by (induction k v index rule: entry_extend.induct) auto

lemma keys_entry_extend: "fst ` set (entry_extend k v index) = insert k (fst ` set index)"
  by (induction k v index rule: entry_extend.induct) auto

lemma distinct_entry_extend: "distinct (map fst index) \<Longrightarrow> distinct (map fst (entry_extend k v index))"
proof (induction k v index rule: entry_extend.induct)
  case (2 k fps k' fps' index)
  then show ?case using keys_entry_extend [of k fps index] by (auto simp flip: set_map)
qed simp

lemma merge_into_Cons:
  "merge_postings_into index ((k, v) # es) = merge_postings_into (entry_extend k v index) es"
  by (simp add: merge_postings_into_def)

lemma merge_into_keys:
  "distinct (map fst index) \<Longrightarrow> distinct (map fst (merge_postings_into index es))"
  "fst ` set (merge_postings_into index es) = fst ` set index \<union> fst ` set es"
proof (induction es arbitrary: index)
  case (Cons e es)
  { case 1 with Cons(1) [OF distinct_entry_extend] show ?case by (cases e) (simp add: merge_into_Cons)
  next
    case 2 from Cons(2) show ?case by (cases e) (auto simp: merge_into_Cons keys_entry_extend) }
qed (simp_all add: merge_postings_into_def)

lemma merge_into_map_of:
  "k \<in> fst ` set es \<Longrightarrow> map_of (merge_postings_into index es) k =
     Some ((case map_of index k of None \<Rightarrow> [] | Some v \<Rightarrow> v) @ fps_of k es)"
  "k \<notin> fst ` set es \<Longrightarrow> map_of (merge_postings_into index es) k = map_of index k"
proof (induction es arbitrary: index)
  case (Cons e es)
  obtain k' v where e: "e = (k', v)" by (cases e)
  { case 1
    show ?case
    proof (cases "k \<in> fst ` set es")
      case True
      with Cons(1) [OF True, of "entry_extend k' v index"] show ?thesis
        by (simp add: e merge_into_Cons map_of_entry_extend)
    next
      case False
      with 1 e have "k' = k" "fps_of k es = []" by (auto simp: fps_of_notin)
      with Cons(2) [OF False, of "entry_extend k' v index"] show ?thesis
        by (simp add: e merge_into_Cons map_of_entry_extend)
    qed
  next
    case 2 with Cons(2) [of "entry_extend k' v index"] show ?case
      by (auto simp: e merge_into_Cons map_of_entry_extend) }
qed (simp_all add: merge_postings_into_def)

lemma foldl_merge_into: "foldl merge_postings_into index sets = merge_postings_into index (concat sets)"
  by (induction sets arbitrary: index) (simp_all add: merge_postings_into_def)

lemma sort_key_unique:
  assumes "distinct (map fst xs)"
  shows "sort_key fst xs = map (\<lambda>k. (k, the (map_of xs k))) (sorted_list_of_set (fst ` set xs))"
proof -
  let ?s = "sort_key fst xs"
  have "map fst ?s = sorted_list_of_set (fst ` set xs)"
  proof (rule sorted_distinct_set_unique)
    show "distinct (map fst ?s)" using assms by (simp add: distinct_map)
    show "set (map fst ?s) = set (sorted_list_of_set (fst ` set xs))" by simp
  qed simp_all
  moreover have "map (\<lambda>k. (k, the (map_of xs k))) (map fst ?s) = ?s"
    unfolding map_map o_def by (rule map_idI) (use assms in auto)
  ultimately show ?thesis by simp
qed

lemma merge_postings_eq: "merge_postings sets = union_of (concat sets)"
proof -
  let ?i = "merge_postings_into [] (concat sets)"
  have keys: "fst ` set ?i = fst ` set (concat sets)" using merge_into_keys(2) [of "[]"] by simp
  have "merge_postings sets = map (\<lambda>(k, fps). (k, sort_dedup fps))
      (map (\<lambda>k. (k, the (map_of ?i k))) (sorted_list_of_set (fst ` set (concat sets))))"
    unfolding merge_postings_def finish_postings_merge_def foldl_merge_into
    using sort_key_unique [OF merge_into_keys(1) [of "[]" "concat sets"]] by (simp add: keys)
  also have "\<dots> = union_of (concat sets)"
    unfolding union_of_def map_map by (rule map_cong) (simp_all add: merge_into_map_of del: set_concat)
  finally show ?thesis .
qed

section \<open>One round of the k-way merge\<close>

definition cursor_ok :: "postings_cursor \<Rightarrow> bool" where
  "cursor_ok c \<longleftrightarrow> (pc_current c = None \<longrightarrow> pending c = []) \<and> sorted_wrt (<) (map fst (remaining c))"

definition head_key :: "postings_cursor \<Rightarrow> postings_key option" where
  "head_key c = (case remaining c of [] \<Rightarrow> None | e # _ \<Rightarrow> Some (fst e))"

lemma head_key_iff: "head_key c = Some k \<longleftrightarrow> remaining c \<noteq> [] \<and> fst (hd (remaining c)) = k"
  by (cases "remaining c") (simp_all add: head_key_def)

definition heap_ok :: "postings_cursor list \<Rightarrow> heap \<Rightarrow> bool" where
  "heap_ok cs h \<longleftrightarrow> sorted h \<and> distinct (map snd h) \<and>
     (\<forall>k i. (k, i) \<in> set h \<longleftrightarrow> i < length cs \<and> head_key (cs ! i) = Some k)"

lemma current_remaining: "cursor_ok c \<Longrightarrow> pc_current c = Some e \<longleftrightarrow> (\<exists>es. remaining c = e # es)"
  by (cases "pc_current c") (auto simp: cursor_ok_def remaining_def)

lemma fst_mono: "x \<le> y \<Longrightarrow> fst x \<le> fst y" for x y :: "'a :: linorder \<times> 'b :: linorder"
  by (auto simp: less_eq_prod_def)

lemma pop_matching_spec:
  assumes "pop_matching key h = (is, h')" and "sorted h" and "\<forall>x \<in> set h. key \<le> fst x"
  shows "h = map (Pair key) is @ h'" and "\<forall>x \<in> set h'. key < fst x"
proof -
  have "h = map (Pair key) is @ h' \<and> (\<forall>x \<in> set h'. key < fst x)"
    using assms
  proof (induction key h arbitrary: "is" rule: pop_matching.induct)
    case (2 key k i h)
    show ?case
    proof (cases "k = key")
      case True
      with "2.prems"(1) obtain is' where is': "is = i # is'" "pop_matching key h = (is', h')"
        by (auto split: prod.splits)
      have "\<forall>x \<in> set h. key \<le> fst x" using "2.prems"(3) by simp
      with "2.IH" [of is'] is' "2.prems"(2) True show ?thesis by simp
    next
      case False
      then have h': "is = []" "h' = (k, i) # h" using "2.prems"(1) by simp_all
      have "key < k" using "2.prems"(3) False by (simp add: less_le)
      moreover have "\<forall>x \<in> set h. k \<le> fst x" using "2.prems"(2) fst_mono [of "(k, i)"] by auto
      ultimately show ?thesis using h' by (auto intro: less_le_trans)
    qed
  qed simp
  then show "h = map (Pair key) is @ h'" and "\<forall>x \<in> set h'. key < fst x" by simp_all
qed

definition advanced :: "nat set \<Rightarrow> postings_entry list list \<Rightarrow> postings_entry list list" where
  "advanced I ls = map (\<lambda>(i, l). if i \<in> I then tl l else l) (enumerate 0 ls)"

lemma length_advanced [simp]: "length (advanced I ls) = length ls"
  by (simp add: advanced_def)

lemma nth_advanced [simp]: "i < length ls \<Longrightarrow> advanced I ls ! i = (if i \<in> I then tl (ls ! i) else ls ! i)"
  by (simp add: advanced_def nth_enumerate_eq)

lemma advanced_empty [simp]: "advanced {} ls = ls"
  by (rule nth_equalityI) simp_all

lemma advanced_insert:
  "i < length ls \<Longrightarrow> i \<notin> I \<Longrightarrow> advanced I (ls[i := tl (ls ! i)]) = advanced (insert i I) ls"
  by (rule nth_equalityI) (auto simp: nth_list_update)

lemma cursor_ok_advance:
  assumes "cursor_ok c" and "pc_current c = Some e" and "cursor_advance (c\<lparr>pc_current := None\<rparr>) = Inr c'"
  shows "cursor_ok c' \<and> remaining c = e # remaining c'"
proof -
  have "remaining c' = pending c" "pc_current c' = None \<longrightarrow> pending c' = []"
    using cursor_advance_spec [OF assms(3)] by simp_all
  moreover have "remaining c = e # pending c" using assms(2) by (simp add: remaining_def)
  ultimately show ?thesis using assms(1) by (simp add: cursor_ok_def)
qed

lemma heap_push_spec:
  assumes "cursor_ok c" and "sorted h" and "distinct (map snd h)" and "i \<notin> snd ` set h"
  shows "sorted (heap_push c i h)" and "distinct (map snd (heap_push c i h))"
    and "set (heap_push c i h) = set h \<union> {(k, j). j = i \<and> head_key c = Some k}"
proof -
  have "sorted (heap_push c i h) \<and> distinct (map snd (heap_push c i h)) \<and>
    set (heap_push c i h) = set h \<union> {(k, j). j = i \<and> head_key c = Some k}"
  proof (cases "pc_current c")
    case None
    with assms show ?thesis by (simp add: heap_push_def head_key_def remaining_def cursor_ok_def)
  next
    case (Some e)
    obtain k v where e: "e = (k, v)" by (cases e)
    have "mset (map snd (insort (k, i) h)) = mset (map snd ((k, i) # h))" by simp
    then have "distinct (map snd (insort (k, i) h))"
      using assms(3,4) mset_eq_imp_distinct_iff [of "map snd (insort (k, i) h)" "map snd ((k, i) # h)"] by simp
    with Some e assms(2) show ?thesis
      by (auto simp: heap_push_def head_key_def remaining_def sorted_insort set_insort_key)
  qed
  then show "sorted (heap_push c i h)" and "distinct (map snd (heap_push c i h))"
    and "set (heap_push c i h) = set h \<union> {(k, j). j = i \<and> head_key c = Some k}" by simp_all
qed

lemma take_rows_spec:
  assumes "take_rows limit is fps cs h = Inr (fps', cs', h')"
    and "list_all cursor_ok cs" and "distinct is" and "sorted h" and "distinct (map snd h)"
    and "set is \<inter> snd ` set h = {}"
  shows "list_all cursor_ok cs' \<and> map remaining cs' = advanced (set is) (map remaining cs) \<and>
    fps' = fps @ concat (map (\<lambda>i. snd (hd (remaining (cs ! i)))) is) \<and>
    (\<forall>i \<in> set is. i < length cs \<and> remaining (cs ! i) \<noteq> []) \<and>
    sorted h' \<and> distinct (map snd h') \<and>
    set h' = set h \<union> {(k, i). i \<in> set is \<and> head_key (cs' ! i) = Some k}"
  using assms
proof (induction "is" arbitrary: fps cs h)
  case Nil
  then show ?case by simp
next
  case (Cons i "is")
  from Cons.prems(1) obtain k vs c where i: "i < length cs" "pc_current (cs ! i) = Some (k, vs)"
    and c: "cursor_advance ((cs ! i)\<lparr>pc_current := None\<rparr>) = Inr c"
    and run: "take_rows limit is (fps @ vs) (cs[i := c]) (heap_push c i h) = Inr (fps', cs', h')"
    by (rule take_rows_ConsE)
  have "cursor_ok (cs ! i)" using Cons.prems(2) i(1) by (simp add: list_all_length)
  from cursor_ok_advance [OF this i(2) c]
  have adv: "cursor_ok c" "remaining (cs ! i) = (k, vs) # remaining c" by simp_all
  have ok': "list_all cursor_ok (cs[i := c])"
    unfolding list_all_length using Cons.prems(2) [unfolded list_all_length] adv(1)
    by (metis length_list_update nth_list_update_eq nth_list_update_neq)
  have disj: "i \<notin> set is" "i \<notin> snd ` set h" "distinct is" "set is \<inter> snd ` set h = {}"
    using Cons.prems(3,6) by auto
  note push = heap_push_spec [OF adv(1) Cons.prems(4,5) disj(2)]
  have sep: "set is \<inter> snd ` set (heap_push c i h) = {}" using disj(1,4) unfolding push(3) by auto
  note IH = Cons.IH [OF run ok' disj(3) push(1,2) sep]
  have upd: "map remaining (cs[i := c]) = (map remaining cs)[i := tl (map remaining cs ! i)]"
    using i(1) adv(2) by (simp add: map_update)
  have cs': "map remaining cs' = advanced (set (i # is)) (map remaining cs)"
    using IH advanced_insert [of i "map remaining cs" "set is"] i(1) disj(1) unfolding upd by simp
  have "length cs' = length cs" using arg_cong [OF cs', of length] by simp
  then have ci: "remaining (cs' ! i) = remaining c"
    using arg_cong [OF cs', of "\<lambda>l. l ! i"] i(1) adv(2) by simp
  have other: "(cs[i := c]) ! j = cs ! j" if "j \<in> set is" for j using that disj(1) by (metis nth_list_update_neq)
  have "fps' = fps @ concat (map (\<lambda>i. snd (hd (remaining (cs ! i)))) (i # is))"
    using IH adv(2) other by (simp cong: map_cong)
  moreover have "\<forall>j \<in> set (i # is). j < length cs \<and> remaining (cs ! j) \<noteq> []"
    using IH adv(2) i(1) other by auto
  moreover have "set h' = set h \<union> {(k, j). j \<in> set (i # is) \<and> head_key (cs' ! j) = Some k}"
    using IH ci unfolding push(3) head_key_def by auto
  ultimately show ?case using IH cs' by blast
qed

definition values_at :: "postings_key \<Rightarrow> postings_entry set \<Rightarrow> u64 set" where
  "values_at k S = \<Union> (set ` snd ` {e \<in> S. fst e = k})"

lemma union_of_values:
  "union_of es = map (\<lambda>k. (k, sorted_list_of_set (values_at k (set es)))) (sorted_list_of_set (fst ` set es))"
  by (simp add: union_of_def sort_dedup_eq fps_of_def values_at_def)

lemma sorted_list_of_set_min:
  assumes "finite K" and "\<forall>k \<in> K. m < k"
  shows "sorted_list_of_set (insert m K) = m # sorted_list_of_set K"
proof -
  have "m \<notin> K" using assms(2) by blast
  have "insort m (sorted_list_of_set K) = m # sorted_list_of_set K"
    by (rule insort_is_Cons) (use assms in \<open>auto simp: less_imp_le\<close>)
  then show ?thesis using assms(1) \<open>m \<notin> K\<close> by simp
qed

lemma union_round_sets:
  assumes "set es = H \<union> set es'" and "H \<noteq> {}" and "\<forall>e \<in> H. fst e = key" and "\<forall>e \<in> set es'. key < fst e"
    and "set fps = values_at key H"
  shows "union_of es = (key, sort_dedup fps) # union_of es'"
proof -
  have "fst ` set es = insert key (fst ` set es')" using assms(1-3) by force
  then have keys: "sorted_list_of_set (fst ` set es) = key # sorted_list_of_set (fst ` set es')"
    using sorted_list_of_set_min [of "fst ` set es'" key] assms(4) by simp
  have "{e \<in> H \<union> set es'. fst e = key} = {e \<in> H. fst e = key}" using assms(4) by auto
  then have v: "values_at key (set es) = set fps" by (simp add: values_at_def assms(1,5))
  have o: "values_at k (set es) = values_at k (set es')" if "k \<in> fst ` set es'" for k
  proof -
    have "key \<noteq> k" using that assms(4) by auto
    then have "{e \<in> H \<union> set es'. fst e = k} = {e \<in> set es'. fst e = k}" using assms(3) by auto
    then show ?thesis by (simp add: values_at_def assms(1))
  qed
  show ?thesis unfolding union_of_values keys using v o by (simp add: sort_dedup_eq cong: map_cong)
qed

lemma set_concat_nth: "set (concat xs) = (\<Union>i < length xs. set (xs ! i))"
proof -
  have "set xs = (!) xs ` {..<length xs}" by (auto simp: set_conv_nth)
  then show ?thesis by simp
qed

lemma set_concat_advanced:
  assumes "\<forall>i \<in> I. i < length ls \<and> ls ! i \<noteq> []"
  shows "set (concat ls) = (\<lambda>i. hd (ls ! i)) ` I \<union> set (concat (advanced I ls))"
proof -
  have "set (ls ! i) = (if i \<in> I then {hd (ls ! i)} else {}) \<union> set (advanced I ls ! i)" if "i < length ls" for i
    using that assms by (cases "ls ! i") auto
  then have "set (concat ls) = (\<Union>i < length ls. (if i \<in> I then {hd (ls ! i)} else {}) \<union> set (advanced I ls ! i))"
    unfolding set_concat_nth by simp
  also have "\<dots> = (\<lambda>i. hd (ls ! i)) ` I \<union> (\<Union>i < length ls. set (advanced I ls ! i))"
    using assms by (auto split: if_splits)
  finally show ?thesis by (simp only: set_concat_nth length_advanced)
qed

lemma union_round:
  assumes sorted: "\<forall>l \<in> set ls. sorted_wrt (<) (map fst l)"
    and I: "I = {i. i < length ls \<and> ls ! i \<noteq> [] \<and> fst (hd (ls ! i)) = key}" "I \<noteq> {}"
    and least: "\<forall>i < length ls. ls ! i \<noteq> [] \<longrightarrow> key \<le> fst (hd (ls ! i))"
    and fps: "set fps = (\<Union>i \<in> I. set (snd (hd (ls ! i))))"
  shows "union_of (concat ls) = (key, sort_dedup fps) # union_of (concat (advanced I ls))"
proof (rule union_round_sets)
  show "set (concat ls) = (\<lambda>i. hd (ls ! i)) ` I \<union> set (concat (advanced I ls))"
    by (rule set_concat_advanced) (simp add: I(1))
  show "\<forall>e \<in> set (concat (advanced I ls)). key < fst e"
  proof
    fix e assume "e \<in> set (concat (advanced I ls))"
    then obtain i where i: "i < length ls" and e: "e \<in> set (advanced I ls ! i)"
      unfolding set_concat_nth by auto
    have s: "sorted_wrt (<) (map fst (ls ! i))" using sorted i by simp
    show "key < fst e"
    proof (cases "i \<in> I")
      case True
      then obtain x xs where x: "ls ! i = x # xs" "fst x = key" unfolding I(1) by (cases "ls ! i") auto
      with e i True s show ?thesis by auto
    next
      case False
      with e i obtain x xs where x: "ls ! i = x # xs" "fst x \<noteq> key" unfolding I(1) by (cases "ls ! i") auto
      with least i have "key < fst x" by (metis less_le list.distinct(1) list.sel(1))
      moreover have "e = x \<or> fst x < fst e" using e i False x s by auto
      ultimately show ?thesis by auto
    qed
  qed
qed (use I fps in \<open>auto simp: values_at_def\<close>)

section \<open>The whole merge\<close>

definition out_rows :: "postings_output \<Rightarrow> postings_entry list" where
  "out_rows out = concat (po_written out) @ po_pending out"

lemma write_batch_spec:
  "write_batch wr es out = Inr out' \<Longrightarrow> concat (po_written out') = concat (po_written out) @ es \<and>
     po_pending out' = po_pending out"
  by (auto simp: write_batch_def postings_record_batch_def split: if_splits sum.splits)

lemma emit_row_spec:
  assumes "emit_row wr flush lim e out = Inr out'"
  shows "out_rows out' = out_rows out @ [e]"
proof -
  obtain name val fps where e: "e = ((name, val), fps)" by (metis prod.exhaust)
  let ?o = "out\<lparr>po_bytes := min (2 ^ 64 - 1) (po_bytes out + (length name + length val + length fps * 8 + 16)),
      po_pending := po_pending out @ [e]\<rparr>"
  show ?thesis
  proof (cases "po_bytes ?o \<ge> lim")
    case False
    with assms have "out' = ?o" by (auto simp: emit_row_def e Let_def split: if_splits)
    then show ?thesis by (simp add: out_rows_def)
  next
    case True
    then obtain o2 where o2: "write_batch wr (po_pending ?o) ?o = Inr o2"
      using assms by (auto simp: emit_row_def e Let_def split: sum.splits)
    with True assms have "po_written out' = po_written o2" "po_pending out' = []"
      by (auto simp: emit_row_def e Let_def split: if_splits)
    with write_batch_spec [OF o2] show ?thesis by (simp add: out_rows_def)
  qed
qed

lemma merge_round:
  assumes h: "heap_ok cs ((key, i) # h)" and ok: "list_all cursor_ok cs"
    and pop: "pop_matching key h = (is, h1)"
    and rows: "take_rows limit (i # is) [] cs h1 = Inr (fps, cs', h2)"
  shows "list_all cursor_ok cs'" and "heap_ok cs' h2"
    and "union_of (concat (map remaining cs)) = (key, sort_dedup fps) # union_of (concat (map remaining cs'))"
proof -
  let ?h = "(key, i) # h" and ?I = "set (i # is)" and ?ls = "map remaining cs"
  have sorted: "sorted ?h" and dist: "distinct (map snd ?h)"
    using h unfolding heap_ok_def by blast+
  have mem: "\<And>k j. (k, j) \<in> set ?h \<longleftrightarrow> j < length cs \<and> head_key (cs ! j) = Some k"
    using h unfolding heap_ok_def by blast
  have least: "\<forall>x \<in> set ?h. key \<le> fst x" using sorted fst_mono [of "(key, i)"] by auto
  with pop sorted have split: "h = map (Pair key) is @ h1" "\<forall>x \<in> set h1. key < fst x"
    using pop_matching_spec [of key h "is" h1] by simp_all
  have "(key, j) \<in> set ?h \<longleftrightarrow> j \<in> ?I" for j
    using split(2) unfolding split(1) by (auto dest: bspec)
  then have I: "?I = {j. j < length ?ls \<and> ?ls ! j \<noteq> [] \<and> fst (hd (?ls ! j)) = key}"
    unfolding mem head_key_iff by (auto cong: conj_cong)
  have "distinct (map snd (map (Pair key) (i # is) @ h1))" using dist split(1) by simp
  then have sep: "distinct (i # is)" "sorted h1" "distinct (map snd h1)" "?I \<inter> snd ` set h1 = {}"
    using sorted unfolding split(1) by (auto simp: sorted_append comp_def)
  note spec = take_rows_spec [OF rows ok sep]
  show "list_all cursor_ok cs'" using spec by simp
  have cs': "map remaining cs' = advanced ?I ?ls" using spec by blast
  have len: "length cs' = length cs" using arg_cong [OF cs', of length] by simp
  have other: "remaining (cs' ! j) = remaining (cs ! j)" if "j < length cs" "j \<notin> ?I" for j
    using arg_cong [OF cs', of "\<lambda>l. l ! j"] that len by simp
  have h2: "sorted h2" "distinct (map snd h2)"
    "set h2 = set h1 \<union> {(k, j). j \<in> ?I \<and> head_key (cs' ! j) = Some k}" using spec by blast+
  have "(k, j) \<in> set h2 \<longleftrightarrow> j < length cs' \<and> head_key (cs' ! j) = Some k" for k j
  proof (cases "j \<in> ?I")
    case True
    then have "(k, j) \<notin> set h1" using sep(4) by force
    moreover have "j < length cs" using True I by auto
    ultimately show ?thesis unfolding h2(3) len using True by simp
  next
    case False
    then have "(k, j) \<in> set h1 \<longleftrightarrow> (k, j) \<in> set ?h" unfolding split(1) by auto
    also have "\<dots> \<longleftrightarrow> j < length cs' \<and> head_key (cs' ! j) = Some k"
      unfolding mem len using other [OF _ False] by (simp add: head_key_iff cong: conj_cong)
    finally show ?thesis unfolding h2(3) using False by simp
  qed
  then show "heap_ok cs' h2" using h2 unfolding heap_ok_def by blast
  show "union_of (concat ?ls) = (key, sort_dedup fps) # union_of (concat (map remaining cs'))"
    unfolding cs'
  proof (rule union_round [OF _ I])
    show "\<forall>l \<in> set ?ls. sorted_wrt (<) (map fst l)" using ok by (auto simp: list_all_iff cursor_ok_def)
    show "\<forall>j < length ?ls. ?ls ! j \<noteq> [] \<longrightarrow> key \<le> fst (hd (?ls ! j))"
    proof (intro allI impI)
      fix j assume "j < length ?ls" "?ls ! j \<noteq> []"
      then have "(fst (hd (?ls ! j)), j) \<in> set ?h" unfolding mem head_key_iff by simp
      with least show "key \<le> fst (hd (?ls ! j))" by fastforce
    qed
    have "fps = concat (map (\<lambda>i. snd (hd (remaining (cs ! i)))) (i # is))" using spec by simp
    moreover have "\<forall>j \<in> ?I. ?ls ! j = remaining (cs ! j)" using I by auto
    ultimately show "set fps = (\<Union>j \<in> ?I. set (snd (hd (?ls ! j))))" by simp
  qed simp
qed

lemma merge_loop_spec:
  "merge_loop limit lim wr flush h cs out = Inr out' \<Longrightarrow> heap_ok cs h \<Longrightarrow> list_all cursor_ok cs \<Longrightarrow>
     out_rows out' = out_rows out @ union_of (concat (map remaining cs))"
proof (induction limit lim wr flush h cs out rule: merge_loop.induct)
  case (1 limit lim wr flush cs out)
  have "remaining c = []" if c: "c \<in> set cs" for c
  proof -
    obtain j where j: "j < length cs" "cs ! j = c" using c by (auto simp: in_set_conv_nth)
    have "(k, j) \<in> set [] \<longleftrightarrow> j < length cs \<and> head_key (cs ! j) = Some k" for k
      using 1(2) unfolding heap_ok_def by blast
    with j have "head_key c \<noteq> Some k" for k by simp
    then have "head_key c = None" by (cases "head_key c") blast+
    then show ?thesis by (simp add: head_key_def split: list.splits)
  qed
  then have "concat (map remaining cs) = []" by simp
  with 1(1) show ?case by (simp add: union_of_def)
next
  case (2 limit lim wr flush key i h cs out)
  obtain "is" h1 where pop: "pop_matching key h = (is, h1)" by force
  from 2(2) pop obtain fps cs' h2 out1 where
    rows: "take_rows limit (i # is) [] cs h1 = Inr (fps, cs', h2)"
    and emit: "emit_row wr flush lim (key, sort_dedup fps) out = Inr out1"
    and run: "merge_loop limit lim wr flush h2 cs' out1 = Inr out'"
    by (auto simp del: take_rows.simps split: sum.splits prod.splits)
  note round = merge_round [OF 2(3,4) pop rows]
  from 2(1) [OF pop [symmetric] rows refl refl emit run round(2,1)] emit_row_spec [OF emit] round(3)
  show ?case by simp
qed

definition input_rows :: "postings_input \<Rightarrow> postings_entry list" where
  "input_rows i = concat (map (\<lambda>b. case b of None \<Rightarrow> [] | Some es \<Rightarrow> es) (pi_batches i))"

definition opened_rows :: "('e \<Rightarrow> merge_error + postings_input) \<Rightarrow> 'e \<Rightarrow> postings_entry list" where
  "opened_rows open_input e = (case open_input e of Inl _ \<Rightarrow> [] | Inr i \<Rightarrow> input_rows i)"

lemma open_cursors_spec:
  "open_cursors open_input budget es = Inr cs \<Longrightarrow>
     \<forall>e \<in> set es. sorted_wrt (<) (map fst (opened_rows open_input e)) \<Longrightarrow>
     map remaining cs = map (opened_rows open_input) es \<and> list_all cursor_ok cs"
proof (induction es arbitrary: cs)
  case (Cons e es)
  from Cons.prems(1) obtain i c cs' where i: "open_input e = Inr i"
    and c: "cursor_advance \<lparr>pc_stream = pi_batches i, pc_batch = None, pc_row = 0, pc_current = None, pc_row_budget = budget\<rparr> = Inr c"
    and cs': "open_cursors open_input budget es = Inr cs'" "cs = c # cs'"
    by (auto split: sum.splits if_splits)
  have "remaining c = opened_rows open_input e \<and> (pc_current c = None \<longrightarrow> pending c = [])"
    using cursor_advance_spec [OF c] by (simp add: pending_def opened_rows_def i input_rows_def)
  with Cons.IH [OF cs'(1)] Cons.prems(2) cs'(2) show ?case by (simp add: cursor_ok_def)
qed simp

lemma initial_heap_from:
  assumes "list_all cursor_ok cs" and "sorted h" and "distinct (map snd h)" and "\<forall>x \<in> set h. snd x < n"
  shows "sorted (fold (\<lambda>(i, c). heap_push c i) (enumerate n cs) h) \<and>
    distinct (map snd (fold (\<lambda>(i, c). heap_push c i) (enumerate n cs) h)) \<and>
    set (fold (\<lambda>(i, c). heap_push c i) (enumerate n cs) h) =
      set h \<union> {(k, j). n \<le> j \<and> j < n + length cs \<and> head_key (cs ! (j - n)) = Some k}"
  using assms
proof (induction cs arbitrary: h n)
  case (Cons c cs)
  have "n \<notin> snd ` set h" using Cons.prems(4) by auto
  note push = heap_push_spec [OF _ Cons.prems(2,3) this, of c]
  have below: "\<forall>x \<in> set (heap_push c n h). snd x < Suc n"
    using Cons.prems(1,4) push(3) by auto
  have "{(k, j). j = n \<and> head_key c = Some k} \<union>
      {(k, j). Suc n \<le> j \<and> j < Suc n + length cs \<and> head_key (cs ! (j - Suc n)) = Some k} =
      {(k, j). n \<le> j \<and> j < n + length (c # cs) \<and> head_key ((c # cs) ! (j - n)) = Some k}"
    by (auto simp: nth_Cons' less_Suc_eq_le Suc_le_eq)
  with Cons.IH [OF _ push(1,2) below] Cons.prems(1) push(3) show ?case by (simp add: Un_assoc)
qed auto

lemma initial_heap_ok: "list_all cursor_ok cs \<Longrightarrow> heap_ok cs (initial_heap cs)"
  using initial_heap_from [of cs "[]" 0] by (simp add: initial_heap_def heap_ok_def)

section \<open>When the merge succeeds\<close>

definition cursor_good :: "postings_cursor \<Rightarrow> bool" where
  "cursor_good c \<longleftrightarrow> None \<notin> set (pc_stream c) \<and> (\<forall>e \<in> set (pending c). entry_bytes e \<le> unat (pc_row_budget c))"

definition fps_total :: "postings_entry list \<Rightarrow> nat" where
  "fps_total es = sum_list (map (\<lambda>e. length (snd e)) es)"

definition cursors_fps :: "postings_cursor list \<Rightarrow> nat" where
  "cursors_fps cs = sum_list (map (\<lambda>c. fps_total (remaining c)) cs)"

lemma cursor_advance_good:
  "cursor_good c \<Longrightarrow> \<exists>c'. cursor_advance c = Inr c' \<and> cursor_good c'"
proof (induction c rule: cursor_advance.induct)
  case (1 c)
  show ?case
  proof (cases "\<exists>b. pc_batch c = Some b \<and> pc_row c < length b")
    case True
    then obtain b where b: "pc_batch c = Some b" "pc_row c < length b" by blast
    then have p: "pending c = b ! pc_row c # pending (c\<lparr>pc_row := pc_row c + 1\<rparr>)"
      by (simp add: pending_def Cons_nth_drop_Suc)
    let ?c = "c\<lparr>pc_current := Some (b ! pc_row c), pc_row := pc_row c + 1\<rparr>"
    have "cursor_advance c = Inr ?c"
      using b 1(3) p by (simp add: cursor_advance.simps [of c] cursor_good_def not_less)
    moreover have "cursor_good ?c" using 1(3) p b by (simp add: cursor_good_def pending_def)
    ultimately show ?thesis by blast
  next
    case False
    then have p: "pending c = concat (map (\<lambda>b. case b of None \<Rightarrow> [] | Some es \<Rightarrow> es) (pc_stream c))"
      by (cases "pc_batch c") (auto simp: pending_def)
    show ?thesis
    proof (cases "pc_stream c")
      case Nil
      with False show ?thesis
        by (cases "pc_batch c") (auto simp: cursor_advance.simps [of c] cursor_good_def pending_def)
    next
      case (Cons b bs)
      with 1(3) obtain es where b: "b = Some es" by (cases b) (auto simp: cursor_good_def)
      let ?c = "c\<lparr>pc_batch := Some es, pc_row := 0, pc_stream := bs\<rparr>"
      have "cursor_advance c = cursor_advance ?c"
        using False Cons b by (cases "pc_batch c") (auto simp: cursor_advance.simps [of c])
      moreover have "cursor_good ?c"
        using 1(3) p Cons b by (simp add: cursor_good_def pending_def)
      then have "\<exists>c'. cursor_advance ?c = Inr c' \<and> cursor_good c'"
        using 1(1,2) False Cons b by (cases "pc_batch c") auto
      ultimately show ?thesis by simp
    qed
  qed
qed

lemma cursors_fps_update:
  "i < length cs \<Longrightarrow> cursors_fps (cs[i := c]) + fps_total (remaining (cs ! i)) = cursors_fps cs + fps_total (remaining c)"
  using elem_le_sum_list [of i "map (\<lambda>c. fps_total (remaining c)) cs"]
  by (simp add: cursors_fps_def map_update sum_list_update)

lemma take_rows_succeeds:
  assumes "list_all cursor_good cs" and "distinct is"
    and "\<forall>i \<in> set is. i < length cs \<and> pc_current (cs ! i) \<noteq> None"
    and "(length fps + cursors_fps cs) * 8 \<le> limit"
  shows "\<exists>fps' cs' h'. take_rows limit is fps cs h = Inr (fps', cs', h') \<and> list_all cursor_good cs' \<and>
    length fps' + cursors_fps cs' = length fps + cursors_fps cs"
  using assms
proof (induction "is" arbitrary: fps cs h)
  case (Cons i "is")
  have i: "i < length cs" using Cons.prems(3) by simp
  obtain k vs where cur: "pc_current (cs ! i) = Some (k, vs)" using Cons.prems(3) by auto
  have "cursor_good ((cs ! i)\<lparr>pc_current := None\<rparr>)"
    using Cons.prems(1) i by (simp add: list_all_length cursor_good_def)
  from cursor_advance_good [OF this] obtain c where
    c: "cursor_advance ((cs ! i)\<lparr>pc_current := None\<rparr>) = Inr c" "cursor_good c" by blast
  have "remaining (cs ! i) = (k, vs) # remaining c"
    using cursor_advance_spec [OF c(1)] cur by (simp add: remaining_def)
  then have tot: "cursors_fps (cs[i := c]) + length vs = cursors_fps cs"
    using cursors_fps_update [OF i, of c] by (simp add: fps_total_def)
  have good: "list_all cursor_good (cs[i := c])"
    unfolding list_all_length using Cons.prems(1) [unfolded list_all_length] c(2)
    by (metis length_list_update nth_list_update_eq nth_list_update_neq)
  have rest: "\<forall>j \<in> set is. j < length (cs[i := c]) \<and> pc_current (cs[i := c] ! j) \<noteq> None"
    using Cons.prems(2,3) by (metis distinct.simps(2) length_list_update list.set_intros(2) nth_list_update_neq)
  have small: "(length (fps @ vs) + cursors_fps (cs[i := c])) * 8 \<le> limit" using Cons.prems(4) tot by simp
  have "take_rows limit (i # is) fps cs h = take_rows limit is (fps @ vs) (cs[i := c]) (heap_push c i h)"
    using i cur c(1) Cons.prems(4) tot by (simp add: Let_def)
  moreover from Cons.IH [OF good _ rest small, of "heap_push c i h"] Cons.prems(2) obtain fps' cs' h' where
    "take_rows limit is (fps @ vs) (cs[i := c]) (heap_push c i h) = Inr (fps', cs', h')" "list_all cursor_good cs'"
    "length fps' + cursors_fps cs' = length (fps @ vs) + cursors_fps (cs[i := c])" by auto
  ultimately show ?case using tot by simp
qed simp

lemma emit_row_succeeds:
  assumes "\<And>n. wr n" and "fps_total (po_pending out) + length (snd e) \<le> 2 ^ 31 - 1"
  shows "\<exists>out'. emit_row wr flush lim e out = Inr out' \<and>
    fps_total (po_pending out') \<le> fps_total (po_pending out) + length (snd e)"
proof -
  obtain name val fps where e: "e = ((name, val), fps)" by (metis prod.exhaust)
  have "sum_list (map (\<lambda>(_, fps). length fps) (po_pending out @ [e])) \<le> 2 ^ 31 - 1"
    using assms(2) by (simp add: fps_total_def case_prod_unfold)
  with assms show ?thesis
    by (auto simp: emit_row_def e Let_def write_batch_def postings_record_batch_def fps_total_def)
qed

lemma length_sort_dedup: "length (sort_dedup xs) \<le> length xs"
  using remdups_adj_length [of "sort xs"] by (simp add: sort_dedup_def)

lemma merge_loop_succeeds:
  assumes "\<And>n. wr n" and "heap_ok cs h" and "list_all cursor_ok cs" and "list_all cursor_good cs"
    and "cursors_fps cs * 8 \<le> limit" and "fps_total (po_pending out) + cursors_fps cs \<le> 2 ^ 31 - 1"
  shows "\<exists>out'. merge_loop limit lim wr flush h cs out = Inr out' \<and> fps_total (po_pending out') \<le> 2 ^ 31 - 1"
  using assms
proof (induction limit lim wr flush h cs out rule: merge_loop.induct)
  case (2 limit lim wr flush key i h cs out)
  note IH = 2(1) and wr = 2(2) and heap = 2(3) and ok = 2(4) and good = 2(5) and small = 2(6,7)
  obtain "is" h1 where pop: "pop_matching key h = (is, h1)" by force
  have mem: "(k, j) \<in> set ((key, i) # h) \<longleftrightarrow> j < length cs \<and> head_key (cs ! j) = Some k" for k j
    using heap unfolding heap_ok_def by blast
  have sorted: "sorted ((key, i) # h)" and dist: "distinct (map snd ((key, i) # h))"
    using heap unfolding heap_ok_def by blast+
  have "\<forall>x \<in> set h. key \<le> fst x" using sorted fst_mono [of "(key, i)"] by auto
  with pop sorted have split: "h = map (Pair key) is @ h1"
    using pop_matching_spec(1) [of key h "is" h1] by simp
  have cur: "\<forall>j \<in> set (i # is). j < length cs \<and> pc_current (cs ! j) \<noteq> None"
  proof
    fix j assume "j \<in> set (i # is)"
    then have "(key, j) \<in> set ((key, i) # h)" unfolding split by auto
    then have j: "j < length cs" "remaining (cs ! j) \<noteq> []" unfolding mem head_key_iff by simp_all
    with ok have "pc_current (cs ! j) \<noteq> None"
      by (cases "pc_current (cs ! j)") (auto simp: list_all_length cursor_ok_def remaining_def)
    with j show "j < length cs \<and> pc_current (cs ! j) \<noteq> None" by simp
  qed
  have dist': "distinct (i # is)" using dist unfolding split by (simp add: comp_def image_Un image_image)
  have "(length ([] :: u64 list) + cursors_fps cs) * 8 \<le> limit" using small(1) by simp
  from take_rows_succeeds [OF good dist' cur this] obtain fps cs' h2 where
    rows: "take_rows limit (i # is) [] cs h1 = Inr (fps, cs', h2)" and good': "list_all cursor_good cs'"
    and tot: "length fps + cursors_fps cs' = cursors_fps cs" by fastforce
  have "fps_total (po_pending out) + length (snd (key, sort_dedup fps)) \<le> 2 ^ 31 - 1"
    using small(2) tot length_sort_dedup [of fps] by simp
  from emit_row_succeeds [where wr = wr and e = "(key, sort_dedup fps)" and flush = flush and lim = lim, OF wr this]
  obtain out1 where emit: "emit_row wr flush lim (key, sort_dedup fps) out = Inr out1"
    and pend: "fps_total (po_pending out1) \<le> fps_total (po_pending out) + length (sort_dedup fps)" by auto
  have small': "cursors_fps cs' * 8 \<le> limit" "fps_total (po_pending out1) + cursors_fps cs' \<le> 2 ^ 31 - 1"
    using small tot pend length_sort_dedup [of fps] by simp_all
  note round = merge_round [OF heap ok pop rows]
  from IH [OF pop [symmetric] rows refl refl emit wr round(2,1) good' small']
  show ?case by (simp add: pop rows emit del: take_rows.simps)
qed simp

lemma open_cursors_succeeds:
  "\<forall>e \<in> set es. \<exists>i. open_input e = Inr i \<and> None \<notin> set (pi_batches i) \<and> largest_row_group i \<le> unat budget \<and>
       (\<forall>r \<in> set (input_rows i). entry_bytes r \<le> unat budget) \<Longrightarrow>
     \<exists>cs. open_cursors open_input budget es = Inr cs \<and> list_all cursor_good cs"
proof (induction es)
  case (Cons e es)
  then obtain i where i: "open_input e = Inr i" "None \<notin> set (pi_batches i)" "largest_row_group i \<le> unat budget"
    "\<forall>r \<in> set (input_rows i). entry_bytes r \<le> unat budget" by auto
  let ?c = "\<lparr>pc_stream = pi_batches i, pc_batch = None, pc_row = 0, pc_current = None, pc_row_budget = budget\<rparr>"
  have "cursor_good ?c" using i by (simp add: cursor_good_def pending_def input_rows_def)
  from cursor_advance_good [OF this] Cons i show ?case by auto
qed simp

section \<open>Properties\<close>

text \<open>C24: the bounded merge computes the reference union. When every opened input has its rows in
  strictly ascending order of the label pair, as the block builder writes them, and the bounded
  k-way merge succeeds, then the rows it has written, whatever the batch boundaries and flushes,
  are exactly those of the in-memory union \<open>merge_postings\<close> of the same inputs: each pair once, in
  ascending order, with the sorted fingerprints of all inputs without duplicates.\<close>

theorem streaming_merge_is_union:
  assumes "merge_postings_streaming open_input wr flush has_postings cfg budget inputs = Inr batches"
    and "\<forall>e \<in> set inputs. sorted_wrt (<) (map fst (opened_rows open_input e))"
  shows "concat batches = merge_postings (map (opened_rows open_input) (filter has_postings inputs))"
proof -
  define w where "w = max (budget div 4) 1"
  define es where "es = filter has_postings inputs"
  from assms(1) obtain cs out out' where
    cs: "open_cursors open_input (max (w div of_nat (max (length es) 1)) 1) es = Inr cs"
    and loop: "merge_loop (unat w) (unat (max (min (rc_parquet_writer_memory_bytes cfg) w) 1)) wr flush
        (initial_heap cs) cs \<lparr>po_written = [], po_pending = [], po_bytes = 0, po_calls = 0\<rparr> = Inr out"
    and fin: "(if po_pending out \<noteq> [] \<or> cs = [] then write_batch wr (po_pending out) out else Inr out) = Inr out'"
    and batches: "batches = po_written out'"
    unfolding merge_postings_streaming_def Let_def w_def [symmetric] es_def [symmetric]
    by (auto split: sum.splits if_splits)
  have ok: "map remaining cs = map (opened_rows open_input) es" "list_all cursor_ok cs"
    using open_cursors_spec [OF cs] assms(2) by (auto simp: es_def)
  have "out_rows out = union_of (concat (map remaining cs))"
    using merge_loop_spec [OF loop initial_heap_ok [OF ok(2)] ok(2)] by (simp add: out_rows_def)
  moreover have "concat (po_written out') = out_rows out"
    using fin write_batch_spec [of wr "po_pending out" out out'] by (auto simp: out_rows_def split: if_splits)
  ultimately show ?thesis by (simp add: batches merge_postings_eq ok(1) es_def)
qed


definition sample_postings :: "bool \<Rightarrow> merge_error + postings_input" where
  "sample_postings b = Inr \<lparr>pi_row_group_bytes = [100],
     pi_batches = (if b then [Some [((''job'', ''a''), [7, 3])], Some [((''job'', ''b''), [4])]]
                   else [Some [((''job'', ''b''), [9, 4])]])\<rparr>"

lemma sample_postings_rows:
  "opened_rows sample_postings b =
     (if b then [((''job'', ''a''), [7, 3]), ((''job'', ''b''), [4])] else [((''job'', ''b''), [9, 4])])"
  by (simp add: opened_rows_def sample_postings_def input_rows_def)

lemma sample_postings_sorted: "sorted_wrt (<) (map fst (opened_rows sample_postings b))"
  by (simp add: sample_postings_rows)

theorem streaming_merge_is_union_witness:
  "\<exists>batches. merge_postings_streaming sample_postings (\<lambda>_. True) (\<lambda>_. False) (\<lambda>_. True) sample_config 4096 [True, False]
       = Inr batches \<and>
     concat batches = merge_postings [[((''job'', ''a''), [7, 3]), ((''job'', ''b''), [4])], [((''job'', ''b''), [9, 4])]]"
proof -
  have "\<exists>batches. merge_postings_streaming sample_postings (\<lambda>_. True) (\<lambda>_. False) (\<lambda>_. True) sample_config 4096 [True, False]
      = Inr batches"
    by (simp add: merge_postings_streaming_def sample_postings_def cursor_advance.simps entry_bytes_def
        largest_row_group_def initial_heap_def heap_push_def enumerate_eq_zip Let_def sample_config_eq
        emit_row_def write_batch_def postings_record_batch_def sort_dedup_def)
  then obtain batches where b: "merge_postings_streaming sample_postings (\<lambda>_. True) (\<lambda>_. False) (\<lambda>_. True)
      sample_config 4096 [True, False] = Inr batches" by blast
  from streaming_merge_is_union [OF b] sample_postings_sorted b show ?thesis
    by (simp add: sample_postings_rows)
qed

text \<open>C38: the bounded merge always ends, and with a result when the budget allows it. When every
  input can be opened and read, its row groups and rows fit the share of one cursor, all
  fingerprints together fit the working budget and the 32-bit offsets of one batch, the rows are
  in order, and the writer accepts every call, the merge returns the written batches.\<close>

theorem streaming_merge_succeeds:
  assumes "w = max (budget div 4) 1" and "es = filter has_postings inputs"
    and "share = max (w div of_nat (max (length es) 1)) 1"
    and "\<forall>e \<in> set es. \<exists>i. open_input e = Inr i \<and> None \<notin> set (pi_batches i) \<and> largest_row_group i \<le> unat share \<and>
       (\<forall>r \<in> set (input_rows i). entry_bytes r \<le> unat share)"
    and "\<forall>e \<in> set es. sorted_wrt (<) (map fst (opened_rows open_input e))"
    and "sum_list (map (\<lambda>e. fps_total (opened_rows open_input e)) es) * 8 \<le> unat w"
    and "sum_list (map (\<lambda>e. fps_total (opened_rows open_input e)) es) \<le> 2 ^ 31 - 1"
    and "\<And>n. wr n"
  shows "\<exists>batches. merge_postings_streaming open_input wr flush has_postings cfg budget inputs = Inr batches"
proof -
  let ?o = "\<lparr>po_written = [], po_pending = [], po_bytes = 0, po_calls = 0\<rparr>"
  from open_cursors_succeeds [OF assms(4)] obtain cs where
    cs: "open_cursors open_input share es = Inr cs" "list_all cursor_good cs" by blast
  have ok: "map remaining cs = map (opened_rows open_input) es" "list_all cursor_ok cs"
    using open_cursors_spec [OF cs(1) assms(5)] by simp_all
  have "cursors_fps cs = sum_list (map fps_total (map remaining cs))" by (simp add: cursors_fps_def comp_def)
  also have "\<dots> = sum_list (map (\<lambda>e. fps_total (opened_rows open_input e)) es)"
    unfolding ok(1) by (simp add: comp_def)
  finally have tot: "cursors_fps cs = sum_list (map (\<lambda>e. fps_total (opened_rows open_input e)) es)" .
  have "cursors_fps cs * 8 \<le> unat w" "fps_total (po_pending ?o) + cursors_fps cs \<le> 2 ^ 31 - 1"
    using assms(6,7) tot by (simp_all add: fps_total_def)
  from merge_loop_succeeds [where wr = wr and lim = "unat (max (min (rc_parquet_writer_memory_bytes cfg) w) 1)" and flush = flush,
      OF assms(8) initial_heap_ok [OF ok(2)] ok(2) cs(2) this]
  obtain out where out: "merge_loop (unat w) (unat (max (min (rc_parquet_writer_memory_bytes cfg) w) 1)) wr flush
      (initial_heap cs) cs ?o = Inr out" "fps_total (po_pending out) \<le> 2 ^ 31 - 1" by blast
  have "\<exists>out'. write_batch wr (po_pending out) out = Inr out'"
    using out(2) assms(8) by (simp add: write_batch_def postings_record_batch_def fps_total_def case_prod_unfold)
  with out(1) cs(1) assms(8) show ?thesis
    unfolding merge_postings_streaming_def Let_def assms(1) [symmetric] assms(2) [symmetric] assms(3) [symmetric]
    by auto
qed

theorem streaming_merge_succeeds_witness:
  "\<exists>batches. merge_postings_streaming sample_postings (\<lambda>_. True) (\<lambda>_. True) (\<lambda>_. True) sample_config 4096 [True, False]
     = Inr batches"
proof (rule streaming_merge_succeeds)
  show "1024 = max (4096 div 4) (1 :: u64)" and "512 = max (1024 div of_nat (max (length [True, False]) 1)) (1 :: u64)"
    by simp_all
  show "[True, False] = filter (\<lambda>_. True) [True, False]" by simp
  show "\<forall>e \<in> set [True, False]. \<exists>i. sample_postings e = Inr i \<and> None \<notin> set (pi_batches i) \<and>
      largest_row_group i \<le> unat (512 :: u64) \<and> (\<forall>r \<in> set (input_rows i). entry_bytes r \<le> unat (512 :: u64))"
    by (simp add: sample_postings_def largest_row_group_def input_rows_def entry_bytes_def)
qed (simp_all add: sample_postings_rows fps_total_def)

end
