(* ===== verification/Catalog.thy ===== *)
theory Catalog
  imports Block "HOL-Library.Product_Lexorder" "HOL-Library.Multiset"
begin

text \<open>
  The SQLite block catalog, \<^verbatim>\<open>src/crates/catalog/src/lib.rs\<close>. Every table is a list of
  rows in insertion order, and every method of \<^verbatim>\<open>Catalog\<close> is the function its SQL
  statements compute; a method that runs in one transaction is one function. INTEGER columns
  are signed 64-bit values, written and read with the casts of the code. UUID columns hold
  the lower-case hyphenated text, whose lexical order is the order of the 128-bit numbers.
  Failing SQLite calls are not modelled except in reconciliation, where the code goes on
  after one.
\<close>

section \<open>Tables\<close>

definition as_i64 :: "u64 \<Rightarrow> int" where
  "as_i64 x = sint x"

definition as_u64 :: "int \<Rightarrow> u64" where
  "as_u64 i = word_of_int i"

definition u32_as_i64 :: "u32 \<Rightarrow> int" where
  "u32_as_i64 x = uint x"

definition as_u32 :: "int \<Rightarrow> u32" where
  "as_u32 i = word_of_int i"

definition I64_MAX :: u64 where
  "I64_MAX = 0x7FFFFFFFFFFFFFFF"

definition clamp_i64 :: "u64 \<Rightarrow> int" where
  "clamp_i64 x = as_i64 (min x I64_MAX)"

record block_cols =
  c_uuid :: uuid
  c_bucket :: string
  c_signal :: string
  c_date :: string
  c_writer_id :: uuid
  c_level :: int
  c_ts_min :: int
  c_ts_max :: int
  c_row_count :: int
  c_byte_size :: int
  c_schema_version :: int
  c_fingerprint :: "bytes option"
  c_has_postings :: int
  c_postings_size :: "int option"
  c_has_body_bloom :: int
  c_body_bloom_size :: "int option"
  c_wal_seg_max :: "int option"
  c_wal_shard :: "int option"
  c_meta_json_size :: "int option"

record block_row = block_cols +
  r_superseded_by :: "uuid option"
  r_superseded :: bool
  r_deleted_at :: "int option"
  r_delete_eligible_at :: "int option"
  r_reap_output :: "uuid option"
  r_reap_eligible_at :: "int option"

record lineage_row =
  l_ancestor :: uuid
  l_descendant :: uuid
  l_signal :: string
  l_date :: string
  l_observed_at :: int

type_synonym cursor_key = "string \<times> uuid \<times> string"
type_synonym watermark_key = "uuid \<times> string \<times> int"

record catalog =
  blocks :: "block_row list"
  lineage :: "lineage_row list"
  poll_cursors :: "(cursor_key \<times> uuid) list"
  wal_watermarks :: "(watermark_key \<times> int) list"
  block_labels :: "(uuid \<times> string \<times> string) list"
  block_labels_warmed :: "uuid list"
  cat_bucket :: string

definition catalog_empty :: "string \<Rightarrow> catalog" where
  "catalog_empty b = \<lparr>blocks = [], lineage = [], poll_cursors = [], wal_watermarks = [],
     block_labels = [], block_labels_warmed = [], cat_bucket = b\<rparr>"

record catalog_entry =
  e_meta :: block_meta
  e_bucket :: string
  e_date :: string
  e_level :: u32

definition live :: "block_row \<Rightarrow> bool" where
  "live r \<longleftrightarrow> r_deleted_at r = None \<and> \<not> r_superseded r"

definition row_to_entry :: "'a block_cols_scheme \<Rightarrow> catalog_entry" where
  "row_to_entry r =
     \<lparr>e_meta = \<lparr>bm_uuid = c_uuid r, bm_signal = c_signal r, bm_writer_id = c_writer_id r,
        bm_ts_min_unix_nano = as_u64 (c_ts_min r), bm_ts_max_unix_nano = as_u64 (c_ts_max r),
        bm_row_count = as_u64 (c_row_count r), bm_byte_size = as_u64 (c_byte_size r),
        bm_schema_version = as_u32 (c_schema_version r), bm_level = as_u32 (c_level r),
        bm_compacted_from = [], bm_producer_version = [],
        bm_label_fingerprint_bloom = c_fingerprint r,
        bm_has_postings = (c_has_postings r \<noteq> 0),
        bm_postings_size_bytes = map_option as_u64 (c_postings_size r),
        bm_series_types = None, bm_all_fingerprints = None,
        bm_has_body_bloom = (c_has_body_bloom r \<noteq> 0),
        bm_body_bloom_size_bytes = map_option as_u64 (c_body_bloom_size r),
        bm_meta_json_size_bytes = map_option as_u64 (c_meta_json_size r),
        bm_wal_seg_max = map_option as_u64 (c_wal_seg_max r),
        bm_wal_shard = map_option as_u32 (c_wal_shard r)\<rparr>,
      e_bucket = c_bucket r, e_date = c_date r, e_level = as_u32 (c_level r)\<rparr>"

definition format_date :: "(u64 \<Rightarrow> string \<times> string \<times> string) \<Rightarrow> u64 \<Rightarrow> string" where
  "format_date ymd ts = (let (y, m, d) = ymd (ts div 1000000000) in y @ ''-'' @ m @ ''-'' @ d)"

section \<open>Watermarks and lineage\<close>

text \<open>\<open>INSERT ... ON CONFLICT(key) DO UPDATE SET v = excluded.v WHERE guard\<close>\<close>

fun upsert_if :: "('v \<Rightarrow> bool) \<Rightarrow> 'k \<Rightarrow> 'v \<Rightarrow> ('k \<times> 'v) list \<Rightarrow> ('k \<times> 'v) list" where
  "upsert_if guard k v [] = [(k, v)]"
| "upsert_if guard k v ((k', v') # kvs) =
     (if k' = k then (k', if guard v' then v else v') # kvs
      else (k', v') # upsert_if guard k v kvs)"

definition advance_watermark_in ::
  "uuid \<Rightarrow> string \<Rightarrow> u32 \<Rightarrow> u64 \<Rightarrow> catalog \<Rightarrow> catalog" where
  "advance_watermark_in writer_id signal shard seg_max cat =
     cat\<lparr>wal_watermarks :=
       upsert_if (\<lambda>stored. as_i64 seg_max > stored) (writer_id, signal, u32_as_i64 shard)
         (as_i64 seg_max) (wal_watermarks cat)\<rparr>"

definition advance_watermark :: "uuid \<Rightarrow> string \<Rightarrow> u32 \<Rightarrow> u64 \<Rightarrow> catalog \<Rightarrow> catalog" where
  "advance_watermark = advance_watermark_in"

definition get_watermark :: "catalog \<Rightarrow> uuid \<Rightarrow> string \<Rightarrow> u32 \<Rightarrow> u64 option" where
  "get_watermark cat writer_id signal shard =
     map_option as_u64 (map_of (wal_watermarks cat) (writer_id, signal, u32_as_i64 shard))"

definition list_watermarks :: "catalog \<Rightarrow> string \<Rightarrow> (uuid \<times> u32 \<times> u64) list" where
  "list_watermarks cat signal =
     map (\<lambda>((w, _, sh), seg). (w, as_u32 sh, as_u64 seg))
       (filter (\<lambda>((_, sig, _), _). sig = signal) (wal_watermarks cat))"

definition update_where :: "('r \<Rightarrow> bool) \<Rightarrow> ('r \<Rightarrow> 'r) \<Rightarrow> 'r list \<Rightarrow> 'r list" where
  "update_where p f rs = map (\<lambda>r. if p r then f r else r) rs"

definition insert_lineage :: "lineage_row \<Rightarrow> lineage_row list \<Rightarrow> lineage_row list" where
  "insert_lineage l ls =
     (if \<exists>l' \<in> set ls. l_ancestor l' = l_ancestor l \<and> l_descendant l' = l_descendant l
      then ls else ls @ [l])"

definition coalesce :: "'a option \<Rightarrow> 'a option \<Rightarrow> 'a option" where
  "coalesce x y = (case x of None \<Rightarrow> y | Some _ \<Rightarrow> x)"

definition apply_ancestor :: "int \<Rightarrow> block_meta \<Rightarrow> string \<Rightarrow> uuid \<Rightarrow> catalog \<Rightarrow> catalog" where
  "apply_ancestor observed_at bm date ancestor cat =
     cat\<lparr>lineage := insert_lineage
           \<lparr>l_ancestor = ancestor, l_descendant = bm_uuid bm, l_signal = bm_signal bm,
            l_date = date, l_observed_at = observed_at\<rparr> (lineage cat),
         blocks := update_where (\<lambda>r. c_uuid r = ancestor \<and> c_uuid r \<noteq> bm_uuid bm)
           (\<lambda>r. r\<lparr>r_superseded := True,
                  r_superseded_by := coalesce (r_superseded_by r) (Some (bm_uuid bm))\<rparr>)
           (blocks cat)\<rparr>"

definition apply_lineage_in :: "int \<Rightarrow> block_meta \<Rightarrow> string \<Rightarrow> catalog \<Rightarrow> catalog" where
  "apply_lineage_in observed_at bm date cat =
     fold (apply_ancestor observed_at bm date) (bm_compacted_from bm) cat"

section \<open>Inserting blocks\<close>

definition has_block :: "catalog \<Rightarrow> uuid \<Rightarrow> bool" where
  "has_block cat u \<longleftrightarrow> u \<in> c_uuid ` set (blocks cat)"

text \<open>The \<open>CASE WHEN EXISTS\<close> of the insert: a live block already claims this ancestor.\<close>

definition live_descendant :: "catalog \<Rightarrow> uuid \<Rightarrow> bool" where
  "live_descendant cat u \<longleftrightarrow>
     (\<exists>l \<in> set (lineage cat). l_ancestor l = u \<and>
        (\<exists>d \<in> set (blocks cat). c_uuid d = l_descendant l \<and> live d))"

definition meta_cols :: "string \<Rightarrow> string \<Rightarrow> block_meta \<Rightarrow> block_cols" where
  "meta_cols bucket date bm =
     \<lparr>c_uuid = bm_uuid bm, c_bucket = bucket, c_signal = bm_signal bm, c_date = date,
      c_writer_id = bm_writer_id bm, c_level = u32_as_i64 (bm_level bm),
      c_ts_min = as_i64 (bm_ts_min_unix_nano bm), c_ts_max = as_i64 (bm_ts_max_unix_nano bm),
      c_row_count = as_i64 (bm_row_count bm), c_byte_size = as_i64 (bm_byte_size bm),
      c_schema_version = u32_as_i64 (bm_schema_version bm),
      c_fingerprint = bm_label_fingerprint_bloom bm,
      c_has_postings = (if bm_has_postings bm then 1 else 0),
      c_postings_size = map_option as_i64 (bm_postings_size_bytes bm),
      c_has_body_bloom = (if bm_has_body_bloom bm then 1 else 0),
      c_body_bloom_size = map_option as_i64 (bm_body_bloom_size_bytes bm),
      c_wal_seg_max = map_option as_i64 (bm_wal_seg_max bm),
      c_wal_shard = map_option u32_as_i64 (bm_wal_shard bm),
      c_meta_json_size = map_option as_i64 (bm_meta_json_size_bytes bm)\<rparr>"

definition fresh_row :: "block_cols \<Rightarrow> bool \<Rightarrow> block_row" where
  "fresh_row c sd = block_cols.extend c
     \<lparr>r_superseded_by = None, r_superseded = sd, r_deleted_at = None,
      r_delete_eligible_at = None, r_reap_output = None, r_reap_eligible_at = None\<rparr>"

definition insert_block ::
  "(u64 \<Rightarrow> string \<times> string \<times> string) \<Rightarrow> int \<Rightarrow> catalog \<Rightarrow> block_meta \<Rightarrow> bool \<times> catalog" where
  "insert_block ymd now cat bm =
     (let date = format_date ymd (bm_ts_min_unix_nano bm);
          new = \<not> has_block cat (bm_uuid bm);
          cat1 = (if new
                  then cat\<lparr>blocks := blocks cat @
                    [fresh_row (meta_cols (cat_bucket cat) date bm)
                       (live_descendant cat (bm_uuid bm))]\<rparr>
                  else cat);
          cat2 = (case (bm_wal_seg_max bm, bm_wal_shard bm) of
                    (Some seg, Some shard) \<Rightarrow>
                      advance_watermark_in (bm_writer_id bm) (bm_signal bm) shard seg cat1
                  | _ \<Rightarrow> cat1)
      in (new, apply_lineage_in now bm date cat2))"

section \<open>Listing blocks\<close>

definition list_blocks :: "catalog \<Rightarrow> catalog_entry list" where
  "list_blocks cat =
     map row_to_entry
       (sort_key (\<lambda>r. (c_date r, c_ts_min r, c_uuid r)) (filter live (blocks cat)))"

definition list_source_blocks ::
  "(uuid \<Rightarrow> string) \<Rightarrow> catalog \<Rightarrow> string \<Rightarrow> u32 \<Rightarrow> string option \<Rightarrow> nat \<Rightarrow> catalog_entry list" where
  "list_source_blocks ustr cat signal schema_version after_cursor limit =
     (let cursor = (case after_cursor of None \<Rightarrow> [] | Some c \<Rightarrow> c)
      in map row_to_entry (take limit (sort_key (\<lambda>r. (c_date r, c_uuid r))
           (filter (\<lambda>r. live r \<and> c_signal r = signal
                \<and> c_schema_version r = u32_as_i64 schema_version
                \<and> c_date r @ ''/'' @ ustr (c_uuid r) > cursor)
              (blocks cat)))))"

definition find_row :: "catalog \<Rightarrow> uuid \<Rightarrow> block_row option" where
  "find_row cat u = List.find (\<lambda>r. c_uuid r = u) (blocks cat)"

definition get_block :: "catalog \<Rightarrow> uuid \<Rightarrow> catalog_entry option" where
  "get_block cat u = map_option row_to_entry (find_row cat u)"

definition known_block_uuids :: "catalog \<Rightarrow> uuid set" where
  "known_block_uuids cat = c_uuid ` set (blocks cat)"

definition block_count :: "catalog \<Rightarrow> nat" where
  "block_count cat = length (filter live (blocks cat))"

definition live_row_count :: "catalog \<Rightarrow> u64" where
  "live_row_count cat = as_u64 (sum_list (map c_row_count (filter live (blocks cat))))"

record level_stats =
  ls_level :: u32
  ls_blocks :: u64
  ls_rows :: u64
  ls_bytes :: u64

record signal_stats =
  ss_signal :: string
  ss_blocks :: u64
  ss_rows :: u64
  ss_bytes :: u64

record live_block_stats =
  st_blocks :: u64
  st_rows :: u64
  st_bytes :: u64
  st_by_level :: "level_stats list"
  st_by_signal :: "signal_stats list"

text \<open>\<open>SELECT k, COUNT(*), SUM(row_count), SUM(byte_size) ... GROUP BY k ORDER BY k\<close>\<close>

definition group_live :: "(block_row \<Rightarrow> 'k :: linorder) \<Rightarrow> catalog \<Rightarrow> ('k \<times> int \<times> int \<times> int) list" where
  "group_live key cat =
     (let rs = filter live (blocks cat)
      in map (\<lambda>k. let g = filter (\<lambda>r. key r = k) rs
               in (k, int (length g), sum_list (map c_row_count g), sum_list (map c_byte_size g)))
           (sort (remdups (map key rs))))"

definition live_block_stats_of :: "catalog \<Rightarrow> live_block_stats" where
  "live_block_stats_of cat =
     (let stats = foldl (\<lambda>st (lv, n, rs, bs).
            st\<lparr>st_blocks := st_blocks st + as_u64 n, st_rows := st_rows st + as_u64 rs,
               st_bytes := st_bytes st + as_u64 bs,
               st_by_level := st_by_level st @
                 [\<lparr>ls_level = as_u32 (max lv 0), ls_blocks = as_u64 n, ls_rows = as_u64 rs,
                   ls_bytes = as_u64 bs\<rparr>]\<rparr>)
          \<lparr>st_blocks = 0, st_rows = 0, st_bytes = 0, st_by_level = [], st_by_signal = []\<rparr>
          (group_live c_level cat)
      in foldl (\<lambda>st (sig, n, rs, bs).
            st\<lparr>st_by_signal := st_by_signal st @
                 [\<lparr>ss_signal = sig, ss_blocks = as_u64 n, ss_rows = as_u64 rs,
                   ss_bytes = as_u64 bs\<rparr>]\<rparr>)
          stats (group_live c_signal cat))"

definition lineage_row_count :: "catalog \<Rightarrow> nat" where
  "lineage_row_count cat = length (lineage cat)"

definition prune_lineage_partition ::
  "string \<Rightarrow> string \<Rightarrow> uuid list \<Rightarrow> catalog \<Rightarrow> nat \<times> catalog" where
  "prune_lineage_partition signal date present cat =
     (let stale = (\<lambda>l. l_signal l = signal \<and> l_date l = date \<and> l_descendant l \<notin> set present)
      in (length (filter stale (lineage cat)),
          cat\<lparr>lineage := filter (\<lambda>l. \<not> stale l) (lineage cat)\<rparr>))"

section \<open>Supersession and pending reaps\<close>

definition max_deadline :: "int option \<Rightarrow> int \<Rightarrow> int option" where
  "max_deadline old new = Some (max (case old of None \<Rightarrow> new | Some o' \<Rightarrow> o') new)"

definition stage_superseded :: "uuid list \<Rightarrow> uuid \<Rightarrow> u64 \<Rightarrow> catalog \<Rightarrow> catalog" where
  "stage_superseded inputs merged eligible_at cat =
     fold (\<lambda>input c. c\<lparr>blocks :=
         update_where (\<lambda>r. c_uuid r = input \<and> c_uuid r \<noteq> merged)
           (\<lambda>r. r\<lparr>r_superseded_by := Some merged, r_superseded := True,
                  r_reap_output := Some merged,
                  r_reap_eligible_at := max_deadline (r_reap_eligible_at r) (clamp_i64 eligible_at)\<rparr>)
           (blocks c)\<rparr>) inputs cat"

definition mark_superseded :: "uuid list \<Rightarrow> uuid \<Rightarrow> catalog \<Rightarrow> catalog" where
  "mark_superseded inputs merged cat = stage_superseded inputs merged 0 cat"

definition apply_compaction ::
  "(u64 \<Rightarrow> string \<times> string \<times> string) \<Rightarrow> int \<Rightarrow> block_meta \<Rightarrow> uuid list \<Rightarrow> u64 \<Rightarrow> catalog \<Rightarrow>
     bool \<times> catalog" where
  "apply_compaction ymd now output direct_inputs eligible_at cat =
     (case insert_block ymd now cat output of
        (inserted, cat1) \<Rightarrow>
          (inserted, stage_superseded direct_inputs (bm_uuid output) eligible_at cat1))"

definition unstaged :: "block_row \<Rightarrow> bool" where
  "unstaged r \<longleftrightarrow> r_superseded r \<and> r_deleted_at r = None \<and> r_superseded_by r \<noteq> None
     \<and> r_reap_eligible_at r = None"

definition stage_unstaged_superseded :: "u64 \<Rightarrow> catalog \<Rightarrow> nat \<times> catalog" where
  "stage_unstaged_superseded eligible_at cat =
     (length (filter unstaged (blocks cat)),
      cat\<lparr>blocks := update_where unstaged
        (\<lambda>r. r\<lparr>r_reap_output := coalesce (r_reap_output r) (r_superseded_by r),
               r_reap_eligible_at := coalesce (r_reap_eligible_at r) (Some (clamp_i64 eligible_at))\<rparr>)
        (blocks cat)\<rparr>)"

definition reap_due :: "u64 \<Rightarrow> block_row \<Rightarrow> bool" where
  "reap_due now r \<longleftrightarrow> r_superseded r \<and> r_reap_output r \<noteq> None \<and>
     (case r_reap_eligible_at r of None \<Rightarrow> False | Some e \<Rightarrow> e \<le> clamp_i64 now)"

record pending_reap =
  pr_entry :: catalog_entry
  pr_output_uuid :: uuid
  pr_eligible_at :: u64

definition list_pending_reaps :: "catalog \<Rightarrow> u64 \<Rightarrow> pending_reap list" where
  "list_pending_reaps cat now =
     map (\<lambda>r. \<lparr>pr_entry = row_to_entry r, pr_output_uuid = the (r_reap_output r),
               pr_eligible_at = as_u64 (the (r_reap_eligible_at r))\<rparr>)
       (sort_key (\<lambda>r. (the (r_reap_eligible_at r), c_date r, c_uuid r))
          (filter (reap_due now) (blocks cat)))"

datatype terminal_resolution = Unique uuid | NoTerminal | Fork "uuid list"

definition lineage_edges :: "catalog \<Rightarrow> (uuid \<times> uuid) set" where
  "lineage_edges cat = set (map (\<lambda>l. (l_ancestor l, l_descendant l)) (lineage cat))"

definition resolve_terminal :: "catalog \<Rightarrow> uuid \<Rightarrow> terminal_resolution" where
  "resolve_terminal cat u =
     (let descendants = (lineage_edges cat)\<^sup>+ `` {u};
          ids = sort (map c_uuid (filter (\<lambda>r. live r \<and> c_uuid r \<in> descendants) (blocks cat)))
      in case ids of
           [] \<Rightarrow> if \<exists>r \<in> set (blocks cat). c_uuid r = u \<and> live r then Unique u else NoTerminal
         | [only] \<Rightarrow> Unique only
         | _ \<Rightarrow> Fork ids)"

definition delete_blocks :: "uuid list \<Rightarrow> catalog \<Rightarrow> catalog" where
  "delete_blocks us cat =
     cat\<lparr>blocks := filter (\<lambda>r. c_uuid r \<notin> set us) (blocks cat),
         block_labels := filter (\<lambda>(u, _, _). u \<notin> set us) (block_labels cat),
         block_labels_warmed := filter (\<lambda>u. u \<notin> set us) (block_labels_warmed cat)\<rparr>"

section \<open>The label cache\<close>

definition insert_ignore :: "'a \<Rightarrow> 'a list \<Rightarrow> 'a list" where
  "insert_ignore x xs = (if x \<in> set xs then xs else xs @ [x])"

definition upsert_block_labels :: "uuid \<Rightarrow> (string \<times> string) list \<Rightarrow> catalog \<Rightarrow> catalog" where
  "upsert_block_labels u pairs cat =
     cat\<lparr>block_labels_warmed := insert_ignore u (block_labels_warmed cat),
         block_labels := fold (\<lambda>(n, v). insert_ignore (u, n, v)) pairs (block_labels cat)\<rparr>"

definition warmed_blocks :: "catalog \<Rightarrow> uuid list \<Rightarrow> uuid set" where
  "warmed_blocks cat candidates = set (filter (\<lambda>u. u \<in> set (block_labels_warmed cat)) candidates)"

definition unwarmed_candidate :: "catalog \<Rightarrow> string \<Rightarrow> u64 option \<Rightarrow> u64 option \<Rightarrow> block_row \<Rightarrow> bool" where
  "unwarmed_candidate cat signal ts_min ts_max r \<longleftrightarrow>
     c_signal r = signal \<and> live r \<and> c_has_postings r = 1 \<and>
     (case ts_min of None \<Rightarrow> True | Some lo \<Rightarrow> c_ts_max r \<ge> clamp_i64 lo) \<and>
     (case ts_max of None \<Rightarrow> True | Some hi \<Rightarrow> c_ts_min r \<le> clamp_i64 hi) \<and>
     c_uuid r \<notin> set (block_labels_warmed cat)"

definition list_unwarmed_postings_blocks ::
  "catalog \<Rightarrow> string \<Rightarrow> u64 option \<Rightarrow> u64 option \<Rightarrow> nat \<Rightarrow> catalog_entry list" where
  "list_unwarmed_postings_blocks cat signal ts_min ts_max limit =
     (if limit = 0 then []
      else map row_to_entry (take limit
        (rev (sort_key (\<lambda>r. (c_ts_max r, c_ts_min r, c_uuid r))
          (filter (unwarmed_candidate cat signal ts_min ts_max) (blocks cat))))))"

definition load_block_label_pairs ::
  "catalog \<Rightarrow> string \<Rightarrow> uuid list \<Rightarrow> (uuid \<times> string \<times> string) list" where
  "load_block_label_pairs cat signal us =
     concat (map (\<lambda>u.
       if (\<exists>r \<in> set (blocks cat). c_uuid r = u \<and> c_signal r = signal \<and> live r)
          \<and> u \<in> set (block_labels_warmed cat)
       then map (\<lambda>p. (u, p)) (sort (map snd (filter (\<lambda>(b, _). b = u) (block_labels cat))))
       else []) us)"

definition distinct_label_names :: "catalog \<Rightarrow> uuid list \<Rightarrow> string list" where
  "distinct_label_names cat us =
     (if us = [] then []
      else sort (remdups (map (\<lambda>(_, n, _). n)
             (filter (\<lambda>(u, _, _). u \<in> set us) (block_labels cat)))))"

definition distinct_label_values :: "catalog \<Rightarrow> string \<Rightarrow> uuid list \<Rightarrow> string list" where
  "distinct_label_values cat name us =
     (if us = [] then []
      else sort (remdups (map (\<lambda>(_, _, v). v)
             (filter (\<lambda>(u, n, _). n = name \<and> u \<in> set us) (block_labels cat)))))"

section \<open>Retention\<close>

definition mark_deleted :: "uuid list \<Rightarrow> u64 \<Rightarrow> u64 \<Rightarrow> catalog \<Rightarrow> catalog" where
  "mark_deleted us deleted_at eligible_at cat =
     fold (\<lambda>u c. c\<lparr>blocks :=
         update_where (\<lambda>r. c_uuid r = u)
           (\<lambda>r. r\<lparr>r_deleted_at := coalesce (r_deleted_at r) (Some (as_i64 deleted_at)),
                  r_delete_eligible_at :=
                    max_deadline (r_delete_eligible_at r) (clamp_i64 eligible_at)\<rparr>)
           (blocks c)\<rparr>) us cat"

definition adopt_peer_deletion :: "uuid list \<Rightarrow> u64 \<Rightarrow> u64 \<Rightarrow> catalog \<Rightarrow> nat \<times> catalog" where
  "adopt_peer_deletion us deleted_at eligible_at cat =
     fold (\<lambda>u (n, c).
         let p = (\<lambda>r. c_uuid r = u \<and> r_deleted_at r = None)
         in (n + length (filter p (blocks c)),
             c\<lparr>blocks := update_where p
               (\<lambda>r. r\<lparr>r_deleted_at := Some (as_i64 deleted_at),
                      r_delete_eligible_at := Some (clamp_i64 eligible_at)\<rparr>) (blocks c)\<rparr>))
       us (0, cat)"

definition deletion_due :: "u64 \<Rightarrow> block_row \<Rightarrow> bool" where
  "deletion_due now r \<longleftrightarrow> r_deleted_at r \<noteq> None \<and>
     (case r_delete_eligible_at r of None \<Rightarrow> False | Some e \<Rightarrow> e \<le> clamp_i64 now)"

definition list_pending_deletions :: "catalog \<Rightarrow> u64 \<Rightarrow> catalog_entry list" where
  "list_pending_deletions cat now =
     map row_to_entry (sort_key (\<lambda>r. (the (r_delete_eligible_at r), c_date r, c_uuid r))
       (filter (deletion_due now) (blocks cat)))"

definition list_staged_deletions :: "catalog \<Rightarrow> (uuid \<times> string \<times> u64 \<times> u64) list" where
  "list_staged_deletions cat =
     map (\<lambda>r. (c_uuid r, c_signal r, as_u64 (the (r_deleted_at r)),
              as_u64 (the (r_delete_eligible_at r))))
       (sort_key (\<lambda>r. (c_signal r, the (r_delete_eligible_at r)))
         (filter (\<lambda>r. r_deleted_at r \<noteq> None \<and> r_delete_eligible_at r \<noteq> None) (blocks cat)))"

section \<open>Poll cursors\<close>

definition get_version_num :: "uuid \<Rightarrow> nat" where
  "get_version_num u = unat (drop_bit 76 u) mod 16"

definition get_cursor :: "catalog \<Rightarrow> string \<Rightarrow> uuid \<Rightarrow> string \<Rightarrow> uuid option" where
  "get_cursor cat signal writer_id date = map_of (poll_cursors cat) (signal, writer_id, date)"

definition advance_cursor :: "string \<Rightarrow> uuid \<Rightarrow> string \<Rightarrow> uuid \<Rightarrow> catalog \<Rightarrow> catalog" where
  "advance_cursor signal writer_id date u cat =
     (if get_version_num u \<noteq> 7 then cat
      else cat\<lparr>poll_cursors :=
        upsert_if (\<lambda>stored. u > stored \<or> get_version_num stored \<noteq> 7) (signal, writer_id, date) u
          (poll_cursors cat)\<rparr>)"

record cursor_head =
  ch_signal :: string
  ch_writer_id :: uuid
  ch_date :: string
  ch_highest :: uuid

definition list_cursor_heads :: "catalog \<Rightarrow> cursor_head list" where
  "list_cursor_heads cat =
     map (\<lambda>((s, w, d), h). \<lparr>ch_signal = s, ch_writer_id = w, ch_date = d, ch_highest = h\<rparr>)
       (poll_cursors cat)"

definition list_cursors :: "catalog \<Rightarrow> cursor_key list" where
  "list_cursors cat = map fst (poll_cursors cat)"

section \<open>Reconciliation with the bucket\<close>

record reconcile_report =
  seen :: nat
  inserted :: nat
  already_present :: nat
  failed :: nat
  unapplied :: nat

definition report_default :: reconcile_report where
  "report_default = \<lparr>seen = 0, inserted = 0, already_present = 0, failed = 0, unapplied = 0\<rparr>"

definition is_complete :: "reconcile_report \<Rightarrow> bool" where
  "is_complete rep \<longleftrightarrow> unapplied rep = 0"

definition ensure_complete :: "reconcile_report \<Rightarrow> nat + unit" where
  "ensure_complete rep = (if is_complete rep then Inr () else Inl (unapplied rep))"

text \<open>One listed object: a key, or the error that ends the listing.\<close>

datatype list_item = ListError | Listed string

definition ends_with :: "string \<Rightarrow> string \<Rightarrow> bool" where
  "ends_with suf s \<longleftrightarrow> strip_suffix suf s \<noteq> None"

text \<open>
  \<open>fetch\<close> is what a GET of a key returns, \<open>parse\<close> the JSON decoding of a sidecar and
  \<open>ins_fails\<close> says for which blocks the SQLite transaction of the insert fails, which
  leaves the catalog as it was.
\<close>

definition apply_sidecar ::
  "(u64 \<Rightarrow> string \<times> string \<times> string) \<Rightarrow> int \<Rightarrow> (string \<Rightarrow> store_error + bytes) \<Rightarrow>
     (bytes \<Rightarrow> block_meta option) \<Rightarrow> (block_meta \<Rightarrow> bool) \<Rightarrow> string \<Rightarrow>
     reconcile_report \<Rightarrow> catalog \<Rightarrow> reconcile_report \<times> catalog" where
  "apply_sidecar ymd now fetch parse ins_fails path rep0 cat =
     (let rep = rep0\<lparr>seen := seen rep0 + 1\<rparr>
      in case fetch path of
           Inl e \<Rightarrow>
             if e = NotFound then (rep, cat) else (rep\<lparr>unapplied := unapplied rep + 1\<rparr>, cat)
         | Inr body \<Rightarrow>
             (case parse body of
                None \<Rightarrow> (rep\<lparr>failed := failed rep + 1\<rparr>, cat)
              | Some bm0 \<Rightarrow>
                  (let bm = bm0\<lparr>bm_meta_json_size_bytes := Some (of_nat (length body))\<rparr>
                   in if ins_fails bm then (rep\<lparr>unapplied := unapplied rep + 1\<rparr>, cat)
                      else case insert_block ymd now cat bm of
                        (new, cat1) \<Rightarrow>
                          (if new then rep\<lparr>inserted := inserted rep + 1\<rparr>
                           else rep\<lparr>already_present := already_present rep + 1\<rparr>, cat1))))"

fun reconcile_loop ::
  "(u64 \<Rightarrow> string \<times> string \<times> string) \<Rightarrow> int \<Rightarrow> (string \<Rightarrow> store_error + bytes) \<Rightarrow>
     (bytes \<Rightarrow> block_meta option) \<Rightarrow> (block_meta \<Rightarrow> bool) \<Rightarrow> list_item list \<Rightarrow>
     reconcile_report \<Rightarrow> catalog \<Rightarrow> reconcile_report option \<times> catalog" where
  "reconcile_loop ymd now fetch parse ins_fails [] rep cat = (Some rep, cat)"
| "reconcile_loop ymd now fetch parse ins_fails (ListError # items) rep cat = (None, cat)"
| "reconcile_loop ymd now fetch parse ins_fails (Listed path # items) rep cat =
     (if is_reserved_control_key path \<or> \<not> ends_with ''.meta.json'' path
      then reconcile_loop ymd now fetch parse ins_fails items rep cat
      else case apply_sidecar ymd now fetch parse ins_fails path rep cat of
             (rep', cat') \<Rightarrow> reconcile_loop ymd now fetch parse ins_fails items rep' cat')"

definition reconcile_from_bucket ::
  "(u64 \<Rightarrow> string \<times> string \<times> string) \<Rightarrow> int \<Rightarrow> (string \<Rightarrow> store_error + bytes) \<Rightarrow>
     (bytes \<Rightarrow> block_meta option) \<Rightarrow> (block_meta \<Rightarrow> bool) \<Rightarrow> list_item list \<Rightarrow>
     catalog \<Rightarrow> reconcile_report option \<times> catalog" where
  "reconcile_from_bucket ymd now fetch parse ins_fails items cat =
     reconcile_loop ymd now fetch parse ins_fails items report_default cat"

definition sidecar_path_for ::
  "(u64 \<Rightarrow> string \<times> string \<times> string) \<Rightarrow> (uuid \<Rightarrow> string) \<Rightarrow> catalog_entry \<Rightarrow> string" where
  "sidecar_path_for ymd ustr e = meta_path ymd ustr (e_meta e) ''meta.json''"

end
