(* ===== verification/Catalog_Order.thy ===== *)
theory Catalog_Order
  imports Catalog
begin

text \<open>
  Inserting blocks: what a row gives back, and that the live set the catalog derives from a
  bucket does not depend on the order in which sidecars are inserted.
\<close>

section \<open>Rows\<close>

lemma as_u64_as_i64 [simp]: "as_u64 (as_i64 x) = x"
  by (simp add: as_u64_def as_i64_def)

lemma as_u32_u32_as_i64 [simp]: "as_u32 (u32_as_i64 x) = x"
  by (simp add: as_u32_def u32_as_i64_def)

lemma map_option_round [simp]:
  "map_option as_u64 (map_option as_i64 v) = v"
  "map_option as_u32 (map_option u32_as_i64 w) = w"
  by (simp_all add: option.map_comp comp_def option.map_ident)

lemma set_update_where [simp]: "set (update_where p f rs) = (\<lambda>r. if p r then f r else r) ` set rs"
  by (simp add: update_where_def)

lemma map_update_where:
  "(\<And>r. p r \<Longrightarrow> g (f r) = g r) \<Longrightarrow> map g (update_where p f rs) = map g rs"
  by (simp add: update_where_def)

lemma update_where_False [simp]: "(\<And>r. r \<in> set rs \<Longrightarrow> \<not> p r) \<Longrightarrow> update_where p f rs = rs"
  by (simp add: update_where_def map_idI)

lemma truncate_fresh_row [simp]: "block_cols.truncate (fresh_row c sd) = c"
  by (simp add: fresh_row_def block_cols.defs)

lemma fresh_row_fields [simp]:
  "c_uuid (fresh_row c sd) = c_uuid c"
  "r_superseded (fresh_row c sd) = sd"
  "r_deleted_at (fresh_row c sd) = None"
  "r_superseded_by (fresh_row c sd) = None"
  "r_reap_eligible_at (fresh_row c sd) = None"
  "r_delete_eligible_at (fresh_row c sd) = None"
  "r_reap_output (fresh_row c sd) = None"
  by (simp_all add: fresh_row_def block_cols.defs)

lemma c_uuid_meta_cols [simp]: "c_uuid (meta_cols b d bm) = bm_uuid bm"
  by (simp add: meta_cols_def)

lemma row_to_entry_truncate: "row_to_entry (block_cols.truncate r) = row_to_entry r"
  by (simp add: row_to_entry_def block_cols.defs)

lemma c_uuid_truncate [simp]:
  "c_uuid (block_cols.truncate r) = c_uuid r" "c_date (block_cols.truncate r) = c_date r"
  "c_ts_min (block_cols.truncate r) = c_ts_min r"
  by (simp_all add: block_cols.defs)

text \<open>What an entry keeps of a sidecar.\<close>

definition catalog_view :: "block_meta \<Rightarrow> block_meta" where
  "catalog_view bm = bm\<lparr>bm_compacted_from := [], bm_producer_version := [],
     bm_series_types := None, bm_all_fingerprints := None\<rparr>"

lemma row_to_entry_meta_cols [simp]:
  "row_to_entry (meta_cols b d bm) =
     \<lparr>e_meta = catalog_view bm, e_bucket = b, e_date = d, e_level = bm_level bm\<rparr>"
  by (simp add: row_to_entry_def meta_cols_def catalog_view_def)

section \<open>What one insert does to the rows and the lineage\<close>

definition claims :: "block_meta \<Rightarrow> uuid \<Rightarrow> bool" where
  "claims bm u \<longleftrightarrow> u \<in> set (bm_compacted_from bm) \<and> u \<noteq> bm_uuid bm"

definition edges_of :: "block_meta \<Rightarrow> (uuid \<times> uuid) set" where
  "edges_of bm = (\<lambda>a. (a, bm_uuid bm)) ` set (bm_compacted_from bm)"

lemma lineage_edges_insert:
  "(\<lambda>l. (l_ancestor l, l_descendant l)) ` set (insert_lineage l ls) =
     insert (l_ancestor l, l_descendant l) ((\<lambda>l. (l_ancestor l, l_descendant l)) ` set ls)"
proof (cases "\<exists>l' \<in> set ls. l_ancestor l' = l_ancestor l \<and> l_descendant l' = l_descendant l")
  case True
  then obtain l' where l': "l' \<in> set ls" "l_ancestor l' = l_ancestor l" "l_descendant l' = l_descendant l"
    by blast
  then have "(l_ancestor l, l_descendant l) \<in> (\<lambda>l. (l_ancestor l, l_descendant l)) ` set ls"
    by (intro image_eqI [OF _ l'(1)]) simp
  with True show ?thesis by (simp add: insert_lineage_def insert_absorb)
qed (auto simp: insert_lineage_def)

lemma apply_ancestor_edges:
  "lineage_edges (apply_ancestor now bm d a cat) = insert (a, bm_uuid bm) (lineage_edges cat)"
  using lineage_edges_insert by (simp add: lineage_edges_def apply_ancestor_def)

lemma apply_lineage_edges:
  "lineage_edges (apply_lineage_in now bm d cat) = edges_of bm \<union> lineage_edges cat"
proof -
  have "lineage_edges (fold (apply_ancestor now bm d) as cat)
      = (\<lambda>a. (a, bm_uuid bm)) ` set as \<union> lineage_edges cat" for as
    by (induction as arbitrary: cat) (auto simp: apply_ancestor_edges)
  then show ?thesis by (simp add: apply_lineage_in_def edges_of_def)
qed

text \<open>A row after the claims of \<open>bm\<close> have been applied.\<close>

definition claimed :: "block_meta \<Rightarrow> block_row \<Rightarrow> block_row" where
  "claimed bm r = (if claims bm (c_uuid r)
     then r\<lparr>r_superseded := True,
            r_superseded_by := coalesce (r_superseded_by r) (Some (bm_uuid bm))\<rparr> else r)"

lemma apply_lineage_blocks:
  "blocks (apply_lineage_in now bm d cat) = map (claimed bm) (blocks cat)"
proof -
  define g where "g = (\<lambda>r :: block_row. r\<lparr>r_superseded := True,
      r_superseded_by := coalesce (r_superseded_by r) (Some (bm_uuid bm))\<rparr>)"
  have idem: "g (g r) = g r" and uuid: "c_uuid (g r) = c_uuid r" for r
    by (auto simp: g_def coalesce_def split: option.splits)
  have "blocks (fold (apply_ancestor now bm d) as cat)
      = map (\<lambda>r. if c_uuid r \<in> set as \<and> c_uuid r \<noteq> bm_uuid bm then g r else r) (blocks cat)" for as
  proof (induction as arbitrary: cat)
    case (Cons a as)
    have "blocks (apply_ancestor now bm d a cat)
        = map (\<lambda>r. if c_uuid r = a \<and> c_uuid r \<noteq> bm_uuid bm then g r else r) (blocks cat)"
      by (auto simp: apply_ancestor_def update_where_def g_def)
    with Cons show ?case by (auto simp: comp_def idem uuid)
  qed (simp add: map_idI)
  then show ?thesis by (simp add: apply_lineage_in_def claimed_def claims_def g_def cong: if_cong)
qed

lemma insert_block_fst: "fst (insert_block ymd now cat bm) \<longleftrightarrow> \<not> has_block cat (bm_uuid bm)"
  by (simp add: insert_block_def Let_def)

lemma watermark_other [simp]:
  "blocks (advance_watermark_in w s sh seg cat) = blocks cat"
  "lineage (advance_watermark_in w s sh seg cat) = lineage cat"
  "cat_bucket (advance_watermark_in w s sh seg cat) = cat_bucket cat"
  by (simp_all add: advance_watermark_in_def)

definition insert_row :: "(u64 \<Rightarrow> string \<times> string \<times> string) \<Rightarrow> catalog \<Rightarrow> block_meta \<Rightarrow> block_row list" where
  "insert_row ymd cat bm =
     (if has_block cat (bm_uuid bm) then []
      else [fresh_row (meta_cols (cat_bucket cat) (format_date ymd (bm_ts_min_unix_nano bm)) bm)
              (live_descendant cat (bm_uuid bm))])"

lemma insert_block_blocks:
  "blocks (snd (insert_block ymd now cat bm)) = map (claimed bm) (blocks cat @ insert_row ymd cat bm)"
  by (simp add: insert_block_def Let_def apply_lineage_blocks insert_row_def
      split: option.split)

lemma insert_block_edges:
  "lineage_edges (snd (insert_block ymd now cat bm)) = edges_of bm \<union> lineage_edges cat"
proof -
  have "lineage_edges (advance_watermark_in w s sh seg c) = lineage_edges c"
    "lineage_edges (c\<lparr>blocks := rs\<rparr>) = lineage_edges c" for w s sh seg c rs
    by (simp_all add: lineage_edges_def)
  then show ?thesis
    by (simp add: insert_block_def Let_def apply_lineage_edges split: option.split)
qed

lemma apply_lineage_bucket: "cat_bucket (apply_lineage_in now bm d cat) = cat_bucket cat"
proof -
  have "cat_bucket (fold (apply_ancestor now bm d) as cat) = cat_bucket cat" for as
    by (induction as arbitrary: cat) (auto simp: apply_ancestor_def)
  then show ?thesis by (simp add: apply_lineage_in_def)
qed

lemma insert_block_bucket [simp]: "cat_bucket (snd (insert_block ymd now cat bm)) = cat_bucket cat"
  by (simp add: insert_block_def Let_def apply_lineage_bucket split: option.split)

lemma claimed_fields [simp]:
  "c_uuid (claimed bm r) = c_uuid r"
  "block_cols.truncate (claimed bm r) = block_cols.truncate r"
  "r_deleted_at (claimed bm r) = r_deleted_at r"
  "r_delete_eligible_at (claimed bm r) = r_delete_eligible_at r"
  "r_reap_eligible_at (claimed bm r) = r_reap_eligible_at r"
  "r_superseded (claimed bm r) \<longleftrightarrow> r_superseded r \<or> claims bm (c_uuid r)"
  by (auto simp: claimed_def block_cols.defs)

lemma has_block_insert:
  "has_block (snd (insert_block ymd now cat bm)) u \<longleftrightarrow> has_block cat u \<or> u = bm_uuid bm"
  by (auto simp: has_block_def insert_block_blocks insert_row_def image_iff)

section \<open>Insertion order does not matter\<close>

text \<open>
  The sidecars of a bucket: a UUID names one block, no block claims itself, and claims are
  transitively closed, as \<^const>\<open>compacted_ancestor_closure\<close> makes them.
\<close>

definition wf_metas :: "block_meta set \<Rightarrow> bool" where
  "wf_metas M \<longleftrightarrow> inj_on bm_uuid M \<and> (\<forall>bm \<in> M. bm_uuid bm \<notin> set (bm_compacted_from bm)) \<and>
     (\<forall>bm \<in> M. \<forall>a \<in> M. bm_uuid a \<in> set (bm_compacted_from bm) \<longrightarrow>
        set (bm_compacted_from a) \<subseteq> set (bm_compacted_from bm))"

lemma wf_metas_subset: "wf_metas M \<Longrightarrow> L \<subseteq> M \<Longrightarrow> wf_metas L"
  unfolding wf_metas_def by (meson inj_on_subset subsetD)

definition row_of :: "(u64 \<Rightarrow> string \<times> string \<times> string) \<Rightarrow> string \<Rightarrow> block_meta \<Rightarrow> block_cols" where
  "row_of ymd b bm = meta_cols b (format_date ymd (bm_ts_min_unix_nano bm)) bm"

definition superseded_in :: "block_meta set \<Rightarrow> uuid \<Rightarrow> bool" where
  "superseded_in L u \<longleftrightarrow> (\<exists>bm \<in> L. claims bm u)"

definition mirrors :: "(u64 \<Rightarrow> string \<times> string \<times> string) \<Rightarrow> string \<Rightarrow> block_meta set \<Rightarrow> catalog \<Rightarrow> bool" where
  "mirrors ymd b L cat \<longleftrightarrow> cat_bucket cat = b \<and> distinct (map c_uuid (blocks cat)) \<and>
     lineage_edges cat = (\<Union>bm \<in> L. edges_of bm) \<and>
     block_cols.truncate ` set (blocks cat) = row_of ymd b ` L \<and>
     (\<forall>r \<in> set (blocks cat). r_deleted_at r = None \<and>
        (r_superseded r \<longleftrightarrow> superseded_in L (c_uuid r)))"

lemma c_uuid_row_of [simp]: "c_uuid (row_of ymd b bm) = bm_uuid bm"
  by (simp add: row_of_def)

lemma mirrors_uuids: "mirrors ymd b L cat \<Longrightarrow> c_uuid ` set (blocks cat) = bm_uuid ` L"
proof -
  assume "mirrors ymd b L cat"
  then have "c_uuid ` block_cols.truncate ` set (blocks cat) = c_uuid ` row_of ymd b ` L"
    by (simp add: mirrors_def)
  then show ?thesis by (simp add: image_image)
qed

lemma maximal_claim:
  assumes "finite L" and "wf_metas L" and "u \<notin> bm_uuid ` L" and "superseded_in L u"
  shows "\<exists>bm \<in> L. claims bm u \<and> \<not> superseded_in L (bm_uuid bm)"
proof -
  let ?S = "{bm \<in> L. claims bm u}" and ?f = "\<lambda>bm. card (set (bm_compacted_from bm))"
  have fin: "finite (?f ` ?S)" and ne: "?f ` ?S \<noteq> {}"
    using assms(1,4) by (auto simp: superseded_in_def)
  obtain bm where bm: "bm \<in> ?S" "Max (?f ` ?S) = ?f bm" using Max_in [OF fin ne] by (rule imageE)
  have "\<not> claims bm' (bm_uuid bm)" if bm': "bm' \<in> L" for bm'
  proof
    assume c: "claims bm' (bm_uuid bm)"
    then have inb: "bm_uuid bm \<in> set (bm_compacted_from bm')" by (simp add: claims_def)
    have "bm \<in> L" using bm by simp
    with assms(2) bm' inb have sub: "set (bm_compacted_from bm) \<subseteq> set (bm_compacted_from bm')"
      and notin: "bm_uuid bm \<notin> set (bm_compacted_from bm)"
      by (simp_all add: wf_metas_def)
    with inb have "set (bm_compacted_from bm) \<subset> set (bm_compacted_from bm')" by blast
    then have "?f bm < ?f bm'" by (intro psubset_card_mono) auto
    moreover have "bm' \<in> ?S"
      using bm sub bm' assms(3) by (auto simp: claims_def)
    then have "?f bm' \<le> Max (?f ` ?S)" using fin by simp
    ultimately show False using bm(2) by simp
  qed
  with bm show ?thesis by (auto simp: superseded_in_def)
qed

lemma live_descendant_mirrors:
  assumes "mirrors ymd b L cat" and "finite L" and "wf_metas L" and "u \<notin> bm_uuid ` L"
  shows "live_descendant cat u \<longleftrightarrow> superseded_in L u"
proof
  assume "live_descendant cat u"
  then obtain d where "(u, d) \<in> lineage_edges cat"
    by (auto simp: live_descendant_def lineage_edges_def)
  with assms(1,4) show "superseded_in L u"
    by (auto simp: mirrors_def edges_of_def superseded_in_def claims_def)
next
  assume "superseded_in L u"
  with maximal_claim assms obtain bm where bm: "bm \<in> L" "claims bm u"
    "\<not> superseded_in L (bm_uuid bm)" by blast
  have "bm_uuid bm \<in> c_uuid ` set (blocks cat)" using mirrors_uuids [OF assms(1)] bm(1) by blast
  then obtain r where r: "r \<in> set (blocks cat)" "c_uuid r = bm_uuid bm" by auto
  then have "live r" using assms(1) bm(3) by (auto simp: mirrors_def live_def)
  have "(u, bm_uuid bm) \<in> lineage_edges cat"
    using assms(1) bm by (auto simp: mirrors_def edges_of_def claims_def)
  then obtain l where "l \<in> set (lineage cat)" "l_ancestor l = u" "l_descendant l = bm_uuid bm"
    by (auto simp: lineage_edges_def)
  with r \<open>live r\<close> show "live_descendant cat u" unfolding live_descendant_def by metis
qed

lemma mirrors_insert:
  assumes inv: "mirrors ymd b L cat" and fin: "finite L" and wf: "wf_metas (insert bm L)"
  shows "mirrors ymd b (insert bm L) (snd (insert_block ymd now cat bm))"
proof -
  let ?cat = "snd (insert_block ymd now cat bm)"
  have sup: "superseded_in (insert bm L) u \<longleftrightarrow> superseded_in L u \<or> claims bm u" for u
    by (auto simp: superseded_in_def)
  have no: "\<not> claims bm (bm_uuid bm)" by (simp add: claims_def)
  have edges: "lineage_edges ?cat = (\<Union>bm \<in> insert bm L. edges_of bm)"
    using inv by (simp add: insert_block_edges mirrors_def)
  show ?thesis
  proof (cases "bm \<in> L")
    case True
    then have "insert_row ymd cat bm = []"
      using mirrors_uuids [OF inv] by (simp add: insert_row_def has_block_def)
    then have rows: "blocks ?cat = map (claimed bm) (blocks cat)" by (simp add: insert_block_blocks)
    have "claims bm u \<Longrightarrow> superseded_in L u" for u using True by (auto simp: superseded_in_def)
    then show ?thesis using inv True edges
      by (auto simp: mirrors_def rows sup comp_def image_image insert_absorb)
  next
    case False
    then have new: "bm_uuid bm \<notin> bm_uuid ` L"
      using wf by (auto simp: wf_metas_def)
    have wfL: "wf_metas L" using wf by (rule wf_metas_subset) auto
    from new have nb: "\<not> has_block cat (bm_uuid bm)"
      using mirrors_uuids [OF inv] by (simp add: has_block_def)
    then have rows: "blocks ?cat = map (claimed bm) (blocks cat @ [fresh_row (row_of ymd b bm)
        (superseded_in L (bm_uuid bm))])"
      using live_descendant_mirrors [OF inv fin wfL new] inv
      by (auto simp: insert_block_blocks insert_row_def row_of_def mirrors_def)
    show ?thesis using inv edges nb no
      by (auto simp: mirrors_def rows sup comp_def image_image has_block_def)
  qed
qed

definition insert_all ::
  "(u64 \<Rightarrow> string \<times> string \<times> string) \<Rightarrow> (int \<times> block_meta) list \<Rightarrow> catalog \<Rightarrow> catalog" where
  "insert_all ymd ms cat = fold (\<lambda>(now, bm) c. snd (insert_block ymd now c bm)) ms cat"

lemma mirrors_insert_all:
  "mirrors ymd b L cat \<Longrightarrow> finite L \<Longrightarrow> wf_metas (snd ` set ms \<union> L) \<Longrightarrow>
     mirrors ymd b (snd ` set ms \<union> L) (insert_all ymd ms cat)"
proof (induction ms arbitrary: L cat)
  case (Cons x ms)
  obtain now bm where x: "x = (now, bm)" by force
  have "mirrors ymd b (insert bm L) (snd (insert_block ymd now cat bm))"
    using Cons.prems by (intro mirrors_insert) (auto simp: x elim: wf_metas_subset)
  from Cons.IH [OF this] Cons.prems show ?case by (simp add: x insert_all_def)
qed (simp add: insert_all_def)

lemma mirrors_empty: "mirrors ymd b {} (catalog_empty b)"
  by (simp add: mirrors_def catalog_empty_def lineage_edges_def)

section \<open>The listing of a mirrored bucket\<close>

definition block_key :: "'a block_cols_scheme \<Rightarrow> string \<times> int \<times> uuid" where
  "block_key c = (c_date c, c_ts_min c, c_uuid c)"

lemma map_insort_key_comp:
  "map f (insort_key (\<lambda>x. k (f x)) x xs) = insort_key k (f x) (map f xs)"
  by (induction xs) auto

lemma map_sort_key_comp: "map f (sort_key (\<lambda>x. k (f x)) xs) = sort_key k (map f xs)"
  by (induction xs) (auto simp: map_insort_key_comp)

lemma list_blocks_truncate:
  "list_blocks cat =
     map row_to_entry (sort_key block_key (map block_cols.truncate (filter live (blocks cat))))"
proof -
  have "list_blocks cat = map row_to_entry (sort_key block_key (filter live (blocks cat)))"
    by (simp add: list_blocks_def block_key_def [abs_def])
  also have "\<dots> = map row_to_entry (map block_cols.truncate
      (sort_key (\<lambda>r. block_key (block_cols.truncate r)) (filter live (blocks cat))))"
    by (simp add: block_key_def [abs_def] row_to_entry_truncate comp_def)
  finally show ?thesis by (simp only: map_sort_key_comp)
qed

lemma live_rows_mirrors:
  assumes "mirrors ymd b L cat"
  shows "distinct (map c_uuid (filter live (blocks cat)))"
    and "block_cols.truncate ` set (filter live (blocks cat))
           = row_of ymd b ` {bm \<in> L. \<not> superseded_in L (bm_uuid bm)}"
proof -
  show "distinct (map c_uuid (filter live (blocks cat)))"
    using assms by (simp add: mirrors_def distinct_map_filter)
  have "r \<in> set (blocks cat) \<Longrightarrow> live r \<longleftrightarrow> \<not> superseded_in L (c_uuid r)" for r
    using assms by (simp add: mirrors_def live_def)
  then have "block_cols.truncate ` set (filter live (blocks cat)) =
      {c \<in> block_cols.truncate ` set (blocks cat). \<not> superseded_in L (c_uuid c)}" by auto
  moreover have "block_cols.truncate ` set (blocks cat) = row_of ymd b ` L"
    using assms by (simp add: mirrors_def)
  ultimately show "block_cols.truncate ` set (filter live (blocks cat))
      = row_of ymd b ` {bm \<in> L. \<not> superseded_in L (bm_uuid bm)}" by auto
qed

lemma list_blocks_mirrors_eq:
  assumes "mirrors ymd b L cat" and "mirrors ymd b L cat'"
  shows "list_blocks cat = list_blocks cat'"
proof -
  let ?X = "\<lambda>c. map block_cols.truncate (filter live (blocks c))"
  have D: "distinct (?X c) \<and> inj_on c_uuid (set (?X c))" if "mirrors ymd b L c" for c
  proof -
    have "map c_uuid (?X c) = map c_uuid (filter live (blocks c))" by (simp add: comp_def)
    with live_rows_mirrors(1) [OF that] have "distinct (map c_uuid (?X c))" by (simp only:)
    then show ?thesis by (rule iffD1 [OF distinct_map])
  qed
  note d = conjunct1 [OF D [OF assms(1)]] conjunct1 [OF D [OF assms(2)]]
  have "set (?X cat) = set (?X cat')"
    by (simp only: set_map live_rows_mirrors(2) [OF assms(1)] live_rows_mirrors(2) [OF assms(2)])
  then have m: "mset (?X cat) = mset (?X cat')"
    by (rule iffD1 [OF set_eq_iff_mset_eq_distinct [OF d]])
  have inj: "inj_on block_key (set (?X cat))"
    using D [OF assms(1)] unfolding block_key_def inj_on_def by blast
  have "sort_key block_key (?X cat) = sort_key block_key (?X cat')"
    using m inj by (intro sort_key_inj_key_eq) auto
  then show ?thesis by (simp add: list_blocks_truncate)
qed

lemma list_blocks_mirrors_uuids:
  assumes "mirrors ymd b L cat"
  shows "(\<lambda>e. bm_uuid (e_meta e)) ` set (list_blocks cat)
           = {u. \<exists>bm \<in> L. bm_uuid bm = u \<and> \<not> superseded_in L u}"
proof -
  have "bm_uuid (e_meta (row_to_entry c)) = c_uuid c" for c :: block_cols
    by (simp add: row_to_entry_def)
  then have "(\<lambda>e. bm_uuid (e_meta e)) ` set (list_blocks cat)
      = c_uuid ` set (map block_cols.truncate (filter live (blocks cat)))"
    by (simp only: list_blocks_truncate set_map set_sort image_image)
  also have "\<dots> = c_uuid ` row_of ymd b ` {bm \<in> L. \<not> superseded_in L (bm_uuid bm)}"
    by (simp only: set_map live_rows_mirrors(2) [OF assms])
  also have "\<dots> = bm_uuid ` {bm \<in> L. \<not> superseded_in L (bm_uuid bm)}"
    by (simp only: image_image c_uuid_row_of)
  finally show ?thesis by auto
qed

section \<open>Properties\<close>

text \<open>C11: the live listing is a function of the bucket. Inserting the sidecars of a bucket into
  an empty catalog, in any order and with any repetition, gives the same \<open>list_blocks\<close>, and
  the listed blocks are exactly those that no sidecar claims as a compaction ancestor. The
  sidecars have unique UUIDs and transitively closed ancestries that do not contain their own
  block.\<close>

theorem list_blocks_order_independent:
  assumes "set (map snd ms) = set (map snd ms')" and "wf_metas (set (map snd ms))"
  shows "list_blocks (insert_all ymd ms (catalog_empty b)) =
           list_blocks (insert_all ymd ms' (catalog_empty b)) \<and>
         (\<lambda>e. bm_uuid (e_meta e)) ` set (list_blocks (insert_all ymd ms (catalog_empty b))) =
           {u. \<exists>bm \<in> set (map snd ms). bm_uuid bm = u \<and>
                 (\<forall>bm' \<in> set (map snd ms). u \<notin> set (bm_compacted_from bm'))}"
proof -
  let ?L = "set (map snd ms)"
  have 1: "mirrors ymd b ?L (insert_all ymd ms (catalog_empty b))"
    using mirrors_insert_all [OF mirrors_empty, of ms ymd b] assms by simp
  have 2: "mirrors ymd b ?L (insert_all ymd ms' (catalog_empty b))"
    using mirrors_insert_all [OF mirrors_empty, of ms' ymd b] assms by simp
  have "\<not> superseded_in ?L u \<longleftrightarrow> (\<forall>bm' \<in> ?L. u \<notin> set (bm_compacted_from bm'))" for u
    using assms(2) by (auto simp: superseded_in_def claims_def wf_metas_def)
  then show ?thesis
    using list_blocks_mirrors_eq [OF 1 2] list_blocks_mirrors_uuids [OF 1] by auto
qed

theorem list_blocks_order_independent_witness:
  "(\<lambda>e. bm_uuid (e_meta e)) ` set (list_blocks (insert_all (\<lambda>_. (''2026'', ''01'', ''02''))
     [(0, sample_meta 9 [3, 5]), (1, sample_meta 3 []), (2, sample_meta 7 [])]
     (catalog_empty ''b''))) = {7, 9}"
proof -
  let ?ms = "[(0, sample_meta 9 [3, 5]), (1, sample_meta 3 []), (2, sample_meta 7 [])]"
  have wf: "wf_metas (set (map snd ?ms))"
    by (simp add: wf_metas_def sample_meta_def)
  have "{u. \<exists>bm \<in> set (map snd ?ms). bm_uuid bm = u \<and>
      (\<forall>bm' \<in> set (map snd ?ms). u \<notin> set (bm_compacted_from bm'))} = {7, 9}"
    by (simp add: sample_meta_def) auto
  with list_blocks_order_independent [OF refl wf, of "\<lambda>_. (''2026'', ''01'', ''02'')" "''b''"]
  show ?thesis by (simp only:)
qed

end
