(* ===== verification/Catalog_Props.thy ===== *)
theory Catalog_Props
  imports Catalog_Order
begin

text \<open>
  Contracts of the catalog tables: monotone high-water marks (watermarks, poll cursors),
  staged work with a deadline (pending reaps, pending deletions), the invariant of the block
  table and the completeness of reconciliation.
\<close>

section \<open>High-water marks\<close>

text \<open>
  A keyed high-water mark: an observation \<open>ob\<close> of a key that is valid raises the stored value
  to its value; an invalid one is ignored, and an invalid stored value is replaced.
\<close>

locale high_water =
  fixes get :: "'s \<Rightarrow> 'k \<Rightarrow> 'v :: linorder option"
    and advance :: "'k \<Rightarrow> 'o \<Rightarrow> 's \<Rightarrow> 's"
    and val :: "'o \<Rightarrow> 'v"
    and valid :: "'v \<Rightarrow> bool"
  assumes get_same: "valid (val ob) \<Longrightarrow> get (advance k ob s) k =
      Some (case get s k of Some v \<Rightarrow> if valid v then max v (val ob) else val ob | None \<Rightarrow> val ob)"
    and get_other: "k' \<noteq> k \<Longrightarrow> get (advance k ob s) k' = get s k'"
    and get_invalid: "\<not> valid (val ob) \<Longrightarrow> get (advance k ob s) k = get s k"
begin

lemma get_advance_max:
  "get (advance k ob s) k = (if valid (val ob) then
     Some (Max (insert (val ob) {v. get s k = Some v \<and> valid v})) else get s k)"
proof (cases "get s k")
  case (Some v)
  then have "{w. get s k = Some w \<and> valid w} = (if valid v then {v} else {})" by auto
  with Some show ?thesis by (simp add: get_same get_invalid max.commute)
qed (simp add: get_same get_invalid)

lemma get_fold:
  assumes "\<exists>ob. (k, ob) \<in> set obs \<and> valid (val ob)"
  shows "get (fold (\<lambda>(k, ob). advance k ob) obs s) k =
     Some (Max ({v. get s k = Some v \<and> valid v} \<union> {val ob |ob. (k, ob) \<in> set obs \<and> valid (val ob)}))"
  using assms
proof (induction obs rule: rev_induct)
  case (snoc x obs)
  obtain k' ob where x: "x = (k', ob)" by force
  let ?s = "fold (\<lambda>(k, ob). advance k ob) obs s"
  let ?V = "\<lambda>obs. {val ob |ob. (k, ob) \<in> set obs \<and> valid (val ob)}"
  let ?O = "{v. get s k = Some v \<and> valid v}"
  have fin: "finite (?V obs)" for obs
    by (rule finite_subset [of _ "val ` snd ` set obs"]) force+
  have finO: "finite ?O" by (cases "get s k") auto
  have V: "?V (obs @ [x]) = (if k' = k \<and> valid (val ob) then insert (val ob) (?V obs) else ?V obs)"
    by (auto simp: x)
  show ?case
  proof (cases "k' = k \<and> valid (val ob)")
    case False
    then have "get (advance k' ob ?s) k = get ?s k" using get_other get_invalid by metis
    then have same: "get (fold (\<lambda>(k, ob). advance k ob) (obs @ [x]) s) k = get ?s k" by (simp add: x)
    have "\<exists>ob. (k, ob) \<in> set obs \<and> valid (val ob)" using snoc.prems False by (auto simp: x)
    moreover have "?V (obs @ [x]) = ?V obs" using False unfolding V by (rule if_not_P)
    ultimately show ?thesis using snoc.IH same by (simp only:)
  next
    case True
    show ?thesis
    proof (cases "?V obs = {}")
      case empty: True
      then have "get ?s k = get s k"
      proof -
        have "\<forall>(k', ob) \<in> set os. k' = k \<longrightarrow> \<not> valid (val ob) \<Longrightarrow>
            get (fold (\<lambda>(k, ob). advance k ob) os s) k = get s k" for os
          by (induction os rule: rev_induct) (auto simp: get_other get_invalid, metis get_invalid get_other)
        with empty show ?thesis by blast
      qed
      with True V empty show ?thesis by (simp add: x get_advance_max)
    next
      case nonempty: False
      then have IH: "get ?s k = Some (Max (?O \<union> ?V obs))" using snoc.IH by blast
      have "Max (?O \<union> ?V obs) \<in> ?O \<union> ?V obs" using fin finO nonempty by (intro Max_in) auto
      then have "valid (Max (?O \<union> ?V obs))" by auto
      with IH True V nonempty fin finO show ?thesis
        by (simp add: x get_same max.commute Max_insert)
    qed
  qed
qed simp

lemma order_independent:
  assumes "set obs = set obs'" and "\<exists>ob. (k, ob) \<in> set obs \<and> valid (val ob)"
  shows "get (fold (\<lambda>(k, ob). advance k ob) obs s) k = get (fold (\<lambda>(k, ob). advance k ob) obs' s) k"
  using get_fold [of k obs s] get_fold [of k obs' s] assms by simp

end

lemma map_of_upsert_if:
  "map_of (upsert_if g k v kvs) k' =
     (if k' = k then Some (case map_of kvs k of None \<Rightarrow> v | Some o' \<Rightarrow> if g o' then v else o')
      else map_of kvs k')"
  by (induction kvs) auto

lemma upsert_if_keys: "fst ` set (upsert_if g p u high) = insert p (fst ` set high)"
  by (induction high) (force split: prod.split)+

definition watermark_column :: "catalog \<Rightarrow> uuid \<times> string \<times> u32 \<Rightarrow> int option" where
  "watermark_column cat k =
     (case k of (w, s, sh) \<Rightarrow> map_of (wal_watermarks cat) (w, s, u32_as_i64 sh))"

lemma u32_as_i64_inject [simp]: "u32_as_i64 x = u32_as_i64 y \<longleftrightarrow> x = y"
  by (metis as_u32_u32_as_i64)

interpretation watermarks: high_water watermark_column
    "\<lambda>(w, s, sh) seg. advance_watermark w s sh seg" as_i64 "\<lambda>_. True"
  by unfold_locales
     (auto simp: watermark_column_def advance_watermark_def advance_watermark_in_def
       map_of_upsert_if max_def split: prod.splits option.splits)

interpretation cursors: high_water "\<lambda>cat (s, w, d). get_cursor cat s w d"
    "\<lambda>(s, w, d) u. advance_cursor s w d u" "\<lambda>u. u" "\<lambda>u. get_version_num u = 7"
  by unfold_locales
     (auto simp: get_cursor_def advance_cursor_def map_of_upsert_if max_def
       split: prod.splits option.splits)

section \<open>Looking up rows\<close>

lemma find_map_same:
  "(\<And>r. p (h r) \<longleftrightarrow> p r) \<Longrightarrow> List.find p (map h rs) = map_option h (List.find p rs)"
  by (induction rs) auto

lemma find_row_update:
  assumes "\<And>r. c_uuid (f r) = c_uuid r"
  shows "List.find (\<lambda>r. c_uuid r = u) (update_where p f rs)
           = map_option (\<lambda>r. if p r then f r else r) (List.find (\<lambda>r. c_uuid r = u) rs)"
  unfolding update_where_def by (rule find_map_same) (simp add: assms)

lemma find_row_uuid: "find_row cat u = Some r \<Longrightarrow> c_uuid r = u \<and> r \<in> set (blocks cat)"
  by (auto simp: find_row_def find_Some_iff)

lemma find_row_None: "find_row cat u = None \<longleftrightarrow> \<not> has_block cat u"
  by (auto simp: find_row_def find_None_iff has_block_def)

lemma find_row_in:
  "distinct (map c_uuid (blocks cat)) \<Longrightarrow> r \<in> set (blocks cat) \<Longrightarrow> find_row cat (c_uuid r) = Some r"
proof -
  have "distinct (map c_uuid rs) \<Longrightarrow> r \<in> set rs \<Longrightarrow> List.find (\<lambda>r'. c_uuid r' = c_uuid r) rs = Some r"
    for rs by (induction rs) (auto simp: image_iff)
  then show "distinct (map c_uuid (blocks cat)) \<Longrightarrow> r \<in> set (blocks cat) \<Longrightarrow>
      find_row cat (c_uuid r) = Some r" by (simp add: find_row_def)
qed

section \<open>Staged work\<close>

locale staged_work =
  fixes deadline :: "'s \<Rightarrow> 'u \<Rightarrow> int option"
    and stage :: "'u list \<Rightarrow> u64 \<Rightarrow> 's \<Rightarrow> 's"
    and known :: "'s \<Rightarrow> 'u \<Rightarrow> bool"
  assumes stage_in: "known s u \<Longrightarrow> u \<in> set us \<Longrightarrow>
      deadline (stage us e s) u = max_deadline (deadline s u) (clamp_i64 e)"
    and stage_out: "u \<notin> set us \<Longrightarrow> deadline (stage us e s) u = deadline s u"
    and stage_known: "known (stage us e s) u \<longleftrightarrow> known s u"
begin

lemma never_shortened:
  assumes "known s u" "deadline s u = Some d"
  shows "\<exists>d' \<ge> d. deadline (stage us e s) u = Some d'"
  using assms stage_in [of s u us e] stage_out [of u us e s]
  by (cases "u \<in> set us") (auto simp: max_deadline_def)

lemma granted: "known s u \<Longrightarrow> u \<in> set us \<Longrightarrow> \<exists>d \<ge> clamp_i64 e. deadline (stage us e s) u = Some d"
  using stage_in [of s u us e] by (auto simp: max_deadline_def)

lemma restage_commute:
  "known s u \<Longrightarrow> deadline (stage us e (stage us' e' s)) u = deadline (stage us' e' (stage us e s)) u"
  by (cases "u \<in> set us"; cases "u \<in> set us'")
     (simp_all add: stage_in stage_out stage_known max_deadline_def max.left_commute max.commute
       split: option.split)

lemma run_never_shortened:
  "known s u \<Longrightarrow> deadline s u = Some d \<Longrightarrow>
     \<exists>d' \<ge> d. deadline (fold (\<lambda>(us, e). stage us e) sts s) u = Some d'"
proof (induction sts arbitrary: s d)
  case (Cons x sts)
  obtain us e where x: "x = (us, e)" by force
  obtain d1 where d1: "d1 \<ge> d" "deadline (stage us e s) u = Some d1"
    using never_shortened [OF Cons.prems] by blast
  from Cons.IH [OF _ d1(2)] Cons.prems(1) d1(1) show ?case
    by (fastforce simp: x stage_known)
qed auto

end

definition staged_delete :: "u64 \<Rightarrow> u64 \<Rightarrow> block_row \<Rightarrow> block_row" where
  "staged_delete t e r =
     r\<lparr>r_deleted_at := coalesce (r_deleted_at r) (Some (as_i64 t)),
       r_delete_eligible_at := max_deadline (r_delete_eligible_at r) (clamp_i64 e)\<rparr>"

definition staged_reap :: "uuid \<Rightarrow> u64 \<Rightarrow> block_row \<Rightarrow> block_row" where
  "staged_reap merged e r =
     r\<lparr>r_superseded_by := Some merged, r_superseded := True, r_reap_output := Some merged,
       r_reap_eligible_at := max_deadline (r_reap_eligible_at r) (clamp_i64 e)\<rparr>"

lemma max_deadline_idem [simp]: "max_deadline (max_deadline x e) e = max_deadline x e"
  by (simp add: max_deadline_def)

lemma staged_idem [simp]:
  "staged_delete t e (staged_delete t e r) = staged_delete t e r"
  "staged_reap m e (staged_reap m e r) = staged_reap m e r"
  by (simp_all add: staged_delete_def staged_reap_def coalesce_def split: option.split)

lemma staged_uuid [simp]:
  "c_uuid (staged_delete t e r) = c_uuid r" "c_uuid (staged_reap m e r) = c_uuid r"
  by (simp_all add: staged_delete_def staged_reap_def)

lemma fold_update_blocks:
  assumes "\<And>r. h (h r) = h r" "\<And>r. c_uuid (h r) = c_uuid r"
  shows "blocks (fold (\<lambda>u c. c\<lparr>blocks := update_where (\<lambda>r. c_uuid r = u \<and> q (c_uuid r)) h (blocks c)\<rparr>) us cat)
           = map (\<lambda>r. if c_uuid r \<in> set us \<and> q (c_uuid r) then h r else r) (blocks cat)"
proof (induction us arbitrary: cat)
  case (Cons u us)
  let ?cat = "cat\<lparr>blocks := update_where (\<lambda>r. c_uuid r = u \<and> q (c_uuid r)) h (blocks cat)\<rparr>"
  let ?f = "\<lambda>us r. if c_uuid r \<in> set us \<and> q (c_uuid r) then h r else r"
  have "?f us (if c_uuid r = u \<and> q (c_uuid r) then h r else r) = ?f (u # us) r" for r
    by (auto simp: assms)
  then have "map (?f us) (blocks ?cat) = map (?f (u # us)) (blocks cat)"
    by (simp add: update_where_def comp_def)
  with Cons [of ?cat] show ?case by (simp only: fold_simps)
qed (simp add: map_idI)

lemma mark_deleted_blocks:
  "blocks (mark_deleted us t e cat) =
     map (\<lambda>r. if c_uuid r \<in> set us then staged_delete t e r else r) (blocks cat)"
proof -
  have "mark_deleted us t e cat = fold (\<lambda>u c. c\<lparr>blocks :=
      update_where (\<lambda>r. c_uuid r = u \<and> True) (staged_delete t e) (blocks c)\<rparr>) us cat"
    by (simp add: mark_deleted_def staged_delete_def [abs_def])
  then show ?thesis using fold_update_blocks [of "staged_delete t e" "\<lambda>_. True" us cat] by simp
qed

lemma stage_superseded_blocks:
  "blocks (stage_superseded us m e cat) =
     map (\<lambda>r. if c_uuid r \<in> set us \<and> c_uuid r \<noteq> m then staged_reap m e r else r) (blocks cat)"
proof -
  have "stage_superseded us m e cat = fold (\<lambda>u c. c\<lparr>blocks :=
      update_where (\<lambda>r. c_uuid r = u \<and> c_uuid r \<noteq> m) (staged_reap m e) (blocks c)\<rparr>) us cat"
    by (simp add: stage_superseded_def staged_reap_def [abs_def])
  then show ?thesis using fold_update_blocks [of "staged_reap m e" "\<lambda>u. u \<noteq> m" us cat] by simp
qed

definition delete_deadline :: "catalog \<Rightarrow> uuid \<Rightarrow> int option" where
  "delete_deadline cat u = Option.bind (find_row cat u) r_delete_eligible_at"

definition reap_deadline :: "catalog \<Rightarrow> uuid \<Rightarrow> int option" where
  "reap_deadline cat u = Option.bind (find_row cat u) r_reap_eligible_at"

lemma find_row_mark_deleted:
  "find_row (mark_deleted us t e cat) u =
     map_option (\<lambda>r. if u \<in> set us then staged_delete t e r else r) (find_row cat u)"
proof -
  have "find_row (mark_deleted us t e cat) u =
      map_option (\<lambda>r. if c_uuid r \<in> set us then staged_delete t e r else r) (find_row cat u)"
    unfolding find_row_def mark_deleted_blocks by (rule find_map_same) simp
  then show ?thesis by (cases "find_row cat u") (auto dest: find_row_uuid)
qed

lemma find_row_stage_superseded:
  "find_row (stage_superseded us m e cat) u =
     map_option (\<lambda>r. if u \<in> set us \<and> u \<noteq> m then staged_reap m e r else r) (find_row cat u)"
proof -
  have "find_row (stage_superseded us m e cat) u = map_option
      (\<lambda>r. if c_uuid r \<in> set us \<and> c_uuid r \<noteq> m then staged_reap m e r else r) (find_row cat u)"
    unfolding find_row_def stage_superseded_blocks by (rule find_map_same) simp
  then show ?thesis by (cases "find_row cat u") (auto dest: find_row_uuid)
qed

interpretation deletions: staged_work delete_deadline "\<lambda>us e. mark_deleted us t e" has_block for t
proof (unfold_locales, goal_cases)
  case (1 s u us e)
  then obtain r where "find_row s u = Some r" using find_row_None by (cases "find_row s u") auto
  with 1 show ?case by (simp add: delete_deadline_def find_row_mark_deleted staged_delete_def)
next
  case (2 u us e s)
  then show ?case by (simp add: delete_deadline_def find_row_mark_deleted option.map_ident)
next
  case (3 us e s u)
  show ?case using find_row_None [of s u] find_row_None [of "mark_deleted us t e s" u]
    by (simp add: find_row_mark_deleted)
qed

interpretation reaps: staged_work reap_deadline "\<lambda>us e. stage_superseded us m e"
    "\<lambda>cat u. has_block cat u \<and> u \<noteq> m" for m
proof (unfold_locales, goal_cases)
  case (1 s u us e)
  then obtain r where "find_row s u = Some r" using find_row_None by (cases "find_row s u") auto
  with 1 show ?case by (simp add: reap_deadline_def find_row_stage_superseded staged_reap_def)
next
  case (2 u us e s)
  then show ?case by (simp add: reap_deadline_def find_row_stage_superseded option.map_ident)
next
  case (3 us e s u)
  show ?case using find_row_None [of s u] find_row_None [of "stage_superseded us m e s" u]
    by (simp add: find_row_stage_superseded)
qed

section \<open>The invariant of the tables\<close>

text \<open>
  No row is stranded: a soft-deleted row has a deletion deadline, and a row with a reap
  deadline is superseded and names its output.
\<close>

definition row_ok :: "block_row \<Rightarrow> bool" where
  "row_ok r \<longleftrightarrow> (r_deleted_at r \<noteq> None \<longleftrightarrow> r_delete_eligible_at r \<noteq> None) \<and>
     (r_reap_eligible_at r \<noteq> None \<longrightarrow> r_superseded r \<and> r_reap_output r \<noteq> None)"

definition cat_ok :: "catalog \<Rightarrow> bool" where
  "cat_ok cat \<longleftrightarrow> distinct (map c_uuid (blocks cat)) \<and> (\<forall>r \<in> set (blocks cat). row_ok r)"

datatype cat_op =
    InsertBlock int block_meta
  | ApplyCompaction int block_meta "uuid list" u64
  | StageSuperseded "uuid list" uuid u64
  | StageUnstaged u64
  | DeleteBlocks "uuid list"
  | MarkDeleted "uuid list" u64 u64
  | AdoptPeerDeletion "uuid list" u64 u64
  | PruneLineage string string "uuid list"
  | UpsertLabels uuid "(string \<times> string) list"
  | AdvanceCursor string uuid string uuid
  | AdvanceWatermark uuid string u32 u64

fun cat_step :: "(u64 \<Rightarrow> string \<times> string \<times> string) \<Rightarrow> cat_op \<Rightarrow> catalog \<Rightarrow> catalog" where
  "cat_step ymd (InsertBlock now bm) cat = snd (insert_block ymd now cat bm)"
| "cat_step ymd (ApplyCompaction now bm us e) cat = snd (apply_compaction ymd now bm us e cat)"
| "cat_step ymd (StageSuperseded us u e) cat = stage_superseded us u e cat"
| "cat_step ymd (StageUnstaged e) cat = snd (stage_unstaged_superseded e cat)"
| "cat_step ymd (DeleteBlocks us) cat = delete_blocks us cat"
| "cat_step ymd (MarkDeleted us t e) cat = mark_deleted us t e cat"
| "cat_step ymd (AdoptPeerDeletion us t e) cat = snd (adopt_peer_deletion us t e cat)"
| "cat_step ymd (PruneLineage s d us) cat = snd (prune_lineage_partition s d us cat)"
| "cat_step ymd (UpsertLabels u ps) cat = upsert_block_labels u ps cat"
| "cat_step ymd (AdvanceCursor s w d u) cat = advance_cursor s w d u cat"
| "cat_step ymd (AdvanceWatermark w s sh seg) cat = advance_watermark w s sh seg cat"

lemma cat_ok_map:
  assumes "cat_ok cat" and "blocks cat' = map h (blocks cat)"
    and "\<And>r. c_uuid (h r) = c_uuid r" and "\<And>r. row_ok r \<Longrightarrow> row_ok (h r)"
  shows "cat_ok cat'"
  using assms by (simp add: cat_ok_def comp_def)

lemma cat_ok_blocks: "cat_ok cat \<Longrightarrow> blocks cat' = blocks cat \<Longrightarrow> cat_ok cat'"
  by (simp add: cat_ok_def)

lemma row_ok_claimed: "row_ok r \<Longrightarrow> row_ok (claimed bm r)"
  by (auto simp: row_ok_def claimed_def)

lemma row_ok_staged: "row_ok r \<Longrightarrow> row_ok (staged_delete t e r)" "row_ok r \<Longrightarrow> row_ok (staged_reap m e r)"
  by (auto simp: row_ok_def staged_delete_def staged_reap_def max_deadline_def coalesce_def
      split: option.splits)

lemma cat_ok_insert: "cat_ok cat \<Longrightarrow> cat_ok (snd (insert_block ymd now cat bm))"
proof -
  assume ok: "cat_ok cat"
  let ?mid = "cat\<lparr>blocks := blocks cat @ insert_row ymd cat bm\<rparr>"
  have "cat_ok ?mid"
    using ok by (auto simp: cat_ok_def insert_row_def has_block_def row_ok_def)
  then show ?thesis
    by (rule cat_ok_map [where h = "claimed bm"])
       (simp_all add: insert_block_blocks row_ok_claimed)
qed

lemma cat_ok_stage: "cat_ok cat \<Longrightarrow> cat_ok (stage_superseded us u e cat)"
  by (erule cat_ok_map [OF _ stage_superseded_blocks]) (simp_all add: row_ok_staged)

lemma cat_ok_adopt: "cat_ok cat \<Longrightarrow> cat_ok (snd (adopt_peer_deletion us t e cat))"
proof -
  define st where "st = (\<lambda>u (n, c :: catalog).
         let p = (\<lambda>r. c_uuid r = u \<and> r_deleted_at r = None)
         in (n + length (filter p (blocks c)),
             c\<lparr>blocks := update_where p
               (\<lambda>r. r\<lparr>r_deleted_at := Some (as_i64 t),
                      r_delete_eligible_at := Some (clamp_i64 e)\<rparr>) (blocks c)\<rparr>))"
  have one: "cat_ok c \<Longrightarrow> cat_ok (snd (st u (n, c)))" for u n c
    by (rule cat_ok_map [where h = "\<lambda>r. if c_uuid r = u \<and> r_deleted_at r = None
          then r\<lparr>r_deleted_at := Some (as_i64 t), r_delete_eligible_at := Some (clamp_i64 e)\<rparr> else r"])
       (auto simp: st_def update_where_def row_ok_def)
  have "cat_ok c \<Longrightarrow> cat_ok (snd (fold st us (n, c)))" for n c
    by (induction us arbitrary: n c) (simp, metis fold_simps(2) one prod.collapse)
  then show "cat_ok cat \<Longrightarrow> ?thesis" by (simp add: adopt_peer_deletion_def st_def)
qed

lemma cat_ok_unstaged: "cat_ok cat \<Longrightarrow> cat_ok (snd (stage_unstaged_superseded e cat))"
proof -
  assume "cat_ok cat"
  then show ?thesis
    by (rule cat_ok_map [where h = "\<lambda>r. if unstaged r
          then r\<lparr>r_reap_output := coalesce (r_reap_output r) (r_superseded_by r),
                 r_reap_eligible_at := coalesce (r_reap_eligible_at r) (Some (clamp_i64 e))\<rparr> else r"])
       (auto simp: stage_unstaged_superseded_def update_where_def row_ok_def unstaged_def
         coalesce_def split: option.splits)
qed

lemma cat_ok_step: "cat_ok cat \<Longrightarrow> cat_ok (cat_step ymd op cat)"
proof (cases op)
  case (ApplyCompaction now bm us e)
  assume "cat_ok cat"
  then show ?thesis using cat_ok_stage [OF cat_ok_insert [of cat ymd now bm]]
    by (simp add: ApplyCompaction apply_compaction_def split: prod.split) (metis snd_conv)
next
  case (DeleteBlocks us)
  assume "cat_ok cat"
  then show ?thesis by (simp add: DeleteBlocks cat_ok_def delete_blocks_def distinct_map_filter)
next
  case (MarkDeleted us t e)
  assume "cat_ok cat"
  then show ?thesis
    using cat_ok_map [OF _ mark_deleted_blocks, of cat us t e] by (simp add: MarkDeleted row_ok_staged)
qed (auto simp: cat_ok_insert cat_ok_stage cat_ok_unstaged cat_ok_adopt prune_lineage_partition_def
    upsert_block_labels_def advance_cursor_def advance_watermark_def advance_watermark_in_def
    elim: cat_ok_blocks)

lemma cat_ok_run: "cat_ok cat \<Longrightarrow> cat_ok (fold (cat_step ymd) ops cat)"
  by (induction ops arbitrary: cat) (auto simp: cat_ok_step)

section \<open>Live blocks\<close>

definition listed_uuids :: "catalog \<Rightarrow> uuid set" where
  "listed_uuids cat = (\<lambda>e. bm_uuid (e_meta e)) ` set (list_blocks cat)"

lemma uuid_row_to_entry [simp]: "bm_uuid (e_meta (row_to_entry r)) = c_uuid r"
  by (simp add: row_to_entry_def)

lemma listed_uuids_live: "listed_uuids cat = c_uuid ` {r \<in> set (blocks cat). live r}"
  by (simp add: listed_uuids_def list_blocks_def image_image)

lemma live_claimed: "live (claimed bm r) \<longleftrightarrow> live r \<and> \<not> claims bm (c_uuid r)"
  by (auto simp: live_def claimed_def)

lemma listed_map:
  assumes "blocks cat = map h rs" and uuid: "\<And>r. c_uuid (h r) = c_uuid r"
  shows "listed_uuids cat = c_uuid ` {r \<in> set rs. live (h r)}"
proof -
  have "{r \<in> h ` set rs. live r} = h ` {r \<in> set rs. live (h r)}" by auto
  then show ?thesis by (simp add: listed_uuids_live assms(1) image_image uuid)
qed

lemma listed_insert:
  assumes "\<not> has_block cat (bm_uuid bm)" and "\<not> live_descendant cat (bm_uuid bm)"
  shows "listed_uuids (snd (insert_block ymd now cat bm)) =
           insert (bm_uuid bm) {u \<in> listed_uuids cat. \<not> claims bm u}"
proof -
  have no: "\<not> claims bm (bm_uuid bm)" by (simp add: claims_def)
  have "listed_uuids (snd (insert_block ymd now cat bm)) = c_uuid `
      {r \<in> set (blocks cat @ insert_row ymd cat bm). live r \<and> \<not> claims bm (c_uuid r)}"
    by (subst listed_map [OF insert_block_blocks]) (simp_all add: live_claimed)
  also have "\<dots> = insert (bm_uuid bm)
      (c_uuid ` {r \<in> set (blocks cat). live r \<and> \<not> claims bm (c_uuid r)})"
  proof -
    let ?n = "fresh_row (meta_cols (cat_bucket cat)
      (format_date ymd (bm_ts_min_unix_nano bm)) bm) False"
    have "live ?n \<and> \<not> claims bm (c_uuid ?n)" using no by (simp add: live_def)
    then have "{r \<in> set (blocks cat @ [?n]). live r \<and> \<not> claims bm (c_uuid r)}
        = insert ?n {r \<in> set (blocks cat). live r \<and> \<not> claims bm (c_uuid r)}" by auto
    then show ?thesis using assms by (simp add: insert_row_def)
  qed
  also have "c_uuid ` {r \<in> set (blocks cat). live r \<and> \<not> claims bm (c_uuid r)}
      = {u \<in> listed_uuids cat. \<not> claims bm u}"
    by (auto simp: listed_uuids_live)
  finally show ?thesis .
qed

lemma listed_stage:
  "listed_uuids (stage_superseded us m e cat) = listed_uuids cat - {u \<in> set us. u \<noteq> m}"
proof -
  have "live (if c_uuid r \<in> set us \<and> c_uuid r \<noteq> m then staged_reap m e r else r)
      \<longleftrightarrow> live r \<and> \<not> (c_uuid r \<in> set us \<and> c_uuid r \<noteq> m)" for r
    by (auto simp: live_def staged_reap_def)
  then have "listed_uuids (stage_superseded us m e cat) =
      c_uuid ` {r \<in> set (blocks cat). live r \<and> \<not> (c_uuid r \<in> set us \<and> c_uuid r \<noteq> m)}"
    by (subst listed_map [OF stage_superseded_blocks]) simp_all
  then show ?thesis by (auto simp: listed_uuids_live)
qed

lemma find_append: "List.find p (xs @ ys) = (case List.find p xs of None \<Rightarrow> List.find p ys | Some x \<Rightarrow> Some x)"
  by (induction xs) auto

lemma find_row_insert:
  "find_row (snd (insert_block ymd now cat bm)) (bm_uuid bm) =
     (case find_row cat (bm_uuid bm) of
        Some r \<Rightarrow> Some r
      | None \<Rightarrow> Some (fresh_row (meta_cols (cat_bucket cat)
                  (format_date ymd (bm_ts_min_unix_nano bm)) bm) (live_descendant cat (bm_uuid bm))))"
proof -
  have same: "c_uuid r = bm_uuid bm \<Longrightarrow> claimed bm r = r" for r
    by (simp add: claimed_def claims_def)
  have "find_row (snd (insert_block ymd now cat bm)) (bm_uuid bm) =
      map_option (claimed bm) (List.find (\<lambda>r. c_uuid r = bm_uuid bm)
        (blocks cat @ insert_row ymd cat bm))"
    unfolding find_row_def insert_block_blocks by (rule find_map_same) simp
  also have "\<dots> = map_option (claimed bm) (case find_row cat (bm_uuid bm) of
      None \<Rightarrow> List.find (\<lambda>r. c_uuid r = bm_uuid bm) (insert_row ymd cat bm) | Some r \<Rightarrow> Some r)"
    by (simp add: find_append find_row_def)
  finally show ?thesis using find_row_None [of cat "bm_uuid bm"]
    by (auto simp: insert_row_def same dest: find_row_uuid split: option.split)
qed

section \<open>Reconciliation\<close>

definition sidecar_key :: "string \<Rightarrow> bool" where
  "sidecar_key path \<longleftrightarrow> \<not> is_reserved_control_key path \<and> ends_with ''.meta.json'' path"

lemma apply_sidecar_facts:
  assumes "apply_sidecar ymd now fetch parse ins_fails path rep cat = (rep', cat')"
  shows "has_block cat u \<Longrightarrow> has_block cat' u"
    and "unapplied rep \<le> unapplied rep'"
    and "unapplied rep' = unapplied rep \<Longrightarrow> fetch path = Inr body \<Longrightarrow> parse body = Some bm \<Longrightarrow>
           has_block cat' (bm_uuid bm)"
    and "fetch path = Inl e \<Longrightarrow> e \<noteq> NotFound \<Longrightarrow> unapplied rep < unapplied rep'"
    and "seen rep' = seen rep + 1"
    and "inserted rep' + already_present rep' + failed rep' + unapplied rep' =
         inserted rep + already_present rep + failed rep + unapplied rep
           + (if fetch path = Inl NotFound then 0 else 1)"
  using assms has_block_insert [of ymd now cat _ u] has_block_insert
  by (auto simp: apply_sidecar_def Let_def split_def split: sum.splits option.splits if_splits)

lemma reconcile_loop_None:
  "ListError \<in> set items \<Longrightarrow> fst (reconcile_loop ymd now fetch parse ins_fails items rep cat) = None"
  by (induction ymd now fetch parse ins_fails items rep cat rule: reconcile_loop.induct)
     (auto split: prod.split)

lemma reconcile_loop_Some:
  "reconcile_loop ymd now fetch parse ins_fails items rep cat = (Some rep', cat') \<Longrightarrow>
     (\<forall>u. has_block cat u \<longrightarrow> has_block cat' u) \<and> unapplied rep \<le> unapplied rep' \<and>
     (unapplied rep' = unapplied rep \<longrightarrow>
        (\<forall>path \<in> {path. Listed path \<in> set items \<and> sidecar_key path}.
           (\<forall>e. fetch path = Inl e \<longrightarrow> e = NotFound) \<and>
           (\<forall>body bm. fetch path = Inr body \<longrightarrow> parse body = Some bm \<longrightarrow> has_block cat' (bm_uuid bm))))"
proof (induction ymd now fetch parse ins_fails items rep cat rule: reconcile_loop.induct)
  case (3 ymd now fetch parse ins_fails path items rep cat)
  show ?case
  proof (cases "sidecar_key path")
    case False
    with 3 show ?thesis by (auto simp: sidecar_key_def)
  next
    case True
    obtain r1 c1 where one: "apply_sidecar ymd now fetch parse ins_fails path rep cat = (r1, c1)"
      by force
    note A = apply_sidecar_facts [OF one]
    have "reconcile_loop ymd now fetch parse ins_fails items r1 c1 = (Some rep', cat')"
      using "3.prems" True one by (simp add: sidecar_key_def)
    from "3.IH"(2) [OF _ one [symmetric] this] True
    have IH: "\<forall>u. has_block c1 u \<longrightarrow> has_block cat' u" "unapplied r1 \<le> unapplied rep'"
      "unapplied rep' = unapplied r1 \<Longrightarrow> \<forall>path \<in> {path. Listed path \<in> set items \<and> sidecar_key path}.
           (\<forall>e. fetch path = Inl e \<longrightarrow> e = NotFound) \<and>
           (\<forall>body bm. fetch path = Inr body \<longrightarrow> parse body = Some bm \<longrightarrow> has_block cat' (bm_uuid bm))"
      by (auto simp: sidecar_key_def)
    have eq: "unapplied rep' = unapplied r1 \<and> unapplied r1 = unapplied rep"
      if "unapplied rep' = unapplied rep" using that A(2) IH(2) by simp
    have head: "(\<forall>e. fetch path = Inl e \<longrightarrow> e = NotFound) \<and>
       (\<forall>body bm. fetch path = Inr body \<longrightarrow> parse body = Some bm \<longrightarrow> has_block cat' (bm_uuid bm))"
      if "unapplied rep' = unapplied rep"
    proof (cases "fetch path")
      case (Inl e)
      with eq [OF that] A(4) [of e] show ?thesis by auto
    next
      case (Inr body)
      with eq [OF that] A(3) [of body] IH(1) show ?thesis by auto
    qed
    have tail: "\<forall>path \<in> {path. Listed path \<in> set items \<and> sidecar_key path}.
           (\<forall>e. fetch path = Inl e \<longrightarrow> e = NotFound) \<and>
           (\<forall>body bm. fetch path = Inr body \<longrightarrow> parse body = Some bm \<longrightarrow> has_block cat' (bm_uuid bm))"
      if "unapplied rep' = unapplied rep" using IH(3) eq [OF that] by blast
    have "{p. Listed p \<in> set (Listed path # items) \<and> sidecar_key p}
        = insert path {p. Listed p \<in> set items \<and> sidecar_key p}" using True by auto
    then show ?thesis using A(1,2) IH(1,2) head tail by (simp only: ball_simps) (meson le_trans)
  qed
qed auto

section \<open>Peer deletions and late ancestors\<close>

lemma adopt_fold_hidden:
  "\<forall>r \<in> set (blocks cat). c_uuid r \<in> set us \<longrightarrow> r_deleted_at r \<noteq> None \<Longrightarrow>
     adopt_peer_deletion us t e cat = (0, cat)"
proof -
  define st where "st = (\<lambda>u (n :: nat, c :: catalog).
         let p = (\<lambda>r. c_uuid r = u \<and> r_deleted_at r = None)
         in (n + length (filter p (blocks c)),
             c\<lparr>blocks := update_where p
               (\<lambda>r. r\<lparr>r_deleted_at := Some (as_i64 t),
                      r_delete_eligible_at := Some (clamp_i64 e)\<rparr>) (blocks c)\<rparr>))"
  have one: "st u (n, cat) = (n, cat)"
    if "\<forall>r \<in> set (blocks cat). c_uuid r = u \<longrightarrow> r_deleted_at r \<noteq> None" for u n
  proof -
    have none: "\<not> (c_uuid r = u \<and> r_deleted_at r = None)" if "r \<in> set (blocks cat)" for r
      using \<open>\<forall>r \<in> set (blocks cat). c_uuid r = u \<longrightarrow> r_deleted_at r \<noteq> None\<close> that by blast
    then have "filter (\<lambda>r. c_uuid r = u \<and> r_deleted_at r = None) (blocks cat) = []"
      by (simp add: filter_empty_conv)
    with none show ?thesis by (simp add: st_def Let_def)
  qed
  have "\<forall>r \<in> set (blocks cat). c_uuid r \<in> set us \<longrightarrow> r_deleted_at r \<noteq> None \<Longrightarrow>
      fold st us (n, cat) = (n, cat)" for n
    by (induction us) (auto simp: one)
  then show "\<forall>r \<in> set (blocks cat). c_uuid r \<in> set us \<longrightarrow> r_deleted_at r \<noteq> None \<Longrightarrow> ?thesis"
    by (simp add: adopt_peer_deletion_def st_def)
qed

lemma adopt_blocks:
  "blocks (snd (adopt_peer_deletion us t e cat)) =
     map (\<lambda>r. if c_uuid r \<in> set us \<and> r_deleted_at r = None
              then r\<lparr>r_deleted_at := Some (as_i64 t), r_delete_eligible_at := Some (clamp_i64 e)\<rparr>
              else r) (blocks cat)"
proof -
  define h where "h = (\<lambda>r :: block_row. r\<lparr>r_deleted_at := Some (as_i64 t),
      r_delete_eligible_at := Some (clamp_i64 e)\<rparr>)"
  define st where "st = (\<lambda>u (n :: nat, c :: catalog).
         let p = (\<lambda>r. c_uuid r = u \<and> r_deleted_at r = None)
         in (n + length (filter p (blocks c)), c\<lparr>blocks := update_where p h (blocks c)\<rparr>))"
  have h: "c_uuid (h r) = c_uuid r" "r_deleted_at (h r) \<noteq> None" for r by (simp_all add: h_def)
  have "blocks (snd (fold st us (n, c))) =
      map (\<lambda>r. if c_uuid r \<in> set us \<and> r_deleted_at r = None then h r else r) (blocks c)" for n c
  proof (induction us arbitrary: n c)
    case (Cons u us)
    obtain n' where st: "st u (n, c) = (n', c\<lparr>blocks := update_where
        (\<lambda>r. c_uuid r = u \<and> r_deleted_at r = None) h (blocks c)\<rparr>)" by (simp add: st_def Let_def)
    have "(\<lambda>r. if c_uuid r \<in> set us \<and> r_deleted_at r = None then h r else r)
        (if c_uuid r = u \<and> r_deleted_at r = None then h r else r) =
        (if c_uuid r \<in> set (u # us) \<and> r_deleted_at r = None then h r else r)" for r
      by (auto simp: h)
    with Cons st show ?case by (simp add: update_where_def comp_def)
  qed (simp add: map_idI)
  then show ?thesis by (simp add: adopt_peer_deletion_def st_def h_def)
qed

section \<open>Properties\<close>

text \<open>C12: nothing is stranded. In a catalog reached from an empty one by any sequence of its
  operations, block UUIDs are unique, every soft-deleted block is on the list of pending
  deletions once its deadline has passed, and every block with a reap deadline is superseded,
  is not listed to queries and is on the list of pending reaps once the deadline has passed.\<close>

theorem catalog_nothing_stranded:
  assumes cat: "cat = fold (cat_step ymd) ops (catalog_empty b)"
  shows "distinct (map c_uuid (blocks cat)) \<and>
     (\<forall>r. r \<in> set (blocks cat) \<longrightarrow> r_deleted_at r \<noteq> None \<longrightarrow>
        (\<exists>e. r_delete_eligible_at r = Some e \<and>
           (\<forall>now. e \<le> clamp_i64 now \<longrightarrow> row_to_entry r \<in> set (list_pending_deletions cat now)))) \<and>
     (\<forall>r e. r \<in> set (blocks cat) \<longrightarrow> r_reap_eligible_at r = Some e \<longrightarrow>
        c_uuid r \<notin> listed_uuids cat \<and>
        (\<forall>now. e \<le> clamp_i64 now \<longrightarrow>
           row_to_entry r \<in> pr_entry ` set (list_pending_reaps cat now)))"
proof -
  have ok: "cat_ok cat" unfolding cat by (rule cat_ok_run) (simp add: cat_ok_def catalog_empty_def)
  then have d: "distinct (map c_uuid (blocks cat))" and rows: "\<And>r. r \<in> set (blocks cat) \<Longrightarrow> row_ok r"
    by (auto simp: cat_ok_def)
  have del: "\<exists>e. r_delete_eligible_at r = Some e \<and>
      (\<forall>now. e \<le> clamp_i64 now \<longrightarrow> row_to_entry r \<in> set (list_pending_deletions cat now))"
    if "r \<in> set (blocks cat)" "r_deleted_at r \<noteq> None" for r
    using rows [OF that(1)] that
    by (auto simp: row_ok_def list_pending_deletions_def deletion_due_def)
  have reap: "c_uuid r \<notin> listed_uuids cat \<and> (\<forall>now. e \<le> clamp_i64 now \<longrightarrow>
      row_to_entry r \<in> pr_entry ` set (list_pending_reaps cat now))"
    if r: "r \<in> set (blocks cat)" and e: "r_reap_eligible_at r = Some e" for r e
  proof -
    have sup: "r_superseded r" "r_reap_output r \<noteq> None" using rows [OF r] e by (auto simp: row_ok_def)
    have "c_uuid r \<notin> listed_uuids cat"
    proof
      assume "c_uuid r \<in> listed_uuids cat"
      then obtain r' where "r' \<in> set (blocks cat)" "live r'" "c_uuid r' = c_uuid r"
        by (auto simp: listed_uuids_live)
      with find_row_in [OF d r] find_row_in [OF d, of r'] have "r' = r" by simp
      with \<open>live r'\<close> sup show False by (simp add: live_def)
    qed
    moreover have "row_to_entry r \<in> pr_entry ` set (list_pending_reaps cat now)"
      if "e \<le> clamp_i64 now" for now
      using r e sup that by (auto simp: list_pending_reaps_def reap_due_def image_image)
    ultimately show ?thesis by blast
  qed
  from d del reap show ?thesis by blast
qed

theorem catalog_nothing_stranded_witness:
  "\<exists>e \<in> set (list_pending_deletions (fold (cat_step (\<lambda>_. (''2026'', ''01'', ''02'')))
      [InsertBlock 0 (sample_meta 5 []), MarkDeleted [5] 7 9] (catalog_empty ''b'')) 10).
      bm_uuid (e_meta e) = 5"
proof -
  let ?y = "\<lambda>_. (''2026'', ''01'', ''02'')"
  let ?c = "fold (cat_step ?y) [InsertBlock 0 (sample_meta 5 []), MarkDeleted [5] 7 9] (catalog_empty ''b'')"
  let ?r = "staged_delete 7 9 (claimed (sample_meta 5 []) (fresh_row (meta_cols ''b''
      (format_date ?y 1) (sample_meta 5 [])) False))"
  have r: "?r \<in> set (blocks ?c)"
    by (simp add: mark_deleted_blocks insert_block_blocks insert_row_def)
       (simp add: has_block_def catalog_empty_def live_descendant_def sample_meta_def)
  have "r_deleted_at ?r \<noteq> None" "r_delete_eligible_at ?r = Some 9"
    by (simp_all add: staged_delete_def coalesce_def max_deadline_def clamp_i64_def as_i64_def I64_MAX_def)
  with catalog_nothing_stranded [OF refl, of ?y "[InsertBlock 0 (sample_meta 5 []), MarkDeleted [5] 7 9]" "''b''"] r
  have "row_to_entry ?r \<in> set (list_pending_deletions ?c 10)"
    by (fastforce simp: clamp_i64_def as_i64_def I64_MAX_def)
  then show ?thesis by (rule bexI [rotated]) (simp add: sample_meta_def)
qed

text \<open>A sidecar read back from the catalog. Inserting a new block makes \<open>get_block\<close> return
  the sidecar with every field intact except the four the catalog does not store (ancestry,
  producer version, series types, fingerprints), with the bucket, the calendar date and the
  level; inserting a known UUID leaves its entry as it was and reports it as present.\<close>

lemma insert_block_get_block:
  "insert_block ymd now cat bm = (\<not> has_block cat (bm_uuid bm), snd (insert_block ymd now cat bm)) \<and>
   get_block (snd (insert_block ymd now cat bm)) (bm_uuid bm) =
     (if has_block cat (bm_uuid bm) then get_block cat (bm_uuid bm)
      else Some \<lparr>e_meta = bm\<lparr>bm_compacted_from := [], bm_producer_version := [],
                            bm_series_types := None, bm_all_fingerprints := None\<rparr>,
                 e_bucket = cat_bucket cat,
                 e_date = format_date ymd (bm_ts_min_unix_nano bm), e_level = bm_level bm\<rparr>)"
proof -
  have "row_to_entry (fresh_row c sd) = row_to_entry c" for c sd
    using row_to_entry_truncate [of "fresh_row c sd"] by simp
  then show ?thesis
    using find_row_None [of cat "bm_uuid bm"] insert_block_fst [of ymd now cat bm]
    by (auto simp: get_block_def find_row_insert prod_eq_iff catalog_view_def split: option.split)
qed

text \<open>C13: publishing a compaction swaps the listing in one step. When the output is a new block
  that no live block claims and that does not claim itself, the listed blocks afterwards are
  the output together with the blocks listed before that are neither a direct input nor in the
  ancestry of the output.\<close>

theorem apply_compaction_swaps:
  assumes "\<not> has_block cat (bm_uuid out)" and "\<not> live_descendant cat (bm_uuid out)"
    and "bm_uuid out \<notin> set (bm_compacted_from out)" and "bm_uuid out \<notin> set inputs"
  shows "listed_uuids (snd (apply_compaction ymd now out inputs e cat)) =
     insert (bm_uuid out) (listed_uuids cat - set inputs - set (bm_compacted_from out))"
proof -
  have "listed_uuids (snd (apply_compaction ymd now out inputs e cat)) =
      listed_uuids (stage_superseded inputs (bm_uuid out) e (snd (insert_block ymd now cat out)))"
    by (simp add: apply_compaction_def split: prod.split)
  moreover have "bm_uuid out \<notin> listed_uuids cat"
    using assms(1) by (auto simp: listed_uuids_live has_block_def)
  ultimately show ?thesis using assms
    by (auto simp: listed_stage listed_insert claims_def)
qed

theorem apply_compaction_swaps_witness:
  "listed_uuids (snd (apply_compaction (\<lambda>_. (''2026'', ''01'', ''02'')) 0 (sample_meta 9 [3, 5]) [5] 7
     (snd (insert_block (\<lambda>_. (''2026'', ''01'', ''02'')) 0 (catalog_empty ''b'') (sample_meta 5 []))))) = {9}"
proof -
  let ?y = "\<lambda>_. (''2026'', ''01'', ''02'')"
  let ?c = "snd (insert_block ?y 0 (catalog_empty ''b'') (sample_meta 5 []))"
  have lin: "lineage_edges ?c = {}"
    by (simp add: insert_block_edges edges_of_def) (simp add: lineage_edges_def catalog_empty_def sample_meta_def)
  have 1: "\<not> has_block ?c (bm_uuid (sample_meta 9 [3, 5]))"
    by (simp add: has_block_insert) (simp add: has_block_def catalog_empty_def sample_meta_def)
  have 2: "\<not> live_descendant ?c (bm_uuid (sample_meta 9 [3, 5]))"
    using lin by (auto simp: live_descendant_def lineage_edges_def)
  have "listed_uuids ?c = insert (bm_uuid (sample_meta 5 []))
      {u \<in> listed_uuids (catalog_empty ''b''). \<not> claims (sample_meta 5 []) u}"
    by (rule listed_insert) (simp_all add: has_block_def live_descendant_def catalog_empty_def)
  then have 3: "listed_uuids ?c = {5}"
    by (simp add: listed_uuids_live catalog_empty_def sample_meta_def)
  have 4: "bm_uuid (sample_meta 9 [3, 5]) \<notin> set (bm_compacted_from (sample_meta 9 [3, 5]))"
    "bm_uuid (sample_meta 9 [3, 5]) \<notin> set [5]" by (simp_all add: sample_meta_def)
  have "listed_uuids (snd (apply_compaction ?y 0 (sample_meta 9 [3, 5]) [5] 7 ?c)) =
      insert (bm_uuid (sample_meta 9 [3, 5])) ({5} - set [5] - set (bm_compacted_from (sample_meta 9 [3, 5])))"
    unfolding 3 [symmetric] by (rule apply_compaction_swaps [OF 1 2 4])
  then show ?thesis by (simp add: sample_meta_def)
qed

text \<open>C22: a complete reconciliation has every block. When \<open>reconcile_from_bucket\<close> returns a
  report that is complete, every listed sidecar outside the control namespaces that can be
  parsed is in the catalog, every other such key was gone when it was fetched or is
  unparseable, and no block known before is lost. A listing that ends in an error never
  yields a report.\<close>

theorem reconcile_complete:
  assumes "reconcile_from_bucket ymd now fetch parse ins_fails items cat = (Some rep, cat')"
    and "is_complete rep" and "Listed path \<in> set items"
    and "\<not> is_reserved_control_key path" and "ends_with ''.meta.json'' path"
  shows "(case fetch path of
            Inl e \<Rightarrow> e = NotFound
          | Inr body \<Rightarrow> (case parse body of None \<Rightarrow> True | Some bm \<Rightarrow> has_block cat' (bm_uuid bm))) \<and>
         (\<forall>u. has_block cat u \<longrightarrow> has_block cat' u) \<and> ListError \<notin> set items"
proof -
  note R = reconcile_loop_Some [OF assms(1) [unfolded reconcile_from_bucket_def]]
  have "unapplied rep = unapplied report_default"
    using assms(2) by (simp add: is_complete_def report_default_def)
  with R assms(3-5) have "(\<forall>e. fetch path = Inl e \<longrightarrow> e = NotFound) \<and>
      (\<forall>body bm. fetch path = Inr body \<longrightarrow> parse body = Some bm \<longrightarrow> has_block cat' (bm_uuid bm))"
    by (simp add: sidecar_key_def)
  moreover have "ListError \<notin> set items"
    using assms(1) reconcile_loop_None [of items ymd now fetch parse ins_fails report_default cat]
    by (auto simp: reconcile_from_bucket_def)
  ultimately show ?thesis using R by (auto split: sum.split option.split)
qed

theorem reconcile_complete_witness:
  "\<exists>rep cat'. reconcile_from_bucket (\<lambda>_. (''2026'', ''01'', ''02'')) 0 (\<lambda>_. Inr [1])
      (\<lambda>_. Some (sample_meta 5 [])) (\<lambda>_. False) [Listed ''l/x.meta.json''] (catalog_empty ''b'')
      = (Some rep, cat') \<and> has_block cat' 5"
proof -
  let ?f = "\<lambda>_. Inr [1]" and ?p = "\<lambda>_. Some (sample_meta 5 [])" and ?i = "\<lambda>_. False"
  let ?y = "\<lambda>_. (''2026'', ''01'', ''02'')" and ?k = "''l/x.meta.json''"
  have key: "\<not> is_reserved_control_key ?k" "ends_with ''.meta.json'' ?k"
    by (simp_all add: is_reserved_control_key_def classify_object_key_def CATALOG_CONTROL_ROOT_def
        SCRY_CONTROL_ROOT_def ends_with_def strip_suffix_def)
  obtain rep cat' where one: "apply_sidecar ?y 0 ?f ?p ?i ?k report_default (catalog_empty ''b'')
      = (rep, cat')" by force
  then have run: "reconcile_from_bucket ?y 0 ?f ?p ?i [Listed ?k] (catalog_empty ''b'')
      = (Some rep, cat')"
    using key by (simp add: reconcile_from_bucket_def)
  have "is_complete rep"
    using one by (auto simp: apply_sidecar_def Let_def is_complete_def report_default_def
        split: prod.splits)
  from reconcile_complete [OF run this _ key] have "has_block cat' 5"
    by (simp add: sample_meta_def)
  with run show ?thesis by blast
qed

text \<open>Poll cursors. After any sequence of observations, in any order, the cursor of a
  partition that saw a UUIDv7 is the largest UUIDv7 among those observed for it and the one
  stored before; UUIDs of other versions never move it.\<close>

lemma cursor_is_newest_v7:
  assumes "\<exists>u. ((s, w, d), u) \<in> set obs \<and> get_version_num u = 7"
  shows "get_cursor (fold (\<lambda>((s, w, d), u). advance_cursor s w d u) obs cat) s w d =
     Some (Max ({v. get_cursor cat s w d = Some v \<and> get_version_num v = 7}
              \<union> {u. ((s, w, d), u) \<in> set obs \<and> get_version_num u = 7}))"
  using cursors.get_fold [of "(s, w, d)" obs cat] assms by (simp add: split_def)

text \<open>Deadlines. A deletion deadline is never brought forward by any later staging of
  deletions of this instance; adopting a peer's deletion grants its deadline once, and adopting
  the same blocks again, with whatever deadline, changes nothing and reports nothing.\<close>

lemma deletion_deadline_monotone:
  assumes "has_block cat u" and "delete_deadline cat u = Some d"
  shows "(\<exists>d' \<ge> d. delete_deadline (fold (\<lambda>(us, e). mark_deleted us t e) sts cat) u = Some d') \<and>
    adopt_peer_deletion us t2 e2 (snd (adopt_peer_deletion us t1 e1 cat))
      = (0, snd (adopt_peer_deletion us t1 e1 cat))"
  using deletions.run_never_shortened [OF assms]
  by (intro conjI adopt_fold_hidden) (auto simp: adopt_blocks)

text \<open>The operations that name a block as an input of a compaction, or remove its row.\<close>

fun names_input :: "uuid \<Rightarrow> cat_op \<Rightarrow> bool" where
  "names_input u (InsertBlock now bm) \<longleftrightarrow> claims bm u"
| "names_input u (ApplyCompaction now bm us e) \<longleftrightarrow> claims bm u \<or> u \<in> set us"
| "names_input u (StageSuperseded us m e) \<longleftrightarrow> u \<in> set us"
| "names_input u (DeleteBlocks us) \<longleftrightarrow> u \<in> set us"
| "names_input u _ \<longleftrightarrow> False"

definition passed_over :: "block_row \<Rightarrow> bool" where
  "passed_over r \<longleftrightarrow> r_superseded r \<and> r_superseded_by r = None \<and> r_reap_eligible_at r = None"

definition hidden_unstaged :: "uuid \<Rightarrow> catalog \<Rightarrow> bool" where
  "hidden_unstaged u cat \<longleftrightarrow> has_block cat u \<and> (\<forall>r \<in> set (blocks cat). c_uuid r = u \<longrightarrow> passed_over r)"

lemma hidden_map:
  assumes "hidden_unstaged u cat" and "blocks cat' = map h (blocks cat)" and "\<And>r. c_uuid (h r) = c_uuid r"
    and "\<And>r. c_uuid r = u \<Longrightarrow> passed_over r \<Longrightarrow> passed_over (h r)"
  shows "hidden_unstaged u cat'"
  using assms by (auto simp: hidden_unstaged_def has_block_def image_image)

lemma hidden_blocks: "hidden_unstaged u cat \<Longrightarrow> blocks cat' = blocks cat \<Longrightarrow> hidden_unstaged u cat'"
  by (simp add: hidden_unstaged_def has_block_def)

lemma hidden_insert:
  assumes "hidden_unstaged u cat" "\<not> claims bm u"
  shows "hidden_unstaged u (snd (insert_block ymd now cat bm))"
proof -
  let ?mid = "cat\<lparr>blocks := blocks cat @ insert_row ymd cat bm\<rparr>"
  have "hidden_unstaged u ?mid" using assms(1) by (auto simp: hidden_unstaged_def has_block_def insert_row_def)
  then show ?thesis by (rule hidden_map [where h = "claimed bm"]) (use assms(2) in \<open>auto simp: insert_block_blocks claimed_def\<close>)
qed

lemma hidden_stage: "hidden_unstaged u cat \<Longrightarrow> u \<notin> set us \<Longrightarrow> hidden_unstaged u (stage_superseded us m e cat)"
  by (erule hidden_map [OF _ stage_superseded_blocks]) auto

lemma hidden_step:
  assumes hid: "hidden_unstaged u cat" and op: "\<not> names_input u op"
  shows "hidden_unstaged u (cat_step ymd op cat)"
proof (cases op)
  case (ApplyCompaction now bm us e)
  have "hidden_unstaged u (stage_superseded us (bm_uuid bm) e (snd (insert_block ymd now cat bm)))"
    using hid op ApplyCompaction by (intro hidden_stage hidden_insert) auto
  then show ?thesis by (simp add: ApplyCompaction apply_compaction_def split: prod.split) (metis snd_conv)
next
  case (StageUnstaged e)
  show ?thesis unfolding StageUnstaged cat_step.simps
    by (rule hidden_map [OF hid, where h = "\<lambda>r. if unstaged r
          then r\<lparr>r_reap_output := coalesce (r_reap_output r) (r_superseded_by r),
                 r_reap_eligible_at := coalesce (r_reap_eligible_at r) (Some (clamp_i64 e))\<rparr> else r"])
       (auto simp: stage_unstaged_superseded_def update_where_def unstaged_def passed_over_def)
next
  case (MarkDeleted us t e)
  show ?thesis unfolding MarkDeleted cat_step.simps
    by (rule hidden_map [OF hid mark_deleted_blocks]) (auto simp: passed_over_def staged_delete_def)
next
  case (AdoptPeerDeletion us t e)
  show ?thesis unfolding AdoptPeerDeletion cat_step.simps
    by (rule hidden_map [OF hid adopt_blocks]) (auto simp: passed_over_def)
next
  case (DeleteBlocks us)
  then show ?thesis using hid op by (auto simp: hidden_unstaged_def has_block_def delete_blocks_def)
qed (use hid op in \<open>auto simp: hidden_insert hidden_stage prune_lineage_partition_def upsert_block_labels_def
    advance_cursor_def advance_watermark_def advance_watermark_in_def elim: hidden_blocks\<close>)

lemma hidden_run:
  "hidden_unstaged u cat \<Longrightarrow> \<forall>op \<in> set ops. \<not> names_input u op \<Longrightarrow> hidden_unstaged u (fold (cat_step ymd) ops cat)"
  by (induction ops arbitrary: cat) (auto simp: hidden_step)

text \<open>C37: an input inserted after its compaction output. When a live block already claims the
  block that is inserted, the new row is hidden from queries at once, but it carries no pointer to its
  output. Whatever catalog operations follow, in any number and order, staging passes included, as long
  as none names the block as an input again and none removes its row: it stays hidden, and it is not on
  the list of pending reaps, whenever that is read.\<close>

theorem late_ancestor_not_staged:
  assumes "\<not> has_block cat (bm_uuid bm)" and "live_descendant cat (bm_uuid bm)"
    and "\<forall>op \<in> set ops. \<not> names_input (bm_uuid bm) op"
  shows "let cat' = fold (cat_step ymd) ops (snd (insert_block ymd now cat bm))
     in has_block cat' (bm_uuid bm) \<and> bm_uuid bm \<notin> listed_uuids cat' \<and>
        bm_uuid bm \<notin> (\<lambda>p. bm_uuid (e_meta (pr_entry p))) ` set (list_pending_reaps cat' t)"
proof -
  let ?u = "bm_uuid bm" and ?c = "fold (cat_step ymd) ops (snd (insert_block ymd now cat bm))"
  have no: "\<forall>r \<in> set (blocks cat). c_uuid r \<noteq> ?u" using assms(1) by (force simp: has_block_def)
  have "hidden_unstaged ?u (snd (insert_block ymd now cat bm))"
    using assms(1,2) no by (auto simp: hidden_unstaged_def has_block_def insert_block_blocks insert_row_def passed_over_def claimed_def claims_def)
  then have hid: "hidden_unstaged ?u ?c" using assms(3) by (rule hidden_run)
  then have "?u \<notin> listed_uuids ?c" by (auto simp: hidden_unstaged_def passed_over_def listed_uuids_live live_def)
  moreover have "?u \<notin> (\<lambda>p. bm_uuid (e_meta (pr_entry p))) ` set (list_pending_reaps ?c t)"
    using hid by (force simp: hidden_unstaged_def passed_over_def list_pending_reaps_def reap_due_def split: option.splits)
  ultimately show ?thesis using hid by (simp add: Let_def hidden_unstaged_def)
qed

theorem late_ancestor_not_staged_witness:
  "let cat1 = snd (insert_block (\<lambda>_. (''2026'', ''01'', ''02'')) 0
         (snd (insert_block (\<lambda>_. (''2026'', ''01'', ''02'')) 0 (catalog_empty ''b'') (sample_meta 9 [5])))
         (sample_meta 5 []));
       cat2 = fold (cat_step (\<lambda>_. (''2026'', ''01'', ''02''))) [StageUnstaged 3, InsertBlock 1 (sample_meta 7 [4]), StageUnstaged 6] cat1
   in has_block cat2 5 \<and> 5 \<notin> (\<lambda>p. bm_uuid (e_meta (pr_entry p))) ` set (list_pending_reaps cat2 9)"
proof -
  let ?y = "\<lambda>_. (''2026'', ''01'', ''02'')" and ?e = "catalog_empty ''b''"
  let ?c = "snd (insert_block ?y 0 ?e (sample_meta 9 [5]))"
  have u: "bm_uuid (sample_meta 5 []) = 5" "bm_uuid (sample_meta 9 [5]) = 9"
    "bm_compacted_from (sample_meta 9 [5]) = [5]" by (simp_all add: sample_meta_def)
  have e: "\<not> has_block ?e v" "\<not> live_descendant ?e v" "listed_uuids ?e = {}" "cat_ok ?e" for v
    by (simp_all add: has_block_def live_descendant_def listed_uuids_live cat_ok_def catalog_empty_def)
  have 2: "\<not> has_block ?c (bm_uuid (sample_meta 5 []))" by (simp add: has_block_insert e u)
  have "9 \<in> listed_uuids ?c" using listed_insert [of ?e "sample_meta 9 [5]" ?y 0] e by (simp add: u)
  then obtain r where "r \<in> set (blocks ?c)" "live r" "c_uuid r = 9" by (auto simp: listed_uuids_live)
  moreover have "(5, 9) \<in> lineage_edges ?c" by (simp add: insert_block_edges edges_of_def u)
  then obtain l where "l \<in> set (lineage ?c)" "l_ancestor l = 5" "l_descendant l = 9"
    by (auto simp: lineage_edges_def)
  ultimately have 3: "live_descendant ?c (bm_uuid (sample_meta 5 []))"
    unfolding live_descendant_def u by metis
  have "\<forall>op \<in> set [StageUnstaged 3, InsertBlock 1 (sample_meta 7 [4]), StageUnstaged 6]. \<not> names_input (bm_uuid (sample_meta 5 [])) op"
    by (simp add: claims_def sample_meta_def)
  from late_ancestor_not_staged [OF 2 3 this, of ?y 0 9] show ?thesis by (simp add: Let_def u)
qed

end
