(* ===== verification/Compact_Policy.thy ===== *)
theory Compact_Policy
  imports Catalog_Props
begin

text \<open>
  Which blocks to merge: \<^verbatim>\<open>src/crates/compact/src/policy.rs\<close>. \<open>usize\<close> counts are natural
  numbers with the 64-bit overflow checks of the code written out; the \<open>BTreeMap\<close> of
  partitions is a list sorted by key.
\<close>

record compact_config =
  cc_fanout :: nat
  cc_max_level :: u32
  cc_grace_nanos :: u64
  cc_signal_filter :: "string option"
  cc_parallelism :: nat

definition compact_config_default :: compact_config where
  "compact_config_default = \<lparr>cc_fanout = 8, cc_max_level = 3, cc_grace_nanos = 0,
     cc_signal_filter = None, cc_parallelism = 1\<rparr>"

datatype policy_error =
    FanoutTooSmall
  | MaxLevelTooSmall
  | AncestryOverflow
  | AncestryTooLarge nat

fun validate_levels :: "nat \<Rightarrow> nat \<Rightarrow> nat \<Rightarrow> nat \<Rightarrow> policy_error + unit" where
  "validate_levels fanout 0 width represented = Inr ()"
| "validate_levels fanout (Suc n) width represented =
     (let width' = width * fanout
      in if width' \<ge> 2 ^ 64 then Inl AncestryOverflow
         else let represented' = represented + width'
              in if represented' \<ge> 2 ^ 64 then Inl AncestryOverflow
                 else if represented' > MAX_COMPACTED_ANCESTORS
                 then Inl (AncestryTooLarge represented')
                 else validate_levels fanout n width' represented')"

definition compact_config_validate :: "compact_config \<Rightarrow> policy_error + unit" where
  "compact_config_validate cfg =
     (if cc_fanout cfg < 2 then Inl FanoutTooSmall
      else if cc_max_level cfg < 1 then Inl MaxLevelTooSmall
      else validate_levels (cc_fanout cfg) (unat (cc_max_level cfg)) 1 0)"

record planned_merge =
  pm_signal :: string
  pm_date :: string
  pm_input_level :: u32
  pm_inputs :: "catalog_entry list"

definition output_level :: "planned_merge \<Rightarrow> u32" where
  "output_level p = pm_input_level p + 1"

record oversized_partition =
  op_signal :: string
  op_date :: string
  op_input_level :: u32
  op_projected_ancestors :: nat

record compaction_plan =
  merges :: "planned_merge list"
  oversized :: "oversized_partition list"

definition projected_ancestry_len :: "catalog_entry list \<Rightarrow> nat" where
  "projected_ancestry_len inputs =
     card (\<Union>e \<in> set inputs. insert (bm_uuid (e_meta e)) (set (bm_compacted_from (e_meta e))))"

type_synonym partition_key = "string \<times> u32 \<times> string \<times> u32"

definition partition_of :: "catalog_entry \<Rightarrow> partition_key" where
  "partition_of b = (bm_signal (e_meta b), bm_schema_version (e_meta b), e_date b, e_level b)"

definition considered :: "compact_config \<Rightarrow> catalog_entry \<Rightarrow> bool" where
  "considered cfg b \<longleftrightarrow>
     (case cc_signal_filter cfg of None \<Rightarrow> True | Some sig \<Rightarrow> bm_signal (e_meta b) = sig) \<and>
     \<not> e_level b \<ge> cc_max_level cfg"

fun plan_group ::
  "compact_config \<Rightarrow> partition_key \<times> catalog_entry list \<Rightarrow> compaction_plan \<Rightarrow> compaction_plan" where
  "plan_group cfg ((signal, schema_version, date, level), entries) plan =
     (if length entries < cc_fanout cfg then plan
      else
        (let chosen = take (cc_fanout cfg) (sort_key (\<lambda>e. bm_byte_size (e_meta e)) entries);
             projected = projected_ancestry_len chosen
         in if projected > MAX_COMPACTED_ANCESTORS
            then plan\<lparr>oversized := oversized plan @
                   [\<lparr>op_signal = signal, op_date = date, op_input_level = level,
                     op_projected_ancestors = projected\<rparr>]\<rparr>
            else plan\<lparr>merges := merges plan @
                   [\<lparr>pm_signal = signal, pm_date = date, pm_input_level = level,
                     pm_inputs = chosen\<rparr>]\<rparr>))"

definition plan_merges :: "catalog_entry list \<Rightarrow> compact_config \<Rightarrow> compaction_plan" where
  "plan_merges bs cfg =
     fold (plan_group cfg) (btree_groups partition_of (filter (considered cfg) bs))
       \<lparr>merges = [], oversized = []\<rparr>"

definition validate_against_catalog ::
  "catalog_entry list \<Rightarrow> compact_config \<Rightarrow> oversized_partition list" where
  "validate_against_catalog bs cfg = oversized (plan_merges bs cfg)"

section \<open>The policy check\<close>

lemma validate_levels_iff:
  "validate_levels f n w r = Inr () \<longleftrightarrow> (n = 0 \<or> r + (\<Sum>i = 1..n. w * f ^ i) \<le> MAX_COMPACTED_ANCESTORS)"
proof (induction f n w r rule: validate_levels.induct)
  case (2 f n w r)
  have "(\<Sum>i = 1..Suc n. w * f ^ i) = w * f + (\<Sum>i = 1..n. w * f * f ^ i)"
    by (simp add: sum.atLeast_Suc_atMost_Suc_shift sum.atLeast_Suc_atMost mult.assoc
        del: sum.cl_ivl_Suc)
  moreover have "MAX_COMPACTED_ANCESTORS < 2 ^ 64" by (simp add: MAX_COMPACTED_ANCESTORS_def)
  ultimately show ?case using "2.IH" by (auto simp: Let_def)
qed simp

section \<open>What the planner chooses\<close>

definition chosen :: "compact_config \<Rightarrow> catalog_entry list \<Rightarrow> catalog_entry list" where
  "chosen cfg entries = take (cc_fanout cfg) (sort_key (\<lambda>e. bm_byte_size (e_meta e)) entries)"

definition qualifies :: "compact_config \<Rightarrow> partition_key \<times> catalog_entry list \<Rightarrow> bool" where
  "qualifies cfg g \<longleftrightarrow> cc_fanout cfg \<le> length (snd g)"

definition encodable :: "compact_config \<Rightarrow> partition_key \<times> catalog_entry list \<Rightarrow> bool" where
  "encodable cfg g \<longleftrightarrow> projected_ancestry_len (chosen cfg (snd g)) \<le> MAX_COMPACTED_ANCESTORS"

fun merge_of :: "compact_config \<Rightarrow> partition_key \<times> catalog_entry list \<Rightarrow> planned_merge" where
  "merge_of cfg ((s, v, d, l), es) =
     \<lparr>pm_signal = s, pm_date = d, pm_input_level = l, pm_inputs = chosen cfg es\<rparr>"

fun oversized_of :: "compact_config \<Rightarrow> partition_key \<times> catalog_entry list \<Rightarrow> oversized_partition" where
  "oversized_of cfg ((s, v, d, l), es) =
     \<lparr>op_signal = s, op_date = d, op_input_level = l,
      op_projected_ancestors = projected_ancestry_len (chosen cfg es)\<rparr>"

lemma merge_of_partition:
  "pm_signal (merge_of cfg (partition_of b, es)) = bm_signal (e_meta b)"
  "pm_date (merge_of cfg (partition_of b, es)) = e_date b"
  "pm_input_level (merge_of cfg (partition_of b, es)) = e_level b"
  "pm_inputs (merge_of cfg (partition_of b, es)) = chosen cfg es"
  by (simp_all add: partition_of_def)

lemma oversized_of_partition:
  "op_signal (oversized_of cfg (partition_of b, es)) = bm_signal (e_meta b)"
  "op_date (oversized_of cfg (partition_of b, es)) = e_date b"
  "op_input_level (oversized_of cfg (partition_of b, es)) = e_level b"
  "op_projected_ancestors (oversized_of cfg (partition_of b, es)) = projected_ancestry_len (chosen cfg es)"
  by (simp_all add: partition_of_def)

lemma plan_group_eq:
  "plan_group cfg g plan =
     (if \<not> qualifies cfg g then plan
      else if encodable cfg g then plan\<lparr>merges := merges plan @ [merge_of cfg g]\<rparr>
      else plan\<lparr>oversized := oversized plan @ [oversized_of cfg g]\<rparr>)"
proof -
  obtain s v d l es where "g = ((s, v, d, l), es)" by (metis prod.exhaust)
  then show ?thesis by (simp add: qualifies_def encodable_def chosen_def Let_def not_less)
qed

lemma plan_fold:
  "merges (fold (plan_group cfg) gs plan) =
     merges plan @ map (merge_of cfg) (filter (\<lambda>g. qualifies cfg g \<and> encodable cfg g) gs)"
  "oversized (fold (plan_group cfg) gs plan) =
     oversized plan @ map (oversized_of cfg) (filter (\<lambda>g. qualifies cfg g \<and> \<not> encodable cfg g) gs)"
  by (induction gs arbitrary: plan) (auto simp: plan_group_eq)

lemma merges_plan:
  "merges (plan_merges bs cfg) = map (merge_of cfg)
     (filter (\<lambda>g. qualifies cfg g \<and> encodable cfg g)
        (btree_groups partition_of (filter (considered cfg) bs)))"
  "oversized (plan_merges bs cfg) = map (oversized_of cfg)
     (filter (\<lambda>g. qualifies cfg g \<and> \<not> encodable cfg g)
        (btree_groups partition_of (filter (considered cfg) bs)))"
  by (simp_all add: plan_merges_def plan_fold)

lemma set_chosen: "set (chosen cfg es) \<subseteq> set es"
  by (auto simp: chosen_def dest: in_set_takeD)

lemma distinct_chosen: "distinct es \<Longrightarrow> distinct (chosen cfg es)"
  by (simp add: chosen_def distinct_take)

lemma length_chosen: "cc_fanout cfg \<le> length es \<Longrightarrow> length (chosen cfg es) = cc_fanout cfg"
  by (simp add: chosen_def)

lemma chosen_smallest:
  assumes "e \<in> set (chosen cfg es)" and "e' \<in> set es" and "e' \<notin> set (chosen cfg es)"
  shows "bm_byte_size (e_meta e) \<le> bm_byte_size (e_meta e')"
proof -
  let ?k = "\<lambda>e. bm_byte_size (e_meta e)" and ?s = "sort_key (\<lambda>e. bm_byte_size (e_meta e)) es"
  have "sorted (map ?k (take (cc_fanout cfg) ?s @ drop (cc_fanout cfg) ?s))" by simp
  moreover have "set ?s = set (take (cc_fanout cfg) ?s @ drop (cc_fanout cfg) ?s)" by simp
  then have "e' \<in> set (drop (cc_fanout cfg) ?s)"
    using assms(2,3) unfolding chosen_def set_append set_sort by blast
  ultimately show ?thesis
    using assms(1) unfolding map_append sorted_append chosen_def by simp
qed

lemma planned_group:
  assumes "p \<in> set (merges (plan_merges bs cfg))"
  obtains s v d l where "(s, v, d, l) \<in> partition_of ` set (filter (considered cfg) bs)"
    and "pm_signal p = s" "pm_date p = d" "pm_input_level p = l"
    and "pm_inputs p = chosen cfg (filter (\<lambda>e. partition_of e = (s, v, d, l)) (filter (considered cfg) bs))"
    and "cc_fanout cfg \<le> length (filter (\<lambda>e. partition_of e = (s, v, d, l)) (filter (considered cfg) bs))"
    and "projected_ancestry_len (pm_inputs p) \<le> MAX_COMPACTED_ANCESTORS"
proof -
  from assms obtain g where g: "g \<in> set (btree_groups partition_of (filter (considered cfg) bs))"
    "qualifies cfg g" "encodable cfg g" "p = merge_of cfg g" by (auto simp: merges_plan)
  obtain s v d l es where k: "g = ((s, v, d, l), es)" by (metis prod.exhaust)
  from g(1) have "(s, v, d, l) \<in> partition_of ` set (filter (considered cfg) bs)"
    "es = filter (\<lambda>e. partition_of e = (s, v, d, l)) (filter (considered cfg) bs)"
    unfolding k btree_groups_iff by auto
  with g(2-4) show thesis by (intro that [of s v d l]) (auto simp: k qualifies_def encodable_def)
qed

lemma oversized_empty:
  assumes "\<forall>b \<in> set bs. bm_compacted_from (e_meta b) = []"
    and "cc_fanout cfg \<le> MAX_COMPACTED_ANCESTORS"
  shows "oversized (plan_merges bs cfg) = []"
proof -
  have "encodable cfg g" if "g \<in> set (btree_groups partition_of (filter (considered cfg) bs))" for g
  proof -
    obtain k es where g: "g = (k, es)" by (cases g)
    with that have "set es \<subseteq> set bs" by (auto simp: btree_groups_iff)
    then have "\<forall>e \<in> set (chosen cfg es). bm_compacted_from (e_meta e) = []"
      using assms(1) set_chosen by blast
    then have "projected_ancestry_len (chosen cfg es) = card ((\<lambda>e. bm_uuid (e_meta e)) ` set (chosen cfg es))"
      by (simp add: projected_ancestry_len_def UNION_singleton_eq_range)
    also have "\<dots> \<le> length (chosen cfg es)" by (metis card_length length_map list.set_map)
    also have "\<dots> \<le> cc_fanout cfg" by (simp add: chosen_def)
    finally show ?thesis using assms(2) by (simp add: encodable_def g)
  qed
  then show ?thesis by (auto simp: merges_plan filter_empty_conv)
qed

section \<open>Properties\<close>

text \<open>The policy check is exact. A configuration is accepted exactly when the fanout is at
  least 2, the maximum level at least 1, and a block at the maximum level of a uniform merge
  tree has at most 584 ancestors; the checked arithmetic never overflows into acceptance.\<close>

lemma compact_config_validate_iff:
  "compact_config_validate cfg = Inr () \<longleftrightarrow>
     2 \<le> cc_fanout cfg \<and> 1 \<le> cc_max_level cfg \<and>
     (\<Sum>i = 1..unat (cc_max_level cfg). cc_fanout cfg ^ i) \<le> 584"
proof -
  have "unat (cc_max_level cfg) = 0 \<longleftrightarrow> cc_max_level cfg < 1"
    by (simp add: word_less_nat_alt unat_eq_0)
  then show ?thesis
    by (auto simp: compact_config_validate_def validate_levels_iff MAX_COMPACTED_ANCESTORS_def
        not_less word_le_nat_alt)
qed

text \<open>Two planned merges come from two partitions, so they share no input.\<close>

lemma planned_disjoint:
  assumes p: "p \<in> set (merges (plan_merges bs cfg))" and q: "q \<in> set (merges (plan_merges bs cfg))" "q \<noteq> p"
  shows "set (pm_inputs p) \<inter> set (pm_inputs q) = {}"
proof -
  let ?G = "\<lambda>k. filter (\<lambda>e. partition_of e = k) (filter (considered cfg) bs)"
  obtain s v d l where p': "pm_signal p = s" "pm_date p = d" "pm_input_level p = l" "pm_inputs p = chosen cfg (?G (s, v, d, l))"
    by (rule planned_group [OF p]) blast
  obtain s' v' d' l' where q': "pm_signal q = s'" "pm_date q = d'" "pm_input_level q = l'"
    "pm_inputs q = chosen cfg (?G (s', v', d', l'))"
    by (rule planned_group [OF q(1)]) blast
  have "q = p" if "(s', v', d', l') = (s, v, d, l)"
    using that q' p' by (intro planned_merge.equality) simp_all
  with q(2) have ne: "(s', v', d', l') \<noteq> (s, v, d, l)" by blast
  have "set (pm_inputs p) \<subseteq> set (?G (s, v, d, l))" "set (pm_inputs q) \<subseteq> set (?G (s', v', d', l'))"
    unfolding p'(4) q'(4) by (rule set_chosen)+
  then have "partition_of e = (s, v, d, l)" "partition_of e = (s', v', d', l')"
    if "e \<in> set (pm_inputs p) \<inter> set (pm_inputs q)" for e
    using that by auto
  with ne show ?thesis by (metis equals0I)
qed

text \<open>C30: what a planned merge is. Over blocks with distinct UUIDs, every planned merge takes
  exactly \<open>fanout\<close> different blocks of one partition (signal, schema version, date, level) below
  the maximum level, no block of that partition left out is smaller than a chosen one, the
  ancestry fits, and two different planned merges have no block in common.\<close>

theorem plan_merges_sound:
  assumes "distinct (map (\<lambda>b. bm_uuid (e_meta b)) bs)" and "p \<in> set (merges (plan_merges bs cfg))"
  shows "length (pm_inputs p) = cc_fanout cfg \<and> distinct (pm_inputs p) \<and> set (pm_inputs p) \<subseteq> set bs \<and>
     (\<exists>v. \<forall>e \<in> set (pm_inputs p).
        partition_of e = (pm_signal p, v, pm_date p, pm_input_level p) \<and> considered cfg e \<and>
        (\<forall>e' \<in> set bs - set (pm_inputs p). partition_of e' = partition_of e \<longrightarrow>
           bm_byte_size (e_meta e) \<le> bm_byte_size (e_meta e'))) \<and>
     projected_ancestry_len (pm_inputs p) \<le> 584 \<and>
     (\<forall>q \<in> set (merges (plan_merges bs cfg)). q \<noteq> p \<longrightarrow> set (pm_inputs p) \<inter> set (pm_inputs q) = {})"
proof -
  let ?G = "\<lambda>k. filter (\<lambda>e. partition_of e = k) (filter (considered cfg) bs)"
  obtain s v d l where p: "pm_signal p = s" "pm_date p = d" "pm_input_level p = l"
    "pm_inputs p = chosen cfg (?G (s, v, d, l))" "cc_fanout cfg \<le> length (?G (s, v, d, l))"
    "projected_ancestry_len (pm_inputs p) \<le> MAX_COMPACTED_ANCESTORS"
    by (rule planned_group [OF assms(2)]) blast
  have "distinct bs" using assms(1) by (simp add: distinct_map)
  have sub: "set (pm_inputs p) \<subseteq> set (?G (s, v, d, l))" unfolding p(4) by (rule set_chosen)
  have small: "bm_byte_size (e_meta e) \<le> bm_byte_size (e_meta e')"
    if "e \<in> set (pm_inputs p)" "e' \<in> set bs - set (pm_inputs p)" "partition_of e' = partition_of e" for e e'
  proof -
    have "considered cfg e" "partition_of e = (s, v, d, l)" using that(1) sub by auto
    then have "considered cfg e'" using that(3) by (auto simp: considered_def partition_of_def split: option.splits)
    then have "e' \<in> set (?G (s, v, d, l))" using that \<open>partition_of e = (s, v, d, l)\<close> by simp
    with that(1,2) show ?thesis unfolding p(4) by (intro chosen_smallest) auto
  qed
  have "\<forall>e \<in> set (pm_inputs p). partition_of e = (pm_signal p, v, pm_date p, pm_input_level p) \<and>
      considered cfg e \<and> (\<forall>e' \<in> set bs - set (pm_inputs p). partition_of e' = partition_of e \<longrightarrow>
        bm_byte_size (e_meta e) \<le> bm_byte_size (e_meta e'))"
    using sub small p(1-3) by auto
  moreover have "length (pm_inputs p) = cc_fanout cfg" "distinct (pm_inputs p)"
    using p(4,5) \<open>distinct bs\<close> by (simp_all add: length_chosen distinct_chosen)
  moreover have "set (pm_inputs p) \<subseteq> set bs" using sub by auto
  moreover have "projected_ancestry_len (pm_inputs p) \<le> 584"
    using p(6) by (simp add: MAX_COMPACTED_ANCESTORS_def)
  ultimately show ?thesis using planned_disjoint [OF assms(2)] by blast
qed

definition sample_entry :: "uuid \<Rightarrow> u64 \<Rightarrow> catalog_entry" where
  "sample_entry u n = \<lparr>e_meta = (sample_meta u [])\<lparr>bm_byte_size := n\<rparr>, e_bucket = ''b'',
     e_date = ''2026-01-02'', e_level = 0\<rparr>"

lemma partition_of_sample [simp]: "partition_of (sample_entry u n) = (''logs'', 1, ''2026-01-02'', 0)"
  by (simp add: partition_of_def sample_entry_def sample_meta_def)

lemma considered_sample [simp]:
  "cc_signal_filter cfg = None \<Longrightarrow> 0 < cc_max_level cfg \<Longrightarrow> considered cfg (sample_entry u n)"
  by (simp add: considered_def sample_entry_def)

lemma sample_entry_fields [simp]:
  "bm_uuid (e_meta (sample_entry u n)) = u" "bm_byte_size (e_meta (sample_entry u n)) = n"
  "bm_compacted_from (e_meta (sample_entry u n)) = []"
  by (simp_all add: sample_entry_def sample_meta_def)

theorem plan_merges_sound_witness:
  "\<exists>p. merges (plan_merges [sample_entry 2 9, sample_entry 3 4, sample_entry 4 7]
         (compact_config_default\<lparr>cc_fanout := 2\<rparr>)) = [p] \<and>
       length (pm_inputs p) = 2 \<and> distinct (pm_inputs p) \<and> projected_ancestry_len (pm_inputs p) \<le> 584"
proof -
  let ?bs = "[sample_entry 2 9, sample_entry 3 4, sample_entry 4 7]"
  let ?cfg = "compact_config_default\<lparr>cc_fanout := 2\<rparr>"
  have "considered ?cfg (sample_entry u n)" for u n
    by (simp add: compact_config_default_def)
  moreover have "projected_ancestry_len [sample_entry 3 4, sample_entry 4 7] \<le> 584"
    by (simp add: projected_ancestry_len_def card_insert_if)
  ultimately obtain p where p: "merges (plan_merges ?bs ?cfg) = [p]"
    by (simp add: plan_merges_def btree_groups_def compact_config_default_def
        MAX_COMPACTED_ANCESTORS_def)
  have "distinct (map (\<lambda>b. bm_uuid (e_meta b)) ?bs)" by simp
  from plan_merges_sound [OF this, of p ?cfg] p show ?thesis
    by (auto simp: compact_config_default_def)
qed

lemma eligible_group:
  assumes "b \<in> set bs" and "considered cfg b"
    and "cc_fanout cfg \<le> length (filter (\<lambda>e. considered cfg e \<and> partition_of e = partition_of b) bs)"
  shows "(partition_of b, filter (\<lambda>e. partition_of e = partition_of b) (filter (considered cfg) bs))
      \<in> set (btree_groups partition_of (filter (considered cfg) bs))"
    and "qualifies cfg (partition_of b, filter (\<lambda>e. partition_of e = partition_of b) (filter (considered cfg) bs))"
proof -
  have "b \<in> set (filter (considered cfg) bs)" using assms(1,2) by simp
  then show "(partition_of b, filter (\<lambda>e. partition_of e = partition_of b) (filter (considered cfg) bs))
      \<in> set (btree_groups partition_of (filter (considered cfg) bs))" unfolding btree_groups_iff by blast
  show "qualifies cfg (partition_of b, filter (\<lambda>e. partition_of e = partition_of b) (filter (considered cfg) bs))"
    using assms(3) unfolding qualifies_def snd_conv filter_filter .
qed

lemma eligible_merge:
  assumes "b \<in> set bs" and "considered cfg b"
    and "cc_fanout cfg \<le> length (filter (\<lambda>e. considered cfg e \<and> partition_of e = partition_of b) bs)"
    and "encodable cfg (partition_of b, filter (\<lambda>e. partition_of e = partition_of b) (filter (considered cfg) bs))"
  shows "\<exists>p \<in> set (merges (plan_merges bs cfg)). pm_signal p = bm_signal (e_meta b) \<and> pm_date p = e_date b \<and>
     pm_input_level p = e_level b \<and> length (pm_inputs p) = cc_fanout cfg \<and> (\<forall>e \<in> set (pm_inputs p). partition_of e = partition_of b)"
proof -
  let ?es = "filter (\<lambda>e. partition_of e = partition_of b) (filter (considered cfg) bs)"
  note g = eligible_group [OF assms(1-3)]
  have mem: "merge_of cfg (partition_of b, ?es) \<in> set (merges (plan_merges bs cfg))"
    unfolding merges_plan set_map set_filter by (intro imageI CollectI conjI g assms(4))
  have "\<forall>e \<in> set (chosen cfg ?es). partition_of e = partition_of b"
  proof
    fix e assume "e \<in> set (chosen cfg ?es)"
    then have "e \<in> set ?es" by (rule subsetD [OF set_chosen])
    then show "partition_of e = partition_of b" unfolding set_filter by (rule CollectE) (rule conjunct2)
  qed
  moreover have "length (chosen cfg ?es) = cc_fanout cfg" using g(2) by (intro length_chosen) (simp only: qualifies_def snd_conv)
  ultimately show ?thesis using mem unfolding merge_of_partition [of cfg b ?es, symmetric] by blast
qed

text \<open>C31: no eligible partition is dropped. A block below the maximum level that passes the signal
  filter and whose partition holds at least \<open>fanout\<close> such blocks is in a partition for which the
  plan has a merge or an oversized report.\<close>

theorem plan_merges_complete:
  assumes "b \<in> set bs" and "considered cfg b"
    and "cc_fanout cfg \<le> length (filter (\<lambda>e. considered cfg e \<and> partition_of e = partition_of b) bs)"
  shows "(\<exists>p \<in> set (merges (plan_merges bs cfg)). pm_signal p = bm_signal (e_meta b) \<and>
            pm_date p = e_date b \<and> pm_input_level p = e_level b \<and>
            (\<forall>e \<in> set (pm_inputs p). partition_of e = partition_of b)) \<or>
         (\<exists>q \<in> set (oversized (plan_merges bs cfg)). op_signal q = bm_signal (e_meta b) \<and>
            op_date q = e_date b \<and> op_input_level q = e_level b \<and>
            op_projected_ancestors q > MAX_COMPACTED_ANCESTORS)"
proof -
  let ?es = "filter (\<lambda>e. partition_of e = partition_of b) (filter (considered cfg) bs)"
  let ?g = "(partition_of b, ?es)"
  note g = eligible_group [OF assms]
  show ?thesis
  proof (cases "encodable cfg ?g")
    case True
    from eligible_merge [OF assms True] show ?thesis by blast
  next
    case False
    have mem': "oversized_of cfg ?g \<in> set (oversized (plan_merges bs cfg))"
      unfolding merges_plan set_map set_filter by (intro imageI CollectI conjI g False)
    have "projected_ancestry_len (chosen cfg ?es) > MAX_COMPACTED_ANCESTORS"
      using False unfolding encodable_def snd_conv not_le .
    with mem' show ?thesis unfolding oversized_of_partition [of cfg b ?es, symmetric] by blast
  qed
qed

theorem plan_merges_complete_witness:
  "\<exists>p \<in> set (merges (plan_merges [sample_entry 2 9, sample_entry 3 4] (compact_config_default\<lparr>cc_fanout := 2\<rparr>))).
     pm_date p = ''2026-01-02''"
proof -
  let ?bs = "[sample_entry 2 9, sample_entry 3 4]" and ?cfg = "compact_config_default\<lparr>cc_fanout := 2\<rparr>"
  have c: "considered ?cfg (sample_entry u n)" for u n by (simp add: compact_config_default_def)
  then have "cc_fanout ?cfg \<le>
      length (filter (\<lambda>e. considered ?cfg e \<and> partition_of e = partition_of (sample_entry 2 9)) ?bs)" by simp
  from plan_merges_complete [OF _ c this] show ?thesis
    using oversized_empty [of ?bs ?cfg]
    by (auto simp: sample_entry_def sample_meta_def MAX_COMPACTED_ANCESTORS_def)
qed

text \<open>C35: the ancestry guard of the planner never fires. Entries of the catalog carry no ancestry, so for
  every catalog and every accepted configuration the plan over \<open>list_blocks\<close> reports no oversized
  partition, and a partition with enough blocks is planned whatever the ancestries in the sidecars are.
  Where the sidecars of the planned inputs have more ancestors than a block may have, the merge computes
  their closure from the sidecars and fails.\<close>

theorem oversized_never_reported:
  assumes "compact_config_validate cfg = Inr ()" and "b \<in> set (list_blocks cat)" and "considered cfg b"
    and "cc_fanout cfg \<le> length (filter (\<lambda>e. considered cfg e \<and> partition_of e = partition_of b) (list_blocks cat))"
  shows "oversized (plan_merges (list_blocks cat) cfg) = [] \<and> validate_against_catalog (list_blocks cat) cfg = [] \<and>
    (\<exists>p \<in> set (merges (plan_merges (list_blocks cat) cfg)). pm_signal p = bm_signal (e_meta b) \<and> pm_date p = e_date b \<and>
       pm_input_level p = e_level b \<and> length (pm_inputs p) = cc_fanout cfg \<and> (\<forall>e \<in> set (pm_inputs p). partition_of e = partition_of b) \<and>
       (\<forall>sidecars json_len out. map bm_uuid sidecars = map (\<lambda>e. bm_uuid (e_meta e)) (pm_inputs p) \<longrightarrow>
          MAX_COMPACTED_ANCESTORS < card (closure_of sidecars) \<longrightarrow> isl (compacted_ancestor_closure json_len out sidecars)))"
proof -
  have pos: "1 \<le> unat (cc_max_level cfg)" and fan: "2 \<le> cc_fanout cfg"
    and levels: "(\<Sum>i = 1..unat (cc_max_level cfg). 1 * cc_fanout cfg ^ i) \<le> MAX_COMPACTED_ANCESTORS"
    using assms(1) validate_levels_iff [of "cc_fanout cfg" "unat (cc_max_level cfg)" 1 0]
    by (auto simp: compact_config_validate_def word_less_nat_alt not_less split: if_splits)
  have "cc_fanout cfg = cc_fanout cfg ^ 1" by simp
  also have "\<dots> \<le> (\<Sum>i = 1..unat (cc_max_level cfg). cc_fanout cfg ^ i)"
    using pos by (intro member_le_sum) auto
  finally have small: "cc_fanout cfg \<le> MAX_COMPACTED_ANCESTORS" using levels by simp
  have bare: "\<forall>b \<in> set (list_blocks cat). bm_compacted_from (e_meta b) = []"
    by (auto simp: list_blocks_def row_to_entry_def)
  note none = oversized_empty [OF bare small]
  have "encodable cfg (partition_of b, filter (\<lambda>e. partition_of e = partition_of b) (filter (considered cfg) (list_blocks cat)))"
    using none eligible_group [OF assms(2-4)] unfolding merges_plan by (simp add: filter_empty_conv)
  note planned = eligible_merge [OF assms(2-4) this]
  have "isl (compacted_ancestor_closure json_len out sidecars)" if "MAX_COMPACTED_ANCESTORS < card (closure_of sidecars)"
    for json_len out sidecars
    using that by (auto simp: compacted_ancestor_closure_def Let_def dest: closure_loop_InrD split: sum.split)
  with none planned show ?thesis by (simp add: validate_against_catalog_def)
qed

definition sample_catalog :: catalog where
  "sample_catalog =
     (let ymd = (\<lambda>_. (''2026'', ''01'', ''02''))
      in snd (insert_block ymd 0 (snd (insert_block ymd 0 (catalog_empty ''b'') (sample_meta 8 [2, 3]))) (sample_meta 9 [4, 5])))"

theorem oversized_never_reported_witness:
  "\<exists>p \<in> set (merges (plan_merges (list_blocks sample_catalog) (compact_config_default\<lparr>cc_fanout := 2\<rparr>))). length (pm_inputs p) = 2"
proof -
  let ?cfg = "compact_config_default\<lparr>cc_fanout := 2\<rparr>"
  have "(\<Sum>i = Suc 0..3. (2::nat) ^ i) = 14" by (simp add: numeral_3_eq_3)
  then have cfg: "compact_config_validate ?cfg = Inr ()"
    by (simp add: compact_config_validate_def compact_config_default_def validate_levels_iff MAX_COMPACTED_ANCESTORS_def)
  let ?b = "\<lambda>u. \<lparr>e_meta = (sample_meta u [])\<lparr>bm_producer_version := []\<rparr>, e_bucket = ''b'', e_date = ''2026-01-02'', e_level = 0\<rparr>"
  have bs: "list_blocks sample_catalog = [?b 8, ?b 9]"
    by (simp add: sample_catalog_def sample_meta_def list_blocks_def row_to_entry_def partition_of_def considered_def compact_config_default_def
        insert_block_def has_block_def catalog_empty_def fresh_row_def meta_cols_def block_cols.extend_def live_def live_descendant_def
        apply_lineage_in_def apply_ancestor_def insert_lineage_def update_where_def format_date_def less_eq_prod_def Let_def
        as_u32_def u32_as_i64_def as_u64_def as_i64_def)
  have c: "considered ?cfg (?b u)" "partition_of (?b u) = (''logs'', 1, ''2026-01-02'', 0)" for u
    by (simp_all add: considered_def partition_of_def compact_config_default_def sample_meta_def)
  have "cc_fanout ?cfg \<le> length (filter (\<lambda>e. considered ?cfg e \<and> partition_of e = partition_of (?b 8)) (list_blocks sample_catalog))"
    using c unfolding bs by simp
  from oversized_never_reported [OF cfg _ c(1) this] show ?thesis by (auto simp: bs)
qed

end
