(* ===== verification/Compact_Merge.thy ===== *)
theory Compact_Merge
  imports Bloom Postings_Merge Compact_Policy
begin

text \<open>
  Merging blocks into one: \<^verbatim>\<open>src/crates/compact/src/merge.rs\<close>, the object requests it sends
  and every check and memory budget on the way. What runs outside the repository is the record
  \<open>merge_env\<close>: the answers of the object store, JSON encoding, the parquet reader and writer,
  and DataFusion's scan, which yields the sorted rows of the inputs as a list of batches or
  errors. A streamed upload is one request at its end. A fence check is a Boolean that says
  whether the lease is still held at that moment.
\<close>

section \<open>Requests\<close>

definition and_then ::
  "('e + 'a) \<times> 's \<Rightarrow> ('a \<Rightarrow> 's \<Rightarrow> ('e + 'b) \<times> 's) \<Rightarrow> ('e + 'b) \<times> 's" where
  "and_then r f = (case r of (Inl e, s) \<Rightarrow> (Inl e, s) | (Inr x, s) \<Rightarrow> f x s)"

text \<open>\<open>get\<close>, and \<open>head\<close>, which answers with the object's size\<close>

definition store_get :: "(nat \<Rightarrow> call_outcome) \<Rightarrow> string \<Rightarrow> store \<Rightarrow> (merge_error + bytes) \<times> store" where
  "store_get oc path s =
     (let s1 = s\<lparr>calls := calls s + 1\<rparr>
      in case oc (calls s) of
           CallOk \<Rightarrow> (case objects s path of None \<Rightarrow> Inl (StoreFailed NotFound) | Some b \<Rightarrow> Inr b, s1)
         | CallDenied \<Rightarrow> (Inl (StoreFailed Denied), s1)
         | CallFailed _ \<Rightarrow> (Inl (StoreFailed OtherError), s1))"

definition upload :: "(nat \<Rightarrow> call_outcome) \<Rightarrow> string \<Rightarrow> bytes \<Rightarrow> store \<Rightarrow> (merge_error + unit) \<times> store" where
  "upload oc path body s = (case store_put oc path body s of
     (Inl e, s') \<Rightarrow> (Inl (StoreFailed e), s') | (Inr _, s') \<Rightarrow> (Inr (), s'))"

record scan_batch =
  sb_rows :: "bytes list"
  sb_fps :: "u64 option list"
  sb_bodies :: "bytes option list"

record merge_env =
  me_ymd :: "u64 \<Rightarrow> string \<times> string \<times> string"
  me_ustr :: "uuid \<Rightarrow> string"
  me_oc :: "nat \<Rightarrow> call_outcome"
  me_json_len :: "uuid list \<Rightarrow> nat"
  me_parse :: "bytes \<Rightarrow> block_meta option"
  me_ser :: "block_meta \<Rightarrow> bytes"
  me_schema :: "bytes \<Rightarrow> string option"
  me_logs_schema :: "u32 \<Rightarrow> string"
  me_scan :: "string list \<Rightarrow> bytes option list \<Rightarrow> (merge_error + scan_batch) list"
  me_main_bytes :: "bytes list \<Rightarrow> bytes"
  me_writer :: "nat \<Rightarrow> bool"
  me_open_postings :: "bytes \<Rightarrow> postings_input option"
  me_postings_writer :: "nat \<Rightarrow> bool"
  me_postings_flush :: "nat \<Rightarrow> bool"
  me_postings_bytes :: "postings_entry list list \<Rightarrow> bytes"
  me_hash :: gram_hash
  me_fp :: float_params
  me_version :: string

section \<open>Budgets and signals\<close>

record sidecar_budgets =
  bg_input_meta :: u64
  bg_fingerprints :: u64
  bg_bloom :: u64
  bg_postings :: u64
  bg_series_types :: u64
  bg_output_meta :: u64

definition for_permit :: "u64 \<Rightarrow> u64 \<Rightarrow> u64 \<Rightarrow> sidecar_budgets" where
  "for_permit admitted_non_df_bytes fixed_bytes meta_estimate =
     (let scan_pool = sat_sub (sat_sub admitted_non_df_bytes fixed_bytes) meta_estimate;
          scan_unit = scan_pool div 6
      in \<lparr>bg_input_meta = meta_estimate, bg_fingerprints = scan_unit, bg_bloom = sat_mul scan_unit 2,
          bg_postings = sat_mul scan_unit 2, bg_series_types = scan_unit,
          bg_output_meta = max meta_estimate scan_unit\<rparr>)"

record signal_spec =
  sp_sort_cols :: "string list"
  sp_fp_col :: "string option"
  sp_body_col :: "string option"
  sp_has_series_types :: bool

definition spec_for :: "string \<Rightarrow> merge_error + signal_spec" where
  "spec_for signal =
     (if signal = ''logs'' then Inr
        \<lparr>sp_sort_cols = [''stream_fingerprint'', ''ts_unix_nano''], sp_fp_col = Some ''stream_fingerprint'',
         sp_body_col = Some ''body'', sp_has_series_types = False\<rparr>
      else if signal = ''metrics'' then Inr
        \<lparr>sp_sort_cols = [''series_fingerprint'', ''ts_unix_nano''], sp_fp_col = Some ''series_fingerprint'',
         sp_body_col = None, sp_has_series_types = True\<rparr>
      else if signal = ''traces'' then Inr
        \<lparr>sp_sort_cols = [''trace_id'', ''start_unix_nano''], sp_fp_col = None, sp_body_col = None,
         sp_has_series_types = False\<rparr>
      else if signal = ''profiles'' then Inr
        \<lparr>sp_sort_cols = [''ts_unix_nano''], sp_fp_col = None, sp_body_col = None,
         sp_has_series_types = False\<rparr>
      else Inl (BadInput ''compaction not supported for signal''))"

definition expected_logs_schema :: "merge_env \<Rightarrow> u32 \<Rightarrow> merge_error + string" where
  "expected_logs_schema env version =
     (if version = 1 \<or> version = 2 \<or> version = 3 then Inr (me_logs_schema env version)
      else Inl (BadInput ''unsupported logs block schema version''))"

definition expected_main_schema :: "merge_env \<Rightarrow> string \<Rightarrow> u32 \<Rightarrow> merge_error + string option" where
  "expected_main_schema env signal version =
     (if signal = ''logs''
      then (case expected_logs_schema env version of Inl e \<Rightarrow> Inl e | Inr sc \<Rightarrow> Inr (Some sc))
      else Inr None)"

definition META_JSON_FALLBACK_PER_INPUT :: u64 where
  "META_JSON_FALLBACK_PER_INPUT = 4 * 1024 * 1024"

definition meta_json_estimate :: "catalog_entry list \<Rightarrow> u64" where
  "meta_json_estimate inputs =
     fold (\<lambda>entry acc. sat_add acc
        (case bm_meta_json_size_bytes (e_meta entry) of None \<Rightarrow> META_JSON_FALLBACK_PER_INPUT | Some n \<Rightarrow> n))
       inputs 0"

section \<open>Reading the inputs\<close>

definition env_path :: "merge_env \<Rightarrow> block_meta \<Rightarrow> string \<Rightarrow> string" where
  "env_path env bm kind = meta_path (me_ymd env) (me_ustr env) bm kind"

definition fetch_meta ::
  "merge_env \<Rightarrow> block_meta \<Rightarrow> u64 \<Rightarrow> u64 \<Rightarrow> store \<Rightarrow> (merge_error + (block_meta \<times> u64)) \<times> store" where
  "fetch_meta env bm cumulative budget s =
     and_then (store_get (me_oc env) (env_path env bm ''meta.json'') s) (\<lambda>body s.
       let cumulative' = cumulative + of_nat (length body)
       in if cumulative' > budget then (Inl (Resource (SidecarLimit ''input meta.json'' budget)), s)
          else case me_parse env body of
                 None \<Rightarrow> (Inl (BadInput ''parse input meta.json''), s)
               | Some fetched \<Rightarrow>
                   (Inr (fetched\<lparr>bm_meta_json_size_bytes := Some (of_nat (length body))\<rparr>, cumulative'), s))"

fun fetch_metas ::
  "merge_env \<Rightarrow> string \<Rightarrow> u64 \<Rightarrow> catalog_entry list \<Rightarrow> u64 \<Rightarrow> store \<Rightarrow> (merge_error + block_meta list) \<times> store" where
  "fetch_metas env signal budget [] cumulative s = (Inr [], s)"
| "fetch_metas env signal budget (entry # entries) cumulative s =
     and_then (fetch_meta env (e_meta entry) cumulative budget s) (\<lambda>(fetched, cumulative') s.
       if bm_uuid fetched \<noteq> bm_uuid (e_meta entry) then (Inl (BadInput ''input meta UUID mismatch''), s)
       else if bm_signal fetched \<noteq> signal then (Inl (BadInput ''input signal''), s)
       else if bm_schema_version fetched \<noteq> bm_schema_version (e_meta entry)
       then (Inl (BadInput ''metadata schema version mismatch''), s)
       else and_then (fetch_metas env signal budget entries cumulative' s) (\<lambda>metas s. (Inr (fetched # metas), s)))"

definition fetch_main_schema :: "merge_env \<Rightarrow> catalog_entry \<Rightarrow> store \<Rightarrow> (merge_error + string) \<times> store" where
  "fetch_main_schema env entry s =
     and_then (store_get (me_oc env) (env_path env (e_meta entry) ''parquet'') s) (\<lambda>body s.
       case me_schema env body of None \<Rightarrow> (Inl ReadFailed, s) | Some sc \<Rightarrow> (Inr sc, s))"

fun check_schemas ::
  "merge_env \<Rightarrow> string option \<Rightarrow> catalog_entry list \<Rightarrow> string option \<Rightarrow> store \<Rightarrow> (merge_error + unit) \<times> store" where
  "check_schemas env expected [] first s = (Inr (), s)"
| "check_schemas env expected (entry # entries) first s =
     and_then (fetch_main_schema env entry s) (\<lambda>schema s.
       if (case expected of None \<Rightarrow> False | Some e \<Rightarrow> schema \<noteq> e)
       then (Inl (BadInput ''parquet schema does not match''), s)
       else if (case first of None \<Rightarrow> False | Some f \<Rightarrow> schema \<noteq> f)
       then (Inl (BadInput ''parquet schema differs''), s)
       else check_schemas env expected entries (case first of None \<Rightarrow> Some schema | Some f \<Rightarrow> Some f) s)"

section \<open>The streaming pass\<close>

definition next_entry_bytes :: "nat \<Rightarrow> u64" where
  "next_entry_bytes n = sat_mul (sat_add (of_nat n) 1) 32"

fun add_fingerprints :: "u64 \<Rightarrow> u64 option list \<Rightarrow> u64 set \<Rightarrow> merge_error + u64 set" where
  "add_fingerprints budget [] fps = Inr fps"
| "add_fingerprints budget (None # vs) fps = add_fingerprints budget vs fps"
| "add_fingerprints budget (Some v # vs) fps =
     (if v \<notin> fps \<and> next_entry_bytes (card fps) > budget
      then Inl (Resource (SidecarLimit ''all fingerprints'' budget))
      else add_fingerprints budget vs (insert v fps))"

fun add_bodies ::
  "gram_hash \<Rightarrow> u64 \<Rightarrow> bytes option list \<Rightarrow> body_bloom_builder \<Rightarrow> merge_error + body_bloom_builder" where
  "add_bodies hash budget [] bb = Inr bb"
| "add_bodies hash budget (None # vs) bb = add_bodies hash budget vs bb"
| "add_bodies hash budget (Some v # vs) bb =
     (case add_body_bounded hash v (unat budget) bb of
        (ok, bb') \<Rightarrow> if \<not> ok then Inl (Resource (SidecarLimit ''body bloom n-grams'' budget))
                    else add_bodies hash budget vs bb')"

record scan_state =
  sc_rows :: "bytes list"
  sc_row_count :: u64
  sc_fps :: "u64 set option"
  sc_bloom :: "body_bloom_builder option"
  sc_writes :: nat

definition scan_batch_step ::
  "merge_env \<Rightarrow> sidecar_budgets \<Rightarrow> scan_batch \<Rightarrow> scan_state \<Rightarrow> merge_error + scan_state" where
  "scan_batch_step env bg b st =
     (case (case sc_fps st of None \<Rightarrow> Inr None
              | Some fps \<Rightarrow> (case add_fingerprints (bg_fingerprints bg) (sb_fps b) fps of
                              Inl e \<Rightarrow> Inl e | Inr fps' \<Rightarrow> Inr (Some fps'))) of
        Inl e \<Rightarrow> Inl e
      | Inr fps \<Rightarrow>
          (case (case sc_bloom st of None \<Rightarrow> Inr None
                   | Some bb \<Rightarrow> (case add_bodies (me_hash env) (bg_bloom bg) (sb_bodies b) bb of
                                  Inl e \<Rightarrow> Inl e | Inr bb' \<Rightarrow> Inr (Some bb'))) of
             Inl e \<Rightarrow> Inl e
           | Inr bloom \<Rightarrow>
               if me_writer env (sc_writes st)
               then Inr \<lparr>sc_rows = sc_rows st @ sb_rows b, sc_row_count = sc_row_count st + of_nat (length (sb_rows b)),
                         sc_fps = fps, sc_bloom = bloom, sc_writes = sc_writes st + 1\<rparr>
               else Inl WriteFailed))"

fun scan_loop ::
  "merge_env \<Rightarrow> sidecar_budgets \<Rightarrow> (merge_error + scan_batch) list \<Rightarrow> scan_state \<Rightarrow> merge_error + scan_state" where
  "scan_loop env bg [] st = Inr st"
| "scan_loop env bg (Inl e # items) st = Inl e"
| "scan_loop env bg (Inr b # items) st =
     (case scan_batch_step env bg b st of Inl e \<Rightarrow> Inl e | Inr st' \<Rightarrow> scan_loop env bg items st')"

fun union_types ::
  "u64 \<Rightarrow> (u64 \<times> u8) list \<Rightarrow> (u64 \<times> u8) list \<Rightarrow> merge_error + (u64 \<times> u8) list" where
  "union_types budget [] m = Inr m"
| "union_types budget ((fp, t) # types) m =
     (if fp \<in> fst ` set m then union_types budget types m
      else if next_entry_bytes (length m) > budget then Inl (Resource (SidecarLimit ''series types'' budget))
      else union_types budget types (m @ [(fp, t)]))"

definition merge_series_types ::
  "bool \<Rightarrow> u64 \<Rightarrow> block_meta list \<Rightarrow> merge_error + (u64 \<times> u8) list option" where
  "merge_series_types has_series_types budget metas =
     (if has_series_types
      then (case union_types budget
                   (concat (map (\<lambda>bm. case bm_series_types bm of None \<Rightarrow> [] | Some ts \<Rightarrow> ts) metas)) [] of
              Inl e \<Rightarrow> Inl e | Inr m \<Rightarrow> Inr (Some (sort_key fst m)))
      else Inr None)"

section \<open>Writing the output\<close>

record merge_job =
  mj_signal :: string
  mj_inputs :: "catalog_entry list"
  mj_out_level :: u32
  mj_writer_id :: uuid
  mj_block_uuid :: uuid
  mj_bloom_ngram :: nat
  mj_config :: resource_config
  mj_admitted :: u64

definition job_ts_min :: "merge_job \<Rightarrow> u64" where
  "job_ts_min j = Min (set (map (\<lambda>e. bm_ts_min_unix_nano (e_meta e)) (mj_inputs j)))"

definition job_ts_max :: "merge_job \<Rightarrow> u64" where
  "job_ts_max j = Max (set (map (\<lambda>e. bm_ts_max_unix_nano (e_meta e)) (mj_inputs j)))"

definition out_path :: "merge_env \<Rightarrow> merge_job \<Rightarrow> string \<Rightarrow> string" where
  "out_path env j kind = block_path (me_ymd env) (me_ustr env) (mj_signal j) (job_ts_min j)
     (mj_writer_id j) (mj_block_uuid j) kind"

definition write_main ::
  "merge_env \<Rightarrow> merge_job \<Rightarrow> signal_spec \<Rightarrow> sidecar_budgets \<Rightarrow> store \<Rightarrow> (merge_error + (scan_state \<times> u64)) \<times> store" where
  "write_main env j spec bg s =
     (let paths = map (\<lambda>e. env_path env (e_meta e) ''parquet'') (mj_inputs j);
          items = me_scan env (sp_sort_cols spec) (map (objects s) paths);
          st0 = \<lparr>sc_rows = [], sc_row_count = 0,
                 sc_fps = (case sp_fp_col spec of None \<Rightarrow> None | Some _ \<Rightarrow> Some {}),
                 sc_bloom = (case sp_body_col spec of None \<Rightarrow> None
                               | Some _ \<Rightarrow> Some (builder_new (mj_bloom_ngram j))), sc_writes = 0\<rparr>
      in case scan_loop env bg items st0 of
           Inl e \<Rightarrow> (Inl e, s)
         | Inr st \<Rightarrow>
             and_then (upload (me_oc env) (out_path env j ''parquet'') (me_main_bytes env (sc_rows st)) s) (\<lambda>_ s.
             and_then (store_get (me_oc env) (out_path env j ''parquet'') s) (\<lambda>body s.
               (Inr (st, of_nat (length body)), s))))"

definition open_postings ::
  "merge_env \<Rightarrow> store \<Rightarrow> nat \<times> catalog_entry \<Rightarrow> merge_error + postings_input" where
  "open_postings env s ie =
     (case fst (store_get (me_oc env) (env_path env (e_meta (snd ie)) ''postings.parquet'')
                  (s\<lparr>calls := calls s + fst ie\<rparr>)) of
        Inl e \<Rightarrow> Inl e
      | Inr body \<Rightarrow> (case me_open_postings env body of None \<Rightarrow> Inl ReadFailed | Some i \<Rightarrow> Inr i))"

definition write_postings ::
  "merge_env \<Rightarrow> merge_job \<Rightarrow> signal_spec \<Rightarrow> sidecar_budgets \<Rightarrow> store \<Rightarrow> (merge_error + u64 option) \<times> store" where
  "write_postings env j spec bg s =
     (if sp_fp_col spec = None then (Inr None, s)
      else
        (let inputs = enumerate 0 (filter (\<lambda>e. bm_has_postings (e_meta e)) (mj_inputs j));
             s1 = s\<lparr>calls := calls s + length inputs\<rparr>
         in case merge_postings_streaming (open_postings env s) (me_postings_writer env) (me_postings_flush env)
                   (\<lambda>_. True) (mj_config j) (bg_postings bg) inputs of
              Inl e \<Rightarrow> (Inl e, s1)
            | Inr batches \<Rightarrow>
                and_then (upload (me_oc env) (out_path env j ''postings.parquet'') (me_postings_bytes env batches) s1) (\<lambda>_ s.
                and_then (store_get (me_oc env) (out_path env j ''postings.parquet'') s) (\<lambda>body s.
                  (Inr (Some (of_nat (length body))), s)))))"

definition write_bloom ::
  "merge_env \<Rightarrow> merge_job \<Rightarrow> sidecar_budgets \<Rightarrow> body_bloom_builder option \<Rightarrow> store \<Rightarrow> (merge_error + u64 option) \<times> store" where
  "write_bloom env j bg bloom s =
     (case bloom of
        None \<Rightarrow> (Inr None, s)
      | Some bb \<Rightarrow>
          (case finish_bounded (me_fp env) (unat (bg_bloom bg)) bb of
             None \<Rightarrow> (Inl Panic, s)
           | Some None \<Rightarrow> (Inl (Resource (SidecarLimit ''body bloom finalization'' (bg_bloom bg))), s)
           | Some (Some b) \<Rightarrow>
               (case to_bytes_bounded b (unat (bg_bloom bg) - byte_len b) of
                  None \<Rightarrow> (Inl (Resource (SidecarLimit ''body bloom serialization'' (bg_bloom bg))), s)
                | Some body \<Rightarrow>
                    and_then (upload (me_oc env) (out_path env j ''body.bloom'') body s) (\<lambda>_ s.
                      (Inr (Some (of_nat (length body))), s)))))"

definition merged_meta ::
  "merge_env \<Rightarrow> merge_job \<Rightarrow> uuid list \<Rightarrow> scan_state \<Rightarrow> u64 \<Rightarrow> u64 option \<Rightarrow> u64 option \<Rightarrow>
     (u64 \<times> u8) list option \<Rightarrow> block_meta" where
  "merged_meta env j ancestors st byte_size postings bloom series_types =
     \<lparr>bm_uuid = mj_block_uuid j, bm_signal = mj_signal j, bm_writer_id = mj_writer_id j,
      bm_ts_min_unix_nano = job_ts_min j, bm_ts_max_unix_nano = job_ts_max j,
      bm_row_count = sc_row_count st, bm_byte_size = byte_size,
      bm_schema_version = bm_schema_version (e_meta (hd (mj_inputs j))), bm_level = mj_out_level j,
      bm_compacted_from = ancestors, bm_producer_version = me_version env,
      bm_label_fingerprint_bloom = None, bm_has_postings = (postings \<noteq> None),
      bm_postings_size_bytes = postings, bm_series_types = series_types,
      bm_all_fingerprints = map_option sorted_list_of_set (sc_fps st),
      bm_has_body_bloom = (bloom \<noteq> None), bm_body_bloom_size_bytes = bloom,
      bm_meta_json_size_bytes = None, bm_wal_seg_max = None, bm_wal_shard = None\<rparr>"

text \<open>Everything up to the commit: the merged sidecar and its bytes.\<close>

definition merge_stage :: "merge_env \<Rightarrow> merge_job \<Rightarrow> store \<Rightarrow> (merge_error + (block_meta \<times> bytes)) \<times> store" where
  "merge_stage env j s =
     (case spec_for (mj_signal j) of
        Inl e \<Rightarrow> (Inl e, s)
      | Inr spec \<Rightarrow>
          (let meta_estimate = meta_json_estimate (mj_inputs j);
               bg = for_permit (mj_admitted j) (merge_fixed_bytes (mj_config j)) meta_estimate
           in and_then (fetch_metas env (mj_signal j) (bg_input_meta bg) (mj_inputs j) 0 s) (\<lambda>metas s.
              case compacted_ancestor_closure (me_json_len env) (mj_block_uuid j) metas of
                Inl e \<Rightarrow> (Inl (Ancestry e), s)
              | Inr ancestors \<Rightarrow>
                  (case expected_main_schema env (mj_signal j) (bm_schema_version (e_meta (hd (mj_inputs j)))) of
                     Inl e \<Rightarrow> (Inl e, s)
                   | Inr expected \<Rightarrow>
                       and_then (check_schemas env expected (mj_inputs j) None s) (\<lambda>_ s.
                       and_then (write_main env j spec bg s) (\<lambda>(st, byte_size) s.
                       and_then (write_postings env j spec bg s) (\<lambda>postings s.
                       and_then (write_bloom env j bg (sc_bloom st) s) (\<lambda>bloom s.
                         case merge_series_types (sp_has_series_types spec) (bg_series_types bg) metas of
                           Inl e \<Rightarrow> (Inl e, s)
                         | Inr series_types \<Rightarrow>
                             (let bm = merged_meta env j ancestors st byte_size postings bloom series_types;
                                  body = me_ser env bm
                              in if of_nat (length body) > bg_output_meta bg
                                 then (Inl (Resource (SidecarLimit ''meta.json'' (bg_output_meta bg))), s)
                                 else (Inr (bm, body), s))))))))))"

section \<open>Committing\<close>

text \<open>The fence checks that come before the request answers, in order.\<close>

fun run_fenced :: "bool list \<Rightarrow> 'a \<Rightarrow> merge_error + 'a" where
  "run_fenced [] out = Inr out"
| "run_fenced (held # ticks) out = (if held then run_fenced ticks out else Inl LeaseLost)"

definition merge_blocks_inner ::
  "merge_env \<Rightarrow> merge_job \<Rightarrow> bool \<Rightarrow> bool list \<Rightarrow> store \<Rightarrow> ((merge_error + block_meta option) \<times> bool) \<times> store" where
  "merge_blocks_inner env j fence ticks s =
     (case merge_stage env j s of
        (Inl e, s) \<Rightarrow> ((Inl e, True), s)
      | (Inr (bm, body), s) \<Rightarrow>
          if \<not> fence then ((Inr None, True), s)
          else
            (case store_put (me_oc env) (out_path env j ''meta.json'') body s of
               (res, s) \<Rightarrow>
                 ((case run_fenced ticks res of
                     Inl e \<Rightarrow> Inl e
                   | Inr (Inl e) \<Rightarrow> Inl (StoreFailed e)
                   | Inr (Inr _) \<Rightarrow> Inr (Some (bm\<lparr>bm_meta_json_size_bytes := Some (of_nat (length body))\<rparr>)),
                   False), s)))"

fun cleanup_paths :: "(nat \<Rightarrow> call_outcome) \<Rightarrow> string list \<Rightarrow> store \<Rightarrow> store" where
  "cleanup_paths oc [] s = s"
| "cleanup_paths oc (path # paths) s = cleanup_paths oc paths (snd (store_delete oc path s))"

definition merge_precheck :: "merge_env \<Rightarrow> merge_job \<Rightarrow> merge_error + unit" where
  "merge_precheck env j =
     (if mj_inputs j = [] then Inl (BadInput ''merge_blocks called with no inputs'')
      else if \<exists>e \<in> set (mj_inputs j). bm_signal (e_meta e) \<noteq> mj_signal j \<or>
                bm_schema_version (e_meta e) \<noteq> bm_schema_version (e_meta (hd (mj_inputs j)))
      then Inl (BadInput ''merge input signal or schema version'')
      else case expected_main_schema env (mj_signal j) (bm_schema_version (e_meta (hd (mj_inputs j)))) of
             Inl e \<Rightarrow> Inl e
           | Inr _ \<Rightarrow> Inr ())"

definition staged_list :: "merge_env \<Rightarrow> merge_job \<Rightarrow> string list" where
  "staged_list env j = map (out_path env j) [''body.bloom'', ''postings.parquet'', ''parquet'']"

definition merge_cleanup ::
  "merge_env \<Rightarrow> merge_job \<Rightarrow> merge_error + block_meta option \<Rightarrow> bool \<Rightarrow> store \<Rightarrow> store" where
  "merge_cleanup env j r armed s =
     (case r of
        Inr (Some _) \<Rightarrow> s
      | Inr None \<Rightarrow> cleanup_paths (me_oc env) (staged_list env j) s
      | Inl _ \<Rightarrow> if armed then cleanup_paths (me_oc env) (staged_list env j) s else s)"

definition merge_blocks ::
  "merge_env \<Rightarrow> merge_job \<Rightarrow> bool \<Rightarrow> bool list \<Rightarrow> store \<Rightarrow> (merge_error + block_meta option) \<times> store" where
  "merge_blocks env j fence ticks s =
     (case merge_precheck env j of
        Inl e \<Rightarrow> (Inl e, s)
      | Inr _ \<Rightarrow>
          (case merge_blocks_inner env j fence ticks s of
             ((r, armed), s1) \<Rightarrow> (r, merge_cleanup env j r armed s1)))"

section \<open>Which objects a request sequence can change\<close>

definition writes :: "string set \<Rightarrow> (store \<Rightarrow> 'r \<times> store) \<Rightarrow> bool" where
  "writes P f \<longleftrightarrow> (\<forall>s p. p \<notin> P \<longrightarrow> objects (snd (f s)) p = objects s p)"

named_theorems writes_intro \<open>request sequences and the objects they can change\<close>

lemma writesD: "writes P f \<Longrightarrow> f s = (r, s') \<Longrightarrow> p \<notin> P \<Longrightarrow> objects s' p = objects s p"
  by (metis snd_conv writes_def)

lemma writes_return [writes_intro]: "writes P (\<lambda>s. (x, s))"
  by (simp add: writes_def)

lemma writes_and_then [writes_intro]:
  assumes "writes P m" and "\<And>x. writes P (f x)"
  shows "writes P (\<lambda>s. and_then (m s) f)"
  unfolding writes_def
proof (intro allI impI)
  fix s p assume p: "p \<notin> P"
  obtain r s1 where m: "m s = (r, s1)" by force
  then have "objects s1 p = objects s p" using writesD [OF assms(1)] p by blast
  moreover have "objects (snd (f x s1)) p = objects s1 p" for x
    using assms(2) p by (auto simp: writes_def)
  ultimately show "objects (snd (and_then (m s) f)) p = objects s p"
    by (cases r) (simp_all add: and_then_def m)
qed

lemma writes_sum [writes_intro]:
  "(\<And>e. writes P (f e)) \<Longrightarrow> (\<And>x. writes P (g x)) \<Longrightarrow> writes P (\<lambda>s. case r s of Inl e \<Rightarrow> f e s | Inr x \<Rightarrow> g x s)"
  by (simp add: writes_def split: sum.split)

lemma writes_option [writes_intro]:
  "writes P f \<Longrightarrow> (\<And>x. writes P (g x)) \<Longrightarrow> writes P (\<lambda>s. case r of None \<Rightarrow> f s | Some x \<Rightarrow> g x s)"
  by (cases r) simp_all

lemma writes_prod [writes_intro]: "(\<And>x y. writes P (f x y)) \<Longrightarrow> writes P (\<lambda>s. case r of (x, y) \<Rightarrow> f x y s)"
  by (cases r) simp_all

lemma writes_prod' [writes_intro]: "(\<And>x y. writes P (f x y)) \<Longrightarrow> writes P (case r of (x, y) \<Rightarrow> f x y)"
  by (cases r) simp_all

lemma writes_if [writes_intro]: "writes P f \<Longrightarrow> writes P g \<Longrightarrow> writes P (\<lambda>s. if b then f s else g s)"
  by (cases b) simp_all

lemma writes_calls: "writes P f \<Longrightarrow> writes P (\<lambda>s. f (s\<lparr>calls := g s\<rparr>))"
  by (simp add: writes_def)

lemma writes_get [writes_intro]: "writes P (store_get oc path)"
  by (auto simp: writes_def store_get_def Let_def split: call_outcome.splits)

lemma writes_upload [writes_intro]: "path \<in> P \<Longrightarrow> writes P (upload oc path body)"
  by (auto simp: writes_def upload_def store_put_def Let_def split: call_outcome.splits prod.splits sum.splits)

lemma writes_fetch_meta [writes_intro]: "writes P (fetch_meta env bm n budget)"
  unfolding fetch_meta_def Let_def by (intro writes_intro)

lemma writes_fetch_metas [writes_intro]: "writes P (fetch_metas env signal budget es n)"
proof (induction es arbitrary: n)
  case Nil
  show ?case by (simp add: writes_def)
next
  case (Cons e es)
  show ?case unfolding fetch_metas.simps by (intro writes_intro Cons.IH)
qed

lemma writes_check_schemas [writes_intro]: "writes P (check_schemas env ex es first)"
proof (induction es arbitrary: first)
  case Nil
  show ?case by (simp add: writes_def)
next
  case (Cons e es)
  show ?case unfolding check_schemas.simps fetch_main_schema_def by (intro writes_intro Cons.IH)
qed

definition staged_paths :: "merge_env \<Rightarrow> merge_job \<Rightarrow> string set" where
  "staged_paths env j = set (staged_list env j)"

lemma writes_write_main [writes_intro]: "out_path env j ''parquet'' \<in> P \<Longrightarrow> writes P (write_main env j spec bg)"
  unfolding write_main_def Let_def by (intro writes_intro)

lemma writes_write_bloom [writes_intro]: "out_path env j ''body.bloom'' \<in> P \<Longrightarrow> writes P (write_bloom env j bg b)"
  unfolding write_bloom_def by (intro writes_intro)

lemma writes_write_postings [writes_intro]:
  assumes "out_path env j ''postings.parquet'' \<in> P"
  shows "writes P (write_postings env j spec bg)"
  unfolding write_postings_def Let_def
  using assms by (intro writes_intro writes_calls [where f = "\<lambda>s. (x, s)" for x] writes_calls [where f = "upload oc p b" for oc p b])

lemma writes_merge_stage: "writes (staged_paths env j) (merge_stage env j)"
  unfolding merge_stage_def Let_def
  by (intro writes_intro) (simp_all add: staged_paths_def staged_list_def)

section \<open>What a successful stage leaves behind\<close>

lemma and_then_InrE:
  assumes "and_then r f = (Inr y, s')"
  obtains x s1 where "r = (Inr x, s1)" "f x s1 = (Inr y, s')"
  using assms by (cases r; cases "fst r") (auto simp: and_then_def)

lemma out_path_inject [simp]: "out_path env j k = out_path env j k' \<longleftrightarrow> k = k'"
  by (simp add: out_path_def block_path_def split: prod.split)

lemma merged_meta_fields [simp]:
  "bm_uuid (merged_meta env j a st n p b ts) = mj_block_uuid j"
  "bm_signal (merged_meta env j a st n p b ts) = mj_signal j"
  "bm_writer_id (merged_meta env j a st n p b ts) = mj_writer_id j"
  "bm_ts_min_unix_nano (merged_meta env j a st n p b ts) = job_ts_min j"
  "bm_compacted_from (merged_meta env j a st n p b ts) = a"
  "bm_has_postings (merged_meta env j a st n p b ts) = (p \<noteq> None)"
  "bm_has_body_bloom (merged_meta env j a st n p b ts) = (b \<noteq> None)"
  "bm_meta_json_size_bytes (merged_meta env j a st n p b ts) = None"
  by (simp_all add: merged_meta_def)

lemma upload_Inr: "upload oc p b s = (Inr u, s') \<Longrightarrow> objects s' p = Some b"
  by (auto simp: upload_def store_put_def Let_def split: call_outcome.splits prod.splits sum.splits if_splits)

lemma store_get_objects [simp]: "objects (snd (store_get oc p s)) = objects s"
  by (auto simp: store_get_def Let_def split: call_outcome.splits)

lemma store_get_Inr: "store_get oc p s = (Inr b, s') \<Longrightarrow> objects s p = Some b \<and> objects s' = objects s"
  by (auto simp: store_get_def Let_def split: call_outcome.splits option.splits)

lemma write_main_Inr:
  assumes "write_main env j spec bg s = (Inr (st, n), s')"
  shows "objects s' (out_path env j ''parquet'') = Some (me_main_bytes env (sc_rows st)) \<and>
    scan_loop env bg (me_scan env (sp_sort_cols spec)
        (map (objects s) (map (\<lambda>e. env_path env (e_meta e) ''parquet'') (mj_inputs j))))
      \<lparr>sc_rows = [], sc_row_count = 0,
       sc_fps = (case sp_fp_col spec of None \<Rightarrow> None | Some _ \<Rightarrow> Some {}),
       sc_bloom = (case sp_body_col spec of None \<Rightarrow> None | Some _ \<Rightarrow> Some (builder_new (mj_bloom_ngram j))),
       sc_writes = 0\<rparr> = Inr st"
  using assms unfolding write_main_def Let_def
  by (auto split: sum.splits elim!: and_then_InrE dest!: upload_Inr store_get_Inr)

lemma write_postings_Inr:
  assumes "write_postings env j spec bg s = (Inr sz, s')" and "sz \<noteq> None"
  shows "\<exists>batches. objects s' (out_path env j ''postings.parquet'') = Some (me_postings_bytes env batches) \<and>
    merge_postings_streaming (open_postings env s) (me_postings_writer env) (me_postings_flush env)
       (\<lambda>_. True) (mj_config j) (bg_postings bg)
       (enumerate 0 (filter (\<lambda>e. bm_has_postings (e_meta e)) (mj_inputs j))) = Inr batches"
  using assms unfolding write_postings_def Let_def
  by (auto split: sum.splits if_splits elim!: and_then_InrE dest!: upload_Inr store_get_Inr)

lemma write_bloom_Inr:
  assumes "write_bloom env j bg bloom s = (Inr sz, s')" and "sz \<noteq> None"
  shows "\<exists>bb b body. bloom = Some bb \<and> finish_bounded (me_fp env) (unat (bg_bloom bg)) bb = Some (Some b) \<and>
    to_bytes_bounded b (unat (bg_bloom bg) - byte_len b) = Some body \<and>
    objects s' (out_path env j ''body.bloom'') = Some body"
  using assms unfolding write_bloom_def
  by (auto split: option.splits elim!: and_then_InrE dest!: upload_Inr)

definition objects_present :: "merge_env \<Rightarrow> merge_job \<Rightarrow> block_meta \<Rightarrow> store \<Rightarrow> bool" where
  "objects_present env j bm s \<longleftrightarrow> objects s (out_path env j ''parquet'') \<noteq> None \<and>
     (bm_has_postings bm \<longrightarrow> objects s (out_path env j ''postings.parquet'') \<noteq> None) \<and>
     (bm_has_body_bloom bm \<longrightarrow> objects s (out_path env j ''body.bloom'') \<noteq> None)"

lemma check_schemas_Inr:
  "check_schemas env ex es first s = (Inr (), s') \<Longrightarrow> \<forall>e \<in> set es. objects s (env_path env (e_meta e) ''parquet'') \<noteq> None"
proof (induction es arbitrary: first s)
  case (Cons e es)
  from Cons.prems obtain body s1 first' where b: "store_get (me_oc env) (env_path env (e_meta e) ''parquet'') s = (Inr body, s1)"
    and rest: "check_schemas env ex es first' s1 = (Inr (), s')"
    by (auto simp: fetch_main_schema_def split: if_splits option.splits elim!: and_then_InrE)
  from store_get_Inr [OF b] Cons.IH [OF rest] show ?case by simp
qed simp

lemma merge_stageE:
  assumes "merge_stage env j s = (Inr (bm, body), s')"
  obtains spec bg metas s1 ancestors s2 st n s3 p s4 b ts where
    "spec_for (mj_signal j) = Inr spec"
    "bg = for_permit (mj_admitted j) (merge_fixed_bytes (mj_config j)) (meta_json_estimate (mj_inputs j))"
    "fetch_metas env (mj_signal j) (bg_input_meta bg) (mj_inputs j) 0 s = (Inr metas, s1)"
    "compacted_ancestor_closure (me_json_len env) (mj_block_uuid j) metas = Inr ancestors"
    "objects s2 = objects s" "write_main env j spec bg s2 = (Inr (st, n), s3)"
    "write_postings env j spec bg s3 = (Inr p, s4)" "write_bloom env j bg (sc_bloom st) s4 = (Inr b, s')"
    "merge_series_types (sp_has_series_types spec) (bg_series_types bg) metas = Inr ts"
    "bm = merged_meta env j ancestors st n p b ts" "body = me_ser env bm"
    "\<forall>e \<in> set (mj_inputs j). objects s (env_path env (e_meta e) ''parquet'') \<noteq> None"
proof -
  define bg where "bg = for_permit (mj_admitted j) (merge_fixed_bytes (mj_config j)) (meta_json_estimate (mj_inputs j))"
  from assms obtain spec metas s1 ancestors expected s2 st n s3 p s4 b ts where
    spec: "spec_for (mj_signal j) = Inr spec"
    and metas: "fetch_metas env (mj_signal j) (bg_input_meta bg) (mj_inputs j) 0 s = (Inr metas, s1)"
    and anc: "compacted_ancestor_closure (me_json_len env) (mj_block_uuid j) metas = Inr ancestors"
    and schemas: "check_schemas env expected (mj_inputs j) None s1 = (Inr (), s2)"
    and rest: "write_main env j spec bg s2 = (Inr (st, n), s3)"
      "write_postings env j spec bg s3 = (Inr p, s4)" "write_bloom env j bg (sc_bloom st) s4 = (Inr b, s')"
      "merge_series_types (sp_has_series_types spec) (bg_series_types bg) metas = Inr ts"
      "bm = merged_meta env j ancestors st n p b ts" "body = me_ser env bm"
    unfolding merge_stage_def Let_def bg_def [symmetric]
    by (auto split: sum.splits prod.splits if_splits elim!: and_then_InrE)
  have "objects s1 q = objects s q" "objects s2 q = objects s1 q" for q
    using writesD [OF writes_fetch_metas metas, of q "{}"] writesD [OF writes_check_schemas schemas, of q "{}"] by simp_all
  then have "objects s2 = objects s" "objects s1 = objects s" by (intro ext; simp)+
  with that [OF spec bg_def metas anc] rest check_schemas_Inr [OF schemas] show thesis by auto
qed

lemma merge_stage_Inr:
  assumes "merge_stage env j s = (Inr (bm, body), s')"
  shows "\<exists>metas s1 ancestors st n p b ts.
     fetch_metas env (mj_signal j) (meta_json_estimate (mj_inputs j)) (mj_inputs j) 0 s = (Inr metas, s1) \<and>
     compacted_ancestor_closure (me_json_len env) (mj_block_uuid j) metas = Inr ancestors \<and>
     bm = merged_meta env j ancestors st n p b ts \<and> body = me_ser env bm \<and> objects_present env j bm s'"
proof -
  from assms obtain spec bg metas s1 ancestors s2 st n s3 p s4 b ts where
    bg: "bg = for_permit (mj_admitted j) (merge_fixed_bytes (mj_config j)) (meta_json_estimate (mj_inputs j))"
    and metas: "fetch_metas env (mj_signal j) (bg_input_meta bg) (mj_inputs j) 0 s = (Inr metas, s1)"
    and anc: "compacted_ancestor_closure (me_json_len env) (mj_block_uuid j) metas = Inr ancestors"
    and main: "write_main env j spec bg s2 = (Inr (st, n), s3)"
    and post: "write_postings env j spec bg s3 = (Inr p, s4)"
    and bloom: "write_bloom env j bg (sc_bloom st) s4 = (Inr b, s')"
    and fin: "bm = merged_meta env j ancestors st n p b ts" "body = me_ser env bm"
    by (rule merge_stageE)
  let ?o = "out_path env j"
  have "objects s4 (?o ''parquet'') = objects s3 (?o ''parquet'')"
    by (rule writesD [OF writes_write_postings post, of "{?o ''postings.parquet''}"]) simp_all
  moreover have bl: "objects s' (?o k) = objects s4 (?o k)" if "k \<noteq> ''body.bloom''" for k
    by (rule writesD [OF writes_write_bloom bloom, of "{?o ''body.bloom''}"]) (use that in simp_all)
  ultimately have "objects s' (?o ''parquet'') \<noteq> None" using write_main_Inr [OF main] by simp
  moreover have "p \<noteq> None \<longrightarrow> objects s' (?o ''postings.parquet'') \<noteq> None"
    using write_postings_Inr [OF post] bl by auto
  moreover have "b \<noteq> None \<longrightarrow> objects s' (?o ''body.bloom'') \<noteq> None" using write_bloom_Inr [OF bloom] by auto
  ultimately have "objects_present env j bm s'" by (simp add: objects_present_def fin(1))
  moreover have "bg_input_meta bg = meta_json_estimate (mj_inputs j)" by (simp add: bg for_permit_def Let_def)
  with metas have "fetch_metas env (mj_signal j) (meta_json_estimate (mj_inputs j)) (mj_inputs j) 0 s = (Inr metas, s1)"
    by simp
  ultimately show ?thesis using anc fin by blast
qed

section \<open>The commit\<close>

lemma run_fenced_iff: "run_fenced ticks out = Inr out' \<longleftrightarrow> out' = out \<and> (\<forall>held \<in> set ticks. held)"
  by (induction ticks) auto

lemma cleanup_objects:
  "objects (cleanup_paths oc ps s) p = objects s p \<or> p \<in> set ps"
proof (induction ps arbitrary: s)
  case (Cons a ps)
  obtain r s1 where d: "store_delete oc a s = (r, s1)" by force
  from store_delete_objects [OF d] have "objects s1 p = objects s p \<or> p = a" by auto
  with Cons.IH [of s1] d show ?case by auto
qed simp

lemma store_put_cases:
  "store_put oc p b s = (r, s') \<Longrightarrow> objects s' = objects s \<and> r \<noteq> Inr () \<or> objects s' = (objects s)(p \<mapsto> b)"
  by (auto simp: store_put_def Let_def split: call_outcome.splits if_splits)

lemma merge_blocks_inner_cases:
  assumes "merge_blocks_inner env j fence ticks s = ((r, armed), s')"
  obtains (failed) e where "r = Inl e" "armed" "merge_stage env j s = (Inl e, s')"
  | (aborted) bm body where "r = Inr None" "armed" "\<not> fence" "merge_stage env j s = (Inr (bm, body), s')"
  | (ambiguous) bm body s1 e where "r = Inl e" "\<not> armed" "fence" "merge_stage env j s = (Inr (bm, body), s1)"
      "objects s' = objects s1 \<or> objects s' = (objects s1)(out_path env j ''meta.json'' \<mapsto> body)"
  | (committed) bm body s1 where "r = Inr (Some (bm\<lparr>bm_meta_json_size_bytes := Some (of_nat (length body))\<rparr>))" "\<not> armed"
      "fence" "\<forall>held \<in> set ticks. held" "merge_stage env j s = (Inr (bm, body), s1)"
      "objects s' = (objects s1)(out_path env j ''meta.json'' \<mapsto> body)"
proof -
  obtain r1 s1 where st: "merge_stage env j s = (r1, s1)" by force
  show thesis
  proof (cases r1)
    case (Inl e)
    with assms st have "r = Inl e" "armed" "s' = s1" by (auto simp: merge_blocks_inner_def)
    with st Inl show thesis by (intro failed) simp_all
  next
    case (Inr x)
    obtain bm body where x: "x = (bm, body)" by force
    obtain res s2 where put: "store_put (me_oc env) (out_path env j ''meta.json'') body s1 = (res, s2)" by force
    note put' = store_put_cases [OF put]
    show thesis
    proof (cases fence)
      case False
      with assms st Inr x aborted show thesis by (simp add: merge_blocks_inner_def)
    next
      case True
      with assms st Inr x put have s': "s' = s2" "\<not> armed"
        and r: "r = (case run_fenced ticks res of Inl e \<Rightarrow> Inl e | Inr (Inl e) \<Rightarrow> Inl (StoreFailed e)
            | Inr (Inr _) \<Rightarrow> Inr (Some (bm\<lparr>bm_meta_json_size_bytes := Some (of_nat (length body))\<rparr>)))"
        by (simp_all add: merge_blocks_inner_def)
      show thesis
      proof (cases r)
        case (Inl e)
        from ambiguous [OF Inl s'(2) True st [unfolded Inr x]] put' s'(1) show thesis by blast
      next
        case (Inr y)
        with r have "\<exists>res'. run_fenced ticks res = Inr res'" by (cases "run_fenced ticks res") auto
        then have rf: "run_fenced ticks res = Inr res" "\<forall>held \<in> set ticks. held"
          using run_fenced_iff [of ticks res] by auto
        with r Inr have res: "res = Inr ()"
          "r = Inr (Some (bm\<lparr>bm_meta_json_size_bytes := Some (of_nat (length body))\<rparr>))"
          by (cases res; simp)+
        have "objects s' = (objects s1)(out_path env j ''meta.json'' \<mapsto> body)" using put' s'(1) res(1) by blast
        with committed [OF res(2) s'(2) True rf(2) st [unfolded \<open>r1 = Inr x\<close> x]] show thesis by blast
      qed
    qed
  qed
qed

lemma fetch_meta_Inr:
  assumes "fetch_meta env bm n budget s = (Inr (fetched, n'), s')"
  shows "\<exists>body m0. objects s (env_path env bm ''meta.json'') = Some body \<and> me_parse env body = Some m0 \<and>
    fetched = m0\<lparr>bm_meta_json_size_bytes := Some (of_nat (length body))\<rparr>" and "objects s' = objects s"
  using assms unfolding fetch_meta_def Let_def
  by (auto split: if_splits option.splits elim!: and_then_InrE dest!: store_get_Inr)

lemma fetch_metas_Inr:
  "fetch_metas env signal budget es n s = (Inr metas, s') \<Longrightarrow>
     list_all2 (\<lambda>e m. bm_uuid m = bm_uuid (e_meta e) \<and> bm_signal m = signal \<and>
       (\<exists>body m0. objects s (env_path env (e_meta e) ''meta.json'') = Some body \<and> me_parse env body = Some m0 \<and>
          m = m0\<lparr>bm_meta_json_size_bytes := Some (of_nat (length body))\<rparr>)) es metas"
proof (induction es arbitrary: n s metas s')
  case (Cons e es)
  from Cons.prems obtain fetched n' s1 ms s2 where
    f: "fetch_meta env (e_meta e) n budget s = (Inr (fetched, n'), s1)"
    and rest: "fetch_metas env signal budget es n' s1 = (Inr ms, s2)"
    and ok: "bm_uuid fetched = bm_uuid (e_meta e)" "bm_signal fetched = signal" "metas = fetched # ms"
    by (auto split: prod.splits if_splits elim!: and_then_InrE)
  from Cons.IH [OF rest] fetch_meta_Inr [OF f] ok show ?case by auto
qed simp

lemma ancestors_eq:
  assumes "compacted_ancestor_closure jl out metas = Inr ancestors"
  shows "set ancestors = closure_of metas" and "out \<notin> set ancestors"
    and "\<forall>m \<in> set metas. bm_uuid m \<notin> set (bm_compacted_from m)"
proof -
  from assms obtain cl where cl: "closure_loop out {} {} metas = Inr cl" and a: "ancestors = sorted_list_of_set cl"
    by (auto simp: compacted_ancestor_closure_def Let_def split: if_splits sum.splits)
  show "set ancestors = closure_of metas" and "out \<notin> set ancestors"
    and "\<forall>m \<in> set metas. bm_uuid m \<notin> set (bm_compacted_from m)"
    using closure_loop_InrD [OF cl] a by (auto simp: closure_of_def input_ok_def)
qed

lemma merge_blocks_cases:
  assumes "merge_blocks env j fence ticks s = (r, s')"
  obtains (rejected) e where "r = Inl e" "s' = s"
  | (dropped) x s1 where "isl r \<or> r = Inr None \<and> \<not> fence" "merge_stage env j s = (x, s1)"
      "s' = cleanup_paths (me_oc env) (staged_list env j) s1"
  | (ambiguous) bm body s1 e where "r = Inl e" "fence" "merge_stage env j s = (Inr (bm, body), s1)"
      "objects s' = objects s1 \<or> objects s' = (objects s1)(out_path env j ''meta.json'' \<mapsto> body)"
  | (committed) bm body s1 where "r = Inr (Some (bm\<lparr>bm_meta_json_size_bytes := Some (of_nat (length body))\<rparr>))"
      "fence" "\<forall>held \<in> set ticks. held" "merge_stage env j s = (Inr (bm, body), s1)"
      "objects s' = (objects s1)(out_path env j ''meta.json'' \<mapsto> body)"
proof (cases "merge_precheck env j")
  case (Inl e)
  with assms rejected [of e] show thesis by (auto simp: merge_blocks_def)
next
  case (Inr u)
  obtain r1 armed s1 where inner: "merge_blocks_inner env j fence ticks s = ((r1, armed), s1)" by (metis prod.exhaust)
  with assms Inr have r: "r = r1" "s' = merge_cleanup env j r1 armed s1" by (auto simp: merge_blocks_def)
  from inner show thesis
  proof (cases rule: merge_blocks_inner_cases)
    case (failed e)
    with r dropped [of "Inl e" s1] show thesis by (simp add: merge_cleanup_def)
  next
    case (aborted bm body)
    with r dropped [of "Inr (bm, body)" s1] show thesis by (simp add: merge_cleanup_def)
  next
    case (ambiguous bm body s2 e)
    from that(3) [OF _ ambiguous(3,4)] ambiguous(1,2,5) r show thesis by (simp add: merge_cleanup_def)
  next
    case (committed bm body s2)
    from that(4) [OF _ committed(3,4,5)] committed(1,2,6) r show thesis by (simp add: merge_cleanup_def)
  qed
qed

lemma merge_stage_meta:
  assumes "merge_stage env j s = (Inr (bm, body), s1)"
  shows "body = me_ser env bm" and "bm_uuid bm = mj_block_uuid j" and "objects_present env j bm s1"
    and "bm_meta_json_size_bytes bm = None"
    and "\<forall>e \<in> set (mj_inputs j). bm_uuid (e_meta e) \<in> set (bm_compacted_from bm)"
proof -
  from merge_stage_Inr [OF assms] obtain metas s2 ancestors st n p b ts where
    fetch: "fetch_metas env (mj_signal j) (meta_json_estimate (mj_inputs j)) (mj_inputs j) 0 s = (Inr metas, s2)"
    and anc: "compacted_ancestor_closure (me_json_len env) (mj_block_uuid j) metas = Inr ancestors"
    and bm: "bm = merged_meta env j ancestors st n p b ts" "body = me_ser env bm" "objects_present env j bm s1"
    by blast
  have "bm_uuid (e_meta e) \<in> set ancestors" if e: "e \<in> set (mj_inputs j)" for e
  proof -
    obtain i where i: "i < length (mj_inputs j)" "mj_inputs j ! i = e" using e by (auto simp: in_set_conv_nth)
    note all2 = fetch_metas_Inr [OF fetch]
    have "bm_uuid (metas ! i) = bm_uuid (e_meta e)" using list_all2_nthD [OF all2 i(1)] unfolding i(2) by (rule conjunct1)
    moreover have "i < length metas" using i(1) unfolding list_all2_lengthD [OF all2] .
    then have "bm_uuid (metas ! i) \<in> closure_of metas"
      unfolding closure_of_def by (intro UN_I [of "metas ! i"]) simp_all
    ultimately show ?thesis unfolding ancestors_eq(1) [OF anc] by simp
  qed
  then show "\<forall>e \<in> set (mj_inputs j). bm_uuid (e_meta e) \<in> set (bm_compacted_from bm)"
    unfolding bm(1) by simp
  show "bm_uuid bm = mj_block_uuid j" and "bm_meta_json_size_bytes bm = None" unfolding bm(1) by simp_all
  show "body = me_ser env bm" and "objects_present env j bm s1" by (fact bm)+
qed

lemma marker_not_staged: "out_path env j ''meta.json'' \<notin> staged_paths env j"
  by (simp add: staged_paths_def staged_list_def)

lemma objects_present_marker:
  "objects s' = (objects s)(out_path env j ''meta.json'' \<mapsto> b) \<Longrightarrow> objects_present env j bm s \<Longrightarrow> objects_present env j bm s'"
  by (simp add: objects_present_def)

section \<open>What the sidecars say about the scanned rows\<close>

lemma add_fingerprints_Inr:
  "add_fingerprints budget vs fps = Inr fps' \<Longrightarrow> fps' = fps \<union> {v. Some v \<in> set vs}"
  by (induction budget vs fps rule: add_fingerprints.induct) (auto split: if_splits)

definition builder_sound :: "gram_hash \<Rightarrow> nat \<Rightarrow> bytes set \<Rightarrow> body_bloom_builder \<Rightarrow> bool" where
  "builder_sound hash n bodies bb \<longleftrightarrow> builder_ok bb \<and> bd_ngram bb = n \<and> set (bd_grams bb) \<subseteq> hash ` grams_of n bodies \<and>
     (\<forall>body \<in> bodies. indexed hash bb body)"

lemma add_bodies_Inr:
  "add_bodies hash budget vs bb = Inr bb' \<Longrightarrow> builder_sound hash n B bb \<Longrightarrow>
     builder_sound hash n (B \<union> {body. Some body \<in> set vs}) bb'"
proof (induction hash budget vs bb arbitrary: B rule: add_bodies.induct)
  case (3 hash budget v vs bb)
  obtain ok bb1 where b1: "add_body_bounded hash v (unat budget) bb = (ok, bb1)" by force
  with "3.prems"(1) have ok: "ok" and run: "add_bodies hash budget vs bb1 = Inr bb'" by (auto split: if_splits)
  have "builder_ok bb" using "3.prems"(2) by (simp add: builder_sound_def)
  note spec = add_body_bounded_spec [OF this b1]
  have n: "bd_ngram bb = n" and B: "set (bd_grams bb) \<subseteq> hash ` grams_of n B" "\<forall>body \<in> B. indexed hash bb body"
    using "3.prems"(2) by (simp_all add: builder_sound_def)
  have "hash ` grams_of n (insert v B) = hash ` set (windows n v) \<union> hash ` grams_of n B"
    by (simp add: grams_of_def image_Un)
  then have "set (bd_grams bb1) \<subseteq> hash ` grams_of n (insert v B)"
    using order_trans [OF spec(4) Un_mono [OF B(1) subset_refl]] unfolding n by (simp add: Un_commute)
  then have "builder_sound hash n (insert v B) bb1"
    using spec(1,2) spec(5) [OF ok] spec(6) n B(2) by (simp add: builder_sound_def)
  from "3.IH" [OF b1 [symmetric] _ run this] ok have "builder_sound hash n (insert v B \<union> {body. Some body \<in> set vs}) bb'" by simp
  moreover have "insert v B \<union> {body. Some body \<in> set vs} = B \<union> {body. Some body \<in> set (Some v # vs)}" by auto
  ultimately show ?case by simp
qed auto

definition scanned_bodies :: "scan_batch list \<Rightarrow> bytes set" where
  "scanned_bodies bs = {body. \<exists>b \<in> set bs. Some body \<in> set (sb_bodies b)}"

lemma scanned_bodies_snoc: "scanned_bodies (bs @ [b]) = scanned_bodies bs \<union> {body. Some body \<in> set (sb_bodies b)}"
  by (auto simp: scanned_bodies_def)

definition scan_ok :: "merge_env \<Rightarrow> nat \<Rightarrow> scan_batch list \<Rightarrow> scan_state \<Rightarrow> bool" where
  "scan_ok env n bs st \<longleftrightarrow> sc_rows st = concat (map sb_rows bs) \<and>
     sc_row_count st = of_nat (length (concat (map sb_rows bs))) \<and>
     (\<forall>fps. sc_fps st = Some fps \<longrightarrow> fps = {v. \<exists>b \<in> set bs. Some v \<in> set (sb_fps b)}) \<and>
     (\<forall>bb. sc_bloom st = Some bb \<longrightarrow> builder_sound (me_hash env) n (scanned_bodies bs) bb)"

lemma scan_batch_step_ok:
  assumes "scan_ok env n bs st" and "scan_batch_step env bg b st = Inr st'"
  shows "scan_ok env n (bs @ [b]) st'"
proof -
  from assms(2) obtain fps bloom where
    fps: "(case sc_fps st of None \<Rightarrow> Inr None | Some fps \<Rightarrow> (case add_fingerprints (bg_fingerprints bg) (sb_fps b) fps of
        Inl e \<Rightarrow> Inl e | Inr fps' \<Rightarrow> Inr (Some fps'))) = Inr fps"
    and bloom: "(case sc_bloom st of None \<Rightarrow> Inr None | Some bb \<Rightarrow> (case add_bodies (me_hash env) (bg_bloom bg) (sb_bodies b) bb of
        Inl e \<Rightarrow> Inl e | Inr bb' \<Rightarrow> Inr (Some bb'))) = Inr bloom"
    and st': "st' = \<lparr>sc_rows = sc_rows st @ sb_rows b, sc_row_count = sc_row_count st + of_nat (length (sb_rows b)),
        sc_fps = fps, sc_bloom = bloom, sc_writes = sc_writes st + 1\<rparr>"
    unfolding scan_batch_step_def by (auto split: sum.splits if_splits)
  have "fps' = {v. \<exists>x \<in> set (bs @ [b]). Some v \<in> set (sb_fps x)}" if "fps = Some fps'" for fps'
    using fps that assms(1) by (auto simp: scan_ok_def split: option.splits sum.splits dest!: add_fingerprints_Inr)
  moreover have "builder_sound (me_hash env) n (scanned_bodies (bs @ [b])) bb" if bb: "bloom = Some bb" for bb
  proof -
    from bloom bb obtain b0 where b0: "sc_bloom st = Some b0"
      "add_bodies (me_hash env) (bg_bloom bg) (sb_bodies b) b0 = Inr bb" by (auto split: option.splits sum.splits)
    with assms(1) have "builder_sound (me_hash env) n (scanned_bodies bs) b0" by (simp add: scan_ok_def)
    from add_bodies_Inr [OF b0(2) this] show ?thesis by (simp add: scanned_bodies_snoc)
  qed
  ultimately show ?thesis using assms(1) by (simp add: scan_ok_def st')
qed

lemma scan_loop_kinds:
  "scan_loop env bg items st = Inr st' \<Longrightarrow>
     (sc_fps st' = None \<longleftrightarrow> sc_fps st = None) \<and> (sc_bloom st' = None \<longleftrightarrow> sc_bloom st = None)"
proof (induction env bg items st rule: scan_loop.induct)
  case (3 env bg b items st)
  then obtain st1 where st1: "scan_batch_step env bg b st = Inr st1" "scan_loop env bg items st1 = Inr st'"
    by (auto split: sum.splits)
  from st1(1) have "(sc_fps st1 = None \<longleftrightarrow> sc_fps st = None) \<and> (sc_bloom st1 = None \<longleftrightarrow> sc_bloom st = None)"
    by (auto simp: scan_batch_step_def split: sum.splits if_splits option.splits)
  with "3.IH" [OF st1] show ?case by simp
qed auto

lemma scan_loop_ok:
  "scan_loop env bg items st = Inr st' \<Longrightarrow> scan_ok env n bs st \<Longrightarrow>
     \<exists>more. items = map Inr more \<and> scan_ok env n (bs @ more) st'"
proof (induction env bg items st arbitrary: bs rule: scan_loop.induct)
  case (3 env bg b items st)
  then obtain st1 where st1: "scan_batch_step env bg b st = Inr st1" "scan_loop env bg items st1 = Inr st'"
    by (auto split: sum.splits)
  from "3.IH" [OF st1 scan_batch_step_ok [OF "3.prems"(2) st1(1)]] obtain more where
    "items = map Inr more" "scan_ok env n ((bs @ [b]) @ more) st'" by blast
  then show ?case by (intro exI [of _ "b # more"]) simp
qed auto

lemma merge_stage_scanE:
  assumes stage: "merge_stage env j s = (Inr (bm, body), s')" and spec: "spec_for (mj_signal j) = Inr spec"
  obtains bg ancestors st n p s4 b ts batches where
    "me_scan env (sp_sort_cols spec) (map (objects s) (map (\<lambda>e. env_path env (e_meta e) ''parquet'') (mj_inputs j))) = map Inr batches"
    "scan_ok env (bd_ngram (builder_new (mj_bloom_ngram j))) batches st" "bm = merged_meta env j ancestors st n p b ts"
    "sc_fps st = None \<longleftrightarrow> sp_fp_col spec = None" "sc_bloom st = None \<longleftrightarrow> sp_body_col spec = None"
    "write_bloom env j bg (sc_bloom st) s4 = (Inr b, s')"
    "objects s' (out_path env j ''parquet'') = Some (me_main_bytes env (concat (map sb_rows batches)))"
proof -
  from stage obtain bg metas s1 ancestors s2 st n s3 p s4 b ts where
    s2: "objects s2 = objects s" and main: "write_main env j spec bg s2 = (Inr (st, n), s3)"
    and post: "write_postings env j spec bg s3 = (Inr p, s4)"
    and bloom: "write_bloom env j bg (sc_bloom st) s4 = (Inr b, s')"
    and bm: "bm = merged_meta env j ancestors st n p b ts"
    by (rule merge_stageE) (simp add: spec)
  let ?o = "out_path env j" and ?n = "bd_ngram (builder_new (mj_bloom_ngram j))"
  let ?st0 = "\<lparr>sc_rows = [], sc_row_count = 0, sc_fps = (case sp_fp_col spec of None \<Rightarrow> None | Some _ \<Rightarrow> Some {}),
      sc_bloom = (case sp_body_col spec of None \<Rightarrow> None | Some _ \<Rightarrow> Some (builder_new (mj_bloom_ngram j))),
      sc_writes = 0\<rparr>"
  let ?items = "me_scan env (sp_sort_cols spec) (map (objects s) (map (\<lambda>e. env_path env (e_meta e) ''parquet'') (mj_inputs j)))"
  have m: "objects s3 (?o ''parquet'') = Some (me_main_bytes env (sc_rows st))" "scan_loop env bg ?items ?st0 = Inr st"
    using write_main_Inr [OF main] unfolding s2 by blast+
  have "scan_ok env ?n [] ?st0"
    by (auto simp: scan_ok_def builder_sound_def scanned_bodies_def builder_new_def builder_ok_def split: option.splits)
  from scan_loop_ok [OF m(2) this] obtain batches where items: "?items = map Inr batches"
    and ok: "scan_ok env ?n batches st" by auto
  have kinds: "sc_fps st = None \<longleftrightarrow> sp_fp_col spec = None" "sc_bloom st = None \<longleftrightarrow> sp_body_col spec = None"
    using scan_loop_kinds [OF m(2)] by (auto split: option.splits)
  have "objects s4 (?o ''parquet'') = objects s3 (?o ''parquet'')"
    by (rule writesD [OF writes_write_postings post, of "{?o ''postings.parquet''}"]) simp_all
  moreover have "objects s' (?o ''parquet'') = objects s4 (?o ''parquet'')"
    by (rule writesD [OF writes_write_bloom bloom, of "{?o ''body.bloom''}"]) simp_all
  ultimately have "objects s' (?o ''parquet'') = Some (me_main_bytes env (concat (map sb_rows batches)))"
    using m(1) ok by (simp add: scan_ok_def)
  from that [OF items ok bm kinds bloom this] show thesis .
qed

section \<open>Properties\<close>

text \<open>C26: the published sidecars describe the merged rows. When a merge has staged its output, the scan yielded batches
  only, and: the main object holds their rows in order, the row count is their number, the
  fingerprint list is the sorted set of all scanned fingerprints, and the stored full-text index
  can be read back and, when no two different grams of the scanned bodies agree on the first hash
  only, reports every byte string that occurs in such a body as possibly present.\<close>

theorem merged_sidecars_describe_rows:
  assumes stage: "merge_stage env j s = (Inr (bm, body), s')"
    and spec: "spec_for (mj_signal j) = Inr spec"
  shows "\<exists>batches. me_scan env (sp_sort_cols spec)
        (map (objects s) (map (\<lambda>e. env_path env (e_meta e) ''parquet'') (mj_inputs j))) = map Inr batches \<and>
     objects s' (out_path env j ''parquet'') = Some (me_main_bytes env (concat (map sb_rows batches))) \<and>
     bm_row_count bm = of_nat (length (concat (map sb_rows batches))) \<and>
     (sp_fp_col spec \<noteq> None \<longrightarrow>
        bm_all_fingerprints bm = Some (sorted_list_of_set {v. \<exists>b \<in> set batches. Some v \<in> set (sb_fps b)})) \<and>
     (sp_body_col spec \<noteq> None \<longrightarrow> (\<exists>buf bloom.
        objects s' (out_path env j ''body.bloom'') = Some buf \<and> from_bytes buf = Some bloom \<and>
        (collision_free (me_hash env) (grams_of (bd_ngram (builder_new (mj_bloom_ngram j))) (scanned_bodies batches)) \<longrightarrow>
           (\<forall>us pat vs. us @ pat @ vs \<in> scanned_bodies batches \<longrightarrow> contains_pattern (me_hash env) bloom pat = Some True))))"
proof -
  let ?o = "out_path env j" and ?n = "bd_ngram (builder_new (mj_bloom_ngram j))"
  let ?items = "me_scan env (sp_sort_cols spec) (map (objects s) (map (\<lambda>e. env_path env (e_meta e) ''parquet'') (mj_inputs j)))"
  let ?free = "\<lambda>bs. collision_free (me_hash env) (grams_of ?n (scanned_bodies bs))"
  from stage spec obtain bg ancestors st n p s4 b ts batches where items: "?items = map Inr batches"
    and ok: "scan_ok env ?n batches st" and bm: "bm = merged_meta env j ancestors st n p b ts"
    and kinds: "sc_fps st = None \<longleftrightarrow> sp_fp_col spec = None" "sc_bloom st = None \<longleftrightarrow> sp_body_col spec = None"
    and bloom: "write_bloom env j bg (sc_bloom st) s4 = (Inr b, s')"
    and obj: "objects s' (?o ''parquet'') = Some (me_main_bytes env (concat (map sb_rows batches)))"
    by (rule merge_stage_scanE)
  have count: "bm_row_count bm = of_nat (length (concat (map sb_rows batches)))"
    using ok by (simp add: bm merged_meta_def scan_ok_def)
  have fps: "bm_all_fingerprints bm = Some (sorted_list_of_set {v. \<exists>b \<in> set batches. Some v \<in> set (sb_fps b)})"
    if "sp_fp_col spec \<noteq> None" using that kinds(1) ok by (auto simp: bm merged_meta_def scan_ok_def)
  have index: "\<exists>buf bloom. objects s' (?o ''body.bloom'') = Some buf \<and> from_bytes buf = Some bloom \<and>
      (?free batches \<longrightarrow> (\<forall>us pat vs. us @ pat @ vs \<in> scanned_bodies batches \<longrightarrow>
         contains_pattern (me_hash env) bloom pat = Some True))" if body: "sp_body_col spec \<noteq> None"
  proof -
    obtain bb where bb: "sc_bloom st = Some bb" using body kinds(2) by auto
    then have "b \<noteq> None" using bloom unfolding write_bloom_def by (auto split: option.splits elim!: and_then_InrE)
    from write_bloom_Inr [OF bloom this] bb obtain bl buf where
      fin: "finish_bounded (me_fp env) (unat (bg_bloom bg)) bb = Some (Some bl)"
      and buf: "to_bytes_bounded bl (unat (bg_bloom bg) - byte_len bl) = Some buf" "objects s' (?o ''body.bloom'') = Some buf"
      by auto
    have snd: "builder_ok bb" "bd_ngram bb = ?n" "set (bd_grams bb) \<subseteq> me_hash env ` grams_of ?n (scanned_bodies batches)"
      and idx: "\<And>body. body \<in> scanned_bodies batches \<Longrightarrow> indexed (me_hash env) bb body"
      using ok bb by (simp_all add: scan_ok_def builder_sound_def)
    have "bloom_ok bl" using finish_bounded_spec [OF snd(1), of "me_fp env" "unat (bg_bloom bg)"] fin by auto
    from to_bytes_bounded_read(1) [OF this buf(1), of "[]"] have "from_bytes buf = Some bl" by simp
    moreover have "contains_pattern (me_hash env) bl pat = Some True"
      if "?free batches" "us @ pat @ vs \<in> scanned_bodies batches" for us pat vs
      using that(2) snd(2) by (intro indexed_probe [OF that(1) snd(1,3) _ fin idx [OF that(2)]]) (auto simp: grams_of_def)
    ultimately show ?thesis using buf(2) by blast
  qed
  from items obj count fps index show ?thesis by blast
qed


text \<open>C15: a merge publishes all or nothing. When the output's sidecar key is new, then whatever the
  object store answers, whatever the scan yields and whenever the lease is lost: no object
  outside the four keys of the output changes, in particular no input; the sidecar is present
  afterwards only if the lease was held at the commit check and all objects it names are
  present, and then it lists every input as ancestor; a reported success has the sidecar in
  place and the lease held throughout the request; a reported abort has published nothing.\<close>

theorem merge_publishes_atomically:
  assumes run: "merge_blocks env j fence ticks s = (r, s')"
    and fresh: "objects s (out_path env j ''meta.json'') = None"
  shows "(\<forall>p. p \<notin> out_path env j ` {''parquet'', ''postings.parquet'', ''body.bloom'', ''meta.json''} \<longrightarrow>
        objects s' p = objects s p) \<and>
    (objects s' (out_path env j ''meta.json'') \<noteq> None \<longrightarrow> fence \<and>
       (\<exists>bm. objects s' (out_path env j ''meta.json'') = Some (me_ser env bm) \<and> bm_uuid bm = mj_block_uuid j \<and>
          objects_present env j bm s' \<and>
          (\<forall>e \<in> set (mj_inputs j). bm_uuid (e_meta e) \<in> set (bm_compacted_from bm)))) \<and>
    (\<forall>bm. r = Inr (Some bm) \<longrightarrow> (\<forall>held \<in> set ticks. held) \<and>
       objects s' (out_path env j ''meta.json'') = Some (me_ser env (bm\<lparr>bm_meta_json_size_bytes := None\<rparr>))) \<and>
    (r = Inr None \<longrightarrow> \<not> fence \<and> objects s' (out_path env j ''meta.json'') = None)"
proof -
  let ?m = "out_path env j ''meta.json''"
  let ?all = "out_path env j ` {''parquet'', ''postings.parquet'', ''body.bloom'', ''meta.json''}"
  have "insert ?m (staged_paths env j) \<subseteq> ?all" by (auto simp: staged_paths_def staged_list_def)
  then have all: "p \<noteq> ?m" "p \<notin> staged_paths env j" if "p \<notin> ?all" for p using that by blast+
  note stage = writesD [OF writes_merge_stage]
  from run show ?thesis
  proof (cases rule: merge_blocks_cases)
    case (rejected e)
    with fresh show ?thesis by simp
  next
    case (dropped x s1)
    have same: "objects s' p = objects s p" if "p \<notin> staged_paths env j" for p
      using that stage [OF dropped(2) that] cleanup_objects [of "me_oc env" "staged_list env j" s1 p] dropped(3)
      by (auto simp: staged_paths_def)
    with all(2) have "\<forall>p. p \<notin> ?all \<longrightarrow> objects s' p = objects s p" by blast
    moreover have "objects s' ?m = None" using same [OF marker_not_staged] fresh by simp
    ultimately show ?thesis using dropped(1) by auto
  next
    case (ambiguous bm body s1 e)
    note m = merge_stage_meta [OF ambiguous(3)]
    have other: "\<forall>p. p \<notin> ?all \<longrightarrow> objects s' p = objects s p"
      using ambiguous(4) stage [OF ambiguous(3) all(2)] all(1) by auto
    have "objects s1 ?m = None" using stage [OF ambiguous(3) marker_not_staged] fresh by simp
    then have "objects s' ?m \<noteq> None \<longrightarrow> objects s' = (objects s1)(?m \<mapsto> body)" using ambiguous(4) by auto
    then have "objects s' ?m \<noteq> None \<longrightarrow> objects s' ?m = Some (me_ser env bm) \<and> objects_present env j bm s'"
      using m(1) objects_present_marker [OF _ m(3)] by auto
    with other m(2,5) ambiguous(1,2) show ?thesis by auto
  next
    case (committed bm body s1)
    note m = merge_stage_meta [OF committed(4)]
    have other: "\<forall>p. p \<notin> ?all \<longrightarrow> objects s' p = objects s p"
      using committed(5) stage [OF committed(4) all(2)] all(1) by auto
    have "objects s' ?m = Some (me_ser env bm)" using committed(5) m(1) by simp
    moreover have "objects_present env j bm s'" using objects_present_marker [OF committed(5) m(3)] .
    moreover have "bm\<lparr>bm_meta_json_size_bytes := None\<rparr> = bm" using m(4) by (metis block_meta.surjective block_meta.update_convs(19))
    ultimately show ?thesis using other m(2,5) committed(1-3) by auto
  qed
qed

definition trace_meta :: "uuid \<Rightarrow> block_meta" where
  "trace_meta u = (sample_meta u [])\<lparr>bm_signal := ''traces''\<rparr>"

definition trace_entry :: "uuid \<Rightarrow> catalog_entry" where
  "trace_entry u = \<lparr>e_meta = trace_meta u, e_bucket = ''b'', e_date = ''2026-01-02'', e_level = 0\<rparr>"

definition sample_env :: merge_env where
  "sample_env = \<lparr>me_ymd = (\<lambda>_. (''2026'', ''01'', ''02'')), me_ustr = (\<lambda>u. if u = 3 then ''3'' else if u = 5 then ''5'' else ''9''),
     me_oc = (\<lambda>_. CallOk), me_json_len = (\<lambda>xs. 39 * length xs + 1),
     me_parse = (\<lambda>b. Some (trace_meta (if b = [3] then 3 else 5))), me_ser = (\<lambda>_. [7]),
     me_schema = (\<lambda>_. Some ''traces''), me_logs_schema = (\<lambda>_. ''logs''),
     me_scan = (\<lambda>_ _. [Inr \<lparr>sb_rows = [[1], [2]], sb_fps = [], sb_bodies = []\<rparr>]),
     me_main_bytes = concat, me_writer = (\<lambda>_. True), me_open_postings = (\<lambda>_. None),
     me_postings_writer = (\<lambda>_. True), me_postings_flush = (\<lambda>_. False), me_postings_bytes = (\<lambda>_. []),
     me_hash = (\<lambda>_. (0, 0)), me_fp = \<lparr>fp_bits = (\<lambda>_. 8), fp_probes = (\<lambda>_ _. 1)\<rparr>, me_version = ''0''\<rparr>"

definition sample_job :: merge_job where
  "sample_job = \<lparr>mj_signal = ''traces'', mj_inputs = [trace_entry 3, trace_entry 5], mj_out_level = 1,
     mj_writer_id = 0, mj_block_uuid = 9, mj_bloom_ngram = 3, mj_config = sample_config,
     mj_admitted = 67108864\<rparr>"

definition sample_path :: "string \<Rightarrow> string \<Rightarrow> string" where
  "sample_path u k = ''traces/2026/01/02/9/'' @ u @ ''.'' @ k"

definition sample_store :: store where
  "sample_store = \<lparr>objects =
     [sample_path ''3'' ''meta.json'' \<mapsto> [3], sample_path ''3'' ''parquet'' \<mapsto> [9],
      sample_path ''5'' ''meta.json'' \<mapsto> [5], sample_path ''5'' ''parquet'' \<mapsto> [9]], calls = 0, slept_ms = 0\<rparr>"

lemma sample_path_inject [simp]: "length u = length u' \<Longrightarrow> sample_path u k = sample_path u' k' \<longleftrightarrow> u = u' \<and> k = k'"
  by (simp add: sample_path_def)

lemma sample_paths [simp]:
  "env_path sample_env (trace_meta 3) k = sample_path ''3'' k" "env_path sample_env (trace_meta 5) k = sample_path ''5'' k"
  "out_path sample_env sample_job k = sample_path ''9'' k"
  by (simp_all add: env_path_def meta_path_def out_path_def block_path_def sample_env_def sample_path_def
      sample_job_def trace_meta_def trace_entry_def sample_meta_def job_ts_min_def)

lemma sample_oc [simp]: "me_oc sample_env = (\<lambda>_. CallOk)"
  by (simp add: sample_env_def)

lemma sample_ser: "me_ser sample_env bm = [7]"
  by (simp add: sample_env_def)

lemma trace_meta_fields [simp]:
  "bm_uuid (trace_meta u) = u" "bm_signal (trace_meta u) = ''traces''" "bm_schema_version (trace_meta u) = 1"
  "bm_compacted_from (trace_meta u) = []" "bm_meta_json_size_bytes (trace_meta u) = None"
  by (simp_all add: trace_meta_def sample_meta_def)

lemma sample_stage:
  "\<exists>bm s'. merge_stage sample_env sample_job sample_store = (Inr (bm, [7]), s')"
proof -
  have job [simp]: "mj_signal sample_job = ''traces''" "mj_inputs sample_job = [trace_entry 3, trace_entry 5]"
    "e_meta (trace_entry u) = trace_meta u" "mj_block_uuid sample_job = 9" for u
    by (simp_all add: sample_job_def trace_entry_def)
  have env [simp]: "me_json_len sample_env xs = 39 * length xs + 1"
    "me_parse sample_env b = Some (trace_meta (if b = [3] then 3 else 5))" "me_ser sample_env bm = [7]"
    "me_schema sample_env b = Some ''traces''" "me_writer sample_env n"
    "me_scan sample_env cs bs = [Inr \<lparr>sb_rows = [[1], [2]], sb_fps = [], sb_bodies = []\<rparr>]" for xs b bm n cs bs
    by (simp_all add: sample_env_def)
  have est: "meta_json_estimate [trace_entry 3, trace_entry 5] = 8388608"
    by (simp add: meta_json_estimate_def META_JSON_FALLBACK_PER_INPUT_def sat_add_def)
  let ?bg = "for_permit (mj_admitted sample_job) (merge_fixed_bytes (mj_config sample_job)) 8388608"
  have bg: "bg_input_meta ?bg = 8388608" "bg_output_meta ?bg \<ge> 8388608"
    by (simp_all add: for_permit_def Let_def)
  have fetch: "fetch_metas sample_env ''traces'' 8388608 [trace_entry 3, trace_entry 5] 0 sample_store =
      (Inr [(trace_meta 3)\<lparr>bm_meta_json_size_bytes := Some 1\<rparr>, (trace_meta 5)\<lparr>bm_meta_json_size_bytes := Some 1\<rparr>],
       sample_store\<lparr>calls := 2\<rparr>)"
    by (simp add: fetch_meta_def and_then_def store_get_def sample_store_def Let_def)
  let ?ms = "[(trace_meta 3)\<lparr>bm_meta_json_size_bytes := Some 1\<rparr>, (trace_meta 5)\<lparr>bm_meta_json_size_bytes := Some 1\<rparr>]"
  have anc: "compacted_ancestor_closure (me_json_len sample_env) 9 ?ms = Inr [3, 5]"
    by (simp add: compacted_ancestor_closure_def MAX_COMPACTED_ANCESTORS_def MAX_COMPACTED_ANCESTRY_BYTES_def)
  have schemas: "check_schemas sample_env None [trace_entry 3, trace_entry 5] None (sample_store\<lparr>calls := 2\<rparr>) =
      (Inr (), sample_store\<lparr>calls := 4\<rparr>)"
    by (simp add: fetch_main_schema_def and_then_def store_get_def sample_store_def Let_def)
  obtain spec where spec: "spec_for ''traces'' = Inr spec" "sp_fp_col spec = None" "sp_body_col spec = None"
    "\<not> sp_has_series_types spec" by (simp add: spec_for_def)
  obtain st n s1 where main: "write_main sample_env sample_job spec ?bg (sample_store\<lparr>calls := 4\<rparr>) = (Inr (st, n), s1)"
    and st: "sc_bloom st = None"
    by (simp add: write_main_def spec scan_batch_step_def and_then_def upload_def store_put_def store_get_def)
  have "expected_main_schema sample_env ''traces'' 1 = Inr None" by (simp add: expected_main_schema_def)
  then show ?thesis using bg(2)
    by (simp add: merge_stage_def est bg(1) fetch anc schemas spec main st and_then_def write_postings_def
        write_bloom_def merge_series_types_def Let_def word_le_nat_alt word_less_nat_alt
        del: fetch_metas.simps check_schemas.simps)
qed

theorem merge_publishes_atomically_witness:
  "\<exists>bm s'. merge_blocks sample_env sample_job True [True] sample_store = (Inr (Some bm), s') \<and>
     objects s' (sample_path ''9'' ''meta.json'') = Some [7] \<and> objects s' (sample_path ''3'' ''parquet'') = Some [9]"
proof -
  obtain r s' where run: "merge_blocks sample_env sample_job True [True] sample_store = (r, s')" by force
  have "merge_precheck sample_env sample_job = Inr ()"
    by (simp add: merge_precheck_def sample_job_def trace_entry_def expected_main_schema_def)
  with run sample_stage obtain bm where r: "r = Inr (Some bm)"
    by (auto simp: merge_blocks_def merge_blocks_inner_def store_put_def Let_def)
  have "objects sample_store (out_path sample_env sample_job ''meta.json'') = None"
    by (simp add: sample_store_def)
  note safe = merge_publishes_atomically [OF run this]
  have "objects s' (out_path sample_env sample_job ''meta.json'') =
      Some (me_ser sample_env (bm\<lparr>bm_meta_json_size_bytes := None\<rparr>))" using safe r by blast
  then have "objects s' (sample_path ''9'' ''meta.json'') = Some [7]" by (simp only: sample_paths sample_ser)
  moreover have "objects s' (sample_path ''3'' ''parquet'') = objects sample_store (sample_path ''3'' ''parquet'')"
    by (rule conjunct1 [OF safe, rule_format]) simp
  ultimately show ?thesis using run r by (simp add: sample_store_def)
qed

text \<open>A merge of two blocks of logs: two fingerprints, and the bodies \<open>abcd\<close> and \<open>bcd\<close>.\<close>

definition logs_entry :: "uuid \<Rightarrow> catalog_entry" where
  "logs_entry u = \<lparr>e_meta = sample_meta u [], e_bucket = ''b'', e_date = ''2026-01-02'', e_level = 0\<rparr>"

definition logs_batch :: scan_batch where
  "logs_batch = \<lparr>sb_rows = [[1], [2]], sb_fps = [Some 8, Some 6], sb_bodies = [Some [0x61, 0x62, 0x63, 0x64], Some [0x62, 0x63, 0x64]]\<rparr>"

definition logs_env :: merge_env where
  "logs_env = sample_env\<lparr>me_parse := (\<lambda>b. Some (sample_meta (if b = [3] then 3 else 5) [])), me_schema := (\<lambda>_. Some ''logs''),
     me_scan := (\<lambda>_ _. [Inr logs_batch]), me_hash := (\<lambda>g. (ucast (hd g), 1))\<rparr>"

definition logs_job :: merge_job where
  "logs_job = sample_job\<lparr>mj_signal := ''logs'', mj_inputs := [logs_entry 3, logs_entry 5]\<rparr>"

definition logs_path :: "string \<Rightarrow> string \<Rightarrow> string" where
  "logs_path u k = ''logs/2026/01/02/9/'' @ u @ ''.'' @ k"

definition logs_store :: store where
  "logs_store = \<lparr>objects =
     [logs_path ''3'' ''meta.json'' \<mapsto> [3], logs_path ''3'' ''parquet'' \<mapsto> [9],
      logs_path ''5'' ''meta.json'' \<mapsto> [5], logs_path ''5'' ''parquet'' \<mapsto> [9]], calls = 0, slept_ms = 0\<rparr>"

lemma logs_path_inject [simp]: "length u = length u' \<Longrightarrow> logs_path u k = logs_path u' k' \<longleftrightarrow> u = u' \<and> k = k'"
  by (simp add: logs_path_def)

lemma logs_paths [simp]:
  "env_path logs_env (sample_meta 3 []) k = logs_path ''3'' k" "env_path logs_env (sample_meta 5 []) k = logs_path ''5'' k"
  "out_path logs_env logs_job k = logs_path ''9'' k"
  by (simp_all add: env_path_def meta_path_def out_path_def block_path_def logs_env_def sample_env_def logs_path_def
      logs_job_def sample_job_def logs_entry_def sample_meta_def job_ts_min_def)

lemma logs_simps [simp]:
  "mj_signal logs_job = ''logs''" "mj_inputs logs_job = [logs_entry 3, logs_entry 5]" "mj_block_uuid logs_job = 9" "mj_bloom_ngram logs_job = 3"
  "mj_admitted logs_job = 67108864" "mj_config logs_job = sample_config" "e_meta (logs_entry u) = sample_meta u []"
  "me_json_len logs_env xs = 39 * length xs + 1" "me_parse logs_env b = Some (sample_meta (if b = [3] then 3 else 5) [])"
  "me_ser logs_env bm = [7]" "me_schema logs_env b = Some ''logs''" "me_writer logs_env n" "me_scan logs_env cs bs = [Inr logs_batch]"
  "me_oc logs_env = (\<lambda>_. CallOk)" "me_logs_schema logs_env v = ''logs''" "me_postings_writer logs_env n" "me_hash logs_env = (\<lambda>g. (ucast (hd g), 1))"
  "me_fp logs_env = \<lparr>fp_bits = (\<lambda>_. 8), fp_probes = (\<lambda>_ _. 1)\<rparr>"
  by (simp_all add: logs_env_def sample_env_def logs_job_def sample_job_def logs_entry_def)

lemma sample_meta_fields [simp]:
  "bm_uuid (sample_meta u cf) = u" "bm_signal (sample_meta u cf) = ''logs''" "bm_schema_version (sample_meta u cf) = 1"
  "bm_compacted_from (sample_meta u cf) = cf" "bm_meta_json_size_bytes (sample_meta u cf) = None" "\<not> bm_has_postings (sample_meta u cf)"
  by (simp_all add: sample_meta_def)

definition logs_budgets :: sidecar_budgets where
  "logs_budgets = for_permit 67108864 (merge_fixed_bytes sample_config) 8388608"

lemma logs_budgets_large:
  "bg_input_meta logs_budgets = 8388608" "1000 \<le> bg_fingerprints logs_budgets" "1000 \<le> unat (bg_bloom logs_budgets)"
  "8388608 \<le> bg_output_meta logs_budgets"
  by (simp_all add: logs_budgets_def for_permit_def merge_fixed_bytes_def sample_config_eq MIB_def Let_def sat_sub_def sat_add_def sat_mul_def)

lemma logs_scan:
  "\<exists>st. scan_loop logs_env logs_budgets [Inr logs_batch] \<lparr>sc_rows = [], sc_row_count = 0, sc_fps = Some {}, sc_bloom = Some (builder_new 3), sc_writes = 0\<rparr> = Inr st \<and>
     sc_bloom st = Some \<lparr>bd_ngram = 3, bd_seen = {0x62, 0x61}, bd_grams = [(0x61, 1), (0x62, 1)]\<rparr>"
  using logs_budgets_large
  by (simp add: scan_batch_step_def logs_batch_def next_entry_bytes_def builder_new_def add_body_bounded_def windows_def add_windows.simps(2)
      USIZE_MAX_def BYTES_PER_DISTINCT_GRAM_def sat_add_def sat_mul_def word_less_nat_alt word_le_nat_alt Let_def upt_rec)

lemma logs_bloom:
  "\<exists>n s'. write_bloom logs_env logs_job logs_budgets (Some \<lparr>bd_ngram = 3, bd_seen = {0x62, 0x61}, bd_grams = [(0x61, 1), (0x62, 1)]\<rparr>) s = (Inr n, s')"
  using logs_budgets_large(3)
  by (simp add: write_bloom_def finish_bounded_def optimal_params_def estimated_bytes_def set_gram_def gram_pos_def upt_rec
      to_bytes_bounded_def byte_len_def HEADER_LEN_def USIZE_MAX_def BYTES_PER_DISTINCT_GRAM_def upload_def store_put_def and_then_def Let_def)

lemma logs_postings:
  assumes "sp_fp_col spec \<noteq> None"
  shows "\<exists>n s'. write_postings logs_env logs_job spec logs_budgets s = (Inr n, s')"
proof -
  have "merge_postings_streaming open_in (me_postings_writer logs_env) fl has cfg budget ([] :: (nat \<times> catalog_entry) list) = Inr [[]]" for open_in fl has cfg budget
    by (simp add: merge_postings_streaming_def Let_def initial_heap_def write_batch_def postings_record_batch_def)
  then show ?thesis using assms by (simp add: write_postings_def upload_def store_put_def store_get_def and_then_def Let_def)
qed

lemma logs_stage: "\<exists>bm s'. merge_stage logs_env logs_job logs_store = (Inr (bm, [7]), s')"
proof -
  let ?es = "[logs_entry 3, logs_entry 5]"
  let ?ms = "[(sample_meta 3 [])\<lparr>bm_meta_json_size_bytes := Some 1\<rparr>, (sample_meta 5 [])\<lparr>bm_meta_json_size_bytes := Some 1\<rparr>]"
  obtain spec where spec: "spec_for ''logs'' = Inr spec" "sp_fp_col spec \<noteq> None" "sp_body_col spec \<noteq> None" "\<not> sp_has_series_types spec"
    by (simp add: spec_for_def)
  have est: "meta_json_estimate ?es = 8388608" by (simp add: meta_json_estimate_def META_JSON_FALLBACK_PER_INPUT_def sat_add_def)
  have fetch: "fetch_metas logs_env ''logs'' 8388608 ?es 0 logs_store = (Inr ?ms, logs_store\<lparr>calls := 2\<rparr>)"
    by (simp add: fetch_meta_def and_then_def store_get_def logs_store_def Let_def)
  have anc: "compacted_ancestor_closure (me_json_len logs_env) 9 ?ms = Inr [3, 5]"
    by (simp add: compacted_ancestor_closure_def MAX_COMPACTED_ANCESTORS_def MAX_COMPACTED_ANCESTRY_BYTES_def)
  have expected: "expected_main_schema logs_env ''logs'' 1 = Inr (Some ''logs'')" by (simp add: expected_main_schema_def expected_logs_schema_def)
  have schemas: "check_schemas logs_env (Some ''logs'') ?es None (logs_store\<lparr>calls := 2\<rparr>) = (Inr (), logs_store\<lparr>calls := 4\<rparr>)"
    by (simp add: fetch_main_schema_def and_then_def store_get_def logs_store_def Let_def)
  obtain st where scan: "scan_loop logs_env logs_budgets [Inr logs_batch]
      \<lparr>sc_rows = [], sc_row_count = 0, sc_fps = Some {}, sc_bloom = Some (builder_new 3), sc_writes = 0\<rparr> = Inr st"
    "sc_bloom st = Some \<lparr>bd_ngram = 3, bd_seen = {0x62, 0x61}, bd_grams = [(0x61, 1), (0x62, 1)]\<rparr>" using logs_scan by blast
  obtain n s1 where main: "write_main logs_env logs_job spec logs_budgets (logs_store\<lparr>calls := 4\<rparr>) = (Inr (st, n), s1)"
    using spec(2,3) scan(1) by (auto simp: write_main_def and_then_def upload_def store_put_def store_get_def simp del: scan_loop.simps)
  obtain p s2 where post: "write_postings logs_env logs_job spec logs_budgets s1 = (Inr p, s2)" using logs_postings [OF spec(2)] by blast
  obtain b s3 where bloom: "write_bloom logs_env logs_job logs_budgets (sc_bloom st) s2 = (Inr b, s3)" unfolding scan(2) using logs_bloom by blast
  have bg: "for_permit 67108864 (merge_fixed_bytes sample_config) 8388608 = logs_budgets" by (simp add: logs_budgets_def)
  show ?thesis using logs_budgets_large spec(4)
    by (simp add: merge_stage_def est bg fetch anc expected schemas spec(1) main post bloom and_then_def merge_series_types_def Let_def
        word_le_nat_alt word_less_nat_alt del: fetch_metas.simps check_schemas.simps)
qed

theorem merged_sidecars_describe_rows_witness:
  "\<exists>bm body s' buf bloom. merge_stage logs_env logs_job logs_store = (Inr (bm, body), s') \<and> bm_row_count bm = 2 \<and>
     bm_all_fingerprints bm = Some [6, 8] \<and> objects s' (logs_path ''9'' ''body.bloom'') = Some buf \<and> from_bytes buf = Some bloom \<and>
     contains_pattern (me_hash logs_env) bloom [0x61, 0x62, 0x63] = Some True"
proof -
  obtain bm s' where stage: "merge_stage logs_env logs_job logs_store = (Inr (bm, [7]), s')" using logs_stage by blast
  obtain spec where spec: "spec_for (mj_signal logs_job) = Inr spec" "sp_fp_col spec \<noteq> None" "sp_body_col spec \<noteq> None" by (simp add: spec_for_def)
  have bodies: "scanned_bodies [logs_batch] = {[0x61, 0x62, 0x63, 0x64], [0x62, 0x63, 0x64]}" by (auto simp: scanned_bodies_def logs_batch_def)
  have free: "collision_free (me_hash logs_env) grams" for grams by (simp add: collision_free_def)
  have "{v. \<exists>b \<in> set [logs_batch]. Some v \<in> set (sb_fps b)} = {6, 8}" by (auto simp: logs_batch_def)
  then have fps: "sorted_list_of_set {v. \<exists>b \<in> set [logs_batch]. Some v \<in> set (sb_fps b)} = [6, 8]" by simp
  from merged_sidecars_describe_rows [OF stage spec(1)] obtain bs where bs: "[Inr logs_batch] = map (Inr :: _ \<Rightarrow> merge_error + _) bs"
    "bm_row_count bm = of_nat (length (concat (map sb_rows bs)))"
    "sp_fp_col spec \<noteq> None \<longrightarrow> bm_all_fingerprints bm = Some (sorted_list_of_set {v. \<exists>b \<in> set bs. Some v \<in> set (sb_fps b)})"
    "sp_body_col spec \<noteq> None \<longrightarrow> (\<exists>buf bloom. objects s' (out_path logs_env logs_job ''body.bloom'') = Some buf \<and> from_bytes buf = Some bloom \<and>
      (collision_free (me_hash logs_env) (grams_of (bd_ngram (builder_new (mj_bloom_ngram logs_job))) (scanned_bodies bs)) \<longrightarrow>
        (\<forall>us pat vs. us @ pat @ vs \<in> scanned_bodies bs \<longrightarrow> contains_pattern (me_hash logs_env) bloom pat = Some True)))"
    unfolding logs_simps(13) by (elim exE conjE) (rule that)
  from bs(1) have one: "bs = [logs_batch]" by (cases bs) auto
  from bs(4) spec(3) free obtain buf bloom where "objects s' (out_path logs_env logs_job ''body.bloom'') = Some buf" "from_bytes buf = Some bloom"
    and probe: "\<forall>us pat vs. us @ pat @ vs \<in> scanned_bodies bs \<longrightarrow> contains_pattern (me_hash logs_env) bloom pat = Some True"
    by (elim impE exE conjE) simp_all
  moreover have "bm_all_fingerprints bm = Some [6, 8]" using bs(3) spec(2) fps unfolding one by simp
  moreover have "bm_row_count bm = 2" using bs(2) by (simp add: one logs_batch_def)
  moreover from probe [rule_format, of "[]" "[0x61, 0x62, 0x63]" "[0x64]"] have "contains_pattern (me_hash logs_env) bloom [0x61, 0x62, 0x63] = Some True"
    by (simp add: bodies one)
  ultimately show ?thesis using stage
    by (intro exI [of _ bm] exI [of _ "[7]"] exI [of _ s'] exI [of _ buf] exI [of _ bloom]) simp
qed

end
