(* ===== verification/Compact_Engine.thy ===== *)
theory Compact_Engine
  imports Compact_Merge
begin

text \<open>
  Block lifecycle events, \<^verbatim>\<open>src/crates/block/src/events.rs\<close>, the progress counter of
  \<^verbatim>\<open>src/crates/block/src/fence.rs\<close>, and the compaction engine,
  \<^verbatim>\<open>src/crates/compact/src/engine.rs\<close>: the memory estimate of a merge, one partition
  from the first fence check to the reap, the reaping of superseded inputs, and a whole pass.

  What the engine changes is one record: the object store, the catalog of the instance and the
  events it has emitted. The clock readings, the fence checks, the answer of the admission, the
  UUID of the output and failing SQLite calls are inputs of each run. A duration is its number
  of nanoseconds. The partitions of a pass run one after the other, in the order of the plan.
\<close>

section \<open>Events\<close>

datatype block_event =
    Created block_meta
  | Superseded "uuid list" uuid block_meta u64
  | SoftDeleted string "uuid list" u64 u64
  | Deleted string "uuid list"

fun event_signal :: "block_event \<Rightarrow> string" where
  "event_signal (Created bm) = bm_signal bm"
| "event_signal (Superseded inputs by by_meta e) = bm_signal by_meta"
| "event_signal (SoftDeleted signal us t e) = signal"
| "event_signal (Deleted signal us) = signal"

record compaction_progress =
  cp_planned :: u64
  cp_completed :: u64

definition progress_start :: "nat \<Rightarrow> compaction_progress \<Rightarrow> compaction_progress" where
  "progress_start n p = p\<lparr>cp_planned := of_nat n, cp_completed := 0\<rparr>"

definition progress_tick :: "compaction_progress \<Rightarrow> compaction_progress" where
  "progress_tick p = p\<lparr>cp_completed := cp_completed p + 1\<rparr>"

definition progress_clear :: "compaction_progress \<Rightarrow> compaction_progress" where
  "progress_clear p = p\<lparr>cp_planned := 0, cp_completed := 0\<rparr>"

definition progress_snapshot :: "compaction_progress \<Rightarrow> u64 \<times> u64" where
  "progress_snapshot p = (cp_planned p, cp_completed p)"

record engine_state =
  es_store :: store
  es_cat :: catalog
  es_events :: "block_event list"

definition emit :: "block_event \<Rightarrow> engine_state \<Rightarrow> engine_state" where
  "emit ev st = st\<lparr>es_events := es_events st @ [ev]\<rparr>"

section \<open>The memory estimate\<close>

definition BODY_BLOOM_WORKING_SET_MULTIPLIER :: u64 where
  "BODY_BLOOM_WORKING_SET_MULTIPLIER = 160"

definition SIDECAR_DECODE_MULTIPLIER :: u64 where
  "SIDECAR_DECODE_MULTIPLIER = 3"

definition sidecar_size :: "u64 option \<Rightarrow> bool \<Rightarrow> u64 \<Rightarrow> u64" where
  "sidecar_size recorded present byte_size =
     (case recorded of Some n \<Rightarrow> n | None \<Rightarrow> if present then byte_size else 0)"

fun sidecar_sums :: "catalog_entry list \<Rightarrow> u64 \<Rightarrow> u64 \<Rightarrow> (u64 \<times> u64) option" where
  "sidecar_sums [] postings body_blooms = Some (postings, body_blooms)"
| "sidecar_sums (entry # entries) postings body_blooms =
     (let bm = e_meta entry;
          postings_size = sidecar_size (bm_postings_size_bytes bm) (bm_has_postings bm) (bm_byte_size bm);
          bloom_size = sidecar_size (bm_body_bloom_size_bytes bm) (bm_has_body_bloom bm) (bm_byte_size bm)
      in case (checked_add postings postings_size, checked_add body_blooms bloom_size) of
           (Some p, Some b) \<Rightarrow> sidecar_sums entries p b
         | _ \<Rightarrow> None)"

definition estimate_non_datafusion_bytes :: "planned_merge \<Rightarrow> resource_config \<Rightarrow> resource_error + u64" where
  "estimate_non_datafusion_bytes plan c =
     (let too_large = Inl (RequestTooLarge (- 1) (rc_non_datafusion_memory_bytes c))
      in case sidecar_sums (pm_inputs plan) 0 0 of
           None \<Rightarrow> too_large
         | Some (postings, body_blooms) \<Rightarrow>
             (let total =
                Option.bind (checked_mul postings SIDECAR_DECODE_MULTIPLIER) (\<lambda>bytes.
                Option.bind (checked_mul body_blooms BODY_BLOOM_WORKING_SET_MULTIPLIER) (\<lambda>bloom.
                Option.bind (checked_add bytes bloom) (\<lambda>bytes.
                Option.bind (checked_add bytes (merge_fixed_bytes c)) (\<lambda>bytes.
                checked_add bytes (meta_json_estimate (pm_inputs plan))))))
              in case total of None \<Rightarrow> too_large | Some n \<Rightarrow> Inr n))"

section \<open>Reaping superseded inputs\<close>

record compact_report =
  cr_merges :: nat
  cr_blocks_in :: nat
  cr_blocks_out :: nat
  cr_bytes_out :: u64
  cr_aborted :: nat
  cr_reaped :: nat
  cr_reap_failed :: nat
  cr_partition_failed :: nat
  cr_resource_failed :: nat
  cr_lease_held :: nat
  cr_lease_unavailable :: nat
  cr_oversized :: nat

definition compact_report_default :: compact_report where
  "compact_report_default = \<lparr>cr_merges = 0, cr_blocks_in = 0, cr_blocks_out = 0, cr_bytes_out = 0,
     cr_aborted = 0, cr_reaped = 0, cr_reap_failed = 0, cr_partition_failed = 0, cr_resource_failed = 0,
     cr_lease_held = 0, cr_lease_unavailable = 0, cr_oversized = 0\<rparr>"

definition delete_objects_of :: "merge_env \<Rightarrow> block_meta \<Rightarrow> store \<Rightarrow> (store_error + unit) \<times> store" where
  "delete_objects_of env bm s = delete_block_objects (me_ymd env) (me_ustr env) (me_oc env) bm s"

fun reap_pending ::
  "merge_env \<Rightarrow> (uuid \<Rightarrow> bool) \<Rightarrow> pending_reap list \<Rightarrow> compact_report \<Rightarrow> engine_state \<Rightarrow>
     compact_report \<times> engine_state" where
  "reap_pending env drop_fails [] report st = (report, st)"
| "reap_pending env drop_fails (reap # todo) report st =
     (let bm = e_meta (pr_entry reap)
      in case delete_objects_of env bm (es_store st) of
           (Inl _, s) \<Rightarrow>
             reap_pending env drop_fails todo (report\<lparr>cr_reap_failed := cr_reap_failed report + 1\<rparr>) (st\<lparr>es_store := s\<rparr>)
         | (Inr _, s) \<Rightarrow>
             if drop_fails (bm_uuid bm)
             then reap_pending env drop_fails todo (report\<lparr>cr_reap_failed := cr_reap_failed report + 1\<rparr>) (st\<lparr>es_store := s\<rparr>)
             else reap_pending env drop_fails todo (report\<lparr>cr_reaped := cr_reaped report + 1\<rparr>)
                    (emit (Deleted (bm_signal bm) [bm_uuid bm])
                      (st\<lparr>es_store := s, es_cat := delete_blocks [bm_uuid bm] (es_cat st)\<rparr>)))"

section \<open>One partition\<close>

datatype partition_outcome = PartitionMerged u64 | PartitionAborted

datatype partition_error = MergeFailed merge_error | CatalogFailed

fun is_resource_failure :: "partition_error \<Rightarrow> bool" where
  "is_resource_failure (MergeFailed (Resource _)) = True"
| "is_resource_failure _ = False"

definition absorb :: "partition_outcome \<Rightarrow> nat \<Rightarrow> compact_report \<Rightarrow> compact_report" where
  "absorb outcome inputs report = (case outcome of
     PartitionMerged bytes_out \<Rightarrow>
       report\<lparr>cr_merges := cr_merges report + 1, cr_blocks_in := cr_blocks_in report + inputs,
              cr_blocks_out := cr_blocks_out report + 1, cr_bytes_out := cr_bytes_out report + bytes_out\<rparr>
   | PartitionAborted \<Rightarrow> report\<lparr>cr_aborted := cr_aborted report + 1\<rparr>)"

text \<open>What one run of a partition is given by its surroundings.\<close>

record partition_run =
  pn_writer_id :: uuid
  pn_block_uuid :: uuid
  pn_admit :: "u64 \<Rightarrow> resource_error + u64"
  pn_fence_start :: bool
  pn_fence_commit :: bool
  pn_fence_ticks :: "bool list"
  pn_fence_reap :: bool
  pn_observed_at :: int
  pn_now :: u64
  pn_reap_now :: u64
  pn_apply_fails :: bool
  pn_drop_fails :: "uuid \<Rightarrow> bool"
  pn_list_fails :: bool

definition partition_job ::
  "resource_config \<Rightarrow> nat \<Rightarrow> planned_merge \<Rightarrow> partition_run \<Rightarrow> u64 \<Rightarrow> merge_job" where
  "partition_job c bloom_ngram plan pn units =
     \<lparr>mj_signal = pm_signal plan, mj_inputs = pm_inputs plan, mj_out_level = output_level plan,
      mj_writer_id = pn_writer_id pn, mj_block_uuid = pn_block_uuid pn, mj_bloom_ngram = bloom_ngram,
      mj_config = c, mj_admitted = reserved_bytes units\<rparr>"

text \<open>Everything after the commit of the sidecar.\<close>

definition publish_partition ::
  "merge_env \<Rightarrow> compact_config \<Rightarrow> planned_merge \<Rightarrow> partition_run \<Rightarrow> block_meta \<Rightarrow> engine_state \<Rightarrow>
     (partition_error + partition_outcome) \<times> engine_state" where
  "publish_partition env cfg plan pn merged st =
     (let input_uuids = map (\<lambda>e. bm_uuid (e_meta e)) (pm_inputs plan);
          eligible_at = sat_add (pn_now pn) (cc_grace_nanos cfg)
      in if pn_apply_fails pn then (Inl CatalogFailed, st)
         else
           (let cat = snd (apply_compaction (me_ymd env) (pn_observed_at pn) merged input_uuids eligible_at (es_cat st));
                st1 = emit (Superseded input_uuids (bm_uuid merged) merged eligible_at)
                        (emit (Created merged) (st\<lparr>es_cat := cat\<rparr>));
                outcome = PartitionMerged (bm_byte_size merged)
            in if \<not> (cc_grace_nanos cfg = 0 \<and> pn_fence_reap pn) then (Inr outcome, st1)
               else if pn_list_fails pn then (Inl CatalogFailed, st1)
               else (Inr outcome, snd (reap_pending env (pn_drop_fails pn)
                       (list_pending_reaps (es_cat st1) (pn_reap_now pn)) compact_report_default st1))))"

definition compact_partition ::
  "merge_env \<Rightarrow> compact_config \<Rightarrow> resource_config \<Rightarrow> nat \<Rightarrow> planned_merge \<Rightarrow> partition_run \<Rightarrow> engine_state \<Rightarrow>
     (partition_error + partition_outcome) \<times> engine_state" where
  "compact_partition env cfg c bloom_ngram plan pn st =
     (if \<not> pn_fence_start pn then (Inr PartitionAborted, st)
      else case estimate_non_datafusion_bytes plan c of
        Inl e \<Rightarrow> (Inl (MergeFailed (Resource e)), st)
      | Inr estimated \<Rightarrow>
          (case pn_admit pn estimated of
             Inl e \<Rightarrow> (Inl (MergeFailed (Resource e)), st)
           | Inr units \<Rightarrow>
               (case merge_blocks env (partition_job c bloom_ngram plan pn units)
                       (pn_fence_commit pn) (pn_fence_ticks pn) (es_store st) of
                  (Inl e, s) \<Rightarrow> (Inl (MergeFailed e), st\<lparr>es_store := s\<rparr>)
                | (Inr None, s) \<Rightarrow> (Inr PartitionAborted, st\<lparr>es_store := s\<rparr>)
                | (Inr (Some merged), s) \<Rightarrow> publish_partition env cfg plan pn merged (st\<lparr>es_store := s\<rparr>))))"

section \<open>A pass of a single instance\<close>

text \<open>The fence of a single instance always holds.\<close>

definition always_valid :: "partition_run \<Rightarrow> partition_run" where
  "always_valid pn = pn\<lparr>pn_fence_start := True, pn_fence_commit := True,
     pn_fence_ticks := map (\<lambda>_. True) (pn_fence_ticks pn), pn_fence_reap := True\<rparr>"

definition absorb_result ::
  "partition_error + partition_outcome \<Rightarrow> nat \<Rightarrow> compact_report \<Rightarrow> compact_report" where
  "absorb_result result inputs report = (case result of
     Inr outcome \<Rightarrow> absorb outcome inputs report
   | Inl e \<Rightarrow> if is_resource_failure e then report\<lparr>cr_resource_failed := cr_resource_failed report + 1\<rparr>
             else report\<lparr>cr_partition_failed := cr_partition_failed report + 1\<rparr>)"

fun run_partitions ::
  "merge_env \<Rightarrow> compact_config \<Rightarrow> resource_config \<Rightarrow> nat \<Rightarrow> (planned_merge \<times> partition_run) list \<Rightarrow>
     compact_report \<Rightarrow> engine_state \<Rightarrow> compact_report \<times> engine_state" where
  "run_partitions env cfg c bloom_ngram [] report st = (report, st)"
| "run_partitions env cfg c bloom_ngram ((plan, pn) # runs) report st =
     (case compact_partition env cfg c bloom_ngram plan (always_valid pn) st of
        (result, st') \<Rightarrow>
          run_partitions env cfg c bloom_ngram runs (absorb_result result (length (pm_inputs plan)) report) st')"

text \<open>\<open>runs\<close> gives the surroundings of the run of every planned merge, and \<open>list_fails\<close> says whether one
  of the two catalog queries at the start fails; the single-instance pass emits to a sink that
  discards its events.\<close>

datatype pass_error = InvalidPolicy policy_error | CatalogUnreadable

definition compact_once ::
  "merge_env \<Rightarrow> compact_config \<Rightarrow> resource_config \<Rightarrow> nat \<Rightarrow> u64 \<Rightarrow> bool \<Rightarrow> (uuid \<Rightarrow> bool) \<Rightarrow> (nat \<Rightarrow> partition_run) \<Rightarrow>
     engine_state \<Rightarrow> (pass_error + compact_report) \<times> engine_state" where
  "compact_once env cfg c bloom_ngram now list_fails drop_fails runs st =
     (case compact_config_validate cfg of
        Inl e \<Rightarrow> (Inl (InvalidPolicy e), st)
      | Inr _ \<Rightarrow>
          if list_fails then (Inl CatalogUnreadable, st)
          else (let plan = plan_merges (list_blocks (es_cat st)) cfg;
               report = compact_report_default\<lparr>cr_oversized := length (oversized plan)\<rparr>
           in case reap_pending env drop_fails (list_pending_reaps (es_cat st) now) report st of
                (report, st1) \<Rightarrow>
                  (case run_partitions env cfg c bloom_ngram
                          (map (\<lambda>(i, p). (p, runs i)) (enumerate 0 (merges plan))) report st1 of
                     (report, st2) \<Rightarrow> (Inr report, st2\<lparr>es_events := es_events st\<rparr>))))"

end
