(* ===== verification/Pipeline.thy ===== *)
theory Pipeline
  imports Builder Wal Compact_Engine
begin

text \<open>
  The ingest pipeline of one signal and shard, \<^verbatim>\<open>src/crates/server/src/pipeline.rs\<close>: write-ahead log,
  open builder, background uploads, and the recovery of left-over segments at start. It is generic in
  the builder (\<open>builder_ops\<close>) and in the decoder of the signal, as the code is. Redaction and the
  stamping of log batches (\<^verbatim>\<open>src/crates/proto\<close>), SHA-256 and CRC-32 are arguments. Metrics, log lines and
  the upload gauges are left out; the readings of clock and load are arguments.
\<close>

section \<open>What the pipeline calls\<close>

record 'b pipeline_env =
  pe_ops :: "'b builder_ops"
  pe_decode :: "bytes \<Rightarrow> 'b \<Rightarrow> (bin_error + nat) \<times> 'b"
  pe_redact_logs_v2 :: "bytes \<Rightarrow> bytes option"
  pe_redact_logs_v1 :: "bytes \<Rightarrow> bytes option"
  pe_redact_traces_v1 :: "bytes \<Rightarrow> bytes option"
  pe_stamp_logs_v2 :: "bytes \<Rightarrow> u64 \<Rightarrow> bytes option"
  pe_sha256 :: "bytes \<Rightarrow> bytes"
  pe_crc :: "bytes \<Rightarrow> u32"
  pe_ymd :: "u64 \<Rightarrow> string \<times> string \<times> string"

datatype pipeline_error =
    WalFailed wal_error
  | RedactFailed
  | DecodeFailed bin_error
  | UploadFailed upload_error
  | NoBlock
  | ReleaseFailed

definition MAX_INFLIGHT_UPLOADS :: nat where
  "MAX_INFLIGHT_UPLOADS = 2"

definition LOGS_BATCH_V2_MAGIC :: u32 where
  "LOGS_BATCH_V2_MAGIC = 0x534C3200"

definition has_logs_v2_magic :: "bytes \<Rightarrow> bool" where
  "has_logs_v2_magic payload \<longleftrightarrow> 4 \<le> length payload \<and> from_be_bytes (take 4 payload) = LOGS_BATCH_V2_MAGIC"

definition redact_replayed_payload :: "'b pipeline_env \<Rightarrow> string \<Rightarrow> bytes \<Rightarrow> bytes option" where
  "redact_replayed_payload env signal payload =
     (if signal = ''logs'' \<and> has_logs_v2_magic payload then pe_redact_logs_v2 env payload
      else if signal = ''logs'' then pe_redact_logs_v1 env payload
      else if signal = ''traces'' then pe_redact_traces_v1 env payload
      else Some payload)"

definition ADAPTIVE_DENSE_LEVEL :: int where
  "ADAPTIVE_DENSE_LEVEL = 3"

definition ADAPTIVE_FAST_LEVEL :: int where
  "ADAPTIVE_FAST_LEVEL = 1"

text \<open>The second argument says whether the load per core, if known, is at or above the busy mark.\<close>

definition decide_adaptive_level :: "bool \<Rightarrow> bool option \<Rightarrow> int" where
  "decide_adaptive_level upload_saturated load_busy =
     (if upload_saturated then ADAPTIVE_DENSE_LEVEL
      else case load_busy of Some True \<Rightarrow> ADAPTIVE_FAST_LEVEL | _ \<Rightarrow> ADAPTIVE_DENSE_LEVEL)"

section \<open>State\<close>

record 'b pipeline =
  pl_wal :: wal
  pl_builder :: 'b
  pl_writer_uuid :: uuid
  pl_cfg :: block_builder_config
  pl_adaptive_compression :: bool
  pl_block_started_at :: "u64 option"
  pl_shard_index :: u32
  pl_block_low_seg :: u64

text \<open>An upload task owns the old builder and its range of segments.\<close>

datatype upload_phase = Encoding | Landed block_meta | Released block_meta

record 'b upload_task =
  ut_builder :: 'b
  ut_low :: u64
  ut_sealed :: u64
  ut_phase :: upload_phase

section \<open>Live ingest\<close>

text \<open>
  \<open>spawn_upload\<close> once its permit is granted; \<open>free_after\<close> is the number of permits left then.
\<close>

definition adaptive_level :: "nat \<Rightarrow> bool option \<Rightarrow> int" where
  "adaptive_level free_after load_busy = decide_adaptive_level (free_after = 0) load_busy"

definition spawn_upload ::
  "'b pipeline_env \<Rightarrow> nat \<Rightarrow> bool option \<Rightarrow> 'b pipeline \<Rightarrow> (pipeline_error + 'b upload_task option) \<times> 'b pipeline" where
  "spawn_upload env free_after load_busy pl =
     (let ops = pe_ops env in
      if bo_is_empty ops (pl_builder pl) then (Inr None, pl)
      else case wal_rotate (pl_wal pl) of
        (Inl e, wal') \<Rightarrow> (Inl (WalFailed e), pl\<lparr>pl_wal := wal'\<rparr>)
      | (Inr seq, wal') \<Rightarrow>
          (let low_seg = pl_block_low_seg pl;
               old1 = (if pl_adaptive_compression pl
                       then bo_set_compression_level ops (adaptive_level free_after load_busy) (pl_builder pl)
                       else pl_builder pl);
               old2 = bo_set_wal_shard ops (pl_shard_index pl) (bo_set_wal_seg_max ops seq old1)
           in (Inr (Some \<lparr>ut_builder = old2, ut_low = low_seg, ut_sealed = seq, ut_phase = Encoding\<rparr>),
               pl\<lparr>pl_wal := wal', pl_block_low_seg := seq + 1,
                  pl_builder := bo_new ops (pl_writer_uuid pl) (pl_cfg pl), pl_block_started_at := None\<rparr>)))"

definition mark_block_started :: "'b pipeline_env \<Rightarrow> u64 \<Rightarrow> 'b pipeline \<Rightarrow> 'b pipeline" where
  "mark_block_started env now pl =
     (if pl_block_started_at pl = None \<and> \<not> bo_is_empty (pe_ops env) (pl_builder pl)
      then pl\<lparr>pl_block_started_at := Some now\<rparr> else pl)"

definition schema_boundary :: "'b pipeline_env \<Rightarrow> 'b \<Rightarrow> 'b \<Rightarrow> bool" where
  "schema_boundary env builder scratch \<longleftrightarrow>
     \<not> bo_is_empty (pe_ops env) builder \<and> \<not> bo_is_empty (pe_ops env) scratch \<and>
     bo_content_schema_key (pe_ops env) builder \<noteq> bo_content_schema_key (pe_ops env) scratch"

text \<open>The middle of an ingest: the frame is appended, and only then the scratch builder merged.\<close>

definition commit_batch ::
  "'b pipeline_env \<Rightarrow> u64 \<Rightarrow> bytes \<Rightarrow> 'b \<Rightarrow> 'b pipeline \<Rightarrow> (pipeline_error + u64) \<times> 'b pipeline \<times> 'b" where
  "commit_batch env now payload scratch pl =
     (let seg = current_seq (pl_wal pl)
      in case wal_append (pe_crc env) (pl_wal pl) payload of
           (Inl e, wal') \<Rightarrow> (Inl (WalFailed e), pl\<lparr>pl_wal := wal'\<rparr>, scratch)
         | (Inr _, wal') \<Rightarrow>
             (case bo_merge (pe_ops env) (pl_builder pl) scratch of
                (builder', scratch') \<Rightarrow>
                  (Inr seg, mark_block_started env now (pl\<lparr>pl_wal := wal', pl_builder := builder'\<rparr>), scratch')))"

text \<open>A whole ingest of a decoded batch when permits are free, with the tasks it spawned.\<close>

definition ingest_decoded ::
  "'b pipeline_env \<Rightarrow> u64 \<Rightarrow> nat \<Rightarrow> bool option \<Rightarrow> bytes \<Rightarrow> 'b \<Rightarrow> 'b pipeline \<Rightarrow>
     (pipeline_error + u64) \<times> 'b upload_task list \<times> 'b pipeline \<times> 'b" where
  "ingest_decoded env now free_after load_busy payload scratch pl =
     (case (if schema_boundary env (pl_builder pl) scratch then spawn_upload env free_after load_busy pl else (Inr None, pl)) of
        (Inl e, pl1) \<Rightarrow> (Inl e, [], pl1, scratch)
      | (Inr t1, pl1) \<Rightarrow>
          (case commit_batch env now payload scratch pl1 of
             (Inl e, pl2, scratch2) \<Rightarrow> (Inl e, case_option [] (\<lambda>t. [t]) t1, pl2, scratch2)
           | (Inr seg, pl2, scratch2) \<Rightarrow>
               (case (if bo_should_close (pe_ops env) (pl_builder pl2) then spawn_upload env (free_after - 1) load_busy pl2
                      else (Inr None, pl2)) of
                  (Inl e, pl3) \<Rightarrow> (Inl e, case_option [] (\<lambda>t. [t]) t1, pl3, scratch2)
                | (Inr t2, pl3) \<Rightarrow> (Inr seg, case_option [] (\<lambda>t. [t]) t1 @ case_option [] (\<lambda>t. [t]) t2, pl3, scratch2))))"

text \<open>Direct ingest transforms and decodes the payload first, and commits only what decoded completely.\<close>

definition ingest_at ::
  "'b pipeline_env \<Rightarrow> u64 \<Rightarrow> nat \<Rightarrow> bool option \<Rightarrow> bytes \<Rightarrow> u64 \<Rightarrow> 'b pipeline \<Rightarrow>
     (pipeline_error + nat) \<times> 'b upload_task list \<times> 'b pipeline" where
  "ingest_at env now free_after load_busy payload received_ns pl =
     (let ops = pe_ops env;
          is_logs_v2 = (bo_signal ops = ''logs'' \<and> has_logs_v2_magic payload)
      in case (if is_logs_v2 then pe_stamp_logs_v2 env payload received_ns
               else redact_replayed_payload env (bo_signal ops) payload) of
           None \<Rightarrow> (Inl RedactFailed, [], pl)
         | Some transformed \<Rightarrow>
             (case pe_decode env transformed (bo_new ops (pl_writer_uuid pl) (pl_cfg pl)) of
                (Inl e, _) \<Rightarrow> (Inl (DecodeFailed e), [], pl)
              | (Inr n, scratch) \<Rightarrow>
                  (case ingest_decoded env now free_after load_busy transformed scratch pl of
                     (Inl e, tasks, pl', _) \<Rightarrow> (Inl e, tasks, pl')
                   | (Inr _, tasks, pl', _) \<Rightarrow> (Inr n, tasks, pl'))))"

definition block_aged :: "'b pipeline_env \<Rightarrow> u64 \<Rightarrow> u64 \<Rightarrow> 'b pipeline \<Rightarrow> bool" where
  "block_aged env now max_age pl \<longleftrightarrow>
     \<not> bo_is_empty (pe_ops env) (pl_builder pl) \<and>
     (case pl_block_started_at pl of None \<Rightarrow> True | Some t \<Rightarrow> now - t \<ge> max_age)"

definition flush_if_aged ::
  "'b pipeline_env \<Rightarrow> u64 \<Rightarrow> u64 \<Rightarrow> nat \<Rightarrow> bool option \<Rightarrow> 'b pipeline \<Rightarrow>
     (pipeline_error + bool) \<times> 'b upload_task option \<times> 'b pipeline" where
  "flush_if_aged env now max_age free_after load_busy pl =
     (if \<not> block_aged env now max_age pl then (Inr False, None, pl)
      else case spawn_upload env free_after load_busy pl of
        (Inl e, pl') \<Rightarrow> (Inl e, None, pl')
      | (Inr t, pl') \<Rightarrow> (Inr True, t, pl'))"

section \<open>The upload task\<close>

text \<open>
  The three stretches of \<open>run_upload\<close> between its waits. A release whose \<open>n\<close>-th unlink fails leaves the
  rest of the range; the task goes on.
\<close>

fun release_until :: "nat option \<Rightarrow> u64 \<Rightarrow> u64 \<Rightarrow> dir \<Rightarrow> bool \<times> dir" where
  "release_until budget lo hi [] = (True, [])"
| "release_until budget lo hi (f # d) =
     (if releasable lo hi (fst f) then
        (case budget of
           None \<Rightarrow> release_until None lo hi d
         | Some 0 \<Rightarrow> (False, f # d)
         | Some (Suc n) \<Rightarrow> release_until (Some n) lo hi d)
      else (case release_until budget lo hi d of (ok, d') \<Rightarrow> (ok, f # d')))"

definition upload_encode ::
  "'b pipeline_env \<Rightarrow> uuid \<Rightarrow> (nat \<Rightarrow> call_outcome) \<Rightarrow> 'b upload_task \<Rightarrow> store \<Rightarrow> 'b upload_task option \<times> store" where
  "upload_encode env now_v7 oc t s =
     (case bo_finish_and_upload (pe_ops env) now_v7 oc (ut_builder t) s of
        (Inr (Some bm), s') \<Rightarrow> (Some (t\<lparr>ut_phase := Landed bm\<rparr>), s')
      | (Inr None, s') \<Rightarrow> (None, s')
      | (Inl e, s') \<Rightarrow> (None, s'))"

definition upload_release :: "nat option \<Rightarrow> block_meta \<Rightarrow> 'b upload_task \<Rightarrow> wal \<Rightarrow> 'b upload_task \<times> wal" where
  "upload_release unlinks bm t w =
     (t\<lparr>ut_phase := Released bm\<rparr>,
      case prepare_release w (ut_sealed t) of
        Inl _ \<Rightarrow> w
      | Inr _ \<Rightarrow> w\<lparr>files := snd (release_until unlinks (ut_low t) (ut_sealed t) (files w))\<rparr>)"

definition upload_publish ::
  "'b pipeline_env \<Rightarrow> bool \<Rightarrow> int \<Rightarrow> block_meta \<Rightarrow> catalog option \<Rightarrow> catalog option" where
  "upload_publish env insert_ok observed_at bm cat =
     (case cat of
        None \<Rightarrow> None
      | Some c \<Rightarrow> Some (if insert_ok then snd (insert_block (pe_ymd env) observed_at c bm) else c))"

section \<open>Recovery at start\<close>

text \<open>\<open>rc_uploaded\<close> is no field of the program: it keeps the uploaded blocks, each with the store as it then was.\<close>

record 'b recovery =
  rc_builder :: 'b
  rc_scratch :: 'b
  rc_hashed :: bytes
  rc_store :: store
  rc_catalog :: "catalog option"
  rc_events :: "block_event list"
  rc_uploaded :: "(block_meta \<times> store) list"

definition ascii :: "string \<Rightarrow> bytes" where
  "ascii s = map of_char s"

definition recovery_block_uuid :: "'b pipeline_env \<Rightarrow> uuid \<Rightarrow> string \<Rightarrow> u32 \<Rightarrow> bytes \<Rightarrow> uuid" where
  "recovery_block_uuid env writer signal shard prefix_digest =
     (let digest = pe_sha256 env (ascii ''scry-wal-recovery-v2'' @ [0] @ to_be_bytes writer @ ascii signal
                                    @ to_be_bytes shard @ prefix_digest);
          bs = take 16 digest;
          bs1 = bs[6 := or (and (bs ! 6) 0x0F) 0x40];
          bs2 = bs1[8 := or (and (bs1 ! 8) 0x3F) 0x80]
      in from_be_bytes bs2)"

text \<open>What a start is given: identity, configuration, the answers of store and catalog, the clock, and whether there is a sink.\<close>

record start_args =
  sa_writer_uuid :: uuid
  sa_cfg :: block_builder_config
  sa_shard_index :: u32
  sa_oc :: "nat \<Rightarrow> call_outcome"
  sa_now_v7 :: uuid
  sa_insert_ok :: "block_meta \<Rightarrow> bool"
  sa_watermark_ok :: bool
  sa_observed_at :: int
  sa_event_sink :: bool
  sa_unlinks :: "nat option"

definition upload_replay_block ::
  "'b pipeline_env \<Rightarrow> start_args \<Rightarrow> u64 option \<Rightarrow> 'b recovery \<Rightarrow> (pipeline_error + unit) \<times> 'b recovery" where
  "upload_replay_block env sa replay_high st =
     (let ops = pe_ops env;
          block_uuid = recovery_block_uuid env (sa_writer_uuid sa) (bo_signal ops) (sa_shard_index sa)
                         (pe_sha256 env (rc_hashed st));
          recovery1 = bo_set_block_uuid ops block_uuid (rc_builder st);
          recovery2 = (case replay_high of
                         None \<Rightarrow> recovery1
                       | Some high \<Rightarrow> bo_set_wal_shard ops (sa_shard_index sa) (bo_set_wal_seg_max ops high recovery1));
          st1 = st\<lparr>rc_builder := bo_new ops (sa_writer_uuid sa) (sa_cfg sa)\<rparr>
      in case bo_finish_and_upload ops (sa_now_v7 sa) (sa_oc sa) recovery2 (rc_store st) of
           (Inl e, s') \<Rightarrow> (Inl (UploadFailed e), st1\<lparr>rc_store := s'\<rparr>)
         | (Inr None, s') \<Rightarrow> (Inl NoBlock, st1\<lparr>rc_store := s'\<rparr>)
         | (Inr (Some bm), s') \<Rightarrow>
             (Inr (), st1\<lparr>rc_store := s',
                rc_catalog := upload_publish env (sa_insert_ok sa bm) (sa_observed_at sa) bm (rc_catalog st),
                rc_events := rc_events st @ (if sa_event_sink sa then [Created bm] else []),
                rc_uploaded := rc_uploaded st @ [(bm, s')]\<rparr>))"

definition replay_frame ::
  "'b pipeline_env \<Rightarrow> start_args \<Rightarrow> bytes \<Rightarrow> 'b recovery \<Rightarrow> (pipeline_error + unit) \<times> 'b recovery" where
  "replay_frame env sa wal_payload st =
     (let ops = pe_ops env
      in case redact_replayed_payload env (bo_signal ops) wal_payload of
           None \<Rightarrow> (Inl RedactFailed, st)
         | Some payload \<Rightarrow>
             (case pe_decode env payload (rc_scratch st) of
                (Inl e, scratch) \<Rightarrow> (Inl (DecodeFailed e), st\<lparr>rc_scratch := bo_reset ops scratch\<rparr>)
              | (Inr n, scratch) \<Rightarrow>
                  (case (if schema_boundary env (rc_builder st) scratch then upload_replay_block env sa None st else (Inr (), st)) of
                     (Inl e, st1) \<Rightarrow> (Inl e, st1)
                   | (Inr _, st1) \<Rightarrow>
                       (case bo_merge ops (rc_builder st1) scratch of
                          (builder', scratch') \<Rightarrow>
                            (let st2 = st1\<lparr>rc_builder := builder', rc_scratch := scratch',
                                   rc_hashed := rc_hashed st1 @ to_be_bytes (of_nat (length payload) :: u64) @ payload\<rparr>
                             in if bo_should_close ops builder' then upload_replay_block env sa None st2 else (Inr (), st2))))))"

fun replay_frames ::
  "'b pipeline_env \<Rightarrow> start_args \<Rightarrow> bytes list \<Rightarrow> 'b recovery \<Rightarrow> (pipeline_error + unit) \<times> 'b recovery" where
  "replay_frames env sa [] st = (Inr (), st)"
| "replay_frames env sa (p # ps) st =
     (case replay_frame env sa p st of
        (Inl e, st') \<Rightarrow> (Inl e, st')
      | (Inr _, st') \<Rightarrow> replay_frames env sa ps st')"

text \<open>From the replay to the last recovery block; \<open>e\<close> is how the iterator ended.\<close>

definition recover ::
  "'b pipeline_env \<Rightarrow> start_args \<Rightarrow> u64 option \<Rightarrow> bytes list \<times> wal_error option \<Rightarrow> 'b recovery \<Rightarrow>
     (pipeline_error + unit) \<times> 'b recovery" where
  "recover env sa replay_high frames st =
     (case replay_frames env sa (fst frames) st of
        (Inl err, st1) \<Rightarrow> (Inl err, st1)
      | (Inr _, st1) \<Rightarrow>
          (case snd frames of
             Some err \<Rightarrow> (Inl (WalFailed err), st1)
           | None \<Rightarrow>
               (if bo_is_empty (pe_ops env) (rc_builder st1) then (Inr (), st1)
                else upload_replay_block env sa replay_high st1)))"

definition fresh_recovery :: "'b pipeline_env \<Rightarrow> start_args \<Rightarrow> store \<Rightarrow> catalog option \<Rightarrow> 'b recovery" where
  "fresh_recovery env sa s cat =
     (let b = bo_new (pe_ops env) (sa_writer_uuid sa) (sa_cfg sa)
      in \<lparr>rc_builder = b, rc_scratch = b, rc_hashed = [], rc_store = s, rc_catalog = cat, rc_events = [], rc_uploaded = []\<rparr>)"

definition opened_pipeline :: "start_args \<Rightarrow> wal \<Rightarrow> 'b \<Rightarrow> 'b pipeline" where
  "opened_pipeline sa w b = \<lparr>pl_wal = w, pl_builder = b, pl_writer_uuid = sa_writer_uuid sa, pl_cfg = sa_cfg sa,
     pl_adaptive_compression = False, pl_block_started_at = None, pl_shard_index = sa_shard_index sa,
     pl_block_low_seg = current_seq w\<rparr>"

text \<open>The result, the recovery state, and the log as the start leaves it (none if even opening it failed).\<close>

definition open_pipeline ::
  "'b pipeline_env \<Rightarrow> start_args \<Rightarrow> dir \<Rightarrow> store \<Rightarrow> catalog option \<Rightarrow>
     (pipeline_error + 'b pipeline) \<times> 'b recovery \<times> wal option" where
  "open_pipeline env sa d s cat =
     (let st = fresh_recovery env sa s cat
      in case wal_open DEFAULT_MAX_SEGMENT_BYTES d of
           Inl e \<Rightarrow> (Inl (WalFailed e), st, None)
         | Inr w \<Rightarrow>
             (let replay_high = checked_sub (current_seq w) 1
              in case recover env sa replay_high (replay_all (pe_crc env) (wal_replay w)) st of
                   (Inl e, st1) \<Rightarrow> (Inl e, st1, Some w)
                 | (Inr _, st1) \<Rightarrow>
                     (case replay_high of
                        None \<Rightarrow> (Inr (opened_pipeline sa w (rc_builder st1)), st1, Some w)
                      | Some high \<Rightarrow>
                          (case prepare_release w high of
                             Inl e \<Rightarrow> (Inl (WalFailed e), st1, Some w)
                           | Inr _ \<Rightarrow>
                               (case release_until (sa_unlinks sa) 0 high (files w) of
                                  (False, d') \<Rightarrow> (Inl ReleaseFailed, st1, Some (w\<lparr>files := d'\<rparr>))
                                | (True, d') \<Rightarrow>
                                    (let st2 = st1\<lparr>rc_catalog := (if sa_watermark_ok sa
                                           then map_option (advance_watermark (sa_writer_uuid sa) (bo_signal (pe_ops env))
                                                              (sa_shard_index sa) high) (rc_catalog st1)
                                           else rc_catalog st1)\<rparr>
                                     in (Inr (opened_pipeline sa (w\<lparr>files := d'\<rparr>) (rc_builder st2)), st2, Some (w\<lparr>files := d'\<rparr>))))))))"

section \<open>Shards\<close>

definition INGEST_SHARDS :: nat where
  "INGEST_SHARDS = 8"

text \<open>The shard of a session, an index of the list; the modulus is never zero since opening asserts a shard.\<close>

definition shard_for :: "'p list \<Rightarrow> u64 \<Rightarrow> nat" where
  "shard_for shards session_id = unat session_id mod length shards"

end
