(* ===== verification/Ingest.thy ===== *)
theory Ingest
  imports Pipeline "HOL-Library.Multiset"
begin

text \<open>
  One ingest shard over its whole life as a system of steps: batches in their stages, background
  uploads in theirs, any number of them at once, crashes at any point, failing and repeated starts, and
  changes that others make to the bucket and the catalog at any time. It shows that a frame leaves the
  disk only after a complete block with its records is in the bucket.

  The system keeps four records the program has not: the frames each segment was given and a crash
  has not torn off, the frames torn off, the batches acknowledged, and the uploaded blocks with the
  store as it then was.
\<close>

section \<open>The system\<close>

text \<open>Where the ingest that holds the pipeline lock is: before the append, or after it.\<close>

datatype 'b ingest_op = Committing bytes 'b | Closing u64 bytes

record 'b world =
  iw_disk :: dir
  iw_pipe :: "'b pipeline option"
  iw_op :: "'b ingest_op option"
  iw_tasks :: "'b upload_task list"
  iw_store :: store
  iw_catalog :: "catalog option"
  iw_events :: "block_event list"
  iw_frames :: "u64 \<Rightarrow> bytes list"
  iw_acked :: "(u64 \<times> bytes) list"
  iw_torn :: "(u64 \<times> bytes) set"
  iw_landed :: "(block_meta \<times> store) list"

definition new_world :: "store \<Rightarrow> catalog option \<Rightarrow> 'b world" where
  "new_world s cat = \<lparr>iw_disk = [], iw_pipe = None, iw_op = None, iw_tasks = [], iw_store = s, iw_catalog = cat,
     iw_events = [], iw_frames = (\<lambda>_. []), iw_acked = [], iw_torn = {}, iw_landed = []\<rparr>"

text \<open>
  A start that fails leaves the log it opened on disk, with its new empty segment. A crash keeps some
  prefix of the bytes of the active segment.
\<close>

definition after_start ::
  "'b world \<Rightarrow> (pipeline_error + 'b pipeline) \<times> 'b recovery \<times> wal option \<Rightarrow> 'b world" where
  "after_start w res =
     (case res of (r, st, wl) \<Rightarrow>
        w\<lparr>iw_pipe := (case r of Inr pl \<Rightarrow> Some pl | Inl _ \<Rightarrow> None),
          iw_disk := (case wl of Some x \<Rightarrow> crash 0 x | None \<Rightarrow> iw_disk w),
          iw_op := None, iw_tasks := [], iw_store := rc_store st, iw_catalog := rc_catalog st,
          iw_events := iw_events w @ rc_events st, iw_landed := iw_landed w @ rc_uploaded st\<rparr>)"

definition torn :: "nat \<Rightarrow> wal \<Rightarrow> (u64 \<Rightarrow> bytes list) \<Rightarrow> u64 \<Rightarrow> bytes list" where
  "torn k x frames = frames(current_seq x := take (whole_frames k (frames (current_seq x))) (frames (current_seq x)))"

definition torn_off :: "nat \<Rightarrow> wal \<Rightarrow> (u64 \<Rightarrow> bytes list) \<Rightarrow> (u64 \<times> bytes) set" where
  "torn_off k x frames = Pair (current_seq x) ` set (drop (whole_frames k (frames (current_seq x))) (frames (current_seq x)))"

definition emitted :: "bool \<Rightarrow> block_meta \<Rightarrow> block_event list" where
  "emitted sink bm = (if sink then [Created bm] else [])"

inductive ingest_step :: "'b pipeline_env \<Rightarrow> start_args \<Rightarrow> nat \<Rightarrow> 'b world \<Rightarrow> 'b world \<Rightarrow> bool" for env base cap where
  start: "iw_pipe w = None \<Longrightarrow> sa_writer_uuid sa = sa_writer_uuid base \<Longrightarrow> sa_cfg sa = sa_cfg base \<Longrightarrow>
    sa_shard_index sa = sa_shard_index base \<Longrightarrow>
    ingest_step env base cap w (after_start w (open_pipeline env sa (iw_disk w) (iw_store w) (iw_catalog w)))"
| crash: "iw_pipe w = Some pl \<Longrightarrow>
    ingest_step env base cap w (w\<lparr>iw_pipe := None, iw_op := None, iw_tasks := [], iw_disk := crash k (pl_wal pl),
      iw_frames := torn k (pl_wal pl) (iw_frames w), iw_torn := iw_torn w \<union> torn_off k (pl_wal pl) (iw_frames w)\<rparr>)"
| begin_batch: "iw_pipe w = Some pl \<Longrightarrow> iw_op w = None \<Longrightarrow>
    pe_decode env payload (bo_new (pe_ops env) (pl_writer_uuid pl) (pl_cfg pl)) = (Inr n, scratch) \<Longrightarrow>
    \<not> schema_boundary env (pl_builder pl) scratch \<Longrightarrow>
    ingest_step env base cap w (w\<lparr>iw_op := Some (Committing payload scratch)\<rparr>)"
| begin_boundary: "iw_pipe w = Some pl \<Longrightarrow> iw_op w = None \<Longrightarrow>
    pe_decode env payload (bo_new (pe_ops env) (pl_writer_uuid pl) (pl_cfg pl)) = (Inr n, scratch) \<Longrightarrow>
    schema_boundary env (pl_builder pl) scratch \<Longrightarrow> length (iw_tasks w) < cap \<Longrightarrow>
    spawn_upload env free_after load_busy pl = (r, pl') \<Longrightarrow>
    ingest_step env base cap w (w\<lparr>iw_pipe := Some pl',
      iw_tasks := iw_tasks w @ (case r of Inr (Some t) \<Rightarrow> [t] | _ \<Rightarrow> []),
      iw_op := (if isl r then None else Some (Committing payload scratch))\<rparr>)"
| commit: "iw_pipe w = Some pl \<Longrightarrow> iw_op w = Some (Committing payload scratch) \<Longrightarrow>
    commit_batch env now payload scratch pl = (Inr seg, pl', scratch') \<Longrightarrow>
    ingest_step env base cap w (w\<lparr>iw_pipe := Some pl', iw_op := Some (Closing seg payload),
      iw_frames := (iw_frames w)(seg := iw_frames w seg @ [payload])\<rparr>)"
| refuse: "iw_pipe w = Some pl \<Longrightarrow> iw_op w = Some (Committing payload scratch) \<Longrightarrow>
    commit_batch env now payload scratch pl = (Inl e, pl', scratch') \<Longrightarrow>
    ingest_step env base cap w (w\<lparr>iw_pipe := Some pl', iw_op := None\<rparr>)"
| acknowledge: "iw_pipe w = Some pl \<Longrightarrow> iw_op w = Some (Closing seg payload) \<Longrightarrow>
    \<not> bo_should_close (pe_ops env) (pl_builder pl) \<Longrightarrow>
    ingest_step env base cap w (w\<lparr>iw_op := None, iw_acked := iw_acked w @ [(seg, payload)]\<rparr>)"
| close_block: "iw_pipe w = Some pl \<Longrightarrow> iw_op w = Some (Closing seg payload) \<Longrightarrow>
    bo_should_close (pe_ops env) (pl_builder pl) \<Longrightarrow> length (iw_tasks w) < cap \<Longrightarrow>
    spawn_upload env free_after load_busy pl = (r, pl') \<Longrightarrow>
    ingest_step env base cap w (w\<lparr>iw_pipe := Some pl', iw_op := None,
      iw_tasks := iw_tasks w @ (case r of Inr (Some t) \<Rightarrow> [t] | _ \<Rightarrow> []),
      iw_acked := iw_acked w @ (if isl r then [] else [(seg, payload)])\<rparr>)"
| flush: "iw_pipe w = Some pl \<Longrightarrow> iw_op w = None \<Longrightarrow> length (iw_tasks w) < cap \<Longrightarrow>
    spawn_upload env free_after load_busy pl = (r, pl') \<Longrightarrow>
    ingest_step env base cap w (w\<lparr>iw_pipe := Some pl',
      iw_tasks := iw_tasks w @ (case r of Inr (Some t) \<Rightarrow> [t] | _ \<Rightarrow> [])\<rparr>)"
| encode: "iw_tasks w = ts @ t # us \<Longrightarrow> ut_phase t = Encoding \<Longrightarrow> upload_encode env now_v7 oc t (iw_store w) = (res, s) \<Longrightarrow>
    ingest_step env base cap w (w\<lparr>iw_tasks := ts @ (case res of Some t' \<Rightarrow> [t'] | None \<Rightarrow> []) @ us, iw_store := s,
      iw_landed := iw_landed w @ (case res of Some t' \<Rightarrow> (case ut_phase t' of Landed bm \<Rightarrow> [(bm, s)] | _ \<Rightarrow> []) | None \<Rightarrow> [])\<rparr>)"
| release: "iw_pipe w = Some pl \<Longrightarrow> iw_tasks w = ts @ t # us \<Longrightarrow> ut_phase t = Landed bm \<Longrightarrow>
    upload_release unlinks bm t (pl_wal pl) = (t', wal') \<Longrightarrow>
    ingest_step env base cap w (w\<lparr>iw_pipe := Some (pl\<lparr>pl_wal := wal'\<rparr>), iw_tasks := ts @ t' # us\<rparr>)"
| publish: "iw_tasks w = ts @ t # us \<Longrightarrow> ut_phase t = Released bm \<Longrightarrow>
    ingest_step env base cap w (w\<lparr>iw_tasks := ts @ us,
      iw_catalog := upload_publish env insert_ok observed_at bm (iw_catalog w),
      iw_events := iw_events w @ emitted (sa_event_sink base) bm\<rparr>)"
| elsewhere: "ingest_step env base cap w (w\<lparr>iw_store := s, iw_catalog := cat\<rparr>)"

text \<open>Runs of \<open>n\<close> steps from an empty directory.\<close>

inductive ingest_run :: "'b pipeline_env \<Rightarrow> start_args \<Rightarrow> nat \<Rightarrow> nat \<Rightarrow> 'b world \<Rightarrow> bool" for env base cap where
  begins: "ingest_run env base cap 0 (new_world s cat)"
| goes_on: "ingest_run env base cap n w \<Longrightarrow> ingest_step env base cap w w' \<Longrightarrow> ingest_run env base cap (Suc n) w'"

section \<open>What must hold\<close>

text \<open>A frame, as ingested or as replayed, has no records, or they are in a block that was completely in the bucket.\<close>

definition frame_kept ::
  "'b pipeline_env \<Rightarrow> (bytes \<Rightarrow> 'r list) \<Rightarrow> (store \<Rightarrow> block_meta \<Rightarrow> 'r list \<Rightarrow> bool) \<Rightarrow> (block_meta \<times> store) set \<Rightarrow> bytes \<Rightarrow> bool" where
  "frame_kept env payload_rows stored L p \<longleftrightarrow>
     (\<exists>q. (q = p \<or> redact_replayed_payload env (bo_signal (pe_ops env)) p = Some q) \<and>
        (payload_rows q = [] \<or> (\<exists>(bm, s) \<in> L. \<exists>rs. stored s bm rs \<and> mset (payload_rows q) \<subseteq># mset rs)))"

text \<open>The records of the segments from \<open>lo\<close> up to but without \<open>hi\<close>.\<close>

definition rows_in :: "(bytes \<Rightarrow> 'r list) \<Rightarrow> (u64 \<Rightarrow> bytes list) \<Rightarrow> nat \<Rightarrow> nat \<Rightarrow> 'r list" where
  "rows_in payload_rows frames lo hi = concat (map (\<lambda>i. concat (map payload_rows (frames (of_nat i)))) [lo..<hi])"

text \<open>The abstract log against the history: a sealed segment is there with all its frames, or all are kept.\<close>

definition log_history :: "(bytes \<Rightarrow> bool) \<Rightarrow> (u64 \<Rightarrow> bytes list) \<Rightarrow> awal \<Rightarrow> bool" where
  "log_history kept frames a \<longleftrightarrow> active a = frames (aseq a) \<and>
     (\<forall>s < aseq a. sealed a s = Some (frames s) \<or> sealed a s = None \<and> (\<forall>p \<in> set (frames s). kept p)) \<and>
     (\<forall>s > aseq a. frames s = [])"

definition task_ok ::
  "(block_builder_config \<Rightarrow> 'b \<Rightarrow> 'r list \<Rightarrow> bool) \<Rightarrow> ('r \<Rightarrow> nat) \<Rightarrow> (bytes \<Rightarrow> 'r list) \<Rightarrow> block_builder_config \<Rightarrow> (bytes \<Rightarrow> bool) \<Rightarrow>
     (u64 \<Rightarrow> bytes list) \<Rightarrow> u64 \<Rightarrow> 'b upload_task \<Rightarrow> bool" where
  "task_ok holds bytes_of payload_rows cfg kept frames seq t \<longleftrightarrow> ut_sealed t < seq \<and>
     (case ut_phase t of
        Encoding \<Rightarrow> (let rs = rows_in payload_rows frames (unat (ut_low t)) (Suc (unat (ut_sealed t)))
                     in holds cfg (ut_builder t) rs \<and> weigh bytes_of rs < 2 ^ 31)
      | _ \<Rightarrow> (\<forall>s. ut_low t \<le> s \<and> s \<le> ut_sealed t \<longrightarrow> (\<forall>p \<in> set (frames s). kept p)))"

definition up_ok ::
  "(block_builder_config \<Rightarrow> 'b \<Rightarrow> 'r list \<Rightarrow> bool) \<Rightarrow> ('r \<Rightarrow> nat) \<Rightarrow> (bytes \<Rightarrow> 'r list) \<Rightarrow> 'b pipeline_env \<Rightarrow> block_builder_config \<Rightarrow>
     (bytes \<Rightarrow> bool) \<Rightarrow> nat \<Rightarrow> 'b world \<Rightarrow> 'b pipeline \<Rightarrow> bool" where
  "up_ok holds bytes_of payload_rows env cfg kept n w pl \<longleftrightarrow>
     (\<exists>a. wal_rep (pe_crc env) a (pl_wal pl) \<and> unat (aseq a) \<le> n \<and> acap a = DEFAULT_MAX_SEGMENT_BYTES \<and>
        log_history kept (iw_frames w) a \<and> pl_cfg pl = cfg \<and> pl_block_low_seg pl \<le> aseq a \<and>
        (let rs = rows_in payload_rows (iw_frames w) (unat (pl_block_low_seg pl)) (Suc (unat (aseq a)))
         in holds cfg (pl_builder pl) rs \<and>
            weigh bytes_of rs < (case iw_op w of Some (Closing _ _) \<Rightarrow> 2 ^ 31 | _ \<Rightarrow> max 1 (unat (bc_target_bytes cfg)))) \<and>
        (\<forall>p s. iw_op w = Some (Committing p s) \<longrightarrow> holds cfg s (payload_rows p)) \<and>
        (\<forall>t \<in> set (iw_tasks w). task_ok holds bytes_of payload_rows cfg kept (iw_frames w) (aseq a) t))"

definition down_ok :: "'b pipeline_env \<Rightarrow> (bytes \<Rightarrow> bool) \<Rightarrow> nat \<Rightarrow> 'b world \<Rightarrow> bool" where
  "down_ok env kept n w \<longleftrightarrow> iw_tasks w = [] \<and>
     (\<exists>a x. wal_open DEFAULT_MAX_SEGMENT_BYTES (iw_disk w) = Inr x \<and> wal_rep (pe_crc env) a x \<and> unat (aseq a) \<le> Suc n \<and>
        active a = [] \<and> log_history kept (iw_frames w) a)"

text \<open>While it replays: every frame so far is in the open builder or kept.\<close>

definition recovery_ok ::
  "(block_builder_config \<Rightarrow> 'b \<Rightarrow> 'r list \<Rightarrow> bool) \<Rightarrow> ('r \<Rightarrow> nat) \<Rightarrow> (bytes \<Rightarrow> 'r list) \<Rightarrow> (store \<Rightarrow> block_meta \<Rightarrow> 'r list \<Rightarrow> bool) \<Rightarrow>
     'b pipeline_env \<Rightarrow> block_builder_config \<Rightarrow> bytes list \<Rightarrow> 'b recovery \<Rightarrow> bool" where
  "recovery_ok holds bytes_of payload_rows stored env cfg ps st \<longleftrightarrow>
     (\<exists>tail. holds cfg (rc_builder st) (concat (map payload_rows tail)) \<and>
        weigh bytes_of (concat (map payload_rows tail)) < max 1 (unat (bc_target_bytes cfg)) \<and> holds cfg (rc_scratch st) [] \<and>
        (\<forall>p \<in> set ps. (\<exists>q \<in> set tail. redact_replayed_payload env (bo_signal (pe_ops env)) p = Some q) \<or>
           frame_kept env payload_rows stored (set (rc_uploaded st)) p))"

definition world_ok ::
  "(block_builder_config \<Rightarrow> 'b \<Rightarrow> 'r list \<Rightarrow> bool) \<Rightarrow> ('r \<Rightarrow> nat) \<Rightarrow> (bytes \<Rightarrow> 'r list) \<Rightarrow> (store \<Rightarrow> block_meta \<Rightarrow> 'r list \<Rightarrow> bool) \<Rightarrow>
     'b pipeline_env \<Rightarrow> block_builder_config \<Rightarrow> nat \<Rightarrow> 'b world \<Rightarrow> bool" where
  "world_ok holds bytes_of payload_rows stored env cfg n w \<longleftrightarrow>
     (let kept = frame_kept env payload_rows stored (set (iw_landed w))
      in case iw_pipe w of None \<Rightarrow> down_ok env kept n w | Some pl \<Rightarrow> up_ok holds bytes_of payload_rows env cfg kept n w pl)"

section \<open>Releases that stop half way\<close>

lemma release_until_subset:
  "distinct (map fst d) \<Longrightarrow> \<exists>R. snd (release_until b lo hi d) = filter (\<lambda>f. fst f \<notin> R) d \<and> (\<forall>n \<in> R. releasable lo hi n)"
proof (induction b lo hi d rule: release_until.induct)
  case (1 b lo hi)
  show ?case by (auto intro: exI [of _ "{}"])
next
  case (2 b lo hi f d)
  have d: "distinct (map fst d)" "fst f \<notin> fst ` set d" using "2.prems" by auto
  have removed: "\<exists>R. snd (release_until b' lo hi d) = filter (\<lambda>g. fst g \<notin> R) (f # d) \<and> (\<forall>n \<in> R. releasable lo hi n)"
    if "snd (release_until b' lo hi d) = filter (\<lambda>g. fst g \<notin> R) d" "\<forall>n \<in> R. releasable lo hi n" "releasable lo hi (fst f)" for b' R
  proof (intro exI conjI)
    have "filter (\<lambda>g. fst g \<notin> insert (fst f) R) d = filter (\<lambda>g. fst g \<notin> R) d" using d(2) by (intro filter_cong refl) (auto simp: image_iff)
    then show "snd (release_until b' lo hi d) = filter (\<lambda>g. fst g \<notin> insert (fst f) R) (f # d)" using that(1) by simp
  qed (use that in auto)
  show ?case
  proof (cases "releasable lo hi (fst f)")
    case True
    consider "b = None" | "b = Some 0" | n where "b = Some (Suc n)" by (metis nat.exhaust option.exhaust)
    then show ?thesis
    proof cases
      case 1
      from "2.IH"(1) [OF True 1 d(1)] removed [OF _ _ True] have
        "\<exists>R. snd (release_until None lo hi d) = filter (\<lambda>g. fst g \<notin> R) (f # d) \<and> (\<forall>n \<in> R. releasable lo hi n)" by blast
      with 1 True show ?thesis by (simp del: filter.simps)
    next
      case 2
      with True show ?thesis by (auto intro!: exI [of _ "{}"])
    next
      case 3
      from "2.IH"(2) [OF True 3 refl d(1)] removed [OF _ _ True] have
        "\<exists>R. snd (release_until (Some n) lo hi d) = filter (\<lambda>g. fst g \<notin> R) (f # d) \<and> (\<forall>n \<in> R. releasable lo hi n)" by blast
      with 3 True show ?thesis by (simp del: filter.simps)
    qed
  next
    case False
    then obtain R where R: "snd (release_until b lo hi d) = filter (\<lambda>g. fst g \<notin> R) d" "\<forall>n \<in> R. releasable lo hi n"
      using "2.IH"(3) d(1) by blast
    with False show ?thesis by (intro exI [of _ R]) (auto split: prod.split)
  qed
qed

lemma release_until_all:
  "fst (release_until b lo hi d) \<Longrightarrow> snd (release_until b lo hi d) = release_segments lo hi d"
proof (induction b lo hi d rule: release_until.induct)
  case (2 b lo hi f d)
  consider "\<not> releasable lo hi (fst f)" | "releasable lo hi (fst f)" "b = None" | "releasable lo hi (fst f)" "b = Some 0"
    | n where "releasable lo hi (fst f)" "b = Some (Suc n)" by (metis nat.exhaust option.exhaust)
  then show ?case
    by cases (use 2 in \<open>auto simp: release_segments_def split_def\<close>)
qed (simp add: release_segments_def)

text \<open>Whatever part of a sealed range is unlinked, the log then represents the abstract one without those segments.\<close>

lemma release_rep:
  assumes "wal_rep crc a w" "hi < aseq a"
  shows "\<exists>a'. wal_rep crc a' (w\<lparr>files := snd (release_until b lo hi (files w))\<rparr>) \<and> aseq a' = aseq a \<and> active a' = active a \<and>
    acap a' = acap a \<and> (\<forall>s. sealed a' s = sealed a s \<or> sealed a' s = None \<and> lo \<le> s \<and> s \<le> hi)"
proof -
  let ?d = "files w"
  have ok: "dir_ok ?d (aseq a)" "sealed_in crc ?d (aseq a) (sealed a)" using assms(1) by (auto simp: wal_rep_def)
  then obtain R where R: "snd (release_until b lo hi ?d) = filter (\<lambda>f. fst f \<notin> R) ?d" "\<forall>n \<in> R. releasable lo hi n"
    using release_until_subset by (metis dir_ok_def)
  let ?sl = "\<lambda>s. if segment_path s \<in> R then None else sealed a s"
  have in_range: "lo \<le> s \<and> s \<le> hi" if "segment_path s \<in> R" for s using R(2) that by force
  have look: "map_of (filter (\<lambda>f. fst f \<notin> R) d) n = (if n \<in> R then None else map_of d n)" for n and d :: dir
    by (induction d) auto
  have "segment_path (aseq a) \<notin> R" using in_range assms(2) by force
  moreover have "fst ` set (filter (\<lambda>f. fst f \<notin> R) ?d) = fst ` set ?d - R" by force
  ultimately have "dir_ok (filter (\<lambda>f. fst f \<notin> R) ?d) (aseq a)"
    using ok(1) by (simp add: dir_ok_def distinct_map_filter) fastforce
  moreover have "sealed_in crc (filter (\<lambda>f. fst f \<notin> R) ?d) (aseq a) ?sl"
    using ok(2) by (auto simp: sealed_in_def look dom_def split: if_splits)
  ultimately have "wal_rep crc (a\<lparr>sealed := ?sl\<rparr>) (w\<lparr>files := snd (release_until b lo hi ?d)\<rparr>)"
    using assms(1) by (simp add: wal_rep_def R(1) active_size_def)
  with in_range show ?thesis by (intro exI [of _ "a\<lparr>sealed := ?sl\<rparr>"]) auto
qed

section \<open>Histories\<close>

lemma log_history_mono: "log_history k frames a \<Longrightarrow> (\<And>p. k p \<Longrightarrow> k' p) \<Longrightarrow> log_history k' frames a"
  unfolding log_history_def by blast

lemma frame_kept_mono: "frame_kept env pr st L p \<Longrightarrow> L \<subseteq> L' \<Longrightarrow> frame_kept env pr st L' p"
  unfolding frame_kept_def by blast

lemma rows_in_empty [simp]: "hi \<le> lo \<Longrightarrow> rows_in pr h lo hi = []"
  by (simp add: rows_in_def)

lemma rows_in_Suc: "lo \<le> hi \<Longrightarrow> rows_in pr h lo (Suc hi) = rows_in pr h lo hi @ concat (map pr (h (of_nat hi)))"
  by (simp add: rows_in_def)

lemma rows_in_cong: "(\<And>i. lo \<le> i \<Longrightarrow> i < hi \<Longrightarrow> h (of_nat i) = h' (of_nat i)) \<Longrightarrow> rows_in pr h lo hi = rows_in pr h' lo hi"
  unfolding rows_in_def by (intro arg_cong [where f = concat] map_cong) auto

lemma rows_in_member:
  assumes "lo \<le> unat s" "unat s < hi" "p \<in> set (h s)"
  shows "mset (pr p) \<subseteq># mset (rows_in pr h lo hi)"
proof -
  obtain xs ys where h: "h s = xs @ p # ys" using split_list [OF assms(3)] by blast
  have "[lo..<hi] = [lo..<unat s] @ unat s # [Suc (unat s)..<hi]"
    using assms(1,2) by (metis le_add_diff_inverse less_imp_le upt_add_eq_append upt_conv_Cons)
  then show ?thesis by (simp add: rows_in_def h)
qed

lemma log_history_rotate:
  assumes "log_history k h a" "aseq a < - 1"
  shows "log_history k h (a_rotate a)"
proof -
  have "s < aseq a + 1 \<longleftrightarrow> s < aseq a \<or> s = aseq a" for s
    using less_plus_one_iff [OF less_plus_one [OF assms(2)], of s] by auto
  moreover have "aseq a < aseq a + 1" by (rule less_plus_one [OF assms(2)])
  ultimately show ?thesis using assms(1) by (fastforce simp: log_history_def a_rotate_def)
qed

lemma log_history_append:
  assumes "log_history k h a" "aseq a < - 1" "fits p"
  shows "log_history k (h(aseq a := h (aseq a) @ [p])) (a_step (Append p) a)"
proof -
  have "log_history k (h(aseq a := h (aseq a) @ [p])) (a\<lparr>active := active a @ [p]\<rparr>)"
    using assms(1) by (auto simp: log_history_def)
  with assms(2,3) log_history_rotate [OF this] show ?thesis by (auto simp: Let_def)
qed

lemma history_release:
  assumes "log_history k h a" "aseq a' = aseq a" "active a' = active a"
    and "\<forall>s. sealed a' s = sealed a s \<or> sealed a' s = None \<and> lo \<le> s \<and> s \<le> hi"
    and "\<And>s p. lo \<le> s \<Longrightarrow> s \<le> hi \<Longrightarrow> p \<in> set (h s) \<Longrightarrow> k p"
  shows "log_history k h a'"
  using assms unfolding log_history_def by metis

lemma segment_records_fit: "p \<in> set (fst (segment_records crc f)) \<Longrightarrow> fits p"
proof (induction crc f rule: segment_records.induct)
  case (1 crc f)
  show ?case
  proof (cases "read_frame crc f")
    case (Frame q r)
    then have "fits q"
      by (auto simp: read_frame_def Let_def word_le_nat_alt not_less split: if_splits prod.splits)
    moreover have "segment_records crc f = (q # fst (segment_records crc r), snd (segment_records crc r))"
      by (subst segment_records.simps) (simp add: Frame split_def)
    ultimately show ?thesis using 1 Frame by auto
  qed (use 1 in \<open>subst (asm) segment_records.simps, simp\<close>)+
qed

lemma a_records_iff: "wal_rep crc a w \<Longrightarrow> p \<in> set (a_records a) \<longleftrightarrow> (\<exists>s ps. sealed a s = Some ps \<and> p \<in> set ps)"
proof -
  have "finite (dom (sealed a))" by simp
  then show ?thesis by (force simp: a_records_def dom_def)
qed

lemma a_records_fit: "wal_rep crc a w \<Longrightarrow> p \<in> set (a_records a) \<Longrightarrow> fits p"
proof -
  assume rep: "wal_rep crc a w" and "p \<in> set (a_records a)"
  then obtain s ps where s: "sealed a s = Some ps" "p \<in> set ps" using a_records_iff by blast
  then have "s < aseq a" using rep by (auto simp: wal_rep_def sealed_in_def)
  with rep s have "map_option (segment_records crc) (map_of (files w) (segment_path s)) = Some (ps, None)"
    by (auto simp: wal_rep_def sealed_in_def)
  then obtain f where "segment_records crc f = (ps, None)" by auto
  with s segment_records_fit [of p crc f] show "fits p" by simp
qed

text \<open>The next opening after a crash, or after a start that failed.\<close>

lemma reopen_history:
  assumes "wal_rep crc a w" "aseq a < - 1" "log_history k h a" "acap a = cap"
    and "h' = h(aseq a := take (whole_frames j (h (aseq a))) (h (aseq a)))"
  shows "\<exists>a' x. wal_open cap (crash j w) = Inr x \<and> wal_rep crc a' x \<and> unat (aseq a') = Suc (unat (aseq a)) \<and> active a' = [] \<and>
    log_history k h' a'"
proof -
  let ?a = "a\<lparr>active := take (whole_frames j (active a)) (active a)\<rparr>"
  have "max_segment_bytes w = cap" using assms(1,4) by (simp add: wal_rep_def)
  with wal_reopen_rep [OF assms(1,2), of j] obtain x where
    x: "wal_open cap (crash j w) = Inr x" "wal_rep crc (a_rotate ?a) x" by auto
  have "log_history k h' ?a" using assms(3) unfolding log_history_def assms(5) by auto
  then have "log_history k h' (a_rotate ?a)" using assms(2) by (intro log_history_rotate) auto
  with x unat_plus_one [OF assms(2)] show ?thesis by (auto simp: a_rotate_def)
qed

lemma wal_open_cap: "wal_open cap d = Inr x \<Longrightarrow> max_segment_bytes x = cap \<and> current x = []"
  by (auto simp: wal_open_def Let_def split: sum.splits)

section \<open>Each step, once for every builder\<close>

text \<open>
  What the proofs need besides the laws of the builder: a redacted frame is not longer than \<open>longest\<close>, and
  a full builder together with one more batch stays below 2^31 bytes.
\<close>

locale ingest_pipeline = block_builder "pe_ops env" "pe_decode env" holds bytes_of payload_rows stored
  for env :: "'b pipeline_env" and holds :: "block_builder_config \<Rightarrow> 'b \<Rightarrow> 'r list \<Rightarrow> bool" and bytes_of and payload_rows and stored +
  fixes longest :: nat
  assumes redact_bound: "fits p \<Longrightarrow> redact_replayed_payload env (bo_signal (pe_ops env)) p = Some q \<Longrightarrow> length q \<le> longest"
    and longest_frame: "unat MAX_REPLAY_FRAME_BYTES \<le> longest"
begin

lemma spawn_upload_ok:
  assumes rep: "wal_rep (pe_crc env) a (pl_wal pl)" "aseq a < - 1" "log_history k h a" "pl_block_low_seg pl \<le> aseq a"
    and rows: "holds (pl_cfg pl) (pl_builder pl) (rows_in payload_rows h (unat (pl_block_low_seg pl)) (Suc (unat (aseq a))))"
      "weigh bytes_of (rows_in payload_rows h (unat (pl_block_low_seg pl)) (Suc (unat (aseq a)))) < 2 ^ 31"
    and spawn: "spawn_upload env free_after load_busy pl = (r, pl')"
  shows "r = Inr None \<and> pl' = pl \<and> bo_is_empty (pe_ops env) (pl_builder pl) \<or>
    (\<exists>t. r = Inr (Some t) \<and> wal_rep (pe_crc env) (a_rotate a) (pl_wal pl') \<and> pl_cfg pl' = pl_cfg pl \<and>
       pl_block_low_seg pl' = aseq a + 1 \<and> holds (pl_cfg pl) (pl_builder pl') [] \<and>
       task_ok holds bytes_of payload_rows (pl_cfg pl) k h (aseq a + 1) t)"
proof (cases "bo_is_empty (pe_ops env) (pl_builder pl)")
  case False
  obtain w' where w': "wal_rotate (pl_wal pl) = (Inr (aseq a), w')" "wal_rep (pe_crc env) (a_rotate a) w'"
    using wal_rotate_rep [OF rep(1,2)] by blast
  show ?thesis
    using spawn False rows less_plus_one [OF rep(2)]
    by (auto simp: spawn_upload_def w' Let_def new_holds set_holds task_ok_def)
qed (use spawn in \<open>auto simp: spawn_upload_def\<close>)

lemma rows_after_append:
  assumes "lo \<le> unat (aseq a)"
  shows "rows_in payload_rows (h(aseq a := h (aseq a) @ [p])) lo (Suc (unat (aseq a))) =
    rows_in payload_rows h lo (Suc (unat (aseq a))) @ payload_rows p"
proof -
  have "rows_in payload_rows (h(aseq a := h (aseq a) @ [p])) lo (unat (aseq a)) = rows_in payload_rows h lo (unat (aseq a))"
  proof (rule rows_in_cong)
    fix i assume "i < unat (aseq a)"
    then have "of_nat i \<noteq> aseq a" using of_nat_inverse [of i "aseq a"] unsigned_less [of "aseq a", where 'a = nat] by force
    then show "(h(aseq a := h (aseq a) @ [p])) (of_nat i) = h (of_nat i)" by simp
  qed
  with assms show ?thesis by (simp add: rows_in_Suc)
qed

lemma commit_batch_ok:
  assumes rep: "wal_rep (pe_crc env) a (pl_wal pl)" "aseq a < - 1" "log_history k h a" "pl_block_low_seg pl \<le> aseq a"
    and rows: "holds (pl_cfg pl) (pl_builder pl) (rows_in payload_rows h (unat (pl_block_low_seg pl)) (Suc (unat (aseq a))))"
      "holds (pl_cfg pl) scratch (payload_rows p)"
    and commit: "commit_batch env now p scratch pl = (r, pl', scratch')"
  shows "\<not> fits p \<and> isl r \<and> pl' = pl \<or>
    fits p \<and> r = Inr (aseq a) \<and> wal_rep (pe_crc env) (a_step (Append p) a) (pl_wal pl') \<and> pl_cfg pl' = pl_cfg pl \<and>
      pl_block_low_seg pl' = pl_block_low_seg pl \<and>
      holds (pl_cfg pl) (pl_builder pl') (rows_in payload_rows (h(aseq a := h (aseq a) @ [p]))
        (unat (pl_block_low_seg pl)) (Suc (unat (aseq (a_step (Append p) a)))))"
proof (cases "fits p")
  case True
  let ?a = "a_step (Append p) a" and ?h = "h(aseq a := h (aseq a) @ [p])" and ?lo = "unat (pl_block_low_seg pl)"
  obtain w' where w': "wal_append (pe_crc env) (pl_wal pl) p = (Inr (), w')" "wal_rep (pe_crc env) ?a w'"
    using wal_append_rep [OF rep(1,2) True] by blast
  obtain b' s' where m: "bo_merge (pe_ops env) (pl_builder pl) scratch = (b', s')" by force
  have seg: "current_seq (pl_wal pl) = aseq a" using rep(1) by (simp add: wal_rep_def)
  have lo: "?lo \<le> unat (aseq a)" using rep(4) by (simp add: word_le_nat_alt)
  have "aseq ?a = aseq a \<or> aseq ?a = aseq a + 1" by (auto simp: a_rotate_def Let_def)
  moreover have "?h (of_nat (Suc (unat (aseq a)))) = []" "unat (aseq a + 1) = Suc (unat (aseq a))"
    using rep(3) less_plus_one [OF rep(2)] unat_plus_one [OF rep(2)] by (auto simp: log_history_def add.commute)
  ultimately have "rows_in payload_rows ?h ?lo (Suc (unat (aseq ?a))) = rows_in payload_rows h ?lo (Suc (unat (aseq a))) @ payload_rows p"
    using lo rows_after_append [OF lo, of h p] rows_in_Suc [of ?lo "Suc (unat (aseq a))" payload_rows ?h]
    by (auto simp del: of_nat_Suc fun_upd_apply)
  with merge_holds [OF rows m] w' m commit True seg show ?thesis
    by (auto simp: commit_batch_def Let_def mark_block_started_def split: if_splits)
qed (use commit in \<open>auto simp: commit_batch_def Let_def wal_append_rejects\<close>)

lemma upload_encode_ok:
  assumes "task_ok holds bytes_of payload_rows cfg k h seq t" "ut_phase t = Encoding" "upload_encode env u oc t s = (Some t', s')"
  shows "\<exists>bm. t' = t\<lparr>ut_phase := Landed bm\<rparr> \<and> stored s' bm (rows_in payload_rows h (unat (ut_low t)) (Suc (unat (ut_sealed t))))"
  using assms finish_stored
  by (fastforce simp: task_ok_def upload_encode_def Let_def split: sum.splits option.splits prod.splits)

lemma upload_replay_block_ok:
  assumes "holds (sa_cfg sa) (rc_builder st) rs" "weigh bytes_of rs < 2 ^ 31" "upload_replay_block env sa high st = (r, st')"
  shows "isl r \<and> rc_uploaded st' = rc_uploaded st \<or>
    (\<exists>bm s'. r = Inr () \<and> rc_uploaded st' = rc_uploaded st @ [(bm, s')] \<and> stored s' bm rs) \<and>
      holds (sa_cfg sa) (rc_builder st') [] \<and> rc_scratch st' = rc_scratch st"
proof -
  let ?ops = "pe_ops env"
  let ?b1 = "bo_set_block_uuid ?ops (recovery_block_uuid env (sa_writer_uuid sa) (bo_signal ?ops) (sa_shard_index sa)
      (pe_sha256 env (rc_hashed st))) (rc_builder st)"
  let ?b2 = "case high of None \<Rightarrow> ?b1 | Some h \<Rightarrow> bo_set_wal_shard ?ops (sa_shard_index sa) (bo_set_wal_seg_max ?ops h ?b1)"
  have "holds (sa_cfg sa) ?b2 rs" using assms(1) by (auto intro: set_holds split: option.split)
  note fin = finish_stored [OF this assms(2)]
  obtain q s' where q: "bo_finish_and_upload ?ops (sa_now_v7 sa) (sa_oc sa) ?b2 (rc_store st) = (q, s')" by force
  show ?thesis
    using assms(3) fin q by (auto simp: upload_replay_block_def Let_def new_holds split: sum.splits option.splits)
qed

lemma kept_by_block:
  assumes "q \<in> set tail" "redact_replayed_payload env (bo_signal (pe_ops env)) p = Some q" "(bm, s) \<in> L"
    and "stored s bm (concat (map payload_rows tail))"
  shows "frame_kept env payload_rows stored L p"
proof -
  obtain xs ys where "tail = xs @ q # ys" using split_list [OF assms(1)] by blast
  then have "mset (payload_rows q) \<subseteq># mset (concat (map payload_rows tail))" by simp
  with assms(2-4) show ?thesis unfolding frame_kept_def by blast
qed

lemma recovery_flush:
  assumes "holds (sa_cfg sa) (rc_builder st) (concat (map payload_rows tail))" "weigh bytes_of (concat (map payload_rows tail)) < 2 ^ 31"
    and "holds (sa_cfg sa) (rc_scratch st) []" "upload_replay_block env sa high st = (Inr u, st')"
    and "\<forall>p \<in> set ps. (\<exists>q \<in> set tail. redact_replayed_payload env (bo_signal (pe_ops env)) p = Some q) \<or>
           frame_kept env payload_rows stored (set (rc_uploaded st)) p"
  shows "holds (sa_cfg sa) (rc_builder st') [] \<and> rc_scratch st' = rc_scratch st \<and> set (rc_uploaded st) \<subseteq> set (rc_uploaded st') \<and>
    (\<forall>p \<in> set ps. frame_kept env payload_rows stored (set (rc_uploaded st')) p)"
proof -
  from upload_replay_block_ok [OF assms(1,2,4)] obtain bm s' where
    b: "rc_uploaded st' = rc_uploaded st @ [(bm, s')]" "stored s' bm (concat (map payload_rows tail))"
      "holds (sa_cfg sa) (rc_builder st') []" "rc_scratch st' = rc_scratch st" by auto
  have "frame_kept env payload_rows stored (set (rc_uploaded st')) p" if "p \<in> set ps" for p
    using assms(5) that kept_by_block [of _ tail p bm s' "set (rc_uploaded st')"] b(1,2)
      frame_kept_mono [of env payload_rows stored "set (rc_uploaded st)" p "set (rc_uploaded st')"] by auto
  with b show ?thesis by auto
qed

lemma upload_replay_grows: "upload_replay_block env sa high st = (r, st') \<Longrightarrow> set (rc_uploaded st) \<subseteq> set (rc_uploaded st')"
  by (auto simp: upload_replay_block_def Let_def split: sum.splits option.splits prod.splits)

lemma replay_frame_grows: "replay_frame env sa p st = (r, st') \<Longrightarrow> set (rc_uploaded st) \<subseteq> set (rc_uploaded st')"
  by (auto simp: replay_frame_def Let_def split: option.splits sum.splits prod.splits if_splits dest!: upload_replay_grows)
     (blast dest: subsetD)

text \<open>One frame: its records join the open builder, whole, or the start fails.\<close>

lemma replay_frame_ok:
  assumes small: "max 1 (unat (bc_target_bytes (sa_cfg sa))) + 2 * longest < 2 ^ 31"
    and ok: "recovery_ok holds bytes_of payload_rows stored env (sa_cfg sa) ps st" and "fits p"
    and run: "replay_frame env sa p st = (Inr u, st')"
  shows "recovery_ok holds bytes_of payload_rows stored env (sa_cfg sa) (ps @ [p]) st'"
proof -
  let ?ops = "pe_ops env" and ?rows = "\<lambda>tail. concat (map payload_rows tail)" and ?c = "sa_cfg sa"
  let ?redact = "redact_replayed_payload env (bo_signal ?ops)"
  let ?at = "\<lambda>tail st ps. holds ?c (rc_builder st) (?rows tail) \<and> weigh bytes_of (?rows tail) < max 1 (unat (bc_target_bytes ?c)) \<and>
    (\<forall>p \<in> set ps. (\<exists>q \<in> set tail. ?redact p = Some q) \<or> frame_kept env payload_rows stored (set (rc_uploaded st)) p)"
  from ok obtain tail where tail: "?at tail st ps" "holds ?c (rc_scratch st) []" unfolding recovery_ok_def by blast
  from run obtain q n sc where q: "?redact p = Some q" "pe_decode env q (rc_scratch st) = (Inr n, sc)"
    by (auto simp: replay_frame_def Let_def split: option.splits sum.splits prod.splits)
  have sc: "holds ?c sc (payload_rows q)" using decode_holds [OF tail(2) q(2)] by simp
  have qsize: "weigh bytes_of (payload_rows q) \<le> 2 * longest"
    using payload_small [of q] redact_bound [OF assms(3) q(1)] by simp
  from run q obtain st1 u1 where st1: "(if schema_boundary env (rc_builder st) sc then upload_replay_block env sa None st else (Inr (), st)) = (Inr u1, st1)"
    by (auto simp: replay_frame_def Let_def split: sum.splits prod.splits if_splits)
  have "\<exists>tail. ?at tail st1 ps" "rc_scratch st1 = rc_scratch st"
  proof -
    have "(\<exists>tail. ?at tail st1 ps) \<and> rc_scratch st1 = rc_scratch st"
    proof (cases "schema_boundary env (rc_builder st) sc")
      case True
      with recovery_flush [of sa st tail None u1 st1 ps] tail st1 small show ?thesis
        by (auto intro!: exI [of _ "[]"])
    qed (use tail st1 in auto)
    then show "\<exists>tail. ?at tail st1 ps" "rc_scratch st1 = rc_scratch st" by auto
  qed
  then obtain tail1 where tail1: "?at tail1 st1 ps" by blast
  obtain b' s' where m: "bo_merge ?ops (rc_builder st1) sc = (b', s')" by force
  let ?st2 = "st1\<lparr>rc_builder := b', rc_scratch := s', rc_hashed := rc_hashed st1 @ to_be_bytes (of_nat (length q) :: u64) @ q\<rparr>"
  have m2: "holds ?c b' (?rows (tail1 @ [q]))" "holds ?c s' []" using merge_holds [OF _ sc m] tail1 by auto
  have w2: "weigh bytes_of (?rows (tail1 @ [q])) < 2 ^ 31" using tail1 qsize small by auto
  have all: "\<forall>p' \<in> set (ps @ [p]). (\<exists>q' \<in> set (tail1 @ [q]). ?redact p' = Some q') \<or>
      frame_kept env payload_rows stored (set (rc_uploaded ?st2)) p'" using tail1 q(1) by auto
  have fin: "(if bo_should_close ?ops b' then upload_replay_block env sa None ?st2 else (Inr (), ?st2)) = (Inr u, st')"
    using run by (simp add: replay_frame_def Let_def q st1 m)
  show ?thesis
  proof (cases "bo_should_close ?ops b'")
    case True
    then have "upload_replay_block env sa None ?st2 = (Inr u, st')" using fin by simp
    from recovery_flush [OF _ w2 _ this all] m2 show ?thesis
      unfolding recovery_ok_def by (intro exI [of _ "[]"]) auto
  next
    case False
    with fin have "st' = ?st2" by simp
    with m2 all open_small [OF m2(1) w2 False] show ?thesis
      unfolding recovery_ok_def by (intro exI [of _ "tail1 @ [q]"]) auto
  qed
qed

lemma replay_frames_ok:
  assumes small: "max 1 (unat (bc_target_bytes (sa_cfg sa))) + 2 * longest < 2 ^ 31"
  shows "recovery_ok holds bytes_of payload_rows stored env (sa_cfg sa) before st \<Longrightarrow> \<forall>p \<in> set ps. fits p \<Longrightarrow>
    replay_frames env sa ps st = (Inr u, st') \<Longrightarrow> recovery_ok holds bytes_of payload_rows stored env (sa_cfg sa) (before @ ps) st'"
proof (induction ps arbitrary: before st)
  case (Cons p ps)
  from Cons.prems(3) obtain u1 st1 where st1: "replay_frame env sa p st = (Inr u1, st1)" "replay_frames env sa ps st1 = (Inr u, st')"
    by (auto split: sum.splits prod.splits)
  have "recovery_ok holds bytes_of payload_rows stored env (sa_cfg sa) (before @ [p]) st1"
    using Cons.prems by (intro replay_frame_ok [OF small _ _ st1(1)]) auto
  from Cons.IH [OF this _ st1(2)] Cons.prems(2) show ?case by simp
qed simp

lemma replay_frames_grows: "replay_frames env sa ps st = (r, st') \<Longrightarrow> set (rc_uploaded st) \<subseteq> set (rc_uploaded st')"
  by (induction ps arbitrary: st) (fastforce split: sum.splits prod.splits dest: replay_frame_grows)+

lemma recover_grows: "recover env sa high fr st = (r, st') \<Longrightarrow> set (rc_uploaded st) \<subseteq> set (rc_uploaded st')"
  by (auto simp: recover_def split: sum.splits prod.splits option.splits if_splits dest!: upload_replay_grows replay_frames_grows)

text \<open>A recovery that succeeds has kept every frame it was given.\<close>

lemma recover_ok:
  assumes small: "max 1 (unat (bc_target_bytes (sa_cfg sa))) + 2 * longest < 2 ^ 31"
    and "\<forall>p \<in> set ps. fits p" "recover env sa high (ps, None) (fresh_recovery env sa s cat) = (Inr u, st')"
  shows "(\<forall>p \<in> set ps. frame_kept env payload_rows stored (set (rc_uploaded st')) p) \<and> holds (sa_cfg sa) (rc_builder st') []"
proof -
  let ?st = "fresh_recovery env sa s cat"
  have "recovery_ok holds bytes_of payload_rows stored env (sa_cfg sa) [] ?st"
    unfolding recovery_ok_def by (intro exI [of _ "[]"]) (simp add: fresh_recovery_def Let_def new_holds)
  moreover obtain u1 st1 where st1: "replay_frames env sa ps ?st = (Inr u1, st1)"
    using assms(3) by (auto simp: recover_def split: sum.splits prod.splits)
  ultimately have "recovery_ok holds bytes_of payload_rows stored env (sa_cfg sa) ps st1"
    using replay_frames_ok [OF small _ assms(2)] by fastforce
  then obtain tail where tail: "holds (sa_cfg sa) (rc_builder st1) (concat (map payload_rows tail))"
      "weigh bytes_of (concat (map payload_rows tail)) < max 1 (unat (bc_target_bytes (sa_cfg sa)))" "holds (sa_cfg sa) (rc_scratch st1) []"
      "\<forall>p \<in> set ps. (\<exists>q \<in> set tail. redact_replayed_payload env (bo_signal (pe_ops env)) p = Some q) \<or>
         frame_kept env payload_rows stored (set (rc_uploaded st1)) p" unfolding recovery_ok_def by blast
  show ?thesis
  proof (cases "bo_is_empty (pe_ops env) (rc_builder st1)")
    case True
    then have "st' = st1" "concat (map payload_rows tail) = []" using assms(3) st1 is_empty_iff [OF tail(1)] by (auto simp: recover_def)
    moreover have "frame_kept env payload_rows stored (set (rc_uploaded st1)) p" if "p \<in> set ps" for p
    proof -
      have "frame_kept env payload_rows stored (set (rc_uploaded st1)) p"
        if "q \<in> set tail" "redact_replayed_payload env (bo_signal (pe_ops env)) p = Some q" for q
        using that \<open>concat (map payload_rows tail) = []\<close> unfolding frame_kept_def by auto
      with tail(4) \<open>p \<in> set ps\<close> show ?thesis by blast
    qed
    moreover have "holds (sa_cfg sa) (rc_builder st1) []" using tail(1) unfolding \<open>concat (map payload_rows tail) = []\<close> .
    ultimately show ?thesis by blast
  next
    case False
    with assms(3) st1 have up: "upload_replay_block env sa high st1 = (Inr u, st')" by (simp add: recover_def)
    have "weigh bytes_of (concat (map payload_rows tail)) < 2 ^ 31" using tail(2) small by simp
    from recovery_flush [OF tail(1) this tail(3) up tail(4)] show ?thesis by blast
  qed
qed

abbreviation kept_in :: "(block_meta \<times> store) set \<Rightarrow> bytes \<Rightarrow> bool" where
  "kept_in \<equiv> frame_kept env payload_rows stored"

text \<open>What a start leaves of the log, whether it succeeds or not.\<close>

lemma open_pipeline_ok:
  assumes small: "max 1 (unat (bc_target_bytes (sa_cfg sa))) + 2 * longest < 2 ^ 31"
    and open_x: "wal_open DEFAULT_MAX_SEGMENT_BYTES d = Inr x" and rep: "wal_rep (pe_crc env) a x" and hist: "log_history (kept_in L) h a"
    and run: "open_pipeline env sa d s cat = (r, st, wl)"
  shows "\<exists>x' a'. wl = Some x' \<and> wal_rep (pe_crc env) a' x' \<and> aseq a' = aseq a \<and> active a' = active a \<and> acap a' = acap a \<and>
    log_history (kept_in (L \<union> set (rc_uploaded st))) h a' \<and>
    (\<forall>pl. r = Inr pl \<longrightarrow> pl_wal pl = x' \<and> pl_cfg pl = sa_cfg sa \<and> pl_block_low_seg pl = aseq a \<and> holds (sa_cfg sa) (pl_builder pl) [])"
proof -
  let ?st = "fresh_recovery env sa s cat" and ?high = "checked_sub (current_seq x) 1"
  have seq: "current_seq x = aseq a" using rep by (simp add: wal_rep_def)
  have replay: "replay_all (pe_crc env) (wal_replay x) = (a_records a, None)" by (rule replay_rep [OF rep])
  obtain r1 st1 where r1: "recover env sa ?high (a_records a, None) ?st = (r1, st1)" by force
  have more: "log_history (kept_in (L \<union> M)) h a" for M using hist by (rule log_history_mono) (auto intro: frame_kept_mono)
  show ?thesis
  proof (cases r1)
    case (Inl e)
    with run open_x replay r1 have "r = Inl e" "st = st1" "wl = Some x" by (auto simp: open_pipeline_def Let_def)
    with rep more show ?thesis by auto
  next
    case (Inr u)
    have kept: "(\<forall>p \<in> set (a_records a). kept_in (set (rc_uploaded st1)) p)" "holds (sa_cfg sa) (rc_builder st1) []"
      using recover_ok [OF small _ r1 [unfolded Inr]] a_records_fit [OF rep] by auto
    have all: "kept_in (L \<union> set (rc_uploaded st1)) p" if "s < aseq a" "p \<in> set (h s)" for s p
    proof -
      have "sealed a s = Some (h s) \<or> kept_in L p" using hist that unfolding log_history_def by blast
      with kept(1) a_records_iff [OF rep, of p] that(2) show ?thesis
        by (auto intro: frame_kept_mono)
    qed
    show ?thesis
    proof (cases ?high)
      case None
      with run open_x replay r1 Inr have "r = Inr (opened_pipeline sa x (rc_builder st1))" "st = st1" "wl = Some x"
        by (auto simp: open_pipeline_def Let_def)
      with rep more kept(2) seq show ?thesis by (auto simp: opened_pipeline_def)
    next
      case (Some high)
      then have high: "high < aseq a"
        using checked_sub_SomeD [of "current_seq x" 1 high] seq by (simp add: word_less_nat_alt word_le_nat_alt)
      obtain ok d' where d': "release_until (sa_unlinks sa) 0 high (files x) = (ok, d')" by force
      obtain a' where a': "wal_rep (pe_crc env) a' (x\<lparr>files := d'\<rparr>)" "aseq a' = aseq a" "active a' = active a" "acap a' = acap a"
        "\<forall>s. sealed a' s = sealed a s \<or> sealed a' s = None \<and> 0 \<le> s \<and> s \<le> high"
        using release_rep [OF rep high, of "sa_unlinks sa" 0] d' by auto
      have "log_history (kept_in (L \<union> set (rc_uploaded st1))) h a'"
        using a' high by (intro history_release [OF more a'(2,3,5)]) (auto intro: all [OF le_less_trans])
      moreover have "wl = Some (x\<lparr>files := d'\<rparr>)" "rc_uploaded st = rc_uploaded st1"
        "r = Inr pl \<Longrightarrow> pl = opened_pipeline sa (x\<lparr>files := d'\<rparr>) (rc_builder st1)" for pl
        using run open_x replay r1 Inr Some d' high seq
        by (auto simp: open_pipeline_def Let_def prepare_release_def split: if_splits bool.splits)
      ultimately show ?thesis using a'(1-4) kept(2) seq by (auto simp: opened_pipeline_def)
    qed
  qed
qed

lemma task_ok_mono:
  "task_ok holds bytes_of payload_rows cfg k h seq t \<Longrightarrow> (\<And>p. k p \<Longrightarrow> k' p) \<Longrightarrow> seq \<le> seq' \<Longrightarrow>
     task_ok holds bytes_of payload_rows cfg k' h seq' t"
  unfolding task_ok_def by (auto split: upload_phase.splits)

text \<open>An append touches the active segment only, which no task owns.\<close>

lemma task_ok_append:
  assumes "task_ok holds bytes_of payload_rows cfg k h seq t"
  shows "task_ok holds bytes_of payload_rows cfg k (h(seq := ps)) seq t"
proof -
  have lt: "ut_sealed t < seq" using assms by (simp add: task_ok_def)
  have "rows_in payload_rows (h(seq := ps)) (unat (ut_low t)) (Suc (unat (ut_sealed t))) =
      rows_in payload_rows h (unat (ut_low t)) (Suc (unat (ut_sealed t)))"
  proof (rule rows_in_cong)
    fix i assume "i < Suc (unat (ut_sealed t))"
    then have "i < unat seq" using lt by (simp add: word_less_nat_alt)
    then have "of_nat i \<noteq> seq" using of_nat_inverse [of i seq] unsigned_less [of seq, where 'a = nat] by force
    then show "(h(seq := ps)) (of_nat i) = h (of_nat i)" by simp
  qed
  moreover have "s \<noteq> seq" if "s \<le> ut_sealed t" for s using that lt by auto
  ultimately show ?thesis using assms unfolding task_ok_def by (auto split: upload_phase.splits)
qed

text \<open>A block that landed keeps all frames of its range.\<close>

lemma landed_kept:
  assumes "stored s bm (rows_in payload_rows h (unat lo) (Suc (unat hi)))" "(bm, s) \<in> L" "lo \<le> x" "x \<le> hi" "p \<in> set (h x)"
  shows "kept_in L p"
proof -
  have "mset (payload_rows p) \<subseteq># mset (rows_in payload_rows h (unat lo) (Suc (unat hi)))"
    using assms(3-5) by (intro rows_in_member) (auto simp: word_le_nat_alt)
  with assms(1,2) show ?thesis unfolding frame_kept_def by blast
qed

lemma seq_bound: "unat (aseq a) \<le> n \<Longrightarrow> n < 2 ^ 63 \<Longrightarrow> aseq a < - 1"
  by (simp add: word_less_nat_alt unat_minus_one_eq)

lemma step_start:
  assumes small: "max 1 (unat (bc_target_bytes (sa_cfg sa))) + 2 * longest < 2 ^ 31" and n: "n < 2 ^ 63 - 1"
    and ok: "world_ok holds bytes_of payload_rows stored env (sa_cfg sa) n w" and down: "iw_pipe w = None"
  shows "world_ok holds bytes_of payload_rows stored env (sa_cfg sa) (Suc n)
    (after_start w (open_pipeline env sa (iw_disk w) (iw_store w) (iw_catalog w)))"
proof -
  let ?c = "sa_cfg sa" and ?h = "iw_frames w"
  from ok down obtain a x where x: "wal_open DEFAULT_MAX_SEGMENT_BYTES (iw_disk w) = Inr x" "wal_rep (pe_crc env) a x"
    "unat (aseq a) \<le> Suc n" "active a = []" "log_history (kept_in (set (iw_landed w))) ?h a"
    by (auto simp: world_ok_def down_ok_def Let_def)
  obtain r st wl where run: "open_pipeline env sa (iw_disk w) (iw_store w) (iw_catalog w) = (r, st, wl)" by (metis prod.collapse)
  from open_pipeline_ok [OF small x(1,2,5) run] obtain x' a' where
    o: "wl = Some x'" "wal_rep (pe_crc env) a' x'" "aseq a' = aseq a" "active a' = active a" "acap a' = acap a"
    "log_history (kept_in (set (iw_landed w) \<union> set (rc_uploaded st))) ?h a'"
    "\<forall>pl. r = Inr pl \<longrightarrow> pl_wal pl = x' \<and> pl_cfg pl = ?c \<and> pl_block_low_seg pl = aseq a \<and> holds ?c (pl_builder pl) []" by blast
  have cap: "acap a' = DEFAULT_MAX_SEGMENT_BYTES" using wal_open_cap [OF x(1)] x(2) o(5) by (simp add: wal_rep_def)
  have lt: "aseq a' < - 1" using seq_bound [of a "Suc n"] x(3) n o(3) by simp
  have h: "?h (aseq a') = []" using o(4,6) x(4) by (simp add: log_history_def)
  show ?thesis
  proof (cases r)
    case (Inl e)
    have "?h = ?h(aseq a' := take (whole_frames 0 (?h (aseq a'))) (?h (aseq a')))" using h by (simp add: fun_upd_idem)
    from reopen_history [OF o(2) lt o(6) cap this] obtain a2 x2 where
      "wal_open DEFAULT_MAX_SEGMENT_BYTES (crash 0 x') = Inr x2" "wal_rep (pe_crc env) a2 x2" "unat (aseq a2) = Suc (unat (aseq a'))"
      "active a2 = []" "log_history (kept_in (set (iw_landed w) \<union> set (rc_uploaded st))) ?h a2" by blast
    with x(3) o(3) show ?thesis
      by (auto simp: world_ok_def down_ok_def after_start_def run Inl o(1) Let_def intro!: exI [of _ a2])
  next
    case (Inr pl)
    have "rows_in payload_rows ?h (unat (aseq a)) (Suc (unat (aseq a))) = []"
      using h o(3) by (simp add: rows_in_Suc)
    with o cap x(3) Inr show ?thesis
      by (auto simp: world_ok_def up_ok_def after_start_def run Let_def intro!: exI [of _ a'])
  qed
qed

lemma world_upE:
  assumes "world_ok holds bytes_of payload_rows stored env cfg n w" "iw_pipe w = Some pl"
  obtains a where "wal_rep (pe_crc env) a (pl_wal pl)" "unat (aseq a) \<le> n" "acap a = DEFAULT_MAX_SEGMENT_BYTES"
    "log_history (kept_in (set (iw_landed w))) (iw_frames w) a" "pl_cfg pl = cfg" "pl_block_low_seg pl \<le> aseq a"
    "holds cfg (pl_builder pl) (rows_in payload_rows (iw_frames w) (unat (pl_block_low_seg pl)) (Suc (unat (aseq a))))"
    "weigh bytes_of (rows_in payload_rows (iw_frames w) (unat (pl_block_low_seg pl)) (Suc (unat (aseq a)))) <
      (case iw_op w of Some (Closing _ _) \<Rightarrow> 2 ^ 31 | _ \<Rightarrow> max 1 (unat (bc_target_bytes cfg)))"
    "\<forall>p s. iw_op w = Some (Committing p s) \<longrightarrow> holds cfg s (payload_rows p)"
    "\<forall>t \<in> set (iw_tasks w). task_ok holds bytes_of payload_rows cfg (kept_in (set (iw_landed w))) (iw_frames w) (aseq a) t"
  using assms by (auto simp: world_ok_def up_ok_def Let_def)

lemma task_upE:
  assumes "world_ok holds bytes_of payload_rows stored env cfg n w" "iw_tasks w = ts @ t # us"
  obtains pl where "iw_pipe w = Some pl"
  using assms by (auto simp: world_ok_def down_ok_def Let_def split: option.splits)

lemma step_crash:
  assumes n: "n < 2 ^ 63 - 1" and ok: "world_ok holds bytes_of payload_rows stored env cfg n w" and up: "iw_pipe w = Some pl"
  shows "world_ok holds bytes_of payload_rows stored env cfg (Suc n)
    (w\<lparr>iw_pipe := None, iw_op := None, iw_tasks := [], iw_disk := crash k (pl_wal pl), iw_frames := torn k (pl_wal pl) (iw_frames w),
       iw_torn := lost\<rparr>)"
proof -
  obtain a where a: "wal_rep (pe_crc env) a (pl_wal pl)" "unat (aseq a) \<le> n" "acap a = DEFAULT_MAX_SEGMENT_BYTES"
    "log_history (kept_in (set (iw_landed w))) (iw_frames w) a" by (rule world_upE [OF ok up])
  have seq: "current_seq (pl_wal pl) = aseq a" using a(1) by (simp add: wal_rep_def)
  have "aseq a < - 1" using seq_bound [OF a(2)] n by simp
  from reopen_history [OF a(1) this a(4,3) refl, of k] obtain a' x where
    "wal_open DEFAULT_MAX_SEGMENT_BYTES (crash k (pl_wal pl)) = Inr x" "wal_rep (pe_crc env) a' x" "unat (aseq a') = Suc (unat (aseq a))"
    "active a' = []" "log_history (kept_in (set (iw_landed w))) (torn k (pl_wal pl) (iw_frames w)) a'"
    unfolding torn_def seq by blast
  with a(2) show ?thesis by (auto simp: world_ok_def down_ok_def Let_def intro!: exI [of _ a'])
qed

text \<open>Every place that spawns an upload: an empty builder changes nothing, any other is handed over.\<close>

lemma step_spawn:
  assumes n: "n < 2 ^ 63 - 1" and small: "max 1 (unat (bc_target_bytes cfg)) + 2 * longest < 2 ^ 31"
    and ok: "world_ok holds bytes_of payload_rows stored env cfg n w" and up: "iw_pipe w = Some pl"
    and spawn: "spawn_upload env free_after load_busy pl = (r, pl')"
    and op: "op = None \<or> (\<exists>p s. op = Some (Committing p s) \<and> holds cfg s (payload_rows p))"
  shows "\<not> isl r \<and> (\<forall>w'. iw_pipe w' = Some pl' \<longrightarrow> iw_op w' = op \<longrightarrow> iw_tasks w' = iw_tasks w @ (case r of Inr (Some t) \<Rightarrow> [t] | _ \<Rightarrow> []) \<longrightarrow>
    iw_frames w' = iw_frames w \<longrightarrow> iw_landed w' = iw_landed w \<longrightarrow> world_ok holds bytes_of payload_rows stored env cfg (Suc n) w')"
proof -
  let ?k = "kept_in (set (iw_landed w))" and ?h = "iw_frames w"
  obtain a where a: "wal_rep (pe_crc env) a (pl_wal pl)" "unat (aseq a) \<le> n" "acap a = DEFAULT_MAX_SEGMENT_BYTES"
    "log_history ?k ?h a" "pl_cfg pl = cfg" "pl_block_low_seg pl \<le> aseq a"
    and rows: "holds cfg (pl_builder pl) (rows_in payload_rows ?h (unat (pl_block_low_seg pl)) (Suc (unat (aseq a))))"
      "weigh bytes_of (rows_in payload_rows ?h (unat (pl_block_low_seg pl)) (Suc (unat (aseq a)))) <
        (case iw_op w of Some (Closing _ _) \<Rightarrow> 2 ^ 31 | _ \<Rightarrow> max 1 (unat (bc_target_bytes cfg)))"
    and tasks: "\<forall>t \<in> set (iw_tasks w). task_ok holds bytes_of payload_rows cfg ?k ?h (aseq a) t"
    by (rule world_upE [OF ok up])
  have lt: "aseq a < - 1" using seq_bound [OF a(2)] n by simp
  have w31: "weigh bytes_of (rows_in payload_rows ?h (unat (pl_block_low_seg pl)) (Suc (unat (aseq a)))) < 2 ^ 31"
    using rows(2) small by (auto split: option.splits ingest_op.splits)
  from spawn_upload_ok [OF a(1) lt a(4,6) rows(1) [folded a(5)] w31 spawn]
  consider "r = Inr None" "pl' = pl" "bo_is_empty (pe_ops env) (pl_builder pl)"
    | t where "r = Inr (Some t)" "wal_rep (pe_crc env) (a_rotate a) (pl_wal pl')" "pl_cfg pl' = cfg" "pl_block_low_seg pl' = aseq a + 1"
      "holds cfg (pl_builder pl') []" "task_ok holds bytes_of payload_rows cfg ?k ?h (aseq a + 1) t"
    using a(5) by auto
  then show ?thesis
  proof cases
    case 1
    then have "rows_in payload_rows ?h (unat (pl_block_low_seg pl)) (Suc (unat (aseq a))) = []" using is_empty_iff [OF rows(1)] by simp
    with 1 a rows(1) tasks op show ?thesis
      by (auto simp: world_ok_def up_ok_def Let_def intro!: exI [of _ a])
  next
    case (2 t)
    have seq: "unat (aseq a + 1) = Suc (unat (aseq a))" by (rule unat_plus_one [OF lt, unfolded Suc_eq_plus1 [symmetric]])
    have "?h (of_nat (unat (aseq a + 1))) = []" using a(4) less_plus_one [OF lt] by (simp add: log_history_def)
    then have "rows_in payload_rows ?h (unat (aseq a + 1)) (Suc (unat (aseq a + 1))) = []" by (simp add: rows_in_Suc del: of_nat_unat)
    moreover have "task_ok holds bytes_of payload_rows cfg ?k ?h (aseq a + 1) t'" if "t' \<in> set (iw_tasks w)" for t'
      using tasks that less_plus_one [OF lt] by (auto intro: task_ok_mono)
    ultimately show ?thesis using 2 a(2,3) log_history_rotate [OF a(4) lt] seq op
      by (auto simp: world_ok_def up_ok_def Let_def a_rotate_def intro!: exI [of _ "a_rotate a"])
  qed
qed

lemma step_commit:
  assumes n: "n < 2 ^ 63 - 1" and small: "max 1 (unat (bc_target_bytes cfg)) + 2 * longest < 2 ^ 31"
    and ok: "world_ok holds bytes_of payload_rows stored env cfg n w" and up: "iw_pipe w = Some pl" "iw_op w = Some (Committing p scratch)"
    and commit: "commit_batch env now p scratch pl = (r, pl', scratch')"
  shows "world_ok holds bytes_of payload_rows stored env cfg (Suc n)
    (case r of Inr seg \<Rightarrow> w\<lparr>iw_pipe := Some pl', iw_op := Some (Closing seg p), iw_frames := (iw_frames w)(seg := iw_frames w seg @ [p])\<rparr>
     | Inl e \<Rightarrow> w\<lparr>iw_pipe := Some pl', iw_op := None\<rparr>)"
proof -
  let ?k = "kept_in (set (iw_landed w))" and ?h = "iw_frames w" and ?lo = "unat (pl_block_low_seg pl)"
  obtain a where a: "wal_rep (pe_crc env) a (pl_wal pl)" "unat (aseq a) \<le> n" "acap a = DEFAULT_MAX_SEGMENT_BYTES"
    "log_history ?k ?h a" "pl_cfg pl = cfg" "pl_block_low_seg pl \<le> aseq a"
    and rows: "holds cfg (pl_builder pl) (rows_in payload_rows ?h ?lo (Suc (unat (aseq a))))"
      "weigh bytes_of (rows_in payload_rows ?h ?lo (Suc (unat (aseq a)))) < max 1 (unat (bc_target_bytes cfg))" "holds cfg scratch (payload_rows p)"
    and tasks: "\<forall>t \<in> set (iw_tasks w). task_ok holds bytes_of payload_rows cfg ?k ?h (aseq a) t"
    by (rule world_upE [OF ok up(1)]) (use up(2) in auto)
  have lt: "aseq a < - 1" using seq_bound [OF a(2)] n by simp
  from commit_batch_ok [OF a(1) lt a(4,6) rows(1,3) [folded a(5)] commit]
  consider e where "r = Inl e" "pl' = pl" | "fits p" "r = Inr (aseq a)" "wal_rep (pe_crc env) (a_step (Append p) a) (pl_wal pl')" "pl_cfg pl' = cfg"
      "pl_block_low_seg pl' = pl_block_low_seg pl"
      "holds cfg (pl_builder pl') (rows_in payload_rows (?h(aseq a := ?h (aseq a) @ [p])) ?lo (Suc (unat (aseq (a_step (Append p) a)))))"
    using a(5) by (auto simp: isl_def)
  then show ?thesis
  proof cases
    case 1
    with a rows tasks up show ?thesis by (auto simp: world_ok_def up_ok_def Let_def intro!: exI [of _ a])
  next
    case 2
    let ?a = "a_step (Append p) a" and ?h' = "?h(aseq a := ?h (aseq a) @ [p])"
    have aseq: "aseq ?a = aseq a \<or> aseq ?a = aseq a + 1" "acap ?a = acap a" using 2(1) by (auto simp: a_rotate_def Let_def)
    then have le: "aseq a \<le> aseq ?a" "unat (aseq ?a) \<le> Suc n" using a(2) less_plus_one [OF lt] unat_plus_one [OF lt] by auto
    have hist: "log_history ?k ?h' ?a" by (rule log_history_append [OF a(4) lt 2(1)])
    have "?lo \<le> unat (aseq a)" using a(6) by (simp add: word_le_nat_alt)
    note app = rows_after_append [OF this, of ?h p]
    have "rows_in payload_rows ?h' ?lo (Suc (unat (aseq ?a))) = rows_in payload_rows ?h' ?lo (Suc (unat (aseq a)))"
    proof (cases "aseq ?a = aseq a")
      case False
      then have "aseq ?a = aseq a + 1" using aseq by blast
      moreover have "?h' (of_nat (Suc (unat (aseq a)))) = []" using a(4) less_plus_one [OF lt] by (auto simp: log_history_def add.commute)
      ultimately show ?thesis using unat_plus_one [OF lt] a(6)
        by (simp add: rows_in_Suc [of ?lo "Suc (unat (aseq a))"] word_le_nat_alt del: of_nat_Suc fun_upd_apply a_step.simps)
    qed simp
    then have "weigh bytes_of (rows_in payload_rows ?h' ?lo (Suc (unat (aseq ?a)))) < 2 ^ 31"
      using app rows(2) payload_small [of p] 2(1) longest_frame small by simp
    moreover have "task_ok holds bytes_of payload_rows cfg ?k ?h' (aseq ?a) t" if "t \<in> set (iw_tasks w)" for t
      using task_ok_mono [OF task_ok_append _ le(1)] tasks that by blast
    ultimately show ?thesis using 2(2-6) a(3) aseq(2) le hist order.trans [OF a(6) le(1)]
      by (auto simp: world_ok_def up_ok_def Let_def simp del: a_step.simps fun_upd_apply intro!: exI [of _ ?a])
  qed
qed

text \<open>The stretches of an upload task.\<close>

lemma step_encode:
  assumes ok: "world_ok holds bytes_of payload_rows stored env cfg n w" and tasks: "iw_tasks w = ts @ t # us" "ut_phase t = Encoding"
    and run: "upload_encode env u oc t (iw_store w) = (res, s)"
  shows "world_ok holds bytes_of payload_rows stored env cfg (Suc n)
    (w\<lparr>iw_tasks := ts @ (case res of Some t' \<Rightarrow> [t'] | None \<Rightarrow> []) @ us, iw_store := s,
      iw_landed := iw_landed w @ (case res of Some t' \<Rightarrow> (case ut_phase t' of Landed bm \<Rightarrow> [(bm, s)] | _ \<Rightarrow> []) | None \<Rightarrow> [])\<rparr>)"
proof -
  let ?L = "set (iw_landed w)" and ?h = "iw_frames w"
  obtain pl where pl: "iw_pipe w = Some pl" by (rule task_upE [OF ok tasks(1)])
  obtain a where a: "wal_rep (pe_crc env) a (pl_wal pl)" "unat (aseq a) \<le> n" "acap a = DEFAULT_MAX_SEGMENT_BYTES"
    "log_history (kept_in ?L) ?h a" "pl_cfg pl = cfg" "pl_block_low_seg pl \<le> aseq a"
    "holds cfg (pl_builder pl) (rows_in payload_rows ?h (unat (pl_block_low_seg pl)) (Suc (unat (aseq a))))"
    "weigh bytes_of (rows_in payload_rows ?h (unat (pl_block_low_seg pl)) (Suc (unat (aseq a)))) <
      (case iw_op w of Some (Closing _ _) \<Rightarrow> 2 ^ 31 | _ \<Rightarrow> max 1 (unat (bc_target_bytes cfg)))"
    "\<forall>p s. iw_op w = Some (Committing p s) \<longrightarrow> holds cfg s (payload_rows p)"
    "\<forall>t \<in> set (iw_tasks w). task_ok holds bytes_of payload_rows cfg (kept_in ?L) ?h (aseq a) t"
    by (rule world_upE [OF ok pl])
  have mono: "kept_in (?L \<union> M) p" if "kept_in ?L p" for M p using frame_kept_mono [OF that] by blast
  have others: "task_ok holds bytes_of payload_rows cfg (kept_in (?L \<union> M)) ?h (aseq a) t'" if "t' \<in> set (ts @ us)" for t' M
    using a(10) that tasks by (auto intro: task_ok_mono mono)
  have hist: "log_history (kept_in (?L \<union> M)) ?h a" for M using a(4) by (rule log_history_mono) (rule mono)
  show ?thesis
  proof (cases res)
    case None
    with a pl others [of _ "{}"] show ?thesis by (auto simp: world_ok_def up_ok_def Let_def intro!: exI [of _ a])
  next
    case (Some t')
    have t: "task_ok holds bytes_of payload_rows cfg (kept_in ?L) ?h (aseq a) t" using a(10) tasks by simp
    from upload_encode_ok [OF t tasks(2) run [unfolded Some]] obtain bm where
      bm: "t' = t\<lparr>ut_phase := Landed bm\<rparr>" "stored s bm (rows_in payload_rows ?h (unat (ut_low t)) (Suc (unat (ut_sealed t))))" by blast
    then have "task_ok holds bytes_of payload_rows cfg (kept_in (?L \<union> {(bm, s)})) ?h (aseq a) t'"
      using t landed_kept [OF bm(2), of "?L \<union> {(bm, s)}"] by (auto simp: task_ok_def)
    with a(1-3,5-9) pl others [of _ "{(bm, s)}"] hist [of "{(bm, s)}"] show ?thesis
      by (auto simp: world_ok_def up_ok_def Let_def Some bm(1) intro!: exI [of _ a])
  qed
qed

lemma step_release:
  assumes ok: "world_ok holds bytes_of payload_rows stored env cfg n w" and up: "iw_pipe w = Some pl"
    and tasks: "iw_tasks w = ts @ t # us" "ut_phase t = Landed bm" and run: "upload_release unlinks bm t (pl_wal pl) = (t', wal')"
  shows "world_ok holds bytes_of payload_rows stored env cfg (Suc n) (w\<lparr>iw_pipe := Some (pl\<lparr>pl_wal := wal'\<rparr>), iw_tasks := ts @ t' # us\<rparr>)"
proof -
  let ?k = "kept_in (set (iw_landed w))" and ?h = "iw_frames w"
  obtain a where a: "wal_rep (pe_crc env) a (pl_wal pl)" "unat (aseq a) \<le> n" "acap a = DEFAULT_MAX_SEGMENT_BYTES"
    "log_history ?k ?h a" "pl_cfg pl = cfg" "pl_block_low_seg pl \<le> aseq a"
    "holds cfg (pl_builder pl) (rows_in payload_rows ?h (unat (pl_block_low_seg pl)) (Suc (unat (aseq a))))"
    "weigh bytes_of (rows_in payload_rows ?h (unat (pl_block_low_seg pl)) (Suc (unat (aseq a)))) <
      (case iw_op w of Some (Closing _ _) \<Rightarrow> 2 ^ 31 | _ \<Rightarrow> max 1 (unat (bc_target_bytes cfg)))"
    "\<forall>p s. iw_op w = Some (Committing p s) \<longrightarrow> holds cfg s (payload_rows p)"
    "\<forall>t \<in> set (iw_tasks w). task_ok holds bytes_of payload_rows cfg ?k ?h (aseq a) t"
    by (rule world_upE [OF ok up])
  have t: "task_ok holds bytes_of payload_rows cfg ?k ?h (aseq a) t" using a(10) tasks by simp
  then have hi: "ut_sealed t < aseq a" and kept: "\<And>s p. ut_low t \<le> s \<Longrightarrow> s \<le> ut_sealed t \<Longrightarrow> p \<in> set (?h s) \<Longrightarrow> ?k p"
    using tasks(2) by (auto simp: task_ok_def)
  from release_rep [OF a(1) hi, of unlinks "ut_low t"] obtain a' where
    a': "wal_rep (pe_crc env) a' ((pl_wal pl)\<lparr>files := snd (release_until unlinks (ut_low t) (ut_sealed t) (files (pl_wal pl)))\<rparr>)"
      "aseq a' = aseq a" "active a' = active a" "acap a' = acap a"
      "\<forall>s. sealed a' s = sealed a s \<or> sealed a' s = None \<and> ut_low t \<le> s \<and> s \<le> ut_sealed t" by blast
  have "log_history ?k ?h a'" by (rule history_release [OF a(4) a'(2,3,5) kept])
  moreover have "t' = t\<lparr>ut_phase := Released bm\<rparr>"
    "wal' = (pl_wal pl)\<lparr>files := snd (release_until unlinks (ut_low t) (ut_sealed t) (files (pl_wal pl)))\<rparr>"
    using run hi a(1) by (auto simp: upload_release_def prepare_release_def wal_rep_def)
  moreover have "task_ok holds bytes_of payload_rows cfg ?k ?h (aseq a) (t\<lparr>ut_phase := Released bm\<rparr>)"
    using t tasks(2) by (auto simp: task_ok_def)
  ultimately show ?thesis using a(2,3,5-10) a'(1-4) tasks
    by (auto simp: world_ok_def up_ok_def Let_def intro!: exI [of _ a'])
qed

text \<open>Steps that touch neither log nor builder nor the records of landed blocks.\<close>

lemma step_aside:
  assumes "world_ok holds bytes_of payload_rows stored env cfg n w" "iw_pipe w' = iw_pipe w" "iw_frames w' = iw_frames w" "iw_landed w' = iw_landed w"
    and "iw_disk w' = iw_disk w" "set (iw_tasks w') \<subseteq> set (iw_tasks w)" and "iw_op w' = iw_op w"
  shows "world_ok holds bytes_of payload_rows stored env cfg (Suc n) w'"
proof (cases "iw_pipe w")
  case None
  with assms obtain a x where "wal_open DEFAULT_MAX_SEGMENT_BYTES (iw_disk w) = Inr x" "wal_rep (pe_crc env) a x" "unat (aseq a) \<le> Suc n"
    "active a = []" "log_history (kept_in (set (iw_landed w))) (iw_frames w) a" by (auto simp: world_ok_def down_ok_def Let_def)
  with assms None show ?thesis by (auto simp: world_ok_def down_ok_def Let_def intro!: exI [of _ a])
next
  case (Some pl)
  obtain a where "wal_rep (pe_crc env) a (pl_wal pl)" "unat (aseq a) \<le> n" "acap a = DEFAULT_MAX_SEGMENT_BYTES"
    "log_history (kept_in (set (iw_landed w))) (iw_frames w) a" "pl_cfg pl = cfg" "pl_block_low_seg pl \<le> aseq a"
    "holds cfg (pl_builder pl) (rows_in payload_rows (iw_frames w) (unat (pl_block_low_seg pl)) (Suc (unat (aseq a))))"
    "weigh bytes_of (rows_in payload_rows (iw_frames w) (unat (pl_block_low_seg pl)) (Suc (unat (aseq a)))) <
      (case iw_op w of Some (Closing _ _) \<Rightarrow> 2 ^ 31 | _ \<Rightarrow> max 1 (unat (bc_target_bytes cfg)))"
    "\<forall>p s. iw_op w = Some (Committing p s) \<longrightarrow> holds cfg s (payload_rows p)"
    "\<forall>t \<in> set (iw_tasks w). task_ok holds bytes_of payload_rows cfg (kept_in (set (iw_landed w))) (iw_frames w) (aseq a) t"
    by (rule world_upE [OF assms(1) Some])
  with assms(2-7) Some show ?thesis by (auto simp: world_ok_def up_ok_def Let_def intro!: exI [of _ a])
qed

text \<open>The lock passes: to a decoded batch, or back once the builder may stay open.\<close>

lemma step_op:
  assumes ok: "world_ok holds bytes_of payload_rows stored env cfg n w" and small: "max 1 (unat (bc_target_bytes cfg)) + 2 * longest < 2 ^ 31"
    and up: "iw_pipe w = Some pl" "iw_op w = None \<or> \<not> bo_should_close (pe_ops env) (pl_builder pl)"
    and op: "op = None \<or> (\<exists>p s. op = Some (Committing p s) \<and> holds cfg s (payload_rows p))"
  shows "world_ok holds bytes_of payload_rows stored env cfg (Suc n) (w\<lparr>iw_op := op, iw_acked := acked\<rparr>)"
proof -
  let ?h = "iw_frames w" and ?max = "max 1 (unat (bc_target_bytes cfg))"
  obtain a where a: "wal_rep (pe_crc env) a (pl_wal pl)" "unat (aseq a) \<le> n" "acap a = DEFAULT_MAX_SEGMENT_BYTES"
    "log_history (kept_in (set (iw_landed w))) ?h a" "pl_cfg pl = cfg" "pl_block_low_seg pl \<le> aseq a"
    "holds cfg (pl_builder pl) (rows_in payload_rows ?h (unat (pl_block_low_seg pl)) (Suc (unat (aseq a))))"
    "weigh bytes_of (rows_in payload_rows ?h (unat (pl_block_low_seg pl)) (Suc (unat (aseq a)))) <
      (case iw_op w of Some (Closing _ _) \<Rightarrow> 2 ^ 31 | _ \<Rightarrow> ?max)"
    "\<forall>t \<in> set (iw_tasks w). task_ok holds bytes_of payload_rows cfg (kept_in (set (iw_landed w))) ?h (aseq a) t"
    by (rule world_upE [OF ok up(1)])
  have "weigh bytes_of (rows_in payload_rows ?h (unat (pl_block_low_seg pl)) (Suc (unat (aseq a)))) < 2 ^ 31"
    using a(8) small by (auto split: option.splits ingest_op.splits)
  then have "weigh bytes_of (rows_in payload_rows ?h (unat (pl_block_low_seg pl)) (Suc (unat (aseq a)))) < ?max"
    using up(2) a(8) open_small [OF a(7)] by (auto simp: less_max_iff_disj)
  with a(1-7,9) up(1) op show ?thesis by (auto simp: world_ok_def up_ok_def Let_def intro!: exI [of _ a])
qed

lemma ingest_step_ok:
  assumes "ingest_step env base cap w w'" and n: "n < 2 ^ 63 - 1"
    and small: "max 1 (unat (bc_target_bytes (sa_cfg base))) + 2 * longest < 2 ^ 31"
    and ok: "world_ok holds bytes_of payload_rows stored env (sa_cfg base) n w"
  shows "world_ok holds bytes_of payload_rows stored env (sa_cfg base) (Suc n) w'"
  using assms(1)
proof cases
  case (start sa)
  then show ?thesis using step_start [of sa n w] n small ok by simp
next
  case (crash pl k)
  then show ?thesis using step_crash [OF n ok] by simp
next
  case (begin_batch pl payload j scratch)
  have "pl_cfg pl = sa_cfg base" by (rule world_upE [OF ok begin_batch(2)])
  with begin_batch have "holds (sa_cfg base) scratch (payload_rows payload)" using decode_holds [OF new_holds] by fastforce
  with step_op [OF ok small begin_batch(2) disjI1, of "Some (Committing payload scratch)" "iw_acked w"] begin_batch show ?thesis by simp
next
  case (begin_boundary pl payload j scratch free load r pl')
  have "pl_cfg pl = sa_cfg base" by (rule world_upE [OF ok begin_boundary(2)])
  with begin_boundary have "holds (sa_cfg base) scratch (payload_rows payload)" using decode_holds [OF new_holds] by fastforce
  with step_spawn [OF n small ok begin_boundary(2,7), of "Some (Committing payload scratch)"] begin_boundary show ?thesis by simp
next
  case (commit pl payload scratch now seg pl' scratch')
  then show ?thesis using step_commit [OF n small ok] by fastforce
next
  case (refuse pl payload scratch now e pl' scratch')
  then show ?thesis using step_commit [OF n small ok] by fastforce
next
  case (acknowledge pl seg payload)
  then show ?thesis using step_op [OF ok small, of pl None "iw_acked w @ [(seg, payload)]"] by simp
next
  case (close_block pl seg payload free load r pl')
  then show ?thesis using step_spawn [OF n small ok close_block(2,6), of None] by simp
next
  case (flush pl free load r pl')
  then show ?thesis using step_spawn [OF n small ok flush(2,5), of None] by simp
next
  case (encode ts t us now_v7 oc res s)
  then show ?thesis using step_encode [OF ok encode(2-4)] by simp
next
  case (release pl ts t us bm unlinks t' wal')
  then show ?thesis using step_release [OF ok release(2-5)] by simp
next
  case (publish ts t us bm insert_ok observed_at)
  then show ?thesis by (intro step_aside [OF ok]) auto
next
  case (elsewhere s cat)
  then show ?thesis by (intro step_aside [OF ok]) auto
qed

lemma ingest_run_ok:
  assumes "ingest_run env base cap n w" "n < 2 ^ 63" and small: "max 1 (unat (bc_target_bytes (sa_cfg base))) + 2 * longest < 2 ^ 31"
  shows "world_ok holds bytes_of payload_rows stored env (sa_cfg base) n w"
  using assms(1,2)
proof (induction rule: ingest_run.induct)
  case (begins s cat)
  have "log_history k (\<lambda>_. []) (a_init cap)" for k cap by (simp add: log_history_def a_init_def)
  with wal_open_empty [of DEFAULT_MAX_SEGMENT_BYTES "pe_crc env"] show ?case
    by (auto simp: world_ok_def down_ok_def new_world_def Let_def a_init_def intro!: exI [of _ "a_init DEFAULT_MAX_SEGMENT_BYTES"])
next
  case (goes_on n w w')
  then show ?case using ingest_step_ok [OF goes_on(2) _ small] by simp
qed

end

end
