(* ===== verification/Ingest_Props.thy ===== *)
theory Ingest_Props
  imports Ingest
begin

text \<open>
  What the ingest pipeline guarantees, for the builder and the decoder of dummy records: no acknowledged
  batch is lost, a start over a sound log succeeds and empties it, and one record with an invalid key
  stops every start.
\<close>

section \<open>The dummy signal\<close>

definition dummy_pipeline :: "encode_env \<Rightarrow> dummy_builder pipeline_env \<Rightarrow> dummy_builder pipeline_env" where
  "dummy_pipeline en env = env\<lparr>pe_ops := dummy_ops en, pe_decode := decode_dummy_batch_into dummy_append_raw\<rparr>"

lemma dummy_pipeline_simps [simp]:
  "pe_ops (dummy_pipeline en env) = dummy_ops en" "pe_decode (dummy_pipeline en env) = decode_dummy_batch_into dummy_append_raw"
  "pe_crc (dummy_pipeline en env) = pe_crc env" "pe_ymd (dummy_pipeline en env) = pe_ymd env"
  "pe_sha256 (dummy_pipeline en env) = pe_sha256 env" "bo_signal (dummy_ops en) = ''dummy''"
  by (simp_all add: dummy_pipeline_def dummy_ops_def)

lemma redact_dummy [simp]: "redact_replayed_payload env ''dummy'' p = Some p"
  by (simp add: redact_replayed_payload_def)

lemma dummy_builder_laws:
  "block_builder (dummy_ops en) (decode_dummy_batch_into dummy_append_raw) dummy_holds record_bytes batch_records (dummy_stored en)"
  by (rule dummy.block_builder_axioms)

interpretation dummy_ingest: ingest_pipeline "dummy_pipeline en env" dummy_holds record_bytes batch_records "dummy_stored en"
    "unat MAX_REPLAY_FRAME_BYTES" for en env
proof (intro ingest_pipeline.intro ingest_pipeline_axioms.intro, goal_cases)
  case 1
  show ?case using dummy_builder_laws by simp
qed auto

lemma dummy_kept_iff:
  "frame_kept (dummy_pipeline en env) batch_records (dummy_stored en) L p \<longleftrightarrow>
     batch_records p = [] \<or> (\<exists>(bm, s) \<in> L. \<exists>rs. dummy_stored en s bm rs \<and> mset (batch_records p) \<subseteq># mset rs)"
  by (auto simp: frame_kept_def)

section \<open>The code's own composition is a run of the steps\<close>

lemma run_steps_2:
  assumes "ingest_run env base cap n w" "ingest_step env base cap w w1" "ingest_step env base cap w1 w2"
  shows "ingest_run env base cap (n + 2) w2"
  using ingest_run.goes_on [OF ingest_run.goes_on [OF assms(1,2)] assms(3)] by simp

lemma step_to: "ingest_step env base cap w x \<Longrightarrow> x = y \<Longrightarrow> ingest_step env base cap w y"
  by simp

text \<open>A whole ingest, while the uploads it may start are free, takes three of the steps and acknowledges its batch.\<close>

lemma ingest_decoded_run:
  assumes run: "ingest_run env base cap n w" and up: "iw_pipe w = Some pl" "iw_op w = None" and free: "length (iw_tasks w) + (if schema_boundary env (pl_builder pl) scratch then 2 else 1) \<le> cap"
    and dec: "pe_decode env p (bo_new (pe_ops env) (pl_writer_uuid pl) (pl_cfg pl)) = (Inr k, scratch)"
    and ing: "ingest_decoded env now free_after load_busy p scratch pl = (Inr seg, tasks, pl', scratch')"
  shows "ingest_run env base cap (n + 3) (w\<lparr>iw_pipe := Some pl', iw_tasks := iw_tasks w @ tasks,
    iw_frames := (iw_frames w)(seg := iw_frames w seg @ [p]), iw_acked := iw_acked w @ [(seg, p)]\<rparr>)"
proof -
  let ?ts = "\<lambda>t. case t of None \<Rightarrow> [] | Some t \<Rightarrow> [t]"
  from ing obtain t1 pl1 pl2 t2 where
    first: "(if schema_boundary env (pl_builder pl) scratch then spawn_upload env free_after load_busy pl else (Inr None, pl)) = (Inr t1, pl1)"
    and mid: "commit_batch env now p scratch pl1 = (Inr seg, pl2, scratch')"
    and last: "(if bo_should_close (pe_ops env) (pl_builder pl2) then spawn_upload env (free_after - 1) load_busy pl2 else (Inr None, pl2)) = (Inr t2, pl')"
    and tasks: "tasks = ?ts t1 @ ?ts t2"
    by (auto simp: ingest_decoded_def split: sum.splits prod.splits)
  let ?w1 = "w\<lparr>iw_pipe := Some pl1, iw_tasks := iw_tasks w @ ?ts t1, iw_op := Some (Committing p scratch)\<rparr>"
  let ?w2 = "?w1\<lparr>iw_pipe := Some pl2, iw_op := Some (Closing seg p), iw_frames := (iw_frames ?w1)(seg := iw_frames ?w1 seg @ [p])\<rparr>"
  let ?w3 = "?w2\<lparr>iw_pipe := Some pl', iw_op := None, iw_tasks := iw_tasks ?w2 @ ?ts t2, iw_acked := iw_acked ?w2 @ [(seg, p)]\<rparr>"
  have 1: "ingest_step env base cap w ?w1"
  proof (cases "schema_boundary env (pl_builder pl) scratch")
    case True
    then have "spawn_upload env free_after load_busy pl = (Inr t1, pl1)" using first by simp
    from ingest_step.begin_boundary [OF up dec True _ this] free True show ?thesis by (cases t1) simp_all
  next
    case False
    with first up show ?thesis by (intro step_to [OF ingest_step.begin_batch [OF up dec False]] world.equality) auto
  qed
  have 2: "ingest_step env base cap ?w1 ?w2" by (rule ingest_step.commit [OF _ _ mid]) simp_all
  have 3: "ingest_step env base cap ?w2 ?w3"
  proof (cases "bo_should_close (pe_ops env) (pl_builder pl2)")
    case True
    then have "spawn_upload env (free_after - 1) load_busy pl2 = (Inr t2, pl')" using last by simp
    moreover have "length (iw_tasks ?w2) < cap" using free first by (auto split: option.split if_splits)
    ultimately show ?thesis using True
      by (intro step_to [OF ingest_step.close_block [of ?w2 pl2 seg p]] world.equality) (auto split: option.split)
  next
    case False
    with last show ?thesis by (intro step_to [OF ingest_step.acknowledge [of ?w2 pl2 seg p]] world.equality) auto
  qed
  have "?w3 = w\<lparr>iw_pipe := Some pl', iw_tasks := iw_tasks w @ tasks,
      iw_frames := (iw_frames w)(seg := iw_frames w seg @ [p]), iw_acked := iw_acked w @ [(seg, p)]\<rparr>"
    using up(2) by (intro world.equality) (simp_all add: tasks)
  with ingest_run.goes_on [OF run_steps_2 [OF run 1 2] 3] show ?thesis by (simp add: numeral_eq_Suc)
qed

text \<open>An upload whose calls all succeed takes three steps too.\<close>

lemma upload_run:
  assumes run: "ingest_run env base cap n w" and up: "iw_pipe w = Some pl" and t: "iw_tasks w = ts @ t # us" "ut_phase t = Encoding"
    and fin: "bo_finish_and_upload (pe_ops env) u oc (ut_builder t) (iw_store w) = (Inr (Some bm), s')"
    and rel: "upload_release unlinks bm (t\<lparr>ut_phase := Landed bm\<rparr>) (pl_wal pl) = (t2, wal')"
  shows "ingest_run env base cap (n + 3) (w\<lparr>iw_pipe := Some (pl\<lparr>pl_wal := wal'\<rparr>), iw_tasks := ts @ us, iw_store := s',
    iw_catalog := upload_publish env ok at bm (iw_catalog w), iw_events := iw_events w @ emitted (sa_event_sink base) bm,
    iw_landed := iw_landed w @ [(bm, s')]\<rparr>)"
proof -
  let ?t1 = "t\<lparr>ut_phase := Landed bm\<rparr>"
  let ?w1 = "w\<lparr>iw_tasks := ts @ ?t1 # us, iw_store := s', iw_landed := iw_landed w @ [(bm, s')]\<rparr>"
  let ?w2 = "?w1\<lparr>iw_pipe := Some (pl\<lparr>pl_wal := wal'\<rparr>), iw_tasks := ts @ t2 # us\<rparr>"
  let ?w3 = "?w2\<lparr>iw_tasks := ts @ us, iw_catalog := upload_publish env ok at bm (iw_catalog ?w2), iw_events := iw_events ?w2 @ emitted (sa_event_sink base) bm\<rparr>"
  have "upload_encode env u oc t (iw_store w) = (Some ?t1, s')" by (simp add: upload_encode_def fin)
  from ingest_step.encode [OF t this] have 1: "ingest_step env base cap w ?w1" by simp
  have 2: "ingest_step env base cap ?w1 ?w2" by (rule ingest_step.release [OF _ _ _ rel]) (use up in simp_all)
  have "ut_phase t2 = Released bm" using rel by (auto simp: upload_release_def)
  then have 3: "ingest_step env base cap ?w2 ?w3" by (intro ingest_step.publish) simp_all
  have eq: "?w3 = w\<lparr>iw_pipe := Some (pl\<lparr>pl_wal := wal'\<rparr>), iw_tasks := ts @ us, iw_store := s',
    iw_catalog := upload_publish env ok at bm (iw_catalog w), iw_events := iw_events w @ emitted (sa_event_sink base) bm,
    iw_landed := iw_landed w @ [(bm, s')]\<rparr>" by (intro world.equality) simp_all
  show ?thesis using ingest_run.goes_on [OF run_steps_2 [OF run 1 2] 3] unfolding eq by (simp add: numeral_eq_Suc)
qed

section \<open>No acknowledged batch is lost\<close>

text \<open>A frame is in a log when a replay yields it without an error, or it is in the active segment.\<close>

definition in_log :: "(bytes \<Rightarrow> u32) \<Rightarrow> wal \<Rightarrow> bytes \<Rightarrow> bool" where
  "in_log crc x p \<longleftrightarrow> snd (replay_all crc (wal_replay x)) = None \<and>
     (p \<in> set (fst (replay_all crc (wal_replay x))) \<or> p \<in> set (fst (segment_records crc (current x))))"

definition on_disk :: "'b pipeline_env \<Rightarrow> 'b world \<Rightarrow> bytes \<Rightarrow> bool" where
  "on_disk env w p \<longleftrightarrow>
     (case iw_pipe w of
        Some pl \<Rightarrow> in_log (pe_crc env) (pl_wal pl) p
      | None \<Rightarrow> (case wal_open DEFAULT_MAX_SEGMENT_BYTES (iw_disk w) of Inl _ \<Rightarrow> False | Inr x \<Rightarrow> in_log (pe_crc env) x p))"

lemma history_in_log:
  assumes "wal_rep crc a x" "log_history k h a" "p \<in> set (h s)"
  shows "in_log crc x p \<or> k p"
proof -
  have replay: "replay_all crc (wal_replay x) = (a_records a, None)" by (rule replay_rep [OF assms(1)])
  have active: "segment_records crc (current x) = (active a, None)"
    using assms(1) by (auto simp: wal_rep_def segment_records_seg)
  consider "s < aseq a" | "s = aseq a" | "aseq a < s" by (rule linorder_cases)
  then show ?thesis
  proof cases
    case 1
    then have "sealed a s = Some (h s) \<or> k p" using assms(2,3) by (auto simp: log_history_def)
    then show ?thesis using a_records_iff [OF assms(1), of p] assms(3) replay by (auto simp: in_log_def)
  qed (use assms(2,3) replay active in \<open>auto simp: log_history_def in_log_def\<close>)
qed

text \<open>Every acknowledged batch has been appended, and only a crash takes a frame out of the history.\<close>

definition ledger_ok :: "'b world \<Rightarrow> bool" where
  "ledger_ok w \<longleftrightarrow> (\<forall>(s, p) \<in> set (iw_acked w). p \<in> set (iw_frames w s) \<or> (s, p) \<in> iw_torn w) \<and>
     (\<forall>s p. iw_op w = Some (Closing s p) \<longrightarrow> p \<in> set (iw_frames w s))"

lemma torn_or_kept:
  assumes "p \<in> set (h s)"
  shows "p \<in> set (torn k x h s) \<or> (s, p) \<in> torn_off k x h"
proof -
  have "set (h s) = set (take j (h s)) \<union> set (drop j (h s))" for j by (metis append_take_drop_id set_append)
  with assms show ?thesis by (auto simp: torn_def torn_off_def)
qed

lemma ingest_step_ledger: "ingest_step env base cap w w' \<Longrightarrow> ledger_ok w \<Longrightarrow> ledger_ok w'"
proof (induction rule: ingest_step.induct)
  case (crash w pl k)
  then show ?case using torn_or_kept by (fastforce simp: ledger_ok_def)
next
  case (start w sa)
  then show ?case by (auto simp: ledger_ok_def after_start_def split: prod.splits)
qed (fastforce simp: ledger_ok_def)+

lemma ingest_run_ledger: "ingest_run env base cap n w \<Longrightarrow> ledger_ok w"
proof (induction rule: ingest_run.induct)
  case (begins s cat)
  show ?case by (simp add: ledger_ok_def new_world_def)
qed (rule ingest_step_ledger)

text \<open>C2: no acknowledged batch is lost. In every run of an ingest shard from an empty directory, with
  batches and background uploads interleaved, failing, unconfirmed or late store calls, releases that
  stop half way, crashes at any moment, starts that fail and are repeated, and others changing bucket
  and catalog at will, an acknowledged batch is replayed by the next start, or has no records, or all its
  records were in one complete block of the bucket, or it was in the part of the active segment that a
  crash cut off before it reached the disk.\<close>

theorem ingest_never_loses:
  assumes "ingest_run (dummy_pipeline en env) base cap n w" "n < 2 ^ 63"
    and "max 1 (unat (bc_target_bytes (sa_cfg base))) + 2 * unat MAX_REPLAY_FRAME_BYTES < 2 ^ 31"
    and "(s, p) \<in> set (iw_acked w)"
  shows "on_disk (dummy_pipeline en env) w p \<or> batch_records p = [] \<or>
    (\<exists>(bm, st) \<in> set (iw_landed w). \<exists>rs. dummy_stored en st bm rs \<and> mset (batch_records p) \<subseteq># mset rs) \<or> (s, p) \<in> iw_torn w"
proof (cases "(s, p) \<in> iw_torn w")
  case False
  let ?env = "dummy_pipeline en env" and ?k = "frame_kept (dummy_pipeline en env) batch_records (dummy_stored en) (set (iw_landed w))"
  have p: "p \<in> set (iw_frames w s)" using ingest_run_ledger [OF assms(1)] assms(4) False by (auto simp: ledger_ok_def)
  have ok: "world_ok dummy_holds record_bytes batch_records (dummy_stored en) ?env (sa_cfg base) n w"
    by (rule dummy_ingest.ingest_run_ok [OF assms(1-3)])
  have "on_disk ?env w p \<or> ?k p"
  proof (cases "iw_pipe w")
    case None
    with ok obtain a x where "wal_open DEFAULT_MAX_SEGMENT_BYTES (iw_disk w) = Inr x" "wal_rep (pe_crc ?env) a x" "log_history ?k (iw_frames w) a"
      by (auto simp: world_ok_def down_ok_def Let_def)
    with history_in_log [of "pe_crc ?env" a x ?k "iw_frames w" p s] p None show ?thesis by (simp add: on_disk_def)
  next
    case (Some pl)
    with ok obtain a where "wal_rep (pe_crc ?env) a (pl_wal pl)" "log_history ?k (iw_frames w) a"
      by (auto simp: world_ok_def up_ok_def Let_def)
    with history_in_log [of "pe_crc ?env" a "pl_wal pl" ?k "iw_frames w" p s] p Some show ?thesis by (simp add: on_disk_def)
  qed
  then show ?thesis unfolding dummy_kept_iff by blast
qed simp

section \<open>One invalid key\<close>

text \<open>C32: a batch with a key that is not text stops every later start. The streaming decoder accepts such a
  batch, so it is acknowledged and in the log; but whatever the store answers, a start over a log that
  holds it fails, leaves the log as it was, and so fails again.\<close>

theorem invalid_key_stops_start:
  assumes "wal_open DEFAULT_MAX_SEGMENT_BYTES d = Inr x" "replay_all (pe_crc env) (wal_replay x) = (ps, None)" "\<forall>q \<in> set ps. fits q"
    and "max 1 (unat (bc_target_bytes (sa_cfg sa))) + 2 * unat MAX_REPLAY_FRAME_BYTES < 2 ^ 31"
    and "p \<in> set ps" "r \<in> set (batch_records p)" "\<not> utf8 (dr_key r)"
  shows "\<exists>e st. open_pipeline (dummy_pipeline en env) sa d s cat = (Inl e, st, Some x)"
proof -
  let ?env = "dummy_pipeline en env"
  obtain q st where q: "recover ?env sa (checked_sub (current_seq x) 1) (ps, None) (fresh_recovery ?env sa s cat) = (q, st)" by force
  have "q \<noteq> Inr u" for u
  proof
    assume "q = Inr u"
    with dummy_ingest.recover_ok [OF assms(4,3)] q assms(5)
    have "frame_kept ?env batch_records (dummy_stored en) (set (rc_uploaded st)) p" by blast
    then obtain bm s' rs where "dummy_stored en s' bm rs" "mset (batch_records p) \<subseteq># mset rs"
      using assms(6) unfolding dummy_kept_iff by auto
    moreover from this(2) assms(6) have "r \<in> set rs" by (metis in_multiset_in_set mset_subset_eqD)
    ultimately show False using assms(7) by (auto simp: dummy_stored_def)
  qed
  then obtain e where "q = Inl e" by (cases q) auto
  with q assms(1,2) show ?thesis by (simp add: open_pipeline_def Let_def)
qed

section \<open>A start that succeeds\<close>

lemma put_block_objects_succeeds: "\<forall>i. oc i = CallOk \<Longrightarrow> \<exists>s'. put_block_objects oc puts s = (Inr (), s')"
proof (induction puts arbitrary: s)
  case (Cons x puts)
  obtain p b where x: "x = (p, b)" by force
  from Cons.prems have "\<exists>s1. put_loop oc p b 1 s = (Inr (), s1)" by (subst put_loop.simps) (simp add: store_put_def Let_def)
  with Cons x show ?case by fastforce
qed simp

lemma encode_total:
  assumes "dummy_columns b = Some cols" "\<forall>c cols. en_parquet en c cols \<noteq> None" "\<forall>m. en_ser en m \<noteq> None"
  shows "\<exists>bm puts. dummy_encode en u b = Inr (bm, puts)"
proof -
  obtain body where "en_parquet en (db_cfg b) cols = Some body" using assms(2) by blast
  moreover have "\<exists>meta_bytes. en_ser en m = Some meta_bytes" for m using assms(3) by blast
  ultimately show ?thesis using assms(1) by (auto simp: dummy_encode_def Let_def split: option.split)
qed

lemma dummy_finish_ok:
  assumes "dummy_holds c b rs" "weigh record_bytes rs < 2 ^ 31" "rs \<noteq> []" "\<forall>r \<in> set rs. utf8 (dr_key r)"
    and "\<forall>c cols. en_parquet en c cols \<noteq> None" "\<forall>m. en_ser en m \<noteq> None" "\<forall>i. oc i = CallOk"
  shows "\<exists>bm s'. dummy_finish_and_upload en u oc b s = (Inr (Some bm), s')"
proof -
  have "\<not> dummy_is_empty b" using assms(1,3) by (auto simp: dummy_is_empty_def dummy_holds_def)
  moreover obtain bm puts where "dummy_encode en u b = Inr (bm, puts)"
    using encode_total [OF _ assms(5,6)] dummy_columns_holds [OF assms(1,2)] assms(4) by (metis (full_types))
  moreover obtain s' where "put_block_objects oc puts s = (Inr (), s')" using put_block_objects_succeeds [of oc puts s] assms(7) by blast
  ultimately show ?thesis by (simp add: dummy_finish_and_upload_def)
qed

text \<open>While it replays sound frames: the open builder holds records that can be uploaded.\<close>

definition uploadable :: "start_args \<Rightarrow> dummy_builder recovery \<Rightarrow> bool" where
  "uploadable sa st \<longleftrightarrow> dummy_holds (sa_cfg sa) (rc_scratch st) [] \<and>
     (\<exists>rs. dummy_holds (sa_cfg sa) (rc_builder st) rs \<and> weigh record_bytes rs < max 1 (unat (bc_target_bytes (sa_cfg sa))) \<and>
        (\<forall>r \<in> set rs. utf8 (dr_key r)))"

lemma upload_replay_block_succeeds:
  assumes "dummy_holds (sa_cfg sa) (rc_builder st) rs" "weigh record_bytes rs < 2 ^ 31" "rs \<noteq> []" "\<forall>r \<in> set rs. utf8 (dr_key r)"
    and "\<forall>c cols. en_parquet en c cols \<noteq> None" "\<forall>m. en_ser en m \<noteq> None" "\<forall>i. sa_oc sa i = CallOk"
  shows "\<exists>st'. upload_replay_block (dummy_pipeline en env) sa high st = (Inr (), st') \<and>
    dummy_holds (sa_cfg sa) (rc_builder st') [] \<and> rc_scratch st' = rc_scratch st"
proof -
  let ?env = "dummy_pipeline en env" and ?ops = "dummy_ops en"
  let ?b1 = "bo_set_block_uuid ?ops (recovery_block_uuid ?env (sa_writer_uuid sa) ''dummy'' (sa_shard_index sa)
      (pe_sha256 env (rc_hashed st))) (rc_builder st)"
  define b2 where "b2 = (case high of None \<Rightarrow> ?b1 | Some h \<Rightarrow> bo_set_wal_shard ?ops (sa_shard_index sa) (bo_set_wal_seg_max ?ops h ?b1))"
  have "dummy_holds (sa_cfg sa) b2 rs" unfolding b2_def using assms(1) by (auto intro: dummy.set_holds split: option.split)
  from dummy_finish_ok [OF this assms(2-7), where u = "sa_now_v7 sa" and s = "rc_store st"] obtain bm s' where
    "bo_finish_and_upload ?ops (sa_now_v7 sa) (sa_oc sa) b2 (rc_store st) = (Inr (Some bm), s')" by (auto simp: dummy_ops_def)
  then show ?thesis using dummy.new_holds [of "sa_cfg sa" en "sa_writer_uuid sa"] 
    by (cases high) (simp_all add: upload_replay_block_def Let_def b2_def)
qed

lemma replay_frame_succeeds:
  assumes ok: "uploadable sa st" and frame: "fits p" "\<not> isl (dummy_batch_decode p)"
    and small: "max 1 (unat (bc_target_bytes (sa_cfg sa))) + 2 * unat MAX_REPLAY_FRAME_BYTES < 2 ^ 31"
    and pos: "0 < bc_max_rows (sa_cfg sa)" "0 < bc_target_bytes (sa_cfg sa)"
    and env: "\<forall>c cols. en_parquet en c cols \<noteq> None" "\<forall>m. en_ser en m \<noteq> None" "\<forall>i. sa_oc sa i = CallOk"
  shows "\<exists>st'. replay_frame (dummy_pipeline en env) sa p st = (Inr (), st') \<and> uploadable sa st'"
proof -
  let ?env = "dummy_pipeline en env" and ?c = "sa_cfg sa"
  obtain qs where "dummy_batch_decode p = Inr qs" using frame(2) by (cases "dummy_batch_decode p") auto
  then have qs: "decode_dummy_batch_into collect_raw p [] = (Inr (length qs), qs)" "\<forall>r \<in> set (batch_records p). utf8 (dr_key r)"
    using batch_decode_iff [of p qs] by (auto simp: batch_records_def)
  obtain k sc where sc: "decode_dummy_batch_into dummy_append_raw p (rc_scratch st) = (Inr k, sc)"
    using decode_result [of dummy_append_raw p "rc_scratch st" collect_raw "[]"] qs(1) by (metis fst_conv prod.collapse)
  have hs: "dummy_holds ?c sc (batch_records p)" using ok dummy_decode_holds [OF _ sc] by (fastforce simp: uploadable_def)
  from ok obtain rs where rs: "dummy_holds ?c (rc_builder st) rs" "weigh record_bytes rs < max 1 (unat (bc_target_bytes ?c))"
    "\<forall>r \<in> set rs. utf8 (dr_key r)" by (auto simp: uploadable_def)
  obtain b' s' where m: "dummy_merge (rc_builder st) sc = (b', s')" by force
  note hm = dummy_merge_holds [OF rs(1) hs m]
  let ?st2 = "st\<lparr>rc_builder := b', rc_scratch := s', rc_hashed := rc_hashed st @ to_be_bytes (of_nat (length p) :: u64) @ p\<rparr>"
  have w: "weigh record_bytes (rs @ batch_records p) < 2 ^ 31"
    using rs(2) dummy.payload_small [of p] frame(1) small by simp
  have run: "replay_frame ?env sa p st = (if dummy_should_close b' then upload_replay_block ?env sa None ?st2 else (Inr (), ?st2))"
    using sc m by (simp add: replay_frame_def Let_def schema_boundary_def dummy_ops_def)
  consider "\<not> dummy_should_close b'" | "dummy_should_close b'" "rs @ batch_records p \<noteq> []" | "dummy_should_close b'" "rs @ batch_records p = []"
    by blast
  then show ?thesis
  proof cases
    case 1
    with dummy.open_small [OF conjunct1 [OF hm] w, of en] have "weigh record_bytes (rs @ batch_records p) < unat (bc_target_bytes ?c)"
      by (simp add: dummy_ops_def)
    with 1 run hm rs(3) qs(2) show ?thesis by (auto simp: uploadable_def intro!: exI [of _ "rs @ batch_records p"])
  next
    case 2
    have "\<forall>r \<in> set (rs @ batch_records p). utf8 (dr_key r)" using rs(3) qs(2) by auto
    with upload_replay_block_succeeds [of sa ?st2 "rs @ batch_records p" en env None] hm w 2(2) env
    obtain st' where "upload_replay_block ?env sa None ?st2 = (Inr (), st')" "dummy_holds ?c (rc_builder st') []" "rc_scratch st' = s'" by auto
    with 2 run hm show ?thesis by (auto simp: uploadable_def intro!: exI [of _ "[]"])
  next
    case 3
    then have "dummy_holds ?c b' []" using hm by simp
    with pos have "\<not> dummy_should_close b'" by (auto simp: dummy_should_close_def dummy_row_count_def dummy_holds_def)
    with 3 show ?thesis by simp
  qed
qed

lemma replay_frames_succeed:
  assumes "uploadable sa st" "\<forall>p \<in> set ps. fits p \<and> \<not> isl (dummy_batch_decode p)"
    and "max 1 (unat (bc_target_bytes (sa_cfg sa))) + 2 * unat MAX_REPLAY_FRAME_BYTES < 2 ^ 31"
    and "0 < bc_max_rows (sa_cfg sa)" "0 < bc_target_bytes (sa_cfg sa)"
    and "\<forall>c cols. en_parquet en c cols \<noteq> None" "\<forall>m. en_ser en m \<noteq> None" "\<forall>i. sa_oc sa i = CallOk"
  shows "\<exists>st'. replay_frames (dummy_pipeline en env) sa ps st = (Inr (), st') \<and> uploadable sa st'"
  using assms(1,2)
proof (induction ps arbitrary: st)
  case (Cons p ps)
  then obtain st1 where st1: "replay_frame (dummy_pipeline en env) sa p st = (Inr (), st1)" "uploadable sa st1"
    using replay_frame_succeeds [OF _ _ _ assms(3-8)] by (metis list.set_intros(1))
  with Cons show ?case by simp
qed simp

lemma replay_frames_recover:
  assumes "\<forall>p \<in> set ps. fits p \<and> \<not> isl (dummy_batch_decode p)"
    and "max 1 (unat (bc_target_bytes (sa_cfg sa))) + 2 * unat MAX_REPLAY_FRAME_BYTES < 2 ^ 31"
    and "0 < bc_max_rows (sa_cfg sa)" "0 < bc_target_bytes (sa_cfg sa)"
    and "\<forall>c cols. en_parquet en c cols \<noteq> None" "\<forall>m. en_ser en m \<noteq> None" "\<forall>i. sa_oc sa i = CallOk"
  shows "\<exists>st'. recover (dummy_pipeline en env) sa high (ps, None) (fresh_recovery (dummy_pipeline en env) sa s cat) = (Inr (), st')"
proof -
  let ?env = "dummy_pipeline en env"
  have new: "dummy_holds (sa_cfg sa) (bo_new (dummy_ops en) (sa_writer_uuid sa) (sa_cfg sa)) []" by (rule dummy.new_holds)
  have "uploadable sa (fresh_recovery ?env sa s cat)"
    unfolding uploadable_def by (intro conjI exI [of _ "[]"]) (use new in \<open>simp_all add: fresh_recovery_def Let_def\<close>)
  from replay_frames_succeed [OF this assms] obtain st1 rs where
    st1: "replay_frames ?env sa ps (fresh_recovery ?env sa s cat) = (Inr (), st1)"
    and rs: "dummy_holds (sa_cfg sa) (rc_builder st1) rs" "weigh record_bytes rs < 2 ^ 31" "\<forall>r \<in> set rs. utf8 (dr_key r)"
    using assms(2) unfolding uploadable_def by fastforce
  show ?thesis
  proof (cases "rs = []")
    case True
    with st1 dummy.is_empty_iff [OF rs(1), of en] show ?thesis by (simp add: recover_def)
  next
    case False
    with upload_replay_block_succeeds [OF rs(1,2) _ rs(3) assms(5-7)] st1 dummy.is_empty_iff [OF rs(1), of en]
    show ?thesis by (fastforce simp: recover_def)
  qed
qed

lemma released_replays_nothing:
  assumes "checked_sub (current_seq x) 1 = Some high"
  shows "replay_all crc (wal_replay (x\<lparr>files := release_segments 0 high (files x)\<rparr>)) = ([], None)"
proof -
  have "s < current_seq x \<Longrightarrow> s \<le> high" for s
    using assms checked_sub_SomeD [of "current_seq x" 1 high] by (simp add: word_less_nat_alt word_le_nat_alt)
  then have "filter (\<lambda>s. s < current_seq x) (dir_seqs (release_segments 0 high (files x))) = []"
    by (fastforce simp: filter_empty_conv set_dir_seqs release_segments_def releasable_def)
  then show ?thesis by (simp add: replay_all_wal)
qed

lemma release_all_unlinks: "release_until None lo hi d = (True, release_segments lo hi d)"
  by (induction d) (simp_all add: release_segments_def split_beta)

text \<open>C9: recovery completes. When the log opens and its frames read back, the generated decoder accepts
  each of them, the encoders are total, the store answers and no unlink fails, a start succeeds: all
  records of every frame are in a block that was completely uploaded, and a replay of the log it leaves
  yields nothing, so nothing is uploaded twice.\<close>

theorem recovery_completes:
  assumes "wal_open DEFAULT_MAX_SEGMENT_BYTES d = Inr x" "replay_all (pe_crc env) (wal_replay x) = (ps, None)"
    and "\<forall>p \<in> set ps. fits p \<and> \<not> isl (dummy_batch_decode p)"
    and "max 1 (unat (bc_target_bytes (sa_cfg sa))) + 2 * unat MAX_REPLAY_FRAME_BYTES < 2 ^ 31"
    and "0 < bc_max_rows (sa_cfg sa)" "0 < bc_target_bytes (sa_cfg sa)"
    and "\<forall>c cols. en_parquet en c cols \<noteq> None" "\<forall>m. en_ser en m \<noteq> None" "\<forall>i. sa_oc sa i = CallOk" "sa_unlinks sa = None"
  shows "\<exists>pl st. open_pipeline (dummy_pipeline en env) sa d s cat = (Inr pl, st, Some (pl_wal pl)) \<and>
    replay_all (pe_crc env) (wal_replay (pl_wal pl)) = ([], None) \<and>
    (\<forall>p \<in> set ps. batch_records p = [] \<or>
      (\<exists>(bm, t) \<in> set (rc_uploaded st). \<exists>rs. dummy_stored en t bm rs \<and> mset (batch_records p) \<subseteq># mset rs))"
proof -
  let ?env = "dummy_pipeline en env" and ?high = "checked_sub (current_seq x) 1"
  from replay_frames_recover [OF assms(3-9)] obtain st where
    st: "recover ?env sa ?high (ps, None) (fresh_recovery ?env sa s cat) = (Inr (), st)" by blast
  then have kept: "\<forall>p \<in> set ps. frame_kept ?env batch_records (dummy_stored en) (set (rc_uploaded st)) p"
    using dummy_ingest.recover_ok [OF assms(4) _ st] assms(3) by blast
  show ?thesis
  proof (cases ?high)
    case None
    then have "replay_all (pe_crc env) (wal_replay x) = ([], None)"
      by (simp add: replay_all_wal checked_sub_def word_less_nat_alt split: if_splits)
    with None st assms(1,2) show ?thesis by (simp add: open_pipeline_def Let_def opened_pipeline_def)
  next
    case (Some high)
    then have "prepare_release x high = Inr ()"
      using Some checked_sub_SomeD [of "current_seq x" 1 high] by (auto simp: prepare_release_def word_le_nat_alt word_less_nat_alt)
    with Some st assms(1,2,10) released_replays_nothing [OF Some] kept [unfolded dummy_kept_iff] show ?thesis
      by (simp add: open_pipeline_def Let_def opened_pipeline_def release_all_unlinks)
  qed
qed

section \<open>A concrete shard\<close>

text \<open>Total encoders, a constant checksum and a store that answers, for the examples below.\<close>

definition demo_encode :: encode_env where
  "demo_encode = \<lparr>en_ymd = (\<lambda>_. (''2026'', ''01'', ''01'')), en_ustr = (\<lambda>u. dec (unat u)), en_parquet = (\<lambda>_ cols. Some (concat (map (fst \<circ> snd) cols))),
     en_ser = (\<lambda>m. Some (to_be_bytes (bm_row_count m))), en_version = ''0''\<rparr>"

definition demo_env :: "dummy_builder pipeline_env" where
  "demo_env = \<lparr>pe_ops = dummy_ops demo_encode, pe_decode = decode_dummy_batch_into dummy_append_raw, pe_redact_logs_v2 = Some,
     pe_redact_logs_v1 = Some, pe_redact_traces_v1 = Some, pe_stamp_logs_v2 = (\<lambda>p _. Some p), pe_sha256 = (\<lambda>_. replicate 32 0),
     pe_crc = (\<lambda>_. 0), pe_ymd = (\<lambda>_. (''2026'', ''01'', ''01''))\<rparr>"

definition demo_start :: "block_builder_config \<Rightarrow> start_args" where
  "demo_start c = \<lparr>sa_writer_uuid = 7, sa_cfg = c, sa_shard_index = 0, sa_oc = (\<lambda>_. CallOk), sa_now_v7 = 1,
     sa_insert_ok = (\<lambda>_. True), sa_watermark_ok = True, sa_observed_at = 0, sa_event_sink = True, sa_unlinks = None\<rparr>"

lemma one_segment_log:
  assumes "\<forall>p \<in> set ps. fits p"
  shows "\<exists>x. wal_open c [(segment_path 0, seg_bytes crc ps)] = Inr x \<and> replay_all crc (wal_replay x) = (ps, None)"
  by (simp add: wal_open_def dir_seqs_def List.map_filter_def create_new_def replay_all_wal segment_records_seg [OF assms])

definition invalid_key_batch :: bytes where
  "invalid_key_batch = [0, 0, 0, 1, 0, 0, 0, 0, 0, 0, 0, 9, 0, 1, 0xFF, 0, 0, 0, 0]"

definition demo_store :: store where
  "demo_store = \<lparr>objects = Map.empty, calls = 0, slept_ms = 0\<rparr>"

lemma demo_start_simps [simp]:
  "sa_cfg (demo_start c) = c" "sa_writer_uuid (demo_start c) = 7" "sa_shard_index (demo_start c) = 0" "sa_oc (demo_start c) i = CallOk"
  "sa_unlinks (demo_start c) = None" "sa_event_sink (demo_start c)"
  by (simp_all add: demo_start_def)

lemma default_config_simps:
  "max 1 (unat (bc_target_bytes block_builder_config_default)) + 2 * unat MAX_REPLAY_FRAME_BYTES < 2 ^ 31"
  "0 < bc_max_rows block_builder_config_default" "0 < bc_target_bytes block_builder_config_default"
  by (simp_all add: block_builder_config_default_def MAX_REPLAY_FRAME_BYTES_def)

lemma demo_total: "\<forall>c cols. en_parquet demo_encode c cols \<noteq> None" "\<forall>m. en_ser demo_encode m \<noteq> None"
  by (simp_all add: demo_encode_def)

lemma invalid_key_batch_records: "batch_records invalid_key_batch = [\<lparr>dr_ts_unix_nano = 9, dr_key = [0xFF], dr_value = []\<rparr>]"
  by (simp add: batch_records_def collect_raw_def batch_eval invalid_key_batch_def)

lemma one_record_batch_decodes:
  "decode_dummy_batch_into collect_raw one_record_batch [] = (Inr 1, [\<lparr>dr_ts_unix_nano = 9, dr_key = [0x61], dr_value = [7, 0]\<rparr>])"
  by (simp add: collect_raw_def batch_eval)

lemma one_record_batch_ok:
  "batch_records one_record_batch = [\<lparr>dr_ts_unix_nano = 9, dr_key = [0x61], dr_value = [7, 0]\<rparr>]"
  "\<not> isl (dummy_batch_decode one_record_batch)" "fits one_record_batch"
  using batch_decode_iff [of one_record_batch "[\<lparr>dr_ts_unix_nano = 9, dr_key = [0x61], dr_value = [7, 0]\<rparr>]"] one_record_batch_decodes
  by (auto simp: batch_records_def one_record_batch_def MAX_REPLAY_FRAME_BYTES_def)

theorem invalid_key_stops_start_witness:
  "\<exists>e st x. open_pipeline (dummy_pipeline demo_encode demo_env) (demo_start block_builder_config_default)
     [(segment_path 0, seg_bytes (pe_crc demo_env) [invalid_key_batch])] demo_store None = (Inl e, st, Some x)"
proof -
  have fit: "\<forall>q \<in> set [invalid_key_batch]. fits q" by (simp add: invalid_key_batch_def MAX_REPLAY_FRAME_BYTES_def)
  from one_segment_log [OF this] obtain x where
    x: "wal_open DEFAULT_MAX_SEGMENT_BYTES [(segment_path 0, seg_bytes (pe_crc demo_env) [invalid_key_batch])] = Inr x"
    "replay_all (pe_crc demo_env) (wal_replay x) = ([invalid_key_batch], None)" by blast
  have "\<exists>e st. open_pipeline (dummy_pipeline demo_encode demo_env) (demo_start block_builder_config_default)
     [(segment_path 0, seg_bytes (pe_crc demo_env) [invalid_key_batch])] demo_store None = (Inl e, st, Some x)"
    by (rule invalid_key_stops_start [OF x fit, where p = invalid_key_batch and r = "\<lparr>dr_ts_unix_nano = 9, dr_key = [0xFF], dr_value = []\<rparr>"])
      (simp_all add: default_config_simps [simplified] invalid_key_batch_records)
  then show ?thesis by blast
qed

theorem recovery_completes_witness:
  "\<exists>pl st. open_pipeline (dummy_pipeline demo_encode demo_env) (demo_start block_builder_config_default)
     [(segment_path 0, seg_bytes (pe_crc demo_env) [one_record_batch])] demo_store None = (Inr pl, st, Some (pl_wal pl)) \<and>
   (\<exists>(bm, t) \<in> set (rc_uploaded st). \<exists>rs. dummy_stored demo_encode t bm rs \<and> mset (batch_records one_record_batch) \<subseteq># mset rs)"
proof -
  have ok: "\<forall>q \<in> set [one_record_batch]. fits q \<and> \<not> isl (dummy_batch_decode q)" using one_record_batch_ok by simp
  then obtain x where
    x: "wal_open DEFAULT_MAX_SEGMENT_BYTES [(segment_path 0, seg_bytes (pe_crc demo_env) [one_record_batch])] = Inr x"
    "replay_all (pe_crc demo_env) (wal_replay x) = ([one_record_batch], None)" using one_segment_log [of "[one_record_batch]"] by auto
  from recovery_completes [OF x ok, of "demo_start block_builder_config_default" demo_encode demo_store None]
  show ?thesis using default_config_simps demo_total one_record_batch_ok(1) by simp blast
qed

text \<open>Blocks of one row: every batch closes its block.\<close>

definition one_row_config :: block_builder_config where
  "one_row_config = block_builder_config_default\<lparr>bc_max_rows := 1\<rparr>"

definition idle_at :: "u64 \<Rightarrow> dummy_builder pipeline \<Rightarrow> bool" where
  "idle_at n pl \<longleftrightarrow> pl_builder pl = dummy_new 7 one_row_config \<and> pl_cfg pl = one_row_config \<and> pl_writer_uuid pl = 7 \<and>
     \<not> pl_adaptive_compression pl \<and> pl_shard_index pl = 0 \<and> pl_block_low_seg pl = n \<and> current_seq (pl_wal pl) = n \<and>
     current_bytes (pl_wal pl) = 0 \<and> max_segment_bytes (pl_wal pl) = DEFAULT_MAX_SEGMENT_BYTES \<and>
     fst ` set (files (pl_wal pl)) \<subseteq> segment_path ` {..n}"

lemma idle_rotates:
  assumes "idle_at n pl" "n < n + 1"
  shows "\<exists>w'. wal_rotate (pl_wal pl\<lparr>current := c, current_bytes := k\<rparr>) = (Inr n, w') \<and> current_seq w' = n + 1 \<and>
    current_bytes w' = 0 \<and> max_segment_bytes w' = DEFAULT_MAX_SEGMENT_BYTES \<and> fst ` set (files w') \<subseteq> segment_path ` {..n + 1}"
proof -
  let ?d = "AList.update (segment_path n) c (files (pl_wal pl))"
  have names: "fst ` set ?d \<subseteq> segment_path ` {..n}" using assms(1) by (simp add: idle_at_def dom_update)
  have "segment_path (n + 1) \<notin> segment_path ` {..n}" using assms(2) by (auto simp: image_iff)
  with names have "segment_path (n + 1) \<notin> fst ` set ?d" by blast
  with assms(1) have "wal_rotate (pl_wal pl\<lparr>current := c, current_bytes := k\<rparr>) =
      (Inr n, (pl_wal pl)\<lparr>files := ?d @ [(segment_path (n + 1), [])], current_seq := n + 1, current := [], current_bytes := 0\<rparr>)"
    by (simp add: idle_at_def wal_rotate_def flush_def create_new_def Let_def)
  moreover have "segment_path ` {..n} \<subseteq> segment_path ` {..n + 1}" using less_imp_le [OF assms(2)] by (intro image_mono) simp
  with names have "fst ` set ?d \<subseteq> segment_path ` {..n + 1}" by (rule order_trans)
  ultimately show ?thesis using assms(1) by (simp add: idle_at_def)
qed

lemma one_row_ingest:
  assumes idle: "idle_at n pl" "n < n + 1" and p: "length p < 1000"
    "decode_dummy_batch_into dummy_append_raw p (dummy_new 7 one_row_config) = (Inr k, scratch)" "batch_records p = [r]"
  shows "\<exists>b pl' sc. ingest_decoded (dummy_pipeline demo_encode demo_env) 0 1 None p scratch pl =
      (Inr n, [\<lparr>ut_builder = b, ut_low = n, ut_sealed = n, ut_phase = Encoding\<rparr>], pl', sc) \<and> idle_at (n + 1) pl' \<and>
    dummy_holds one_row_config b [r] \<and> bc_wal_seg_max (db_cfg b) = Some n \<and> bc_wal_shard (db_cfg b) = Some 0 \<and> db_writer_id b = 7"
proof -
  let ?env = "dummy_pipeline demo_encode demo_env" and ?c = one_row_config
  let ?w1 = "pl_wal pl\<lparr>current := current (pl_wal pl) @ encode_header (of_nat (length p)) (pe_crc demo_env p) @ p,
      current_bytes := 8 + of_nat (length p)\<rparr>"
  obtain b1 sc where m: "dummy_merge (dummy_new 7 ?c) scratch = (b1, sc)" by force
  have "dummy_holds ?c scratch [r]" using dummy_decode_holds [OF dummy_new_holds p(2)] p(3) by simp
  then have h: "dummy_holds ?c b1 [r]" using dummy_merge_holds [OF dummy_new_holds _ m] by fastforce
  have b1: "db_writer_id b1 = 7" "db_cfg b1 = ?c" "\<not> dummy_is_empty b1" "dummy_should_close b1"
    using m h by (auto simp: dummy_merge_def dummy_new_def Let_def dummy_holds_def dummy_is_empty_def dummy_should_close_def
        dummy_row_count_def one_row_config_def)
  have "unat (8 + of_nat (length p) :: u64) < unat DEFAULT_MAX_SEGMENT_BYTES"
    using p(1) by (simp add: unat_word_ariths unat_of_nat DEFAULT_MAX_SEGMENT_BYTES_def)
  then have app: "wal_append (pe_crc demo_env) (pl_wal pl) p = (Inr (), ?w1)"
    using p(1) idle(1) by (auto simp: wal_append_def idle_at_def Let_def MAX_REPLAY_FRAME_BYTES_def FRAME_HEADER_SIZE_def word_le_nat_alt)
  from idle_rotates [OF idle] obtain w' where w': "wal_rotate ?w1 = (Inr n, w')" "current_seq w' = n + 1" "current_bytes w' = 0"
    "max_segment_bytes w' = DEFAULT_MAX_SEGMENT_BYTES" "fst ` set (files w') \<subseteq> segment_path ` {..n + 1}" by blast
  have new: "dummy_is_empty (dummy_new 7 ?c)" by (simp add: dummy_is_empty_def dummy_new_def)
  let ?b = "dummy_set_wal_shard 0 (dummy_set_wal_seg_max n b1)"
  have "dummy_holds ?c ?b [r]" using h by (simp add: dummy_set_wal_shard_def dummy_set_wal_seg_max_def dummy_holds_def)
  moreover have "ingest_decoded ?env 0 1 None p scratch pl = (Inr n, [\<lparr>ut_builder = ?b, ut_low = n, ut_sealed = n, ut_phase = Encoding\<rparr>],
      pl\<lparr>pl_wal := w', pl_builder := dummy_new 7 ?c, pl_block_started_at := None, pl_block_low_seg := n + 1\<rparr>, sc)"
    using idle(1) app m b1 w'(1) new
    by (simp add: ingest_decoded_def commit_batch_def spawn_upload_def mark_block_started_def schema_boundary_def dummy_ops_def idle_at_def Let_def)
  ultimately show ?thesis using idle(1) w' b1
    by (simp add: idle_at_def dummy_set_wal_shard_def dummy_set_wal_seg_max_def)
qed

section \<open>A run of the concrete shard\<close>

definition later_batch :: bytes where
  "later_batch = [0, 0, 0, 1, 0, 0, 0, 0, 0, 0, 0, 10, 0, 1, 0x62, 0, 0, 0, 0]"

lemma later_batch_records: "batch_records later_batch = [\<lparr>dr_ts_unix_nano = 10, dr_key = [0x62], dr_value = []\<rparr>]"
  by (simp add: batch_records_def collect_raw_def batch_eval later_batch_def)

abbreviation demo_pipeline :: "dummy_builder pipeline_env" where
  "demo_pipeline \<equiv> dummy_pipeline demo_encode demo_env"

definition demo_world :: "catalog option \<Rightarrow> dummy_builder pipeline \<Rightarrow> dummy_builder upload_task list \<Rightarrow> (u64 \<times> bytes) list \<Rightarrow> dummy_builder world" where
  "demo_world cat pl tasks acked = (new_world demo_store cat)\<lparr>iw_disk := [(segment_path 0, [])], iw_pipe := Some pl, iw_tasks := tasks,
     iw_frames := fold (\<lambda>(s, p) h. h(s := h s @ [p])) acked (\<lambda>_. []), iw_acked := acked\<rparr>"

lemma demo_opens: "\<exists>pl. ingest_run demo_pipeline (demo_start one_row_config) cap 1 (demo_world cat pl [] []) \<and> idle_at 0 pl"
proof -
  let ?x = "\<lparr>files = [(segment_path 0, [])], current_seq = 0, current = [], current_bytes = 0, max_segment_bytes = DEFAULT_MAX_SEGMENT_BYTES\<rparr>"
  let ?pl = "opened_pipeline (demo_start one_row_config) ?x (dummy_new 7 one_row_config)"
  have x: "wal_open DEFAULT_MAX_SEGMENT_BYTES [] = Inr ?x"
    by (simp add: wal_open_def dir_seqs_def List.map_filter_def create_new_def)
  have "replay_all (pe_crc demo_env) (wal_replay ?x) = ([], None)" by (simp add: replay_all_wal)
  then have "open_pipeline demo_pipeline (demo_start one_row_config) [] demo_store cat =
      (Inr ?pl, fresh_recovery demo_pipeline (demo_start one_row_config) demo_store cat, Some ?x)"
    using x by (simp add: open_pipeline_def Let_def recover_def fresh_recovery_def checked_sub_def dummy_ops_def dummy_is_empty_def dummy_new_def)
  then have "after_start (new_world demo_store cat) (open_pipeline demo_pipeline (demo_start one_row_config) [] demo_store cat) =
      demo_world cat ?pl [] []"
    by (intro world.equality) (simp_all add: after_start_def new_world_def demo_world_def crash_def fresh_recovery_def Let_def)
  moreover have "ingest_step demo_pipeline (demo_start one_row_config) cap (new_world demo_store cat)
      (after_start (new_world demo_store cat) (open_pipeline demo_pipeline (demo_start one_row_config) [] demo_store cat))"
    using ingest_step.start [of "new_world demo_store cat" "demo_start one_row_config" "demo_start one_row_config" demo_pipeline cap]
    by (simp add: new_world_def)
  ultimately have "ingest_run demo_pipeline (demo_start one_row_config) cap 1 (demo_world cat ?pl [] [])"
    using ingest_run.goes_on [OF ingest_run.begins] by fastforce
  moreover have "idle_at 0 ?pl" by (simp add: idle_at_def opened_pipeline_def)
  ultimately show ?thesis by blast
qed

lemma demo_ingests:
  assumes run: "ingest_run demo_pipeline (demo_start one_row_config) cap m (demo_world cat pl tasks acked)" and idle: "idle_at n pl" "n < n + 1"
    and free: "length tasks < cap" and p: "length p < 1000" "decode_dummy_batch_into collect_raw p [] = (Inr k, [r])"
  shows "\<exists>pl' b. ingest_run demo_pipeline (demo_start one_row_config) cap (m + 3)
      (demo_world cat pl' (tasks @ [\<lparr>ut_builder = b, ut_low = n, ut_sealed = n, ut_phase = Encoding\<rparr>]) (acked @ [(n, p)])) \<and>
    idle_at (n + 1) pl' \<and> dummy_holds one_row_config b [r] \<and> bc_wal_seg_max (db_cfg b) = Some n \<and>
    bc_wal_shard (db_cfg b) = Some 0 \<and> db_writer_id b = 7"
proof -
  have r: "batch_records p = [r]" using p(2) by (simp add: batch_records_def)
  obtain scratch where dec: "decode_dummy_batch_into dummy_append_raw p (dummy_new 7 one_row_config) = (Inr k, scratch)"
    using decode_result [of dummy_append_raw p "dummy_new 7 one_row_config" collect_raw "[]"] p(2) by (metis fst_conv prod.collapse)
  from one_row_ingest [OF idle p(1) dec r] obtain b pl' sc where
    ing: "ingest_decoded demo_pipeline 0 1 None p scratch pl =
      (Inr n, [\<lparr>ut_builder = b, ut_low = n, ut_sealed = n, ut_phase = Encoding\<rparr>], pl', sc)" and b: "idle_at (n + 1) pl'"
    "dummy_holds one_row_config b [r]" "bc_wal_seg_max (db_cfg b) = Some n" "bc_wal_shard (db_cfg b) = Some 0" "db_writer_id b = 7"
    by blast
  let ?w = "demo_world cat pl tasks acked"
  have "pe_decode demo_pipeline p (bo_new (pe_ops demo_pipeline) (pl_writer_uuid pl) (pl_cfg pl)) = (Inr k, scratch)"
    using dec idle(1) by (simp add: idle_at_def dummy_ops_def)
  moreover have "\<not> schema_boundary demo_pipeline (pl_builder pl) scratch" by (simp add: schema_boundary_def dummy_ops_def)
  ultimately have "ingest_run demo_pipeline (demo_start one_row_config) cap (m + 3) (?w\<lparr>iw_pipe := Some pl',
      iw_tasks := iw_tasks ?w @ [\<lparr>ut_builder = b, ut_low = n, ut_sealed = n, ut_phase = Encoding\<rparr>],
      iw_frames := (iw_frames ?w)(n := iw_frames ?w n @ [p]), iw_acked := iw_acked ?w @ [(n, p)]\<rparr>)"
    using free by (intro ingest_decoded_run [OF run _ _ _ _ ing]) (simp_all add: demo_world_def new_world_def)
  moreover have "?w\<lparr>iw_pipe := Some pl', iw_tasks := iw_tasks ?w @ [\<lparr>ut_builder = b, ut_low = n, ut_sealed = n, ut_phase = Encoding\<rparr>],
      iw_frames := (iw_frames ?w)(n := iw_frames ?w n @ [p]), iw_acked := iw_acked ?w @ [(n, p)]\<rparr> =
    demo_world cat pl' (tasks @ [\<lparr>ut_builder = b, ut_low = n, ut_sealed = n, ut_phase = Encoding\<rparr>]) (acked @ [(n, p)])"
    by (intro world.equality) (simp_all add: demo_world_def new_world_def)
  ultimately show ?thesis using b by metis
qed

theorem ingest_never_loses_witness:
  "\<exists>w. ingest_run demo_pipeline (demo_start one_row_config) MAX_INFLIGHT_UPLOADS 4 w \<and> (0, one_record_batch) \<in> set (iw_acked w) \<and>
     on_disk demo_pipeline w one_record_batch"
proof -
  obtain pl0 where "ingest_run demo_pipeline (demo_start one_row_config) MAX_INFLIGHT_UPLOADS 1 (demo_world None pl0 [] [])" "idle_at 0 pl0"
    using demo_opens by blast
  from demo_ingests [OF this, of one_record_batch, OF _ _ _ one_record_batch_decodes] obtain pl tasks where
    run: "ingest_run demo_pipeline (demo_start one_row_config) MAX_INFLIGHT_UPLOADS 4 (demo_world None pl tasks [(0, one_record_batch)])"
    by (auto simp: MAX_INFLIGHT_UPLOADS_def one_record_batch_def)
  have "max 1 (unat (bc_target_bytes (sa_cfg (demo_start one_row_config)))) + 2 * unat MAX_REPLAY_FRAME_BYTES < 2 ^ 31"
    using default_config_simps(1) by (simp add: one_row_config_def)
  from ingest_never_loses [OF run _ this, of 0 one_record_batch]
  have "on_disk demo_pipeline (demo_world None pl tasks [(0, one_record_batch)]) one_record_batch"
    using one_record_batch_ok(1) by (simp add: demo_world_def new_world_def)
  with run show ?thesis by (intro exI conjI) (simp_all add: demo_world_def)
qed

end
