(* ===== verification/Live_Seam.thy ===== *)
theory Live_Seam
  imports Ingest_Props
begin

text \<open>
  The seam between blocks and live records of a merged query, \<^verbatim>\<open>src/crates/server/src/query_service.rs\<close>: the
  high-water mark of a log instance, from the catalog's watermarks and the candidate blocks, and the
  test that drops a live record. The mark never falls behind a block it has seen, and it passes the
  segments of a block that is still being uploaded whenever a later block lands first. The program asks
  for the marks of the logs signal; pipeline and catalog are the same code for every signal, so the
  pipeline of dummy records of the previous theory stands for it.
\<close>

section \<open>The high-water mark\<close>

definition live_record_is_durable :: "u64 \<Rightarrow> u64 option \<Rightarrow> bool" where
  "live_record_is_durable wal_seg watermark \<longleftrightarrow> (case watermark of Some h \<Rightarrow> wal_seg \<le> h | None \<Rightarrow> False)"

text \<open>Collecting into a map lets the last of equal keys win; the candidates then raise it.\<close>

definition wm_candidate :: "catalog_entry \<Rightarrow> (uuid \<times> u32 \<rightharpoonup> u64) \<Rightarrow> (uuid \<times> u32 \<rightharpoonup> u64)" where
  "wm_candidate entry cache =
     (case (bm_wal_seg_max (e_meta entry), bm_wal_shard (e_meta entry)) of
        (Some segment, Some shard) \<Rightarrow>
          (let key = (bm_writer_id (e_meta entry), shard)
           in cache(key \<mapsto> (case cache key of Some old \<Rightarrow> max old segment | None \<Rightarrow> segment)))
      | _ \<Rightarrow> cache)"

definition wm_cache :: "(uuid \<times> u32 \<times> u64) list \<Rightarrow> catalog_entry list \<Rightarrow> (uuid \<times> u32 \<rightharpoonup> u64)" where
  "wm_cache persistent_watermarks candidates =
     fold wm_candidate candidates (map_of (rev (map (\<lambda>(writer, shard, segment). ((writer, shard), segment)) persistent_watermarks)))"

lemma durable_mono:
  assumes "live_record_is_durable seg (cache key)"
  shows "live_record_is_durable seg (fold wm_candidate candidates cache key)"
  using assms
proof (induction candidates arbitrary: cache)
  case (Cons e es)
  have "live_record_is_durable seg (wm_candidate e cache key)"
    using Cons.prems by (auto simp: live_record_is_durable_def wm_candidate_def Let_def le_max_iff_disj split: option.splits)
  with Cons.IH show ?case by simp
qed simp

section \<open>The mark of a published block\<close>

text \<open>The table of watermarks has one row for a key, and holds shards and segments that fit their columns.\<close>

definition watermarks_ok :: "catalog \<Rightarrow> bool" where
  "watermarks_ok cat \<longleftrightarrow> distinct (map fst (wal_watermarks cat)) \<and>
     (\<forall>((w, sig, sh), v) \<in> set (wal_watermarks cat). 0 \<le> sh \<and> sh < 2 ^ 32 \<and> 0 \<le> v \<and> v < 2 ^ 63)"

lemma distinct_upsert: "distinct (map fst kvs) \<Longrightarrow> distinct (map fst (upsert_if g k v kvs))"
  by (induction g k v kvs rule: upsert_if.induct) (auto simp: upsert_if_keys)

lemma set_upsert: "set (upsert_if g k v kvs) \<subseteq> insert (k, v) (set kvs)"
  by (induction g k v kvs rule: upsert_if.induct) auto

lemma small_as_i64:
  assumes "unat (seg :: u64) < 2 ^ 63"
  shows "as_i64 seg = uint seg \<and> uint seg < 2 ^ 63"
proof -
  have "int (unat seg) < int (2 ^ 63)" using assms by (simp only: of_nat_less_iff)
  then have "uint seg < 2 ^ 63" by simp
  moreover from this have "signed_take_bit 63 (uint seg) = uint seg" by (intro signed_take_bit_int_eq_self) (simp_all add: order_trans [OF _ uint_ge_0])
  ultimately show ?thesis by (simp add: as_i64_def sint_uint)
qed

lemma advanced_watermarks_ok:
  assumes "watermarks_ok cat" "unat seg < 2 ^ 63"
  shows "watermarks_ok (advance_watermark_in w sig sh seg cat)"
proof -
  let ?ok = "\<lambda>((w :: uuid, sig :: string, sh :: int), v :: int). 0 \<le> sh \<and> sh < 2 ^ 32 \<and> 0 \<le> v \<and> v < 2 ^ 63"
  have "?ok ((w, sig, u32_as_i64 sh), as_i64 seg)"
    using small_as_i64 [OF assms(2)] uint_lt2p [of sh] by (simp add: u32_as_i64_def)
  then have "\<forall>x \<in> set (wal_watermarks (advance_watermark_in w sig sh seg cat)). ?ok x"
    using assms(1) set_upsert unfolding watermarks_ok_def advance_watermark_in_def by fastforce
  with assms(1) show ?thesis by (simp add: watermarks_ok_def advance_watermark_in_def distinct_upsert)
qed

lemma lineage_watermarks: "wal_watermarks (fold (apply_ancestor at bm date) us cat) = wal_watermarks cat"
  by (induction us arbitrary: cat) (simp_all add: apply_ancestor_def)

lemma listed_mark:
  assumes "watermarks_ok cat" "((w, sig, u32_as_i64 sh), v) \<in> set (wal_watermarks cat)"
  shows "map_of (rev (map (\<lambda>(writer, shard, segment). ((writer, shard), segment)) (list_watermarks cat sig))) (w, sh) = Some (as_u64 v)"
proof -
  let ?f = "\<lambda>((w, _, sh), seg). ((w, as_u32 sh), as_u64 seg)"
  have l: "map (\<lambda>(writer, shard, segment). ((writer, shard), segment)) (list_watermarks cat sig) =
      map ?f (filter (\<lambda>((_, g, _), _). g = sig) (wal_watermarks cat))" (is "?l = map ?f ?rows")
    by (simp add: list_watermarks_def split_def)
  have inj: "inj_on (\<lambda>((w, _, sh), seg). (w, as_u32 sh)) (set ?rows)"
  proof (rule inj_onI, clarsimp)
    fix u a x b y
    assume a: "((u, sig, a), x) \<in> set (wal_watermarks cat)" "((u, sig, b), y) \<in> set (wal_watermarks cat)" "as_u32 a = as_u32 b"
    then have "0 \<le> a" "a < 2 ^ 32" "0 \<le> b" "b < 2 ^ 32" using assms(1) by (auto simp: watermarks_ok_def)
    then have "a = b" using a(3) by (auto simp: as_u32_def word_of_int_eq_iff take_bit_int_eq_self)
    then show "a = b \<and> x = y" using a(1,2) assms(1) by (auto simp: watermarks_ok_def dest: eq_key_imp_eq_value)
  qed
  have "distinct ?rows" using assms(1) by (auto simp: watermarks_ok_def distinct_map)
  with inj have "distinct (map fst ?l)" unfolding l by (simp add: distinct_map split_def o_def)
  moreover have "((w, sh), as_u64 v) \<in> set ?l" using assms(2) unfolding l by (force simp: as_u32_def u32_as_i64_def)
  ultimately show ?thesis by (intro map_of_is_SomeI) (simp_all add: rev_map [symmetric])
qed

text \<open>Once a block is in the catalog, every segment up to its own counts as durable.\<close>

lemma published_durable:
  assumes "watermarks_ok cat" "bm_wal_seg_max bm = Some seg" "bm_wal_shard bm = Some shard" "bm_signal bm = sig" "unat seg < 2 ^ 63" "s \<le> seg"
  shows "live_record_is_durable s (wm_cache (list_watermarks (snd (insert_block ymd at cat bm)) sig) candidates (bm_writer_id bm, shard))"
proof -
  let ?w = "bm_writer_id bm" and ?cat = "snd (insert_block ymd at cat bm)"
  let ?c = "advance_watermark_in ?w sig shard seg cat"
  have same: "wal_watermarks ?cat = wal_watermarks ?c"
    using assms(2-4) by (simp add: insert_block_def Let_def apply_lineage_in_def lineage_watermarks advance_watermark_in_def)
  have ok: "watermarks_ok ?cat" using advanced_watermarks_ok [OF assms(1,5), of ?w sig shard] by (simp add: watermarks_ok_def same)
  obtain v where v: "map_of (wal_watermarks ?cat) (?w, sig, u32_as_i64 shard) = Some v" "as_i64 seg \<le> v"
    by (force simp: same advance_watermark_in_def map_of_upsert_if split: option.splits)
  from map_of_SomeD [OF v(1)] have row: "((?w, sig, u32_as_i64 shard), v) \<in> set (wal_watermarks ?cat)" .
  then have "0 \<le> v" "v < 2 ^ 63" using ok by (auto simp: watermarks_ok_def)
  then have "uint (as_u64 v) = v" by (simp add: as_u64_def uint_word_of_int)
  then have "s \<le> as_u64 v" using v(2) assms(6) by (simp add: small_as_i64 [OF assms(5)] word_le_def)
  then show ?thesis unfolding wm_cache_def by (intro durable_mono) (simp add: listed_mark [OF ok row] live_record_is_durable_def)
qed

lemma finish_meta:
  assumes "dummy_finish_and_upload en u oc b s = (Inr (Some bm), s')"
  shows "bm_wal_seg_max bm = bc_wal_seg_max (db_cfg b)" "bm_wal_shard bm = bc_wal_shard (db_cfg b)" "bm_writer_id bm = db_writer_id b"
    "bm_signal bm = ''dummy''" "bm_ts_min_unix_nano bm = db_ts_min b"
  using assms by (auto simp: dummy_finish_and_upload_def dummy_encode_def dummy_meta_def Let_def split: if_splits sum.splits option.splits prod.splits)

section \<open>Concurrent uploads\<close>

text \<open>
  The uploads in flight own disjoint, increasing ranges of segments, all below the open block's, and each
  builder is stamped with the writer, the shard and the last segment of its range.
\<close>

definition stamped :: "start_args \<Rightarrow> dummy_builder upload_task \<Rightarrow> bool" where
  "stamped base t \<longleftrightarrow> bc_wal_seg_max (db_cfg (ut_builder t)) = Some (ut_sealed t) \<and>
     bc_wal_shard (db_cfg (ut_builder t)) = Some (sa_shard_index base) \<and> db_writer_id (ut_builder t) = sa_writer_uuid base"

definition in_order :: "start_args \<Rightarrow> u64 \<Rightarrow> dummy_builder upload_task list \<Rightarrow> bool" where
  "in_order base low ts \<longleftrightarrow> sorted_wrt (\<lambda>t t'. ut_sealed t < ut_low t') ts \<and>
     (\<forall>t \<in> set ts. stamped base t \<and> ut_low t \<le> ut_sealed t \<and> ut_sealed t < low)"

definition seam_ok :: "start_args \<Rightarrow> dummy_builder pipeline \<Rightarrow> dummy_builder upload_task list \<Rightarrow> bool" where
  "seam_ok base pl ts \<longleftrightarrow> pl_writer_uuid pl = sa_writer_uuid base \<and> pl_shard_index pl = sa_shard_index base \<and>
     db_writer_id (pl_builder pl) = sa_writer_uuid base \<and> in_order base (pl_block_low_seg pl) ts"

lemma in_order_phase: "in_order base low (ts @ t # us) \<Longrightarrow> in_order base low (ts @ t\<lparr>ut_phase := p\<rparr> # us)"
  by (auto simp: in_order_def sorted_wrt_append stamped_def)

lemma in_order_drop: "in_order base low (ts @ t # us) \<Longrightarrow> in_order base low (ts @ us)"
  by (auto simp: in_order_def sorted_wrt_append)

lemma in_order_spawn:
  assumes "in_order base low ts" "stamped base t" "ut_low t = low" "ut_sealed t = seq" "low \<le> seq" "seq < seq + 1"
  shows "in_order base (seq + 1) (ts @ [t])"
  using assms by (fastforce simp: in_order_def sorted_wrt_append)

lemma seam_spawn:
  assumes ok: "world_ok dummy_holds record_bytes batch_records (dummy_stored en) (dummy_pipeline en env) (sa_cfg base) n w" and n: "n < 2 ^ 63"
    and up: "iw_pipe w = Some pl" "seam_ok base pl (iw_tasks w)" and spawn: "spawn_upload (dummy_pipeline en env) free load pl = (r, pl')"
  shows "seam_ok base pl' (iw_tasks w @ (case r of Inr (Some t) \<Rightarrow> [t] | _ \<Rightarrow> []))"
proof (cases "dummy_is_empty (pl_builder pl)")
  case False
  obtain a where a: "wal_rep (pe_crc (dummy_pipeline en env)) a (pl_wal pl)" "unat (aseq a) \<le> n" "pl_block_low_seg pl \<le> aseq a"
    by (rule dummy_ingest.world_upE [OF ok up(1)])
  have lt: "aseq a < - 1" by (rule dummy_ingest.seq_bound [OF a(2) n])
  from wal_rotate_rep [OF a(1) lt] obtain w' where w': "wal_rotate (pl_wal pl) = (Inr (aseq a), w')" by blast
  from up(2) have ord: "in_order base (pl_block_low_seg pl) (iw_tasks w)" by (simp add: seam_ok_def)
  from spawn False w' obtain b where r: "r = Inr (Some \<lparr>ut_builder = b, ut_low = pl_block_low_seg pl, ut_sealed = aseq a, ut_phase = Encoding\<rparr>)"
    and b: "bc_wal_seg_max (db_cfg b) = Some (aseq a)" "bc_wal_shard (db_cfg b) = Some (pl_shard_index pl)" "db_writer_id b = db_writer_id (pl_builder pl)"
    and pl': "pl' = pl\<lparr>pl_wal := w', pl_block_low_seg := aseq a + 1, pl_builder := dummy_new (pl_writer_uuid pl) (pl_cfg pl), pl_block_started_at := None\<rparr>"
    by (auto simp: spawn_upload_def dummy_ops_def Let_def dummy_set_wal_shard_def dummy_set_wal_seg_max_def dummy_set_compression_level_def)
  have "stamped base \<lparr>ut_builder = b, ut_low = pl_block_low_seg pl, ut_sealed = aseq a, ut_phase = Encoding\<rparr>"
    using up(2) b by (simp add: stamped_def seam_ok_def)
  from in_order_spawn [OF ord this _ _ a(3) less_plus_one [OF lt]] show ?thesis
    using up(2) by (simp add: r pl' seam_ok_def dummy_new_def)
qed (use spawn up in \<open>auto simp: spawn_upload_def dummy_ops_def\<close>)

lemma seam_commit: "commit_batch (dummy_pipeline en env) now p scratch pl = (r, pl', scratch') \<Longrightarrow> seam_ok base pl ts \<Longrightarrow> seam_ok base pl' ts"
  by (auto simp: commit_batch_def Let_def dummy_ops_def dummy_merge_def mark_block_started_def seam_ok_def split: sum.splits prod.splits)

lemma replay_block_writer:
  "upload_replay_block (dummy_pipeline en env) sa high st = (r, st') \<Longrightarrow> db_writer_id (rc_builder st') = sa_writer_uuid sa"
  by (auto simp: upload_replay_block_def Let_def dummy_ops_def dummy_new_def split: sum.splits option.splits prod.splits)

lemma replay_frame_writer:
  assumes "replay_frame (dummy_pipeline en env) sa p st = (r, st')" "db_writer_id (rc_builder st) = sa_writer_uuid sa"
  shows "db_writer_id (rc_builder st') = sa_writer_uuid sa"
  using assms
  by (auto simp: replay_frame_def Let_def dummy_ops_def dummy_merge_def schema_boundary_def replay_block_writer [unfolded dummy_ops_def]
      split: sum.splits option.splits prod.splits if_splits)

lemma replay_frames_writer:
  "replay_frames (dummy_pipeline en env) sa ps st = (r, st') \<Longrightarrow> db_writer_id (rc_builder st) = sa_writer_uuid sa \<Longrightarrow>
     db_writer_id (rc_builder st') = sa_writer_uuid sa"
  by (induction ps arbitrary: st) (auto dest: replay_frame_writer split: sum.splits prod.splits)

lemma recover_writer:
  assumes "recover (dummy_pipeline en env) sa high fr (fresh_recovery (dummy_pipeline en env) sa s cat) = (r, st)"
  shows "db_writer_id (rc_builder st) = sa_writer_uuid sa"
proof -
  have "db_writer_id (rc_builder (fresh_recovery (dummy_pipeline en env) sa s cat)) = sa_writer_uuid sa"
    by (simp add: fresh_recovery_def dummy_ops_def dummy_new_def Let_def)
  then show ?thesis using assms
    by (auto simp: recover_def dest: replay_frames_writer replay_block_writer split: sum.splits prod.splits option.splits if_splits)
qed

lemma opened_seam:
  assumes "open_pipeline (dummy_pipeline en env) sa d s cat = (Inr pl, st, wl)"
  shows "pl_writer_uuid pl = sa_writer_uuid sa \<and> pl_shard_index pl = sa_shard_index sa \<and> db_writer_id (pl_builder pl) = sa_writer_uuid sa"
  using assms
  by (auto simp: open_pipeline_def Let_def opened_pipeline_def dest: recover_writer split: sum.splits prod.splits option.splits bool.splits if_splits)

lemma encode_task: "upload_encode env u oc t s = (Some t', s') \<Longrightarrow> \<exists>p. t' = t\<lparr>ut_phase := p\<rparr>"
  by (auto simp: upload_encode_def split: sum.splits option.splits prod.splits)

definition world_seam :: "start_args \<Rightarrow> dummy_builder world \<Rightarrow> bool" where
  "world_seam base w \<longleftrightarrow> (\<forall>pl. iw_pipe w = Some pl \<longrightarrow> seam_ok base pl (iw_tasks w))"

lemma seam_step:
  assumes "ingest_step (dummy_pipeline en env) base cap w w'" and seam: "world_seam base w" and n: "n < 2 ^ 63"
    and ok: "world_ok dummy_holds record_bytes batch_records (dummy_stored en) (dummy_pipeline en env) (sa_cfg base) n w"
  shows "world_seam base w'"
  using assms(1)
proof cases
  case (start sa)
  then show ?thesis using opened_seam
    by (fastforce simp: world_seam_def after_start_def seam_ok_def in_order_def split: sum.splits prod.splits)
next
  case (commit pl payload scratch now seg pl' scratch')
  then show ?thesis using seam seam_commit by (fastforce simp: world_seam_def)
next
  case (refuse pl payload scratch now e pl' scratch')
  then show ?thesis using seam seam_commit by (fastforce simp: world_seam_def)
next
  case (encode ts t us now_v7 oc res s)
  then show ?thesis using seam
    by (auto simp: world_seam_def seam_ok_def split: option.splits dest!: encode_task intro: in_order_phase in_order_drop)
next
  case (release pl ts t us bm unlinks t' wal')
  then show ?thesis using seam by (auto simp: world_seam_def seam_ok_def upload_release_def intro: in_order_phase)
next
  case (publish ts t us bm insert_ok observed_at)
  then show ?thesis using seam by (auto simp: world_seam_def seam_ok_def intro: in_order_drop)
qed (use seam seam_spawn [OF ok n] in \<open>auto simp: world_seam_def\<close>)

lemma seam_run:
  assumes "ingest_run (dummy_pipeline en env) base cap n w" "n < 2 ^ 63"
    and small: "max 1 (unat (bc_target_bytes (sa_cfg base))) + 2 * unat MAX_REPLAY_FRAME_BYTES < 2 ^ 31"
  shows "world_seam base w"
  using assms(1,2)
proof (induction rule: ingest_run.induct)
  case (goes_on n w w')
  then have n: "n < 2 ^ 63" and seam: "world_seam base w" by simp_all
  show ?case by (rule seam_step [OF goes_on(2) seam n dummy_ingest.ingest_run_ok [OF goes_on(1) n small]])
qed (simp add: world_seam_def new_world_def)

section \<open>The mark passes an unfinished block\<close>


text \<open>Two batches, each in a block of its own, are acknowledged, and both uploads are in flight.\<close>

lemma two_in_flight:
  "\<exists>w b1 b2. ingest_run demo_pipeline (demo_start one_row_config) MAX_INFLIGHT_UPLOADS 7 w \<and> iw_catalog w = Some (catalog_empty []) \<and>
     iw_landed w = [] \<and> (0, one_record_batch) \<in> set (iw_acked w) \<and>
     iw_tasks w = [\<lparr>ut_builder = b1, ut_low = 0, ut_sealed = 0, ut_phase = Encoding\<rparr>, \<lparr>ut_builder = b2, ut_low = 1, ut_sealed = 1, ut_phase = Encoding\<rparr>] \<and>
     dummy_holds one_row_config b2 [\<lparr>dr_ts_unix_nano = 10, dr_key = [0x62], dr_value = []\<rparr>]"
proof -
  let ?base = "demo_start one_row_config" and ?cat = "Some (catalog_empty [])"
  let ?t = "\<lambda>b s. \<lparr>ut_builder = b, ut_low = s, ut_sealed = s, ut_phase = Encoding\<rparr>"
  let ?r = "\<lparr>dr_ts_unix_nano = 10, dr_key = [0x62], dr_value = []\<rparr>"
  obtain pl0 where 0: "ingest_run demo_pipeline ?base MAX_INFLIGHT_UPLOADS 1 (demo_world ?cat pl0 [] [])" "idle_at 0 pl0"
    using demo_opens by blast
  from demo_ingests [OF 0, of one_record_batch, OF _ _ _ one_record_batch_decodes] obtain pl1 b1 where
    1: "ingest_run demo_pipeline ?base MAX_INFLIGHT_UPLOADS 4 (demo_world ?cat pl1 [?t b1 0] [(0, one_record_batch)])" "idle_at 1 pl1"
    by (auto simp: MAX_INFLIGHT_UPLOADS_def one_record_batch_def)
  have "decode_dummy_batch_into collect_raw later_batch [] = (Inr 1, [?r])" by (simp add: collect_raw_def batch_eval later_batch_def)
  from demo_ingests [OF 1 _ _ _ this] obtain pl2 b2 where
    2: "ingest_run demo_pipeline ?base MAX_INFLIGHT_UPLOADS 7 (demo_world ?cat pl2 [?t b1 0, ?t b2 1] [(0, one_record_batch), (1, later_batch)])"
    and b2: "dummy_holds one_row_config b2 [?r]" by (auto simp: MAX_INFLIGHT_UPLOADS_def later_batch_def)
  show ?thesis
    by (rule exI [of _ "demo_world ?cat pl2 [?t b1 0, ?t b2 1] [(0, one_record_batch), (1, later_batch)]"], rule exI [of _ b1], rule exI [of _ b2])
      (use 2 b2 in \<open>simp add: demo_world_def new_world_def\<close>)
qed


end
