(* ===== verification/Retention.thy ===== *)
theory Retention
  imports Compact_Engine
begin

text \<open>
  Retention: \<^verbatim>\<open>src/crates/retention/src/policy.rs\<close> and
  \<^verbatim>\<open>src/crates/retention/src/engine.rs\<close>. Which blocks are older than the time to live of
  their signal, the staging of their deletion with a durable deadline, and the removal of their
  objects and rows once the deadline has passed. A \<open>Duration\<close> is a natural number of nanoseconds
  and may exceed 64 bits; a \<open>BTreeMap\<close> is a list sorted by key.
\<close>

section \<open>The policy\<close>

record retention_config =
  rt_default_ttl :: "nat option"
  rt_overrides :: "(string \<times> nat) list"
  rt_grace :: nat
  rt_apply :: bool

definition ttl_for :: "retention_config \<Rightarrow> string \<Rightarrow> nat option" where
  "ttl_for cfg signal = (case map_of (rt_overrides cfg) signal of Some ttl \<Rightarrow> Some ttl | None \<Rightarrow> rt_default_ttl cfg)"

definition any_ttl_configured :: "retention_config \<Rightarrow> bool" where
  "any_ttl_configured cfg \<longleftrightarrow> rt_default_ttl cfg \<noteq> None \<or> rt_overrides cfg \<noteq> []"

definition nanos_u64 :: "nat \<Rightarrow> u64" where
  "nanos_u64 d = (if d < 2 ^ 64 then of_nat d else - 1)"

definition ttl_expired :: "retention_config \<Rightarrow> u64 \<Rightarrow> catalog_entry \<Rightarrow> bool" where
  "ttl_expired cfg now b = (case ttl_for cfg (bm_signal (e_meta b)) of
     Some ttl \<Rightarrow> bm_ts_max_unix_nano (e_meta b) < sat_sub now (nanos_u64 ttl)
   | None \<Rightarrow> False)"

definition plan_reaping :: "catalog_entry list \<Rightarrow> retention_config \<Rightarrow> u64 \<Rightarrow> catalog_entry list" where
  "plan_reaping bs cfg now =
     sort_key (\<lambda>e. (bm_signal (e_meta e), e_date e, bm_uuid (e_meta e))) (filter (ttl_expired cfg now) bs)"

section \<open>The engine\<close>

record retention_report =
  rr_scanned :: nat
  rr_candidates :: nat
  rr_bytes_candidates :: u64
  rr_staged :: nat
  rr_reaped :: nat
  rr_bytes_reaped :: u64
  rr_reap_failed :: nat
  rr_dry_run :: bool
  rr_aborted :: bool
  rr_by_signal :: "(string \<times> nat \<times> u64) list"

definition retention_report_default :: retention_report where
  "retention_report_default = \<lparr>rr_scanned = 0, rr_candidates = 0, rr_bytes_candidates = 0, rr_staged = 0,
     rr_reaped = 0, rr_bytes_reaped = 0, rr_reap_failed = 0, rr_dry_run = False, rr_aborted = False, rr_by_signal = []\<rparr>"

text \<open>\<open>entry(k).or_default()\<close> followed by an update, in key order\<close>

fun btree_update :: "'k :: linorder \<Rightarrow> 'v \<Rightarrow> ('v \<Rightarrow> 'v) \<Rightarrow> ('k \<times> 'v) list \<Rightarrow> ('k \<times> 'v) list" where
  "btree_update k d f [] = [(k, f d)]"
| "btree_update k d f ((k', v) # kvs) =
     (if k = k' then (k', f v) # kvs
      else if k < k' then (k, f d) # (k', v) # kvs
      else (k', v) # btree_update k d f kvs)"

definition count_reaped :: "block_meta \<Rightarrow> retention_report \<Rightarrow> retention_report" where
  "count_reaped bm report =
     report\<lparr>rr_reaped := rr_reaped report + 1, rr_bytes_reaped := rr_bytes_reaped report + bm_byte_size bm,
            rr_by_signal := btree_update (bm_signal bm) (0, 0) (\<lambda>(n, b). (n + 1, b + bm_byte_size bm)) (rr_by_signal report)\<rparr>"

fun reap_loop ::
  "merge_env \<Rightarrow> (uuid \<Rightarrow> bool) \<Rightarrow> catalog_entry list \<Rightarrow> (string \<times> uuid list) list \<Rightarrow> retention_report \<Rightarrow>
     engine_state \<Rightarrow> (string \<times> uuid list) list \<times> retention_report \<times> engine_state" where
  "reap_loop env drop_fails [] reaped report st = (reaped, report, st)"
| "reap_loop env drop_fails (e # todo) reaped report st =
     (let bm = e_meta e; failed = report\<lparr>rr_reap_failed := rr_reap_failed report + 1\<rparr>
      in case delete_objects_of env bm (es_store st) of
           (Inl _, s) \<Rightarrow> reap_loop env drop_fails todo reaped failed (st\<lparr>es_store := s\<rparr>)
         | (Inr _, s) \<Rightarrow>
             if drop_fails (bm_uuid bm) then reap_loop env drop_fails todo reaped failed (st\<lparr>es_store := s\<rparr>)
             else reap_loop env drop_fails todo (btree_push (bm_signal bm) (bm_uuid bm) reaped) (count_reaped bm report)
                    (st\<lparr>es_store := s, es_cat := delete_blocks [bm_uuid bm] (es_cat st)\<rparr>))"

definition reap_pending_deletions ::
  "merge_env \<Rightarrow> (uuid \<Rightarrow> bool) \<Rightarrow> catalog_entry list \<Rightarrow> retention_report \<Rightarrow> engine_state \<Rightarrow>
     retention_report \<times> engine_state" where
  "reap_pending_deletions env drop_fails todo report st =
     (case reap_loop env drop_fails todo [] report st of
        (reaped, report', st') \<Rightarrow> (report', fold (\<lambda>(signal, us). emit (Deleted signal us)) reaped st'))"

definition uuids_of :: "catalog_entry list \<Rightarrow> uuid list" where
  "uuids_of es = map (\<lambda>e. bm_uuid (e_meta e)) es"

definition staged_by_signal :: "catalog_entry list \<Rightarrow> (string \<times> uuid list) list" where
  "staged_by_signal es = fold (\<lambda>e. btree_push (bm_signal (e_meta e)) (bm_uuid (e_meta e))) es []"

text \<open>\<open>mark_fails\<close> says whether the SQLite transaction that stages the blocks fails, and
  \<open>list_fails\<close> whether the query for the newly pending ones does.\<close>

definition retain_planned ::
  "merge_env \<Rightarrow> (uuid \<Rightarrow> bool) \<Rightarrow> bool \<Rightarrow> bool \<Rightarrow> catalog_entry list \<Rightarrow> retention_config \<Rightarrow> u64 \<Rightarrow> bool \<Rightarrow> bool \<Rightarrow>
     retention_report \<Rightarrow> engine_state \<Rightarrow> bool option \<times> retention_report \<times> engine_state" where
  "retain_planned env drop_fails mark_fails list_fails expired cfg now fence fence_reap report st =
     (if expired = [] then (Some False, report, st)
      else if \<not> fence then (Some True, report, st)
      else if mark_fails then (None, report, st)
      else
        (let eligible_at = sat_add now (nanos_u64 (rt_grace cfg));
             cat = mark_deleted (uuids_of expired) now eligible_at (es_cat st);
             st1 = fold (\<lambda>(signal, us). emit (SoftDeleted signal us now eligible_at)) (staged_by_signal expired)
                     (st\<lparr>es_cat := cat\<rparr>)
         in if rt_grace cfg = 0 \<and> fence_reap
            then if list_fails then (None, report, st1)
                 else (case reap_pending_deletions env drop_fails (list_pending_deletions (es_cat st1) now) report st1 of
                    (report', st2) \<Rightarrow> (Some False, report', st2))
            else (Some False, report\<lparr>rr_staged := rr_staged report + length expired\<rparr>, st1)))"

definition planned_report :: "catalog_entry list \<Rightarrow> catalog_entry list \<Rightarrow> retention_config \<Rightarrow> retention_report" where
  "planned_report bs expired cfg =
     retention_report_default\<lparr>rr_scanned := length bs, rr_dry_run := \<not> rt_apply cfg,
       rr_candidates := length expired,
       rr_bytes_candidates := sum_list (map (\<lambda>e. bm_byte_size (e_meta e)) expired)\<rparr>"

text \<open>A single instance: its fence always holds and its events go nowhere. The catalog queries may
  fail: the listing, that of the pending deletions and that of the newly pending ones.\<close>

record query_failures =
  qf_list :: bool
  qf_pending :: bool
  qf_newly_pending :: bool
  qf_staged :: bool

definition retain_once ::
  "merge_env \<Rightarrow> (uuid \<Rightarrow> bool) \<Rightarrow> bool \<Rightarrow> query_failures \<Rightarrow> retention_config \<Rightarrow> u64 \<Rightarrow> engine_state \<Rightarrow>
     retention_report option \<times> engine_state" where
  "retain_once env drop_fails mark_fails qf cfg now st =
     (let bs = list_blocks (es_cat st); expired = plan_reaping bs cfg now; report = planned_report bs expired cfg
      in if qf_list qf then (None, st)
         else if \<not> rt_apply cfg then (Some report, st)
         else if qf_pending qf then (None, st)
         else case reap_pending_deletions env drop_fails (list_pending_deletions (es_cat st) now) report st of
           (report1, st1) \<Rightarrow>
             if expired = [] then (Some report1, st1\<lparr>es_events := es_events st\<rparr>)
             else case retain_planned env drop_fails mark_fails (qf_newly_pending qf) expired cfg now True True report1 st1 of
               (None, _, st2) \<Rightarrow> (None, st2\<lparr>es_events := es_events st\<rparr>)
             | (Some aborted, report2, st2) \<Rightarrow>
                 (Some (report2\<lparr>rr_aborted := aborted\<rparr>), st2\<lparr>es_events := es_events st\<rparr>))"

end
