(* ===== verification/Convergence.thy ===== *)
theory Convergence
  imports Retention
begin

text \<open>
  How an instance learns from its peers: the event consumer
  \<^verbatim>\<open>src/crates/cluster/src/consume.rs\<close>, the registry of staged deletions
  \<^verbatim>\<open>src/crates/cluster/src/staged.rs\<close> and the in-process lease provider
  \<^verbatim>\<open>src/crates/cluster/src/lease.rs\<close>. Clock readings are arguments; a \<open>Duration\<close> is a number
  of nanoseconds, cast to 64 bits as the code casts it.
\<close>

section \<open>The event consumer\<close>

record apply_outcome =
  ao_inserted :: nat
  ao_superseded :: nat
  ao_soft_deleted :: nat
  ao_deleted :: nat

definition apply_outcome_default :: apply_outcome where
  "apply_outcome_default = \<lparr>ao_inserted = 0, ao_superseded = 0, ao_soft_deleted = 0, ao_deleted = 0\<rparr>"

definition advance_block_cursor ::
  "(u64 \<Rightarrow> string \<times> string \<times> string) \<Rightarrow> block_meta \<Rightarrow> catalog \<Rightarrow> catalog" where
  "advance_block_cursor ymd bm cat =
     advance_cursor (bm_signal bm) (bm_writer_id bm) (format_date ymd (bm_ts_min_unix_nano bm)) (bm_uuid bm) cat"

definition superseded_eligible :: "u64 \<Rightarrow> nat \<Rightarrow> u64 \<Rightarrow> u64" where
  "superseded_eligible now local_grace reap_eligible_at =
     (let local_eligible = sat_add now (of_nat local_grace);
          event_eligible = (if reap_eligible_at = 0 then local_eligible else reap_eligible_at)
      in if local_grace = 0 then event_eligible else max event_eligible local_eligible)"

fun apply_event_with_grace ::
  "(u64 \<Rightarrow> string \<times> string \<times> string) \<Rightarrow> int \<Rightarrow> u64 \<Rightarrow> nat \<Rightarrow> block_event \<Rightarrow> catalog \<Rightarrow> apply_outcome \<times> catalog" where
  "apply_event_with_grace ymd observed_at now local_grace (Created bm) cat =
     (case insert_block ymd observed_at cat bm of
        (new, cat1) \<Rightarrow> (apply_outcome_default\<lparr>ao_inserted := if new then 1 else 0\<rparr>, advance_block_cursor ymd bm cat1))"
| "apply_event_with_grace ymd observed_at now local_grace (Superseded inputs by by_meta reap_eligible_at) cat =
     (case apply_compaction ymd observed_at by_meta inputs (superseded_eligible now local_grace reap_eligible_at) cat of
        (new, cat1) \<Rightarrow>
          (apply_outcome_default\<lparr>ao_inserted := if new then 1 else 0, ao_superseded := length inputs\<rparr>,
           advance_block_cursor ymd by_meta cat1))"
| "apply_event_with_grace ymd observed_at now local_grace (SoftDeleted signal us deleted_at eligible_at) cat =
     (apply_outcome_default\<lparr>ao_soft_deleted := length us\<rparr>,
      snd (adopt_peer_deletion us now (sat_add now (sat_sub eligible_at deleted_at)) cat))"
| "apply_event_with_grace ymd observed_at now local_grace (Deleted signal us) cat =
     (apply_outcome_default\<lparr>ao_deleted := length us\<rparr>, delete_blocks us cat)"

definition apply_event ::
  "(u64 \<Rightarrow> string \<times> string \<times> string) \<Rightarrow> int \<Rightarrow> u64 \<Rightarrow> block_event \<Rightarrow> catalog \<Rightarrow> apply_outcome \<times> catalog" where
  "apply_event ymd observed_at now ev cat = apply_event_with_grace ymd observed_at now 0 ev cat"

section \<open>Staged deletions of peers\<close>

record staged_deletion =
  sd_uuid :: uuid
  sd_staged_at :: u64
  sd_eligible_at :: u64

definition grace_nanos :: "staged_deletion \<Rightarrow> u64" where
  "grace_nanos sd = sat_sub (sd_eligible_at sd) (sd_staged_at sd)"

definition group_by_grace :: "staged_deletion list \<Rightarrow> (u64 \<times> uuid list) list" where
  "group_by_grace staged = fold (\<lambda>sd. btree_push (grace_nanos sd) (sd_uuid sd)) staged []"

definition apply_staged_deletions :: "staged_deletion list \<Rightarrow> u64 \<Rightarrow> catalog \<Rightarrow> nat \<times> catalog" where
  "apply_staged_deletions staged now cat =
     fold (\<lambda>(grace, us) (hidden, c).
         case adopt_peer_deletion us now (sat_add now grace) c of (n, c') \<Rightarrow> (hidden + n, c'))
       (group_by_grace staged) (0, cat)"

section \<open>Leases within one process\<close>

record local_leases =
  ll_held :: "string set"
  ll_fences :: "nat \<Rightarrow> bool"
  ll_keys :: "nat \<Rightarrow> string"
  ll_next :: nat

text \<open>A guard is a number; its fence is valid until the guard is released or dropped.\<close>

definition local_leases_new :: local_leases where
  "local_leases_new = \<lparr>ll_held = {}, ll_fences = (\<lambda>_. False), ll_keys = (\<lambda>_. []), ll_next = 0\<rparr>"

definition try_acquire :: "string \<Rightarrow> local_leases \<Rightarrow> nat option \<times> local_leases" where
  "try_acquire key l =
     (if key \<in> ll_held l then (None, l)
      else (Some (ll_next l),
            l\<lparr>ll_held := insert key (ll_held l), ll_fences := (ll_fences l)(ll_next l := True),
              ll_keys := (ll_keys l)(ll_next l := key), ll_next := ll_next l + 1\<rparr>))"

definition relinquish :: "nat \<Rightarrow> local_leases \<Rightarrow> local_leases" where
  "relinquish g l = l\<lparr>ll_fences := (ll_fences l)(g := False), ll_held := ll_held l - {ll_keys l g}\<rparr>"

definition fence_check :: "local_leases \<Rightarrow> nat \<Rightarrow> bool" where
  "fence_check l g = ll_fences l g"

end
