(* ===== verification/Poll.thy ===== *)
theory Poll
  imports Convergence
begin

text \<open>
  Bucket polling, \<^verbatim>\<open>src/crates/cluster/src/poll.rs\<close>: block keys and prefixes, the pass that
  fetches unknown sidecars and moves the cursors, the incremental poll with its look-back, the
  full walk and the reconciliation of one partition.

  Outside the repository, and so arguments: what a listing yields (\<open>list_item\<close>s, an error ends
  it), what a GET of a key yields, the JSON decoding of a sidecar, the text of a UUID and its
  parser, and the order in which concurrent GETs complete. A \<open>HashMap\<close> is an association list in
  the order of first insertion.
\<close>

section \<open>Keys and prefixes\<close>

record poll_report =
  pl_cursors :: nat
  pl_seen :: nat
  pl_inserted :: nat
  pl_failed :: nat
  pl_skipped :: nat
  pl_fetch_failed :: nat

definition poll_report_default :: poll_report where
  "poll_report_default = \<lparr>pl_cursors = 0, pl_seen = 0, pl_inserted = 0, pl_failed = 0, pl_skipped = 0, pl_fetch_failed = 0\<rparr>"

definition replace_char :: "char \<Rightarrow> char \<Rightarrow> string \<Rightarrow> string" where
  "replace_char a b s = map (\<lambda>c. if c = a then b else c) s"

definition partition_prefix :: "(uuid \<Rightarrow> string) \<Rightarrow> string \<Rightarrow> string \<Rightarrow> uuid \<Rightarrow> string" where
  "partition_prefix ustr signal date writer_id =
     signal @ ''/'' @ replace_char CHR ''-'' CHR ''/'' date @ ''/'' @ ustr writer_id @ ''/''"

text \<open>\<open>str::rsplit_once\<close>: the parts before and after the last separator\<close>

definition rsplit_once :: "char \<Rightarrow> string \<Rightarrow> (string \<times> string) option" where
  "rsplit_once c s =
     (if c \<in> set s
      then Some (rev (tl (dropWhile (\<lambda>x. x \<noteq> c) (rev s))), rev (takeWhile (\<lambda>x. x \<noteq> c) (rev s)))
      else None)"

record prefix_parts =
  pp_signal :: string
  pp_yyyy :: string
  pp_mm :: string
  pp_dd :: string
  pp_writer_id :: uuid

definition is_ascii_digit :: "char \<Rightarrow> bool" where
  "is_ascii_digit c \<longleftrightarrow> CHR ''0'' \<le> c \<and> c \<le> CHR ''9''"

definition parse_prefix :: "(string \<Rightarrow> uuid option) \<Rightarrow> string \<Rightarrow> prefix_parts option" where
  "parse_prefix uparse prefix =
     (case strip_suffix ''/'' prefix of
        None \<Rightarrow> None
      | Some s \<Rightarrow>
          (case split_on CHR ''/'' s of
             [signal, yyyy, mm, dd, writer_id] \<Rightarrow>
               if signal = [] \<or> length yyyy \<noteq> 4 \<or> length mm \<noteq> 2 \<or> length dd \<noteq> 2 then None
               else if \<not> list_all is_ascii_digit (yyyy @ mm @ dd) then None
               else map_option (\<lambda>w. \<lparr>pp_signal = signal, pp_yyyy = yyyy, pp_mm = mm, pp_dd = dd, pp_writer_id = w\<rparr>)
                      (uparse writer_id)
           | _ \<Rightarrow> None))"

record block_key =
  bk_prefix :: string
  bk_uuid :: uuid

definition parse_block_key :: "(string \<Rightarrow> uuid option) \<Rightarrow> string \<Rightarrow> block_key option" where
  "parse_block_key uparse loc =
     (case strip_suffix ''.meta.json'' loc of
        None \<Rightarrow> None
      | Some stem \<Rightarrow>
          (case rsplit_once CHR ''/'' stem of
             None \<Rightarrow> None
           | Some (dir, u) \<Rightarrow>
               (case parse_prefix uparse (dir @ ''/'') of
                  None \<Rightarrow> None
                | Some _ \<Rightarrow> map_option (\<lambda>w. \<lparr>bk_prefix = dir @ ''/'', bk_uuid = w\<rparr>) (uparse u))))"

section \<open>The look-back of an incremental poll\<close>

definition DEFAULT_POLL_LOOKBACK :: nat where
  "DEFAULT_POLL_LOOKBACK = 15 * 60 * 1000"

text \<open>The millisecond timestamp in the upper 48 bits of a version 7 UUID.\<close>

definition v7_millis :: "uuid \<Rightarrow> u64" where
  "v7_millis u = ucast (drop_bit 80 u)"

definition lookback_uuid :: "uuid \<Rightarrow> u64 \<Rightarrow> uuid option" where
  "lookback_uuid cursor window_start_ms =
     (if get_version_num cursor \<noteq> 7 then None
      else Some (push_bit 80 (ucast (take_bit 48 (min (v7_millis cursor) window_start_ms)))))"

definition lookback_offset :: "(uuid \<Rightarrow> string) \<Rightarrow> string \<Rightarrow> uuid \<Rightarrow> u64 \<Rightarrow> string option" where
  "lookback_offset ustr prefix cursor window_start_ms =
     map_option (\<lambda>u. prefix @ ustr u) (lookback_uuid cursor window_start_ms)"

section \<open>One pass over a listing\<close>

fun collect_meta_locations :: "list_item list \<Rightarrow> string list option" where
  "collect_meta_locations [] = Some []"
| "collect_meta_locations (ListError # items) = None"
| "collect_meta_locations (Listed loc # items) =
     (if is_reserved_control_key loc \<or> \<not> ends_with ''.meta.json'' loc then collect_meta_locations items
      else map_option ((#) loc) (collect_meta_locations items))"

definition bump_high :: "string \<Rightarrow> uuid \<Rightarrow> (string \<times> uuid) list \<Rightarrow> (string \<times> uuid) list" where
  "bump_high prefix u high =
     (if get_version_num u \<noteq> 7 then high else upsert_if (\<lambda>current. u > current) prefix u high)"

definition poison :: "(string \<Rightarrow> uuid option) \<Rightarrow> string \<Rightarrow> string set \<Rightarrow> string set" where
  "poison uparse loc poisoned =
     (case parse_block_key uparse loc of Some key \<Rightarrow> insert (bk_prefix key) poisoned | None \<Rightarrow> poisoned)"

record fetch_state =
  fs_cat :: catalog
  fs_high :: "(string \<times> uuid) list"
  fs_poisoned :: "string set"
  fs_report :: poll_report

record poll_env =
  pe_ymd :: "u64 \<Rightarrow> string \<times> string \<times> string"
  pe_ustr :: "uuid \<Rightarrow> string"
  pe_uparse :: "string \<Rightarrow> uuid option"
  pe_observed_at :: int
  pe_fetch :: "string \<Rightarrow> store_error + bytes"
  pe_parse :: "bytes \<Rightarrow> block_meta option"
  pe_insert_fails :: "block_meta \<Rightarrow> bool"
  pe_arrival :: "string list \<Rightarrow> string list"

text \<open>A listed key whose UUID the catalog has is skipped and only counts for the cursor.\<close>

fun split_known ::
  "poll_env \<Rightarrow> uuid set option \<Rightarrow> string list \<Rightarrow> (string \<times> uuid) list \<Rightarrow> poll_report \<Rightarrow>
     string list \<times> (string \<times> uuid) list \<times> poll_report" where
  "split_known env known [] high report = ([], high, report)"
| "split_known env known (loc # locs) high report =
     (case (known, parse_block_key (pe_uparse env) loc) of
        (Some ks, Some key) \<Rightarrow>
          if bk_uuid key \<in> ks
          then split_known env known locs (bump_high (bk_prefix key) (bk_uuid key) high)
                 (report\<lparr>pl_seen := pl_seen report + 1, pl_skipped := pl_skipped report + 1\<rparr>)
          else (case split_known env known locs high report of (fs, h, r) \<Rightarrow> (loc # fs, h, r))
      | _ \<Rightarrow> (case split_known env known locs high report of (fs, h, r) \<Rightarrow> (loc # fs, h, r)))"

definition fetched_meta :: "bytes \<Rightarrow> block_meta \<Rightarrow> block_meta" where
  "fetched_meta body bm = bm\<lparr>bm_meta_json_size_bytes := Some (of_nat (length body))\<rparr>"

definition own_prefix :: "poll_env \<Rightarrow> block_meta \<Rightarrow> string" where
  "own_prefix env bm = partition_prefix (pe_ustr env) (bm_signal bm)
     (format_date (pe_ymd env) (bm_ts_min_unix_nano bm)) (bm_writer_id bm)"

definition fetch_one :: "poll_env \<Rightarrow> string \<Rightarrow> fetch_state \<Rightarrow> fetch_state option" where
  "fetch_one env loc st =
     (let report = (fs_report st)\<lparr>pl_seen := pl_seen (fs_report st) + 1\<rparr>
      in case pe_fetch env loc of
           Inl e \<Rightarrow>
             if e = NotFound then Some (st\<lparr>fs_report := report\<rparr>)
             else Some (st\<lparr>fs_report := report\<lparr>pl_fetch_failed := pl_fetch_failed report + 1\<rparr>,
                           fs_poisoned := poison (pe_uparse env) loc (fs_poisoned st)\<rparr>)
         | Inr body \<Rightarrow>
             (case pe_parse env body of
                None \<Rightarrow> Some (st\<lparr>fs_report := report\<lparr>pl_failed := pl_failed report + 1\<rparr>,
                                 fs_poisoned := poison (pe_uparse env) loc (fs_poisoned st)\<rparr>)
              | Some bm0 \<Rightarrow>
                  (let bm = fetched_meta body bm0
                   in if pe_insert_fails env bm then None
                      else case insert_block (pe_ymd env) (pe_observed_at env) (fs_cat st) bm of
                        (new, cat) \<Rightarrow>
                          Some (st\<lparr>fs_cat := cat, fs_high := bump_high (own_prefix env bm) (bm_uuid bm) (fs_high st),
                                   fs_report := report\<lparr>pl_inserted := pl_inserted report + (if new then 1 else 0)\<rparr>\<rparr>))))"

text \<open>A failing insert ends the loop with an error; the state then is the one before it.\<close>

fun fetch_loop :: "poll_env \<Rightarrow> string list \<Rightarrow> fetch_state \<Rightarrow> bool \<times> fetch_state" where
  "fetch_loop env [] st = (True, st)"
| "fetch_loop env (loc # locs) st =
     (case fetch_one env loc st of None \<Rightarrow> (False, st) | Some st' \<Rightarrow> fetch_loop env locs st')"

definition prefix_date :: "prefix_parts \<Rightarrow> string" where
  "prefix_date p = pp_yyyy p @ ''-'' @ pp_mm p @ ''-'' @ pp_dd p"

fun advance_cursors ::
  "poll_env \<Rightarrow> string set \<Rightarrow> (string \<times> uuid) list \<Rightarrow> catalog \<Rightarrow> catalog" where
  "advance_cursors env poisoned [] cat = cat"
| "advance_cursors env poisoned ((prefix, u) # high) cat =
     advance_cursors env poisoned high
       (if prefix \<in> poisoned then cat
        else case parse_prefix (pe_uparse env) prefix of
               None \<Rightarrow> cat
             | Some parts \<Rightarrow> advance_cursor (pp_signal parts) (pp_writer_id parts) (prefix_date parts) u cat)"

definition fetch_and_apply ::
  "poll_env \<Rightarrow> string list \<Rightarrow> uuid set option \<Rightarrow> poll_report \<Rightarrow> catalog \<Rightarrow> poll_report option \<times> catalog" where
  "fetch_and_apply env locations known report cat =
     (case split_known env known locations [] report of
        (to_fetch, high, report1) \<Rightarrow>
          (case fetch_loop env (pe_arrival env to_fetch)
                  \<lparr>fs_cat = cat, fs_high = high, fs_poisoned = {}, fs_report = report1\<rparr> of
             (ok, st) \<Rightarrow>
               if ok then (Some (fs_report st), advance_cursors env (fs_poisoned st) (fs_high st) (fs_cat st))
               else (None, fs_cat st)))"

section \<open>The incremental poll\<close>

text \<open>\<open>list_from prefix offset\<close> is what the store lists under \<open>prefix\<close>, strictly after \<open>offset\<close> when
  one is given.\<close>

fun poll_heads ::
  "poll_env \<Rightarrow> (string \<Rightarrow> string option \<Rightarrow> list_item list) \<Rightarrow> u64 \<Rightarrow> cursor_head list \<Rightarrow> poll_report \<Rightarrow>
     catalog \<Rightarrow> poll_report option \<times> catalog" where
  "poll_heads env list_from window_start_ms [] report cat = (Some report, cat)"
| "poll_heads env list_from window_start_ms (head # heads) report cat =
     (let prefix = partition_prefix (pe_ustr env) (ch_signal head) (ch_date head) (ch_writer_id head)
      in case collect_meta_locations (list_from prefix
                (lookback_offset (pe_ustr env) prefix (ch_highest head) window_start_ms)) of
           None \<Rightarrow> (None, cat)
         | Some locations \<Rightarrow>
             (let known = set (filter (has_block cat)
                    (List.map_filter (\<lambda>loc. map_option bk_uuid (parse_block_key (pe_uparse env) loc)) locations))
              in case fetch_and_apply env locations (Some known) report cat of
                   (None, cat') \<Rightarrow> (None, cat')
                 | (Some report', cat') \<Rightarrow> poll_heads env list_from window_start_ms heads report' cat'))"

definition poll_once ::
  "poll_env \<Rightarrow> (string \<Rightarrow> string option \<Rightarrow> list_item list) \<Rightarrow> u64 \<Rightarrow> nat \<Rightarrow> catalog \<Rightarrow> poll_report option \<times> catalog" where
  "poll_once env list_from now_ms lookback_ms cat =
     (let heads = list_cursor_heads cat
      in poll_heads env list_from (sat_sub now_ms (of_nat lookback_ms)) heads
           (poll_report_default\<lparr>pl_cursors := length heads\<rparr>) cat)"

section \<open>The full walk and one partition\<close>

definition full_walk_with_grace ::
  "poll_env \<Rightarrow> list_item list \<Rightarrow> nat \<Rightarrow> nat \<Rightarrow> catalog \<Rightarrow> poll_report option \<times> catalog" where
  "full_walk_with_grace env items now_nanos reap_grace cat =
     (case collect_meta_locations items of
        None \<Rightarrow> (None, cat)
      | Some locations \<Rightarrow>
          (case fetch_and_apply env locations (Some (known_block_uuids cat)) poll_report_default cat of
             (None, cat') \<Rightarrow> (None, cat')
           | (Some report, cat') \<Rightarrow>
               (Some report, snd (stage_unstaged_superseded (of_nat (now_nanos + reap_grace)) cat'))))"

datatype reconcile_error = ReconcileFailed | Incomplete nat

definition reconcile_partition ::
  "poll_env \<Rightarrow> list_item list \<Rightarrow> nat \<Rightarrow> nat \<Rightarrow> catalog \<Rightarrow> (reconcile_error + poll_report) \<times> catalog" where
  "reconcile_partition env items now_nanos reap_grace cat =
     (case collect_meta_locations items of
        None \<Rightarrow> (Inl ReconcileFailed, cat)
      | Some locations \<Rightarrow>
          (case fetch_and_apply env locations (Some (known_block_uuids cat)) poll_report_default cat of
             (None, cat') \<Rightarrow> (Inl ReconcileFailed, cat')
           | (Some report, cat') \<Rightarrow>
               if pl_fetch_failed report \<noteq> 0 then (Inl (Incomplete (pl_fetch_failed report)), cat')
               else (Inr report, snd (stage_unstaged_superseded (of_nat (now_nanos + reap_grace)) cat'))))"

end
