(* ===== verification/Maintain.thy ===== *)
theory Maintain
  imports Poll
begin

text \<open>
  The lease-guarded maintenance passes, \<^verbatim>\<open>src/crates/cluster/src/maintain.rs\<close>: compaction
  with one lease per partition and a reconciliation from the bucket before each merge, and
  retention under one global lease with the re-announcement of outstanding deletions.

  What the lease provider answers is an argument, as are the listing of the bucket and the
  outcomes of GETs, which may depend on the store at the time. The partitions of a pass run one
  after the other.
\<close>

definition compaction_lease_key :: "(u32 \<Rightarrow> string) \<Rightarrow> string \<Rightarrow> string \<Rightarrow> u32 \<Rightarrow> string" where
  "compaction_lease_key show_u32 signal date input_level =
     ''lease/compact/'' @ signal @ ''/'' @ date @ ''/'' @ show_u32 input_level"

definition RETENTION_LEASE_KEY :: string where
  "RETENTION_LEASE_KEY = ''lease/retention''"

datatype lease_answer = LeaseAcquired | LeaseHeldByPeer | LeaseBackendDown

section \<open>Outstanding deletions\<close>

definition outstanding_groups :: "catalog \<Rightarrow> ((string \<times> u64 \<times> u64) \<times> uuid list) list" where
  "outstanding_groups cat =
     fold (\<lambda>(u, signal, deleted_at, eligible_at). btree_push (signal, deleted_at, eligible_at) u)
       (list_staged_deletions cat) []"

definition announce_outstanding_deletions :: "engine_state \<Rightarrow> engine_state" where
  "announce_outstanding_deletions st =
     fold (\<lambda>((signal, deleted_at, eligible_at), us). emit (SoftDeleted signal us deleted_at eligible_at))
       (outstanding_groups (es_cat st)) st"

section \<open>The compaction pass\<close>

datatype partition_result =
    PassDone partition_outcome nat
  | PassLeaseHeld
  | PassLeaseUnavailable
  | PassFailed
  | PassResourceFailed
  | PassStale

record pass_input =
  pi_lease :: lease_answer
  pi_poll_env :: "store \<Rightarrow> poll_env"
  pi_listing :: "store \<Rightarrow> list_item list"
  pi_now_nanos :: nat
  pi_relist_fails :: bool
  pi_run :: partition_run

definition min_writer :: "catalog_entry list \<Rightarrow> uuid \<Rightarrow> uuid" where
  "min_writer inputs fresh =
     (if inputs = [] then fresh else Min (set (map (\<lambda>e. bm_writer_id (e_meta e)) inputs)))"

definition pass_partition ::
  "merge_env \<Rightarrow> compact_config \<Rightarrow> resource_config \<Rightarrow> nat \<Rightarrow> planned_merge \<Rightarrow> pass_input \<Rightarrow> engine_state \<Rightarrow>
     partition_result \<times> engine_state" where
  "pass_partition env cfg c bloom_ngram plan pi st =
     (case pi_lease pi of
        LeaseHeldByPeer \<Rightarrow> (PassLeaseHeld, st)
      | LeaseBackendDown \<Rightarrow> (PassLeaseUnavailable, st)
      | LeaseAcquired \<Rightarrow>
          (case reconcile_partition (pi_poll_env pi (es_store st)) (pi_listing pi (es_store st)) (pi_now_nanos pi)
                  (unat (cc_grace_nanos cfg)) (es_cat st) of
             (Inl _, cat) \<Rightarrow> (PassFailed, st\<lparr>es_cat := cat\<rparr>)
           | (Inr _, cat) \<Rightarrow>
               (let st1 = st\<lparr>es_cat := cat\<rparr>;
                    live_ids = set (uuids_of (list_blocks cat));
                    writer_id = min_writer (pm_inputs plan) (pn_writer_id (pi_run pi))
                in if pi_relist_fails pi then (PassFailed, st1)
                   else if \<exists>input \<in> set (pm_inputs plan). bm_uuid (e_meta input) \<notin> live_ids then (PassStale, st1)
                   else case compact_partition env cfg c bloom_ngram plan ((pi_run pi)\<lparr>pn_writer_id := writer_id\<rparr>) st1 of
                     (Inr outcome, st2) \<Rightarrow> (PassDone outcome (length (pm_inputs plan)), st2)
                   | (Inl e, st2) \<Rightarrow> (if is_resource_failure e then PassResourceFailed else PassFailed, st2))))"

fun pass_partitions ::
  "merge_env \<Rightarrow> compact_config \<Rightarrow> resource_config \<Rightarrow> nat \<Rightarrow> (planned_merge \<times> pass_input) list \<Rightarrow> engine_state \<Rightarrow>
     partition_result list \<times> engine_state" where
  "pass_partitions env cfg c bloom_ngram [] st = ([], st)"
| "pass_partitions env cfg c bloom_ngram ((plan, pi) # runs) st =
     (case pass_partition env cfg c bloom_ngram plan pi st of
        (r, st1) \<Rightarrow> (case pass_partitions env cfg c bloom_ngram runs st1 of (rs, st2) \<Rightarrow> (r # rs, st2)))"

definition absorb_pass :: "partition_result \<Rightarrow> compact_report \<Rightarrow> compact_report" where
  "absorb_pass result report = (case result of
     PassDone outcome inputs \<Rightarrow> absorb outcome inputs report
   | PassLeaseHeld \<Rightarrow> report\<lparr>cr_lease_held := cr_lease_held report + 1\<rparr>
   | PassLeaseUnavailable \<Rightarrow> report\<lparr>cr_lease_unavailable := cr_lease_unavailable report + 1\<rparr>
   | PassFailed \<Rightarrow> report\<lparr>cr_partition_failed := cr_partition_failed report + 1\<rparr>
   | PassResourceFailed \<Rightarrow> report\<lparr>cr_resource_failed := cr_resource_failed report + 1\<rparr>
   | PassStale \<Rightarrow> report)"

text \<open>The values the progress counter takes, in order: it is started before the partitions, and
  ticked only after all of them have returned.\<close>

definition pass_progress :: "nat \<Rightarrow> partition_result list \<Rightarrow> compaction_progress \<Rightarrow> compaction_progress list" where
  "pass_progress planned results p =
     (let p1 = progress_start planned p;
          ticked = map (\<lambda>n. (progress_tick ^^ n) p1) [1 ..< length results + 1]
      in [p1] @ ticked @ [progress_clear (last (p1 # ticked))])"

definition run_compaction_pass ::
  "merge_env \<Rightarrow> compact_config \<Rightarrow> resource_config \<Rightarrow> nat \<Rightarrow> u64 \<Rightarrow> bool \<Rightarrow> (uuid \<Rightarrow> bool) \<Rightarrow> (nat \<Rightarrow> pass_input) \<Rightarrow>
     engine_state \<Rightarrow> (pass_error + compact_report) \<times> engine_state" where
  "run_compaction_pass env cfg c bloom_ngram now list_fails drop_fails inputs st =
     (case compact_config_validate cfg of
        Inl e \<Rightarrow> (Inl (InvalidPolicy e), st)
      | Inr _ \<Rightarrow>
          if list_fails then (Inl CatalogUnreadable, st)
          else (let plan = plan_merges (list_blocks (es_cat st)) cfg;
               report = compact_report_default\<lparr>cr_oversized := length (oversized plan)\<rparr>
           in case reap_pending env drop_fails (list_pending_reaps (es_cat st) now) report st of
                (report, st1) \<Rightarrow>
                  (case pass_partitions env cfg c bloom_ngram
                          (map (\<lambda>(i, p). (p, inputs i)) (enumerate 0 (merges plan))) st1 of
                     (results, st2) \<Rightarrow> (Inr (fold absorb_pass results report), st2))))"

section \<open>The retention pass\<close>

definition run_retention_pass ::
  "merge_env \<Rightarrow> (uuid \<Rightarrow> bool) \<Rightarrow> bool \<Rightarrow> query_failures \<Rightarrow> retention_config \<Rightarrow> u64 \<Rightarrow> lease_answer \<Rightarrow> bool \<Rightarrow> bool \<Rightarrow>
     engine_state \<Rightarrow> retention_report option \<times> engine_state" where
  "run_retention_pass env drop_fails mark_fails qf cfg now lease fence fence_reap st =
     (let bs = list_blocks (es_cat st); expired = plan_reaping bs cfg now; report = planned_report bs expired cfg
      in if qf_list qf then (None, st)
         else if \<not> rt_apply cfg then (Some report, st)
         else
           (let st0 = (if qf_staged qf then st else announce_outstanding_deletions st)
            in if qf_pending qf then (None, st0)
               else case reap_pending_deletions env drop_fails (list_pending_deletions (es_cat st0) now) report st0 of
                 (report1, st1) \<Rightarrow>
                   if expired = [] then (Some report1, st1)
                   else if lease \<noteq> LeaseAcquired then (Some (report1\<lparr>rr_aborted := True\<rparr>), st1)
                   else case retain_planned env drop_fails mark_fails (qf_newly_pending qf) expired cfg now fence fence_reap report1 st1 of
                     (None, _, st2) \<Rightarrow> (None, st2)
                   | (Some aborted, report2, st2) \<Rightarrow> (Some (report2\<lparr>rr_aborted := aborted\<rparr>), st2)))"

end
