(* ===== verification/Cluster.thy ===== *)
theory Cluster
  imports Maintain "HOL-Library.Countable"
begin

text \<open>
  Several instances over one bucket. The parts of the passes of \<^verbatim>\<open>src/crates/compact\<close>,
  \<^verbatim>\<open>src/crates/retention\<close> and \<^verbatim>\<open>src/crates/cluster\<close> become the steps of one system, in any order:
  uploads, merges, the publication of a merge, the deletion of one block's objects, sidecars
  read from the bucket, events delivered late, twice or never, peers' staged deletions, and the
  loss of a catalog. An instance may act on a list it read long ago. No lease is assumed.

  The system keeps two records the program has not: the rows every block had when its sidecar
  first appeared, and the blocks a retention pass has ever selected, with their ancestors.
\<close>

section \<open>The system\<close>

datatype message =
    Event block_event
  | Fetched block_meta
  | Merged block_meta "uuid list"
  | ToDelete block_meta
  | Selected "uuid list"
  | Gone uuid

record cluster =
  cl_store :: store
  cl_cats :: "nat \<Rightarrow> catalog"
  cl_messages :: "message set"
  cl_expired :: "uuid set"
  cl_data :: "uuid \<rightharpoonup> bytes multiset"

definition cluster_start :: "(nat \<Rightarrow> string) \<Rightarrow> cluster" where
  "cluster_start bucket = \<lparr>cl_store = \<lparr>objects = Map.empty, calls = 0, slept_ms = 0\<rparr>,
     cl_cats = (\<lambda>i. catalog_empty (bucket i)), cl_messages = {}, cl_expired = {}, cl_data = Map.empty\<rparr>"

definition sidecar_at :: "merge_env \<Rightarrow> store \<Rightarrow> string \<Rightarrow> block_meta \<Rightarrow> bool" where
  "sidecar_at env s p m \<longleftrightarrow> ends_with ''.meta.json'' p \<and> (\<exists>body. objects s p = Some body \<and> me_parse env body = Some m)"

definition sidecars :: "merge_env \<Rightarrow> store \<Rightarrow> block_meta set" where
  "sidecars env s = {m. \<exists>p. sidecar_at env s p m}"

text \<open>All objects the sidecar names are present.\<close>

definition intact :: "merge_env \<Rightarrow> store \<Rightarrow> block_meta \<Rightarrow> bool" where
  "intact env s m \<longleftrightarrow> (\<forall>k \<in> set (block_kinds m). objects s (env_path env m k) \<noteq> None)"

definition committed :: "merge_env \<Rightarrow> store \<Rightarrow> block_meta set" where
  "committed env s = {m \<in> sidecars env s. intact env s m}"

definition family :: "block_meta \<Rightarrow> uuid set" where
  "family m = insert (bm_uuid m) (set (bm_compacted_from m))"

text \<open>The UUID text in an object key.\<close>

definition key_text :: "string \<Rightarrow> string" where
  "key_text p = takeWhile (\<lambda>c. c \<noteq> CHR ''.'') (rev (takeWhile (\<lambda>c. c \<noteq> CHR ''/'') (rev p)))"

definition fresh_in :: "merge_env \<Rightarrow> (uuid \<rightharpoonup> bytes multiset) \<Rightarrow> uuid set \<Rightarrow> store \<Rightarrow> uuid \<Rightarrow> bool" where
  "fresh_in env D E s u \<longleftrightarrow> (\<forall>p. key_text p = me_ustr env u \<longrightarrow> objects s p = None) \<and>
     (\<forall>m \<in> sidecars env s. u \<notin> family m) \<and> u \<notin> E \<and> D u = None"

definition fresh_uuid :: "merge_env \<Rightarrow> cluster \<Rightarrow> uuid \<Rightarrow> bool" where
  "fresh_uuid env w u \<longleftrightarrow> fresh_in env (cl_data w) (cl_expired w) (cl_store w) u"

definition upload_puts :: "merge_env \<Rightarrow> block_meta \<Rightarrow> (string \<Rightarrow> bytes) \<Rightarrow> (string \<times> bytes) list" where
  "upload_puts env bm body =
     map (\<lambda>k. (env_path env bm k, if k = ''meta.json'' then me_ser env bm else body k)) (block_kinds bm)"

text \<open>\<open>rows\<close> is the reader of a main object. The rows of a block are recorded when its sidecar is there.\<close>

definition record_rows ::
  "(bytes \<Rightarrow> bytes multiset) \<Rightarrow> uuid \<Rightarrow> bytes option \<Rightarrow> bytes option \<Rightarrow> (uuid \<rightharpoonup> bytes multiset) \<Rightarrow> uuid \<rightharpoonup> bytes multiset" where
  "record_rows rows u marker main D = (case (marker, main) of (Some _, Some b) \<Rightarrow> D(u \<mapsto> rows b) | _ \<Rightarrow> D)"

definition announced :: "message set \<Rightarrow> uuid set" where
  "announced M = {u. \<exists>signal us t e. Event (SoftDeleted signal us t e) \<in> M \<and> u \<in> set us}"

inductive cluster_step :: "merge_env \<Rightarrow> (bytes \<Rightarrow> bytes multiset) \<Rightarrow> cluster \<Rightarrow> cluster \<Rightarrow> bool" for env rows where
  upload: "fresh_uuid env w (bm_uuid bm) \<Longrightarrow> bm_compacted_from bm = [] \<Longrightarrow> bm_meta_json_size_bytes bm = None \<Longrightarrow>
    put_block_objects (me_oc env) (upload_puts env bm body) (cl_store w) = (r, s) \<Longrightarrow>
    M = (if isl r then {} else {Fetched (fetched_meta (me_ser env bm) bm), Event (Created (fetched_meta (me_ser env bm) bm))}) \<Longrightarrow>
    cluster_step env rows w (w\<lparr>cl_store := s, cl_messages := cl_messages w \<union> M,
      cl_data := record_rows rows (bm_uuid bm) (objects s (env_path env bm ''meta.json''))
        (objects s (env_path env bm ''parquet'')) (cl_data w)\<rparr>)"
| merge: "fresh_uuid env w (mj_block_uuid j) \<Longrightarrow> merge_blocks env j fence ticks (cl_store w) = (r, s) \<Longrightarrow>
    M = (case r of Inr (Some bm) \<Rightarrow> {Merged bm (uuids_of (mj_inputs j))} | _ \<Rightarrow> {}) \<Longrightarrow>
    cluster_step env rows w (w\<lparr>cl_store := s, cl_messages := cl_messages w \<union> M,
      cl_data := record_rows rows (mj_block_uuid j) (objects s (out_path env j ''meta.json''))
        (objects s (out_path env j ''parquet'')) (cl_data w)\<rparr>)"
| publish: "Merged bm us \<in> cl_messages w \<Longrightarrow> apply_compaction (me_ymd env) observed_at bm us eligible (cl_cats w i) = (new, cat) \<Longrightarrow>
    cluster_step env rows w (w\<lparr>cl_cats := (cl_cats w)(i := cat),
      cl_messages := cl_messages w \<union> {Event (Created bm), Event (Superseded us (bm_uuid bm) bm eligible)}\<rparr>)"
| list_reaps: "reap \<in> set (list_pending_reaps (cl_cats w i) now) \<Longrightarrow>
    cluster_step env rows w (w\<lparr>cl_messages := insert (ToDelete (e_meta (pr_entry reap))) (cl_messages w)\<rparr>)"
| list_deletions: "e \<in> set (list_pending_deletions (cl_cats w i) now) \<Longrightarrow>
    cluster_step env rows w (w\<lparr>cl_messages := insert (ToDelete (e_meta e)) (cl_messages w)\<rparr>)"
| delete: "ToDelete bm \<in> cl_messages w \<Longrightarrow> delete_objects_of env bm (cl_store w) = (r, s) \<Longrightarrow>
    M = (if isl r then {} else {Gone (bm_uuid bm)}) \<Longrightarrow>
    cluster_step env rows w (w\<lparr>cl_store := s, cl_messages := cl_messages w \<union> M\<rparr>)"
| forget: "Gone u \<in> cl_messages w \<Longrightarrow>
    cluster_step env rows w (w\<lparr>cl_cats := (cl_cats w)(i := delete_blocks [u] (cl_cats w i))\<rparr>)"
| announce_gone: "\<forall>u \<in> set us. Gone u \<in> cl_messages w \<Longrightarrow>
    cluster_step env rows w (w\<lparr>cl_messages := insert (Event (Deleted signal us)) (cl_messages w)\<rparr>)"
| fetch: "sidecar_at env (cl_store w) p bm \<Longrightarrow> objects (cl_store w) p = Some body \<Longrightarrow>
    cluster_step env rows w (w\<lparr>cl_messages := insert (Fetched (fetched_meta body bm)) (cl_messages w)\<rparr>)"
| learn: "Fetched bm \<in> cl_messages w \<Longrightarrow> insert_block (me_ymd env) observed_at (cl_cats w i) bm = (new, cat) \<Longrightarrow>
    cluster_step env rows w (w\<lparr>cl_cats := (cl_cats w)(i := cat)\<rparr>)"
| deliver: "Event ev \<in> cl_messages w \<Longrightarrow>
    apply_event_with_grace (me_ymd env) observed_at now grace ev (cl_cats w i) = (res, cat) \<Longrightarrow>
    cluster_step env rows w (w\<lparr>cl_cats := (cl_cats w)(i := cat)\<rparr>)"
| move_cursor: "cluster_step env rows w (w\<lparr>cl_cats := (cl_cats w)(i := advance_cursor signal writer_id date u (cl_cats w i))\<rparr>)"
| stage: "stage_unstaged_superseded eligible (cl_cats w i) = (n, cat) \<Longrightarrow>
    cluster_step env rows w (w\<lparr>cl_cats := (cl_cats w)(i := cat)\<rparr>)"
| plan_expiry: "us = uuids_of (plan_reaping (list_blocks (cl_cats w i)) cfg now) \<Longrightarrow>
    cluster_step env rows w (w\<lparr>cl_messages := insert (Selected us) (cl_messages w)\<rparr>)"
| expire: "Selected us \<in> cl_messages w \<Longrightarrow>
    cluster_step env rows w (w\<lparr>cl_cats := (cl_cats w)(i := mark_deleted us now eligible (cl_cats w i)),
      cl_messages := cl_messages w \<union> {Event (SoftDeleted signal us' now eligible) | signal us'. set us' \<subseteq> set us},
      cl_expired := cl_expired w \<union> set us \<union> \<Union> (family ` {m \<in> sidecars env (cl_store w). bm_uuid m \<in> set us})\<rparr>)"
| announce: "set us \<subseteq> c_uuid ` {r \<in> set (blocks (cl_cats w i)). r_deleted_at r \<noteq> None} \<Longrightarrow>
    cluster_step env rows w (w\<lparr>cl_messages := insert (Event (SoftDeleted signal us t e)) (cl_messages w)\<rparr>)"
| adopt: "sd_uuid ` set staged \<subseteq> announced (cl_messages w) \<Longrightarrow> apply_staged_deletions staged now (cl_cats w i) = (n, cat) \<Longrightarrow>
    cluster_step env rows w (w\<lparr>cl_cats := (cl_cats w)(i := cat)\<rparr>)"
| lose_catalog: "cluster_step env rows w (w\<lparr>cl_cats := (cl_cats w)(i := catalog_empty bucket)\<rparr>)"

inductive cluster_run :: "merge_env \<Rightarrow> (bytes \<Rightarrow> bytes multiset) \<Rightarrow> cluster \<Rightarrow> cluster \<Rightarrow> bool" for env rows where
  stay: "cluster_run env rows w w"
| step: "cluster_run env rows w w' \<Longrightarrow> cluster_step env rows w' w'' \<Longrightarrow> cluster_run env rows w w''"

text \<open>
  What the steps rely on outside the repository: the text of a UUID determines it and has no slash
  and no dot; a sidecar in canonical form is read back as it was written; the sorted scan yields
  the rows of its inputs; and the parquet writer's output is read back as the rows written.
\<close>

definition documented :: "merge_env \<Rightarrow> (bytes \<Rightarrow> bytes multiset) \<Rightarrow> bool" where
  "documented env rows \<longleftrightarrow> inj (me_ustr env) \<and>
     (\<forall>u. CHR ''/'' \<notin> set (me_ustr env u) \<and> CHR ''.'' \<notin> set (me_ustr env u)) \<and>
     (\<forall>bm. bm_meta_json_size_bytes bm = None \<longrightarrow>
        deserialize_compacted_from (me_json_len env) (bm_compacted_from bm) = Inr (bm_compacted_from bm) \<longrightarrow>
        me_parse env (me_ser env bm) = Some bm) \<and>
     (\<forall>cols bodies batches. me_scan env cols (map Some bodies) = map Inr batches \<longrightarrow>
        mset (concat (map sb_rows batches)) = (\<Sum>b \<leftarrow> bodies. rows b)) \<and>
     (\<forall>rs. rows (me_main_bytes env rs) = mset rs) \<and>
     me_json_len env [] \<le> MAX_COMPACTED_ANCESTRY_BYTES"

section \<open>Keys\<close>

lemma ends_with_append [simp]: "ends_with suf (s @ suf)"
  by (simp add: ends_with_def)

lemma env_path_kind:
  "env_path env a k = env_path env b k \<Longrightarrow> env_path env a k' = env_path env b k'"
  by (auto simp: env_path_def meta_path_def block_path_def Let_def split: prod.splits)

lemma env_path_inject [simp]: "env_path env a k = env_path env a k' \<longleftrightarrow> k = k'"
  by (simp add: env_path_def)

lemma ends_with_meta_path [simp]: "ends_with ''.meta.json'' (env_path env bm ''meta.json'')"
proof -
  have "\<exists>s. env_path env bm ''meta.json'' = s @ ''.meta.json''"
    by (auto simp: env_path_def meta_path_def block_path_def Let_def split: prod.splits)
  then show ?thesis by auto
qed

lemma key_text_block:
  assumes "documented env rows" and "CHR ''/'' \<notin> set k"
  shows "key_text (block_path (me_ymd env) (me_ustr env) sig ts wr u k) = me_ustr env u"
proof -
  obtain y m d where ymd: "me_ymd env (ts div 1000000000) = (y, m, d)" by (metis prod.exhaust)
  let ?t = "me_ustr env u @ ''.'' @ k"
  have t: "CHR ''/'' \<notin> set ?t" "CHR ''.'' \<notin> set (me_ustr env u)" using assms by (auto simp: documented_def)
  have "\<exists>pre. block_path (me_ymd env) (me_ustr env) sig ts wr u k = pre @ CHR ''/'' # ?t"
    by (simp add: block_path_def ymd Let_def)
  then obtain pre where pre: "block_path (me_ymd env) (me_ustr env) sig ts wr u k = pre @ CHR ''/'' # ?t" by blast
  have "takeWhile (\<lambda>c. c \<noteq> CHR ''/'') (rev ?t @ CHR ''/'' # rev pre) = rev ?t"
    using t(1) by (intro takeWhile_append2 [THEN trans]) auto
  then have "rev (takeWhile (\<lambda>c. c \<noteq> CHR ''/'') (rev (pre @ CHR ''/'' # ?t))) = ?t" by simp
  then show ?thesis using t(2) unfolding key_text_def pre
    by (simp only:) (subst takeWhile_append2; auto)
qed

lemma kinds_no_slash: "k \<in> set (block_kinds bm) \<Longrightarrow> CHR ''/'' \<notin> set k"
  by (auto simp: block_kinds_def split: if_splits)

lemma key_text_env:
  "documented env rows \<Longrightarrow> CHR ''/'' \<notin> set k \<Longrightarrow> key_text (env_path env bm k) = me_ustr env (bm_uuid bm)"
  by (simp add: env_path_def meta_path_def key_text_block)

lemma key_text_out:
  "documented env rows \<Longrightarrow> CHR ''/'' \<notin> set k \<Longrightarrow> key_text (out_path env j k) = me_ustr env (mj_block_uuid j)"
  by (simp add: out_path_def key_text_block)

lemma sidecar_at_meta: "sidecar_at env s p m \<Longrightarrow> m \<in> sidecars env s"
  by (auto simp: sidecars_def)

section \<open>Which rows a catalog may give up\<close>

text \<open>Rows a catalog holds for superseded, and rows it holds for expired.\<close>

definition superseded_rows :: "catalog \<Rightarrow> uuid set" where
  "superseded_rows cat = c_uuid ` {r \<in> set (blocks cat). r_superseded_by r \<noteq> None \<or> r_reap_output r \<noteq> None}"

definition hidden_rows :: "catalog \<Rightarrow> uuid set" where
  "hidden_rows cat = c_uuid ` {r \<in> set (blocks cat). r_deleted_at r \<noteq> None}"

lemma superseded_of_map:
  assumes "blocks cat' = map h (blocks cat)" and "\<And>r. c_uuid (h r) = c_uuid r"
    and "\<And>r. r_superseded_by (h r) \<noteq> None \<or> r_reap_output (h r) \<noteq> None \<Longrightarrow>
      r_superseded_by r \<noteq> None \<or> r_reap_output r \<noteq> None \<or> c_uuid r \<in> S"
  shows "superseded_rows cat' \<subseteq> superseded_rows cat \<union> S"
  using assms unfolding superseded_rows_def by fastforce

lemma hidden_of_map:
  assumes "blocks cat' = map h (blocks cat)" and "\<And>r. c_uuid (h r) = c_uuid r"
    and "\<And>r. r_deleted_at (h r) \<noteq> None \<Longrightarrow> r_deleted_at r \<noteq> None \<or> c_uuid r \<in> H"
  shows "hidden_rows cat' \<subseteq> hidden_rows cat \<union> H"
  using assms unfolding hidden_rows_def by fastforce

lemmas superseded_of_map_id = superseded_of_map [where S = "{}", simplified Un_empty_right]
lemmas hidden_of_map_id = hidden_of_map [where H = "{}", simplified Un_empty_right]

lemma rows_insert_block:
  "superseded_rows (snd (insert_block ymd now cat bm)) \<subseteq> superseded_rows cat \<union> set (bm_compacted_from bm)"
  "hidden_rows (snd (insert_block ymd now cat bm)) \<subseteq> hidden_rows cat"
proof -
  let ?cat = "cat\<lparr>blocks := blocks cat @ insert_row ymd cat bm\<rparr>"
  have new: "superseded_rows ?cat = superseded_rows cat" "hidden_rows ?cat = hidden_rows cat"
    by (auto simp: superseded_rows_def hidden_rows_def insert_row_def)
  have eq: "blocks (snd (insert_block ymd now cat bm)) = map (claimed bm) (blocks ?cat)" by (simp add: insert_block_blocks)
  show "superseded_rows (snd (insert_block ymd now cat bm)) \<subseteq> superseded_rows cat \<union> set (bm_compacted_from bm)"
    by (rule superseded_of_map [OF eq, unfolded new]; auto simp: claimed_def claims_def split: if_splits)
  show "hidden_rows (snd (insert_block ymd now cat bm)) \<subseteq> hidden_rows cat"
    by (rule hidden_of_map_id [OF eq, unfolded new]; auto simp: claimed_def split: if_splits)
qed

lemma rows_stage_superseded:
  "superseded_rows (stage_superseded us m e cat) \<subseteq> superseded_rows cat \<union> set us"
  "hidden_rows (stage_superseded us m e cat) \<subseteq> hidden_rows cat"
  by (rule superseded_of_map [OF stage_superseded_blocks]; auto simp: staged_reap_def split: if_splits)
    (rule hidden_of_map_id [OF stage_superseded_blocks]; auto simp: staged_reap_def split: if_splits)

lemma rows_apply_compaction:
  "superseded_rows (snd (apply_compaction ymd now bm us e cat)) \<subseteq> superseded_rows cat \<union> set us \<union> set (bm_compacted_from bm)"
  "hidden_rows (snd (apply_compaction ymd now bm us e cat)) \<subseteq> hidden_rows cat"
proof -
  obtain new cat1 where ins: "insert_block ymd now cat bm = (new, cat1)" by force
  have "snd (apply_compaction ymd now bm us e cat) = stage_superseded us (bm_uuid bm) e cat1"
    by (simp add: apply_compaction_def ins)
  then show "superseded_rows (snd (apply_compaction ymd now bm us e cat)) \<subseteq> superseded_rows cat \<union> set us \<union> set (bm_compacted_from bm)"
    and "hidden_rows (snd (apply_compaction ymd now bm us e cat)) \<subseteq> hidden_rows cat"
    using rows_stage_superseded [of us "bm_uuid bm" e cat1] rows_insert_block [of ymd now cat bm] ins by auto
qed

lemma rows_mark_deleted:
  "superseded_rows (mark_deleted us t e cat) \<subseteq> superseded_rows cat"
  "hidden_rows (mark_deleted us t e cat) \<subseteq> hidden_rows cat \<union> set us"
  by (rule superseded_of_map_id [OF mark_deleted_blocks]; auto simp: staged_delete_def split: if_splits)
    (rule hidden_of_map [OF mark_deleted_blocks]; auto simp: staged_delete_def split: if_splits)

lemma rows_adopt:
  "superseded_rows (snd (adopt_peer_deletion us t e cat)) \<subseteq> superseded_rows cat"
  "hidden_rows (snd (adopt_peer_deletion us t e cat)) \<subseteq> hidden_rows cat \<union> set us"
  by (rule superseded_of_map_id [OF adopt_blocks]; auto split: if_splits)
    (rule hidden_of_map [OF adopt_blocks]; auto split: if_splits)

lemma rows_stage_unstaged:
  "superseded_rows (snd (stage_unstaged_superseded e cat)) \<subseteq> superseded_rows cat"
  "hidden_rows (snd (stage_unstaged_superseded e cat)) \<subseteq> hidden_rows cat"
proof -
  have eq: "blocks (snd (stage_unstaged_superseded e cat)) = map (\<lambda>r. if unstaged r then
      r\<lparr>r_reap_output := coalesce (r_reap_output r) (r_superseded_by r),
        r_reap_eligible_at := coalesce (r_reap_eligible_at r) (Some (clamp_i64 e))\<rparr> else r) (blocks cat)"
    by (simp add: stage_unstaged_superseded_def update_where_def)
  show "superseded_rows (snd (stage_unstaged_superseded e cat)) \<subseteq> superseded_rows cat"
    by (rule superseded_of_map_id [OF eq]; auto simp: unstaged_def split: if_splits)
  show "hidden_rows (snd (stage_unstaged_superseded e cat)) \<subseteq> hidden_rows cat"
    by (rule hidden_of_map_id [OF eq]; auto split: if_splits)
qed

lemma rows_delete_blocks:
  "superseded_rows (delete_blocks us cat) \<subseteq> superseded_rows cat" "hidden_rows (delete_blocks us cat) \<subseteq> hidden_rows cat"
  by (auto simp: superseded_rows_def hidden_rows_def delete_blocks_def)

lemma rows_same_blocks:
  "blocks cat' = blocks cat \<Longrightarrow> superseded_rows cat' = superseded_rows cat \<and> hidden_rows cat' = hidden_rows cat"
  by (simp add: superseded_rows_def hidden_rows_def)

lemma rows_advance_cursor [simp]:
  "superseded_rows (advance_cursor s wr d u cat) = superseded_rows cat"
  "hidden_rows (advance_cursor s wr d u cat) = hidden_rows cat"
  using rows_same_blocks [of "advance_cursor s wr d u cat" cat] by (simp_all add: advance_cursor_def)

lemma rows_catalog_empty [simp]: "superseded_rows (catalog_empty b) = {}" "hidden_rows (catalog_empty b) = {}"
  by (simp_all add: superseded_rows_def hidden_rows_def catalog_empty_def)

text \<open>What the consumer of an event makes of it.\<close>

fun event_supersedes :: "block_event \<Rightarrow> uuid set" where
  "event_supersedes (Created bm) = set (bm_compacted_from bm)"
| "event_supersedes (Superseded us by bm e) = set us \<union> set (bm_compacted_from bm)"
| "event_supersedes _ = {}"

fun event_hides :: "block_event \<Rightarrow> uuid set" where
  "event_hides (SoftDeleted sig us t e) = set us"
| "event_hides _ = {}"

lemma rows_apply_event:
  "superseded_rows (snd (apply_event_with_grace ymd obs now g ev cat)) \<subseteq> superseded_rows cat \<union> event_supersedes ev"
  "hidden_rows (snd (apply_event_with_grace ymd obs now g ev cat)) \<subseteq> hidden_rows cat \<union> event_hides ev"
proof (atomize (full), cases ev, goal_cases)
  case (1 bm)
  show ?case using rows_insert_block [of ymd obs cat bm] unfolding 1
    by (auto simp: advance_block_cursor_def split: prod.splits)
next
  case (2 us by_uuid bm e)
  show ?case using rows_apply_compaction [of ymd obs bm us "superseded_eligible now g e" cat] unfolding 2
    by (auto simp: advance_block_cursor_def split: prod.splits)
next
  case (3 sig us t e)
  show ?case using rows_adopt [of us now "sat_add now (sat_sub e t)" cat] unfolding 3 by auto
next
  case (4 sig us)
  show ?case using rows_delete_blocks [of us cat] unfolding 4 by auto
qed

lemma rows_apply_staged:
  "superseded_rows (snd (apply_staged_deletions staged now cat)) \<subseteq> superseded_rows cat"
  "hidden_rows (snd (apply_staged_deletions staged now cat)) \<subseteq> hidden_rows cat \<union> sd_uuid ` set staged"
proof -
  let ?step = "\<lambda>(grace, us) (hidden :: nat, c). case adopt_peer_deletion us now (sat_add now grace) c of (n, c') \<Rightarrow> (hidden + n, c')"
  have fold: "superseded_rows (snd (fold ?step gs (n, c))) \<subseteq> superseded_rows c \<and>
      hidden_rows (snd (fold ?step gs (n, c))) \<subseteq> hidden_rows c \<union> \<Union> ((\<lambda>g. set (snd g)) ` set gs)" for gs n c
  proof (induction gs arbitrary: n c)
    case (Cons g gs)
    obtain grace us where g: "g = (grace, us)" by force
    obtain k c1 where a: "adopt_peer_deletion us now (sat_add now grace) c = (k, c1)" by force
    have "superseded_rows c1 \<subseteq> superseded_rows c" "hidden_rows c1 \<subseteq> hidden_rows c \<union> set us"
      using rows_adopt [of us now "sat_add now grace" c] a by simp_all
    with Cons.IH [of "n + k" c1] show ?case by (auto simp: g a)
  qed simp
  have push: "\<Union> ((\<lambda>g. set (snd g)) ` set (btree_push k v gs)) = insert v (\<Union> ((\<lambda>g. set (snd g)) ` set gs))"
    for k :: u64 and v :: uuid and gs
    by (induction k v gs rule: btree_push.induct) auto
  have "\<Union> ((\<lambda>g. set (snd g)) ` set (fold (\<lambda>sd. btree_push (grace_nanos sd) (sd_uuid sd)) xs gs)) =
      sd_uuid ` set xs \<union> \<Union> ((\<lambda>g. set (snd g)) ` set gs)" for xs gs
    by (induction xs arbitrary: gs) (auto simp: push)
  then have "\<Union> ((\<lambda>g. set (snd g)) ` set (group_by_grace staged)) = sd_uuid ` set staged"
    by (simp add: group_by_grace_def)
  with fold [of "group_by_grace staged" 0 cat]
  show "superseded_rows (snd (apply_staged_deletions staged now cat)) \<subseteq> superseded_rows cat"
    and "hidden_rows (snd (apply_staged_deletions staged now cat)) \<subseteq> hidden_rows cat \<union> sd_uuid ` set staged"
    by (simp_all add: apply_staged_deletions_def)
qed

section \<open>The invariant of the bucket\<close>

definition absorbed :: "merge_env \<Rightarrow> store \<Rightarrow> uuid set" where
  "absorbed env s = (\<Union>m \<in> committed env s. set (bm_compacted_from m))"

definition covered :: "merge_env \<Rightarrow> store \<Rightarrow> uuid set" where
  "covered env s = (\<Union>m \<in> committed env s. family m)"

text \<open>Blocks whose rows are elsewhere or expired: they may be given up.\<close>

definition accounted :: "merge_env \<Rightarrow> store \<Rightarrow> uuid set \<Rightarrow> uuid set" where
  "accounted env s E = absorbed env s \<union> E"

definition own_path :: "merge_env \<Rightarrow> store \<Rightarrow> bool" where
  "own_path env s \<longleftrightarrow> (\<forall>p m. sidecar_at env s p m \<longrightarrow> p = env_path env m ''meta.json'')"

definition bucket_inv ::
  "merge_env \<Rightarrow> (bytes \<Rightarrow> bytes multiset) \<Rightarrow> (uuid \<rightharpoonup> bytes multiset) \<Rightarrow> uuid set \<Rightarrow> store \<Rightarrow> bool" where
  "bucket_inv env rows D E s \<longleftrightarrow> own_path env s \<and> wf_metas (sidecars env s) \<and>
     (\<forall>m \<in> sidecars env s. \<not> intact env s m \<longrightarrow> bm_uuid m \<in> accounted env s E) \<and>
     (\<forall>m \<in> sidecars env s. bm_uuid m \<in> E \<longrightarrow> set (bm_compacted_from m) \<subseteq> E) \<and>
     (\<forall>m \<in> sidecars env s. \<forall>b. objects s (env_path env m ''parquet'') = Some b \<longrightarrow>
        D (bm_uuid m) = Some (rows b) \<and> (\<forall>u \<in> family m. \<forall>r. D u = Some r \<longrightarrow> r \<subseteq># rows b)) \<and>
     dom D \<subseteq> covered env s \<union> E"

lemma bucket_invD:
  assumes "bucket_inv env rows D E s"
  shows "own_path env s" and "wf_metas (sidecars env s)"
    and "m \<in> sidecars env s \<Longrightarrow> intact env s m \<or> bm_uuid m \<in> accounted env s E"
    and "m \<in> sidecars env s \<Longrightarrow> bm_uuid m \<in> E \<Longrightarrow> set (bm_compacted_from m) \<subseteq> E"
    and "m \<in> sidecars env s \<Longrightarrow> objects s (env_path env m ''parquet'') = Some b \<Longrightarrow> u \<in> family m \<Longrightarrow> D u = Some r \<Longrightarrow> r \<subseteq># rows b"
    and "dom D \<subseteq> covered env s \<union> E"
    and "m \<in> sidecars env s \<Longrightarrow> objects s (env_path env m ''parquet'') = Some b \<Longrightarrow> D (bm_uuid m) = Some (rows b)"
  using assms unfolding bucket_inv_def by blast+

lemma wf_metasD:
  assumes "wf_metas M"
  shows "a \<in> M \<Longrightarrow> b \<in> M \<Longrightarrow> bm_uuid a = bm_uuid b \<Longrightarrow> a = b"
    and "a \<in> M \<Longrightarrow> bm_uuid a \<notin> set (bm_compacted_from a)"
    and "a \<in> M \<Longrightarrow> b \<in> M \<Longrightarrow> bm_uuid a \<in> set (bm_compacted_from b) \<Longrightarrow> set (bm_compacted_from a) \<subseteq> set (bm_compacted_from b)"
  using assms unfolding wf_metas_def by (blast dest: inj_onD)+

lemma sidecar_at_own:
  "own_path env s \<Longrightarrow> m \<in> sidecars env s \<Longrightarrow> sidecar_at env s (env_path env m ''meta.json'') m"
  by (auto simp: own_path_def sidecars_def)

text \<open>A sidecar in an accounted block claims only accounted blocks; and so does every sidecar.\<close>

lemma accounted_family:
  assumes inv: "bucket_inv env rows D E s" and m: "m \<in> sidecars env s" "bm_uuid m \<in> accounted env s E"
  shows "family m \<subseteq> E \<or> (\<exists>m' \<in> committed env s. bm_uuid m' \<noteq> bm_uuid m \<and> family m \<subseteq> set (bm_compacted_from m'))"
proof (cases "bm_uuid m \<in> E")
  case True
  with bucket_invD(4) [OF inv m(1)] show ?thesis by (auto simp: family_def)
next
  case False
  with m(2) obtain m' where m': "m' \<in> committed env s" "bm_uuid m \<in> set (bm_compacted_from m')"
    by (auto simp: accounted_def absorbed_def)
  note wf = bucket_invD(2) [OF inv]
  have side: "m' \<in> sidecars env s" using m'(1) by (simp add: committed_def)
  have "family m \<subseteq> set (bm_compacted_from m')" using wf_metasD(3) [OF wf m(1) side m'(2)] m'(2) by (auto simp: family_def)
  moreover have "bm_uuid m' \<noteq> bm_uuid m" using wf_metasD(2) [OF wf side] m'(2) by auto
  ultimately show ?thesis using m'(1) by blast
qed

lemma sidecar_claims_accounted:
  assumes inv: "bucket_inv env rows D E s" and m: "m \<in> sidecars env s"
  shows "set (bm_compacted_from m) \<subseteq> accounted env s E"
proof (cases "intact env s m")
  case True
  with m show ?thesis by (auto simp: accounted_def absorbed_def committed_def)
next
  case False
  with bucket_invD(3) [OF inv m] have "bm_uuid m \<in> accounted env s E" by simp
  from accounted_family [OF inv m this] show ?thesis by (auto simp: family_def accounted_def absorbed_def)
qed

section \<open>Deleting an accounted block\<close>

definition same_but :: "merge_env \<Rightarrow> uuid \<Rightarrow> store \<Rightarrow> store \<Rightarrow> bool" where
  "same_but env u s s' \<longleftrightarrow> (\<forall>p. key_text p \<noteq> me_ustr env u \<longrightarrow> objects s' p = objects s p)"

text \<open>The only sidecar key a store may have for a block.\<close>

definition marker_only :: "merge_env \<Rightarrow> uuid \<Rightarrow> string \<Rightarrow> store \<Rightarrow> bool" where
  "marker_only env u q s \<longleftrightarrow> (\<forall>p. key_text p = me_ustr env u \<longrightarrow> ends_with ''.meta.json'' p \<longrightarrow> objects s p \<noteq> None \<longrightarrow> p = q)"

lemma same_butD: "same_but env u s s' \<Longrightarrow> key_text p \<noteq> me_ustr env u \<Longrightarrow> objects s' p = objects s p"
  by (simp add: same_but_def)

lemma sidecars_other_keys:
  assumes doc: "documented env rows" and own: "own_path env s" and m: "m \<in> sidecars env s" "bm_uuid m \<noteq> u"
    and same: "same_but env u s s'"
  shows "m \<in> sidecars env s'" and "intact env s' m \<longleftrightarrow> intact env s m"
    and "objects s' (env_path env m ''parquet'') = objects s (env_path env m ''parquet'')"
proof -
  have "me_ustr env (bm_uuid m) \<noteq> me_ustr env u" using doc m(2) by (auto simp: documented_def dest: injD)
  then have keep: "objects s' (env_path env m k) = objects s (env_path env m k)" if "CHR ''/'' \<notin> set k" for k
    using same_butD [OF same] key_text_env [OF doc that] by simp
  show "m \<in> sidecars env s'"
    using sidecar_at_own [OF own m(1)] keep [of "''meta.json''"]
    by (intro sidecar_at_meta [of env s' "env_path env m ''meta.json''"]) (auto simp: sidecar_at_def)
  show "intact env s' m \<longleftrightarrow> intact env s m" using keep kinds_no_slash by (auto simp: intact_def)
  show "objects s' (env_path env m ''parquet'') = objects s (env_path env m ''parquet'')" by (rule keep) simp
qed

lemma bucket_delete:
  assumes doc: "documented env rows" and inv: "bucket_inv env rows D E s" and acc: "u \<in> accounted env s E"
    and same: "same_but env u s s'"
    and less: "\<And>p. objects s' p = objects s p \<or> objects s' p = None"
  shows "bucket_inv env rows D E s'" and "accounted env s E \<subseteq> accounted env s' E"
proof -
  note own = bucket_invD(1) [OF inv]
  have at: "sidecar_at env s p m" if "sidecar_at env s' p m" for p m
    using that less [of p] by (auto simp: sidecar_at_def)
  have sub: "sidecars env s' \<subseteq> sidecars env s" using at by (auto simp: sidecars_def)
  have other: "m \<in> sidecars env s'" "intact env s' m \<longleftrightarrow> intact env s m" if "m \<in> sidecars env s" "bm_uuid m \<noteq> u" for m
    using sidecars_other_keys(1,2) [OF doc own that same] by simp_all
  have keep: "m \<in> committed env s'" if "m \<in> committed env s" "bm_uuid m \<noteq> u" for m
    using that other(1,2) by (auto simp: committed_def)
  have moved: "family m \<subseteq> E \<or> (\<exists>m' \<in> committed env s'. family m \<subseteq> set (bm_compacted_from m'))"
    if m: "m \<in> sidecars env s" "bm_uuid m = u" for m
  proof -
    have "bm_uuid m \<in> accounted env s E" using acc m(2) by simp
    from accounted_family [OF inv m(1) this] show ?thesis using keep m(2) by blast
  qed
  have fam: "\<exists>m' \<in> committed env s'. family m \<subseteq> family m' \<and> set (bm_compacted_from m) \<subseteq> set (bm_compacted_from m')"
    if "m \<in> committed env s" "\<not> family m \<subseteq> E" for m
  proof (cases "bm_uuid m = u")
    case True
    with moved [of m] that obtain m' where "m' \<in> committed env s'" "family m \<subseteq> set (bm_compacted_from m')"
      by (auto simp: committed_def)
    then show ?thesis by (auto simp: family_def)
  qed (use keep that in blast)
  show mono: "accounted env s E \<subseteq> accounted env s' E"
  proof
    fix v assume "v \<in> accounted env s E"
    then consider "v \<in> E" | m where "m \<in> committed env s" "v \<in> set (bm_compacted_from m)"
      by (auto simp: accounted_def absorbed_def)
    then show "v \<in> accounted env s' E"
      using fam by cases (fastforce simp: accounted_def absorbed_def family_def)+
  qed
  have "covered env s \<subseteq> covered env s' \<union> E"
    using fam by (fastforce simp: covered_def)
  moreover have "bm_uuid m \<in> accounted env s' E" if "m \<in> sidecars env s'" "\<not> intact env s' m" for m
    using that bucket_invD(3) [OF inv, of m] other(2) [of m] sub acc mono by blast
  moreover have "objects s p = Some b" if "objects s' p = Some b" for p b using that less [of p] by auto
  ultimately show "bucket_inv env rows D E s'"
    using inv sub at wf_metas_subset [OF _ sub] unfolding bucket_inv_def own_path_def by blast
qed

section \<open>Adding a block\<close>

lemma fresh_sidecars:
  assumes doc: "documented env rows" and own: "own_path env s" and fresh: "fresh_in env D E s u"
    and same: "same_but env u s s'"
  shows "m \<in> sidecars env s \<Longrightarrow> m \<in> sidecars env s'"
    and "m \<in> sidecars env s \<Longrightarrow> intact env s' m \<longleftrightarrow> intact env s m"
    and "m \<in> sidecars env s \<Longrightarrow> objects s' (env_path env m ''parquet'') = objects s (env_path env m ''parquet'')"
    and "committed env s \<subseteq> committed env s'"
proof -
  have other: "m \<in> sidecars env s'" "intact env s' m \<longleftrightarrow> intact env s m"
      "objects s' (env_path env m ''parquet'') = objects s (env_path env m ''parquet'')" if m: "m \<in> sidecars env s" for m
  proof -
    have "bm_uuid m \<noteq> u" using fresh m by (auto simp: fresh_in_def family_def)
    from sidecars_other_keys [OF doc own m this same]
    show "m \<in> sidecars env s'" "intact env s' m \<longleftrightarrow> intact env s m"
      "objects s' (env_path env m ''parquet'') = objects s (env_path env m ''parquet'')" by simp_all
  qed
  then show "m \<in> sidecars env s \<Longrightarrow> m \<in> sidecars env s'"
    and "m \<in> sidecars env s \<Longrightarrow> intact env s' m \<longleftrightarrow> intact env s m"
    and "m \<in> sidecars env s \<Longrightarrow> objects s' (env_path env m ''parquet'') = objects s (env_path env m ''parquet'')"
    and "committed env s \<subseteq> committed env s'" by (auto simp: committed_def)
qed

lemma accounted_mono: "committed env s \<subseteq> committed env s' \<Longrightarrow> E \<subseteq> E' \<Longrightarrow> accounted env s E \<subseteq> accounted env s' E'"
  by (auto simp: accounted_def absorbed_def)

lemma bucket_quiet:
  assumes doc: "documented env rows" and inv: "bucket_inv env rows D E s" and fresh: "fresh_in env D E s u"
    and same: "same_but env u s s'"
    and quiet: "marker_only env u q s'" "objects s' q = None"
  shows "bucket_inv env rows D E s'" and "accounted env s E \<subseteq> accounted env s' E" and "sidecars env s' = sidecars env s"
proof -
  note new = fresh_sidecars [OF doc bucket_invD(1) [OF inv] fresh same]
  have at: "sidecar_at env s p m" if "sidecar_at env s' p m" for p m
    using that same_butD [OF same, of p] quiet
    by (cases "key_text p = me_ustr env u") (auto simp: sidecar_at_def marker_only_def)
  then have "sidecars env s' \<subseteq> sidecars env s" by (auto simp: sidecars_def)
  then show sides: "sidecars env s' = sidecars env s" using new(1) by blast
  show acc: "accounted env s E \<subseteq> accounted env s' E" using accounted_mono [OF new(4)] by simp
  have "committed env s' = committed env s" using new(2) sides by (auto simp: committed_def)
  then have "covered env s' = covered env s" "accounted env s' E = accounted env s E"
    by (simp_all add: covered_def accounted_def absorbed_def)
  then show "bucket_inv env rows D E s'"
    using inv new(2,3) at unfolding bucket_inv_def own_path_def sides by simp
qed

lemma bucket_commit:
  assumes doc: "documented env rows" and inv: "bucket_inv env rows D E s" and fresh: "fresh_in env D E s (bm_uuid bm)"
    and same: "same_but env (bm_uuid bm) s s'"
    and marker: "objects s' (env_path env bm ''meta.json'') = Some body" "me_parse env body = Some bm"
    and only: "marker_only env (bm_uuid bm) (env_path env bm ''meta.json'') s'"
    and whole: "intact env s' bm" and main: "objects s' (env_path env bm ''parquet'') = Some b"
    and self: "bm_uuid bm \<notin> set (bm_compacted_from bm)"
    and closed: "\<forall>a \<in> sidecars env s. bm_uuid a \<in> set (bm_compacted_from bm) \<longrightarrow> set (bm_compacted_from a) \<subseteq> set (bm_compacted_from bm)"
    and holds: "\<forall>v \<in> set (bm_compacted_from bm). \<forall>r. D v = Some r \<longrightarrow> r \<subseteq># rows b"
  shows "bucket_inv env rows (D(bm_uuid bm \<mapsto> rows b)) E s'" and "accounted env s E \<subseteq> accounted env s' E"
    and "set (bm_compacted_from bm) \<subseteq> accounted env s' E" and "sidecars env s' = insert bm (sidecars env s)"
proof -
  note new = fresh_sidecars [OF doc bucket_invD(1) [OF inv] fresh same]
  have fr: "bm_uuid bm \<notin> family m" if "m \<in> sidecars env s" for m using fresh that by (simp add: fresh_in_def)
  have bm: "bm \<in> sidecars env s'" by (rule sidecar_at_meta) (use marker in \<open>auto simp: sidecar_at_def\<close>)
  have at: "sidecar_at env s p m \<or> p = env_path env bm ''meta.json'' \<and> m = bm" if "sidecar_at env s' p m" for p m
    using that same_butD [OF same, of p] only marker
    by (cases "key_text p = me_ustr env (bm_uuid bm)") (auto simp: sidecar_at_def marker_only_def)
  then have "sidecars env s' \<subseteq> insert bm (sidecars env s)" by (auto simp: sidecars_def)
  then show sides: "sidecars env s' = insert bm (sidecars env s)" using new(1) bm by blast
  show acc: "accounted env s E \<subseteq> accounted env s' E" using accounted_mono [OF new(4)] by simp
  have com: "bm \<in> committed env s'" using bm whole by (simp add: committed_def)
  then show "set (bm_compacted_from bm) \<subseteq> accounted env s' E" by (auto simp: accounted_def absorbed_def)
  have wf: "wf_metas (sidecars env s')"
    using bucket_invD(2) [OF inv] fr self closed unfolding sides wf_metas_def family_def
    by (auto simp: inj_on_insert)
  have own: "own_path env s'" using at bucket_invD(1) [OF inv] unfolding own_path_def by blast
  have broken: "bm_uuid m \<in> accounted env s' E" if "m \<in> sidecars env s'" "\<not> intact env s' m" for m
    using that whole bucket_invD(3) [OF inv, of m] new(2) [of m] acc unfolding sides by blast
  have expired: "set (bm_compacted_from m) \<subseteq> E" if "m \<in> sidecars env s'" "bm_uuid m \<in> E" for m
    using that bucket_invD(4) [OF inv, of m] fresh unfolding sides fresh_in_def by blast
  have "(D(bm_uuid bm \<mapsto> rows b)) (bm_uuid m) = Some (rows c)" if "m \<in> sidecars env s'" and c: "objects s' (env_path env m ''parquet'') = Some c" for m c
  proof (cases "m = bm")
    case False
    then have m: "m \<in> sidecars env s" using that(1) sides by blast
    then have "bm_uuid m \<noteq> bm_uuid bm" using fr [OF m] by (auto simp: family_def)
    with bucket_invD(7) [OF inv m] c new(3) [OF m] show ?thesis by simp
  qed (use c main in simp)
  moreover have "r \<subseteq># rows c" if "m \<in> sidecars env s'" and c: "objects s' (env_path env m ''parquet'') = Some c" "u \<in> family m"
      and r: "(D(bm_uuid bm \<mapsto> rows b)) u = Some r" for m c u r
  proof (cases "m = bm")
    case True
    with c main holds r show ?thesis by (auto simp: family_def split: if_splits)
  next
    case False
    then have m: "m \<in> sidecars env s" using that(1) sides by blast
    then have "u \<noteq> bm_uuid bm" using fr c(2) by blast
    with r have "D u = Some r" by simp
    with bucket_invD(5) [OF inv m _ c(2)] c(1) new(3) [OF m] show ?thesis by simp
  qed
  moreover have "covered env s \<subseteq> covered env s'" "bm_uuid bm \<in> covered env s'"
    using new(4) com by (auto simp: covered_def family_def)
  then have "dom (D(bm_uuid bm \<mapsto> rows b)) \<subseteq> covered env s' \<union> E" using bucket_invD(6) [OF inv] by auto
  ultimately show "bucket_inv env rows (D(bm_uuid bm \<mapsto> rows b)) E s'"
    using wf own broken expired unfolding bucket_inv_def by blast
qed

lemma marker_key:
  assumes "k \<in> {''parquet'', ''postings.parquet'', ''body.bloom'', ''meta.json''}" and "ends_with ''.meta.json'' (block_path ymd ustr sig ts wr u k)"
  shows "k = ''meta.json''"
proof -
  obtain y m d where ymd: "ymd (ts div 1000000000) = (y, m, d)" by (metis prod.exhaust)
  have "last (block_path ymd ustr sig ts wr u k) = last k" using assms(1) by (auto simp: block_path_def ymd)
  moreover from assms(2) obtain x where "block_path ymd ustr sig ts wr u k = x @ ''.meta.json''"
    by (auto simp: ends_with_def strip_suffix_SomeD)
  ultimately have "last k = CHR ''n''" by simp
  with assms(1) show ?thesis by auto
qed

lemma upload_bucket:
  assumes doc: "documented env rows" and inv: "bucket_inv env rows D E s" and fresh: "fresh_in env D E s (bm_uuid bm)"
    and bm: "bm_compacted_from bm = []" "bm_meta_json_size_bytes bm = None"
    and put: "put_block_objects (me_oc env) (upload_puts env bm body) s = (r, s')"
  defines "D' \<equiv> record_rows rows (bm_uuid bm) (objects s' (env_path env bm ''meta.json'')) (objects s' (env_path env bm ''parquet'')) D"
  shows "bucket_inv env rows D' E s'" and "accounted env s E \<subseteq> accounted env s' E"
proof -
  let ?p = "env_path env bm" and ?u = "me_ustr env (bm_uuid bm)"
  obtain ks where ks: "block_kinds bm = ks @ [''meta.json'']" "''meta.json'' \<notin> set ks" "''parquet'' \<in> set ks" "distinct ks"
    by (auto simp: block_kinds_def)
  define puts where "puts = map (\<lambda>k. (?p k, body k)) ks"
  have "upload_puts env bm body = puts @ [(?p ''meta.json'', me_ser env bm)]"
    using ks(2) by (auto simp: upload_puts_def ks(1) puts_def)
  note put = put [unfolded this]
  have dist: "distinct (map fst (puts @ [(?p ''meta.json'', me_ser env bm)]))"
    using ks by (auto simp: puts_def distinct_map inj_on_def comp_def)
  have keys: "p \<in> ?p ` set (block_kinds bm)" if "objects s' p \<noteq> objects s p" for p
    using that put_block_objects_other [OF put, of p] by (auto simp: puts_def ks(1) image_image)
  have same: "same_but env (bm_uuid bm) s s'"
    unfolding same_but_def using keys key_text_env [OF doc] kinds_no_slash by blast
  have none: "objects s p = None" if "key_text p = ?u" for p using fresh that by (simp add: fresh_in_def)
  have only: "marker_only env (bm_uuid bm) (?p ''meta.json'') s'" unfolding marker_only_def
  proof (intro allI impI)
    fix p assume p: "key_text p = ?u" "ends_with ''.meta.json'' p" "objects s' p \<noteq> None"
    from keys [of p] none [OF p(1)] p(3) obtain k where k: "k \<in> set (block_kinds bm)" "p = ?p k" by auto
    then have "k = ''meta.json''" using p(2)
      by (intro marker_key) (auto simp: env_path_def meta_path_def block_kinds_def split: if_splits)
    with k show "p = ?p ''meta.json''" by simp
  qed
  show "bucket_inv env rows D' E s'" and "accounted env s E \<subseteq> accounted env s' E"
  proof (atomize (full), cases "objects s' (?p ''meta.json'') = None")
    case True
    have "D' = D" by (simp add: D'_def record_rows_def True)
    with bucket_quiet(1,2) [OF doc inv fresh same only True]
    show "bucket_inv env rows D' E s' \<and> accounted env s E \<subseteq> accounted env s' E" by simp
  next
    case False
    have "objects s (?p ''meta.json'') = None" by (rule none) (simp add: key_text_env [OF doc])
    from put_block_objects_marker [OF put dist this False]
    have marker: "objects s' (?p ''meta.json'') = Some (me_ser env bm)"
      and all: "\<And>k. k \<in> set ks \<Longrightarrow> objects s' (?p k) = Some (body k)" by (auto simp: puts_def)
    have whole: "intact env s' bm" using all marker by (auto simp: intact_def ks(1))
    have parse: "me_parse env (me_ser env bm) = Some bm"
      using doc bm by (auto simp: documented_def deserialize_compacted_from_def)
    have main: "objects s' (?p ''parquet'') = Some (body ''parquet'')" using all ks(3) by simp
    have "D' = D(bm_uuid bm \<mapsto> rows (body ''parquet''))" by (simp add: D'_def record_rows_def marker main)
    with bucket_commit(1,2) [OF doc inv fresh same marker parse only whole main] bm(1)
    show "bucket_inv env rows D' E s' \<and> accounted env s E \<subseteq> accounted env s' E" by simp
  qed
qed

section \<open>Merging\<close>

lemma ancestors_canonical:
  assumes "compacted_ancestor_closure jl out metas = Inr ancestors"
  shows "deserialize_compacted_from jl ancestors = Inr ancestors"
proof -
  from assms obtain cl where cl: "closure_loop out {} {} metas = Inr cl" and ne: "metas \<noteq> []"
    and a: "ancestors = sorted_list_of_set cl" "\<not> MAX_COMPACTED_ANCESTRY_BYTES < jl ancestors"
    by (auto simp: compacted_ancestor_closure_def Let_def split: if_splits sum.splits)
  then have "length ancestors \<le> MAX_COMPACTED_ANCESTORS" using closure_loop_InrD [OF cl] by auto
  moreover have "sorted ancestors" "distinct ancestors" by (simp_all add: a(1))
  ultimately show ?thesis using a(2) by (simp add: deserialize_compacted_from_def unsorted_windows_strict)
qed

lemma mset_sum_list_member: "x \<in> set xs \<Longrightarrow> f x \<subseteq># (\<Sum>y \<leftarrow> xs. f y :: 'b multiset)"
  by (induction xs) (auto simp: subset_mset.add_increasing subset_mset.add_increasing2)

lemma fetched_sidecar:
  assumes inv: "bucket_inv env rows D E s" and fetch: "fetch_metas env signal budget es n s = (Inr metas, t)" and m: "m \<in> set metas"
  shows "\<exists>e a. e \<in> set es \<and> a \<in> sidecars env s \<and> bm_uuid a = bm_uuid m \<and> bm_compacted_from a = bm_compacted_from m \<and>
      env_path env a ''meta.json'' = env_path env (e_meta e) ''meta.json''"
proof -
  obtain i where i: "i < length metas" "metas ! i = m" using m by (auto simp: in_set_conv_nth)
  note all2 = fetch_metas_Inr [OF fetch]
  let ?e = "es ! i"
  have len: "i < length es" using i(1) list_all2_lengthD [OF all2] by simp
  from list_all2_nthD [OF all2 len] i(2) obtain b a where
    a: "objects s (env_path env (e_meta ?e) ''meta.json'') = Some b" "me_parse env b = Some a"
      "m = a\<lparr>bm_meta_json_size_bytes := Some (of_nat (length b))\<rparr>" by auto
  then have at: "sidecar_at env s (env_path env (e_meta ?e) ''meta.json'') a" by (simp add: sidecar_at_def)
  with bucket_invD(1) [OF inv] have "env_path env a ''meta.json'' = env_path env (e_meta ?e) ''meta.json''"
    by (simp add: own_path_def)
  moreover have "bm_uuid a = bm_uuid m" "bm_compacted_from a = bm_compacted_from m" by (simp_all add: a(3))
  ultimately show ?thesis using sidecar_at_meta [OF at] nth_mem [OF len] by blast
qed

lemma merge_stage_lineage:
  assumes doc: "documented env rows" and inv: "bucket_inv env rows D E s"
    and stage: "merge_stage env j s = (Inr (bm, body), s1)"
  obtains b where "objects s1 (out_path env j ''parquet'') = Some b"
    "\<forall>v \<in> set (bm_compacted_from bm). \<forall>r. D v = Some r \<longrightarrow> r \<subseteq># rows b"
    "\<forall>a \<in> sidecars env s. bm_uuid a \<in> set (bm_compacted_from bm) \<longrightarrow> set (bm_compacted_from a) \<subseteq> set (bm_compacted_from bm)"
    "\<forall>v \<in> set (bm_compacted_from bm). \<exists>a \<in> sidecars env s. v \<in> family a"
    "bm_uuid bm \<notin> set (bm_compacted_from bm)" "me_parse env (me_ser env bm) = Some bm" "env_path env bm = out_path env j"
proof -
  let ?in = "map (\<lambda>e. env_path env (e_meta e) ''parquet'') (mj_inputs j)"
  from merge_stage_Inr [OF stage] obtain metas t ancestors st n p x ts where
    fetch: "fetch_metas env (mj_signal j) (meta_json_estimate (mj_inputs j)) (mj_inputs j) 0 s = (Inr metas, t)"
    and anc: "compacted_ancestor_closure (me_json_len env) (mj_block_uuid j) metas = Inr ancestors"
    and bm: "bm = merged_meta env j ancestors st n p x ts" by blast
  from stage obtain spec where spec: "spec_for (mj_signal j) = Inr spec" by (rule merge_stageE)
  from stage have there: "\<forall>e \<in> set (mj_inputs j). objects s (env_path env (e_meta e) ''parquet'') \<noteq> None"
    by (rule merge_stageE)
  have cf: "set (bm_compacted_from bm) = closure_of metas" using ancestors_eq(1) [OF anc] by (simp add: bm)
  from stage spec obtain batches where scan: "me_scan env (sp_sort_cols spec) (map (objects s) ?in) = map Inr batches"
    and main: "objects s1 (out_path env j ''parquet'') = Some (me_main_bytes env (concat (map sb_rows batches)))"
    by (rule merge_stage_scanE)
  define bodies where "bodies = map (\<lambda>e. the (objects s (env_path env (e_meta e) ''parquet''))) (mj_inputs j)"
  have "map (objects s) ?in = map Some bodies" using there by (auto simp: bodies_def)
  with scan doc have rows: "rows (me_main_bytes env (concat (map sb_rows batches))) = (\<Sum>b \<leftarrow> bodies. rows b)"
    unfolding documented_def by metis
  note input = fetched_sidecar [OF inv fetch]
  have mem: "\<exists>m \<in> set metas. v \<in> family m" if "v \<in> set (bm_compacted_from bm)" for v
    using that unfolding cf closure_of_def family_def by blast
  have held: "r \<subseteq># (\<Sum>b \<leftarrow> bodies. rows b)" if v: "v \<in> set (bm_compacted_from bm)" and r: "D v = Some r" for v r
  proof -
    obtain m where m: "m \<in> set metas" "v \<in> family m" using mem [OF v] by blast
    obtain e a where e: "e \<in> set (mj_inputs j)" and a: "a \<in> sidecars env s" "bm_uuid a = bm_uuid m" "bm_compacted_from a = bm_compacted_from m"
      "env_path env a ''meta.json'' = env_path env (e_meta e) ''meta.json''" using input [OF m(1)] by blast
    obtain b where b: "objects s (env_path env (e_meta e) ''parquet'') = Some b" using there e by blast
    have "r \<subseteq># rows b"
      using bucket_invD(5) [OF inv a(1) _ _ r, of b] b m(2) a(2,3) env_path_kind [OF a(4), of "''parquet''"] by (simp add: family_def)
    moreover have "b \<in> set bodies" using b e by (force simp: bodies_def)
    ultimately show ?thesis using mset_sum_list_member [of b bodies rows] by (meson subset_mset.order_trans)
  qed
  have closed: "set (bm_compacted_from a) \<subseteq> set (bm_compacted_from bm)"
    if a: "a \<in> sidecars env s" "bm_uuid a \<in> set (bm_compacted_from bm)" for a
  proof -
    obtain m where m: "m \<in> set metas" "bm_uuid a \<in> family m" using mem [OF a(2)] by blast
    obtain a' where a': "a' \<in> sidecars env s" "bm_uuid a' = bm_uuid m" "bm_compacted_from a' = bm_compacted_from m"
      using input [OF m(1)] by blast
    have "set (bm_compacted_from a) \<subseteq> set (bm_compacted_from m)"
      using m(2) a' a(1) wf_metasD(1,3) [OF bucket_invD(2) [OF inv], of a a'] by (auto simp: family_def)
    also have "\<dots> \<subseteq> closure_of metas" using m(1) unfolding closure_of_def by blast
    finally show ?thesis by (simp add: cf)
  qed
  have up: "\<exists>a \<in> sidecars env s. v \<in> family a" if "v \<in> set (bm_compacted_from bm)" for v
    using mem [OF that] input unfolding family_def by metis
  have "me_parse env (me_ser env bm) = Some bm"
    using doc ancestors_canonical [OF anc] by (auto simp: documented_def bm)
  moreover have "env_path env bm = out_path env j" by (rule ext) (simp add: env_path_def meta_path_def out_path_def bm)
  moreover have "bm_uuid bm \<notin> set (bm_compacted_from bm)" using ancestors_eq(2) [OF anc] by (simp add: bm)
  ultimately show thesis using that [OF main] held closed up unfolding rows by blast
qed

lemma merge_blocks_keys:
  assumes "merge_blocks env j fence ticks s = (r, s')"
    and "p \<notin> out_path env j ` {''parquet'', ''postings.parquet'', ''body.bloom'', ''meta.json''}"
  shows "objects s' p = objects s p"
proof -
  have out: "p \<notin> staged_paths env j" "p \<notin> set (staged_list env j)" "p \<noteq> out_path env j ''meta.json''"
    using assms(2) by (auto simp: staged_paths_def staged_list_def)
  have st: "objects t p = objects s p" if "merge_stage env j s = (x, t)" for x t
    using writesD [OF writes_merge_stage that out(1)] .
  from assms(1) show ?thesis
  proof (cases rule: merge_blocks_cases)
    case (dropped x s1)
    with st cleanup_objects [of "me_oc env" "staged_list env j" s1 p] out(2) show ?thesis by auto
  qed (use st out in auto)
qed

lemma merge_blocks_marker:
  assumes run: "merge_blocks env j fence ticks s = (r, s')"
  shows "r = Inr (Some bm') \<Longrightarrow> objects s' (out_path env j ''meta.json'') \<noteq> None"
    and "objects s (out_path env j ''meta.json'') = None \<Longrightarrow> objects s' (out_path env j ''meta.json'') \<noteq> None \<Longrightarrow>
      \<exists>bm s1. merge_stage env j s = (Inr (bm, me_ser env bm), s1) \<and>
        objects s' = (objects s1)(out_path env j ''meta.json'' \<mapsto> me_ser env bm) \<and>
        (\<forall>bm'. r = Inr (Some bm') \<longrightarrow> bm_compacted_from bm' = bm_compacted_from bm)"
proof -
  let ?m = "out_path env j ''meta.json''"
  show "objects s' ?m \<noteq> None" if "r = Inr (Some bm')" using run by (cases rule: merge_blocks_cases) (use that in auto)
  assume none: "objects s ?m = None" and some: "objects s' ?m \<noteq> None"
  have st: "objects t ?m = None" if "merge_stage env j s = (x, t)" for x t
    using writesD [OF writes_merge_stage that marker_not_staged] none by simp
  have not_staged: "?m \<notin> set (staged_list env j)" by (simp add: staged_list_def)
  from run show "\<exists>bm s1. merge_stage env j s = (Inr (bm, me_ser env bm), s1) \<and> objects s' = (objects s1)(?m \<mapsto> me_ser env bm) \<and>
        (\<forall>bm'. r = Inr (Some bm') \<longrightarrow> bm_compacted_from bm' = bm_compacted_from bm)"
  proof (cases rule: merge_blocks_cases)
    case (dropped x s1)
    with st cleanup_objects [of "me_oc env" "staged_list env j" s1 ?m] not_staged some show ?thesis by auto
  next
    case (ambiguous bm body s1 e)
    with st some merge_stage_meta(1) [OF ambiguous(3)] show ?thesis by auto
  next
    case (committed bm body s1)
    with merge_stage_meta(1) [OF committed(4)] show ?thesis by auto
  qed (use none some in simp)
qed

lemma merge_keys:
  assumes doc: "documented env rows" and fresh: "fresh_in env D E s (mj_block_uuid j)"
    and run: "merge_blocks env j fence ticks s = (r, s')"
  shows "same_but env (mj_block_uuid j) s s'" and "marker_only env (mj_block_uuid j) (out_path env j ''meta.json'') s'"
proof -
  let ?o = "out_path env j" and ?kinds = "{''parquet'', ''postings.parquet'', ''body.bloom'', ''meta.json''}"
  have keys: "\<exists>k \<in> ?kinds. p = ?o k" if "objects s' p \<noteq> objects s p" for p
    using that merge_blocks_keys [OF run, of p] unfolding image_iff by fast
  have named: "key_text (?o k) = me_ustr env (mj_block_uuid j)" if "k \<in> ?kinds" for k
    by (rule key_text_out [OF doc]) (use that in auto)
  show "same_but env (mj_block_uuid j) s s'" unfolding same_but_def using keys named by metis
  show "marker_only env (mj_block_uuid j) (?o ''meta.json'') s'" unfolding marker_only_def
  proof (intro allI impI)
    fix p assume p: "key_text p = me_ustr env (mj_block_uuid j)" "ends_with ''.meta.json'' p" "objects s' p \<noteq> None"
    have "objects s p = None" using fresh p(1) by (simp add: fresh_in_def)
    with keys [of p] p(3) obtain k where k: "k \<in> ?kinds" "p = ?o k" by auto
    from p(2) have "k = ''meta.json''" unfolding k(2) out_path_def by (rule marker_key [OF k(1)])
    with k show "p = ?o ''meta.json''" by simp
  qed
qed

lemma merge_bucket:
  assumes doc: "documented env rows" and inv: "bucket_inv env rows D E s" and fresh: "fresh_in env D E s (mj_block_uuid j)"
    and run: "merge_blocks env j fence ticks s = (r, s')"
  defines "D' \<equiv> record_rows rows (mj_block_uuid j) (objects s' (out_path env j ''meta.json'')) (objects s' (out_path env j ''parquet'')) D"
  shows "bucket_inv env rows D' E s' \<and> accounted env s E \<subseteq> accounted env s' E \<and>
    (\<forall>bm. r = Inr (Some bm) \<longrightarrow> set (bm_compacted_from bm) \<union> set (uuids_of (mj_inputs j)) \<subseteq> accounted env s' E) \<and>
    (\<forall>m \<in> sidecars env s' - sidecars env s. bm_uuid m = mj_block_uuid j \<and> (\<forall>v \<in> set (bm_compacted_from m). \<exists>a \<in> sidecars env s. v \<in> family a))"
proof (cases "objects s' (out_path env j ''meta.json'') = None")
  case True
  note quiet = bucket_quiet [OF doc inv fresh merge_keys [OF doc fresh run] True]
  have "D' = D" by (simp add: D'_def record_rows_def True)
  moreover have "r \<noteq> Inr (Some bm)" for bm using merge_blocks_marker(1) [OF run] True by auto
  ultimately show ?thesis using quiet by simp
next
  case False
  let ?o = "out_path env j"
  have "objects s (?o ''meta.json'') = None" using fresh by (simp add: fresh_in_def key_text_out [OF doc])
  from merge_blocks_marker(2) [OF run this False] obtain bm s1 where
    stage: "merge_stage env j s = (Inr (bm, me_ser env bm), s1)" and obj: "objects s' = (objects s1)(?o ''meta.json'' \<mapsto> me_ser env bm)"
    and r: "\<And>bm'. r = Inr (Some bm') \<Longrightarrow> bm_compacted_from bm' = bm_compacted_from bm" by blast
  note meta = merge_stage_meta [OF stage]
  from doc inv stage obtain b where b: "objects s1 (?o ''parquet'') = Some b"
    and lineage: "\<forall>v \<in> set (bm_compacted_from bm). \<forall>r. D v = Some r \<longrightarrow> r \<subseteq># rows b"
      "\<forall>a \<in> sidecars env s. bm_uuid a \<in> set (bm_compacted_from bm) \<longrightarrow> set (bm_compacted_from a) \<subseteq> set (bm_compacted_from bm)"
    and up: "\<forall>v \<in> set (bm_compacted_from bm). \<exists>a \<in> sidecars env s. v \<in> family a"
    and self: "bm_uuid bm \<notin> set (bm_compacted_from bm)" and parse: "me_parse env (me_ser env bm) = Some bm"
    and path: "env_path env bm = ?o" by (rule merge_stage_lineage)
  have whole: "intact env s' bm"
    using meta(3) by (auto simp: intact_def path block_kinds_def objects_present_def obj split: if_splits)
  have marker: "objects s' (env_path env bm ''meta.json'') = Some (me_ser env bm)" and main: "objects s' (env_path env bm ''parquet'') = Some b"
    using b by (simp_all add: obj path)
  note keys = merge_keys [OF doc fresh run, folded path meta(2)]
  note commit = bucket_commit [OF doc inv fresh [folded meta(2)] keys(1) marker parse keys(2) whole main self lineage(2,1)]
  have D': "D' = D(bm_uuid bm \<mapsto> rows b)" using marker main by (simp add: D'_def record_rows_def path meta(2))
  have "set (uuids_of (mj_inputs j)) \<subseteq> set (bm_compacted_from bm)" using meta(5) by (auto simp: uuids_of_def)
  with commit r up meta(2) show ?thesis unfolding D' by auto
qed

section \<open>The invariant of the system\<close>

fun message_ok :: "uuid set \<Rightarrow> uuid set \<Rightarrow> message \<Rightarrow> bool" where
  "message_ok A E (Event ev) \<longleftrightarrow> event_supersedes ev \<subseteq> A \<and> event_hides ev \<subseteq> E"
| "message_ok A E (Fetched bm) \<longleftrightarrow> set (bm_compacted_from bm) \<subseteq> A"
| "message_ok A E (Merged bm us) \<longleftrightarrow> set (bm_compacted_from bm) \<union> set us \<subseteq> A"
| "message_ok A E (ToDelete bm) \<longleftrightarrow> bm_uuid bm \<in> A"
| "message_ok A E (Selected us) \<longleftrightarrow> True"
| "message_ok A E (Gone u) \<longleftrightarrow> True"

definition catalog_ok :: "uuid set \<Rightarrow> uuid set \<Rightarrow> catalog \<Rightarrow> bool" where
  "catalog_ok A E cat \<longleftrightarrow> superseded_rows cat \<subseteq> A \<and> hidden_rows cat \<subseteq> E"

definition cluster_inv :: "merge_env \<Rightarrow> (bytes \<Rightarrow> bytes multiset) \<Rightarrow> cluster \<Rightarrow> bool" where
  "cluster_inv env rows w \<longleftrightarrow> bucket_inv env rows (cl_data w) (cl_expired w) (cl_store w) \<and>
     (\<forall>i. catalog_ok (accounted env (cl_store w) (cl_expired w)) (cl_expired w) (cl_cats w i)) \<and>
     (\<forall>msg \<in> cl_messages w. message_ok (accounted env (cl_store w) (cl_expired w)) (cl_expired w) msg)"

lemma message_ok_mono: "message_ok A E msg \<Longrightarrow> A \<subseteq> A' \<Longrightarrow> E \<subseteq> E' \<Longrightarrow> message_ok A' E' msg"
  by (cases msg) auto

lemma catalog_ok_mono: "catalog_ok A E cat \<Longrightarrow> A \<subseteq> A' \<Longrightarrow> E \<subseteq> E' \<Longrightarrow> catalog_ok A' E' cat"
  by (auto simp: catalog_ok_def)

lemma expired_accounted: "E \<subseteq> accounted env s E"
  by (simp add: accounted_def)

lemma cluster_invD:
  assumes "cluster_inv env rows w"
  shows "bucket_inv env rows (cl_data w) (cl_expired w) (cl_store w)"
    and "superseded_rows (cl_cats w i) \<subseteq> accounted env (cl_store w) (cl_expired w)" and "hidden_rows (cl_cats w i) \<subseteq> cl_expired w"
    and "msg \<in> cl_messages w \<Longrightarrow> message_ok (accounted env (cl_store w) (cl_expired w)) (cl_expired w) msg"
  using assms unfolding cluster_inv_def catalog_ok_def by simp_all

lemma bucket_expire:
  assumes inv: "bucket_inv env rows D E s" and E': "E' = E \<union> set us \<union> \<Union> (family ` {m \<in> sidecars env s. bm_uuid m \<in> set us})"
  shows "bucket_inv env rows D E' s"
proof -
  note wf = bucket_invD(2) [OF inv]
  have "set (bm_compacted_from m) \<subseteq> E'" if m: "m \<in> sidecars env s" "bm_uuid m \<in> E'" for m
  proof -
    consider "bm_uuid m \<in> E" | "bm_uuid m \<in> set us" | a where "a \<in> sidecars env s" "bm_uuid a \<in> set us" "bm_uuid m \<in> family a"
      using m(2) E' by blast
    then show ?thesis
    proof cases
      case 1
      with bucket_invD(4) [OF inv m(1)] E' show ?thesis by blast
    next
      case 2
      with m(1) E' show ?thesis by (auto simp: family_def)
    next
      case (3 a)
      then have "set (bm_compacted_from m) \<subseteq> family a"
        using wf_metasD(1,3) [OF wf m(1) 3(1)] by (auto simp: family_def)
      with 3 E' show ?thesis by blast
    qed
  qed
  moreover have "accounted env s E \<subseteq> accounted env s E'" by (rule accounted_mono) (use E' in auto)
  moreover have "E \<subseteq> E'" using E' by blast
  ultimately show ?thesis using inv unfolding bucket_inv_def by blast
qed

text \<open>Steps that leave the bucket as it is.\<close>

lemma cluster_inv_messages:
  assumes "cluster_inv env rows w" and "\<forall>msg \<in> M. message_ok (accounted env (cl_store w) (cl_expired w)) (cl_expired w) msg"
  shows "cluster_inv env rows (w\<lparr>cl_messages := cl_messages w \<union> M\<rparr>)"
  using assms by (auto simp: cluster_inv_def)

lemma cluster_inv_catalog:
  assumes "cluster_inv env rows w"
    and "superseded_rows cat \<subseteq> superseded_rows (cl_cats w i) \<union> S" "S \<subseteq> accounted env (cl_store w) (cl_expired w)"
    and "hidden_rows cat \<subseteq> hidden_rows (cl_cats w i) \<union> H" "H \<subseteq> cl_expired w"
  shows "cluster_inv env rows (w\<lparr>cl_cats := (cl_cats w)(i := cat)\<rparr>)"
proof -
  have "catalog_ok (accounted env (cl_store w) (cl_expired w)) (cl_expired w) (cl_cats w i)"
    using assms(1) by (simp add: cluster_inv_def)
  with assms(2-) have "catalog_ok (accounted env (cl_store w) (cl_expired w)) (cl_expired w) cat"
    unfolding catalog_ok_def by blast
  with assms(1) show ?thesis by (simp add: cluster_inv_def)
qed

text \<open>Steps that change the bucket.\<close>

lemma cluster_inv_bucket:
  assumes "cluster_inv env rows w" and "bucket_inv env rows D (cl_expired w) s"
    and "accounted env (cl_store w) (cl_expired w) \<subseteq> accounted env s (cl_expired w)"
    and "\<forall>msg \<in> M. message_ok (accounted env s (cl_expired w)) (cl_expired w) msg"
  shows "cluster_inv env rows (w\<lparr>cl_store := s, cl_messages := cl_messages w \<union> M, cl_data := D\<rparr>)"
proof -
  have "catalog_ok (accounted env s (cl_expired w)) (cl_expired w) (cl_cats w i)" for i
    using assms(3) cluster_invD(2,3) [OF assms(1), of i] by (auto simp: catalog_ok_def)
  moreover have "message_ok (accounted env s (cl_expired w)) (cl_expired w) msg" if "msg \<in> cl_messages w \<union> M" for msg
    using that assms(4) message_ok_mono [OF cluster_invD(4) [OF assms(1)] assms(3)] by blast
  ultimately show ?thesis using assms(2) by (simp add: cluster_inv_def)
qed

lemma pending_reap_row:
  assumes "reap \<in> set (list_pending_reaps cat now)" shows "bm_uuid (e_meta (pr_entry reap)) \<in> superseded_rows cat"
  using assms by (auto simp: list_pending_reaps_def superseded_rows_def reap_due_def)

lemma pending_deletion_row:
  assumes "e \<in> set (list_pending_deletions cat now)" shows "bm_uuid (e_meta e) \<in> hidden_rows cat"
  using assms by (auto simp: list_pending_deletions_def hidden_rows_def deletion_due_def)

lemma delete_bucket:
  assumes doc: "documented env rows" and inv: "bucket_inv env rows D E s" and acc: "bm_uuid bm \<in> accounted env s E"
    and run: "delete_objects_of env bm s = (r, s')"
  shows "bucket_inv env rows D E s'" and "accounted env s E \<subseteq> accounted env s' E"
proof -
  note del = run [unfolded delete_objects_of_def delete_block_objects_def]
  have "same_but env (bm_uuid bm) s s'" unfolding same_but_def
  proof (intro allI impI)
    fix p assume "key_text p \<noteq> me_ustr env (bm_uuid bm)"
    then have "p \<notin> set (map (meta_path (me_ymd env) (me_ustr env) bm) (block_kinds bm))"
      using key_text_env [OF doc kinds_no_slash] by (auto simp: env_path_def)
    from delete_paths_other [OF del this] show "objects s' p = objects s p" .
  qed
  moreover have "objects s' p = objects s p \<or> objects s' p = None" for p by (rule delete_paths_less [OF del])
  ultimately show "bucket_inv env rows D E s'" and "accounted env s E \<subseteq> accounted env s' E"
    using bucket_delete [OF doc inv acc] by blast+
qed

lemma cluster_inv_start: "cluster_inv env rows (cluster_start bucket)"
  by (simp add: cluster_inv_def cluster_start_def bucket_inv_def own_path_def sidecars_def sidecar_at_def wf_metas_def catalog_ok_def)

lemma cluster_step_inv:
  assumes "cluster_step env rows w w'" and doc: "documented env rows" and inv: "cluster_inv env rows w"
  shows "cluster_inv env rows w'"
  using assms(1) inv
proof (cases rule: cluster_step.cases)
  case (upload bm body r s M)
  have fresh: "fresh_in env (cl_data w) (cl_expired w) (cl_store w) (bm_uuid bm)" using upload by (simp add: fresh_uuid_def)
  have "bucket_inv env rows (cl_data w) (cl_expired w) (cl_store w)" by (rule cluster_invD(1) [OF inv])
  from upload_bucket [OF doc this fresh upload(3-5)] show ?thesis unfolding upload(1)
    by (intro cluster_inv_bucket [OF inv]) (auto simp: upload fetched_meta_def)
next
  case (merge j fence ticks r s M)
  have fresh: "fresh_in env (cl_data w) (cl_expired w) (cl_store w) (mj_block_uuid j)" using merge by (simp add: fresh_uuid_def)
  have "bucket_inv env rows (cl_data w) (cl_expired w) (cl_store w)" by (rule cluster_invD(1) [OF inv])
  from merge_bucket [OF doc this fresh merge(3)] show ?thesis unfolding merge(1)
    by (intro cluster_inv_bucket [OF inv]) (auto simp: merge(4) split: sum.splits option.splits)
next
  case (publish bm us observed_at eligible i new cat)
  have ok: "set (bm_compacted_from bm) \<union> set us \<subseteq> accounted env (cl_store w) (cl_expired w)"
    using cluster_invD(4) [OF inv publish(2)] by simp
  have "cluster_inv env rows (w\<lparr>cl_cats := (cl_cats w)(i := cat)\<rparr>)"
    using rows_apply_compaction [of "me_ymd env" observed_at bm us eligible "cl_cats w i"] publish(3) ok
    by (intro cluster_inv_catalog [OF inv, where S = "set us \<union> set (bm_compacted_from bm)" and H = "{}"]) auto
  from cluster_inv_messages [OF this, of "{Event (Created bm), Event (Superseded us (bm_uuid bm) bm eligible)}"] ok
  show ?thesis unfolding publish(1) by simp
next
  case (list_reaps reap i now)
  then have "bm_uuid (e_meta (pr_entry reap)) \<in> accounted env (cl_store w) (cl_expired w)"
    using pending_reap_row cluster_invD(2) [OF inv] by blast
  with cluster_inv_messages [OF inv, of "{ToDelete (e_meta (pr_entry reap))}"] show ?thesis unfolding list_reaps by simp
next
  case (list_deletions e i now)
  then have "bm_uuid (e_meta e) \<in> accounted env (cl_store w) (cl_expired w)"
    using pending_deletion_row cluster_invD(3) [OF inv] expired_accounted by blast
  with cluster_inv_messages [OF inv, of "{ToDelete (e_meta e)}"] show ?thesis unfolding list_deletions by simp
next
  case (delete bm r s M)
  have "bucket_inv env rows (cl_data w) (cl_expired w) (cl_store w)" "bm_uuid bm \<in> accounted env (cl_store w) (cl_expired w)"
    using cluster_invD(1) [OF inv] cluster_invD(4) [OF inv delete(2)] by simp_all
  from delete_bucket [OF doc this delete(3)] have "cluster_inv env rows (w\<lparr>cl_store := s, cl_messages := cl_messages w \<union> M, cl_data := cl_data w\<rparr>)"
    by (intro cluster_inv_bucket [OF inv]) (auto simp: delete(4))
  then show ?thesis unfolding delete(1) by simp
next
  case (forget u i)
  show ?thesis unfolding forget(1) using rows_delete_blocks [of "[u]" "cl_cats w i"]
    by (intro cluster_inv_catalog [OF inv, where S = "{}" and H = "{}"]) auto
next
  case (announce_gone us signal)
  with cluster_inv_messages [OF inv, of "{Event (Deleted signal us)}"] show ?thesis by simp
next
  case (fetch p bm body)
  then have "set (bm_compacted_from bm) \<subseteq> accounted env (cl_store w) (cl_expired w)"
    using inv sidecar_claims_accounted sidecar_at_meta unfolding cluster_inv_def by blast
  with cluster_inv_messages [OF inv, of "{Fetched (fetched_meta body bm)}"] show ?thesis
    unfolding fetch by (simp add: fetched_meta_def)
next
  case (learn bm observed_at i new cat)
  have "set (bm_compacted_from bm) \<subseteq> accounted env (cl_store w) (cl_expired w)" using cluster_invD(4) [OF inv learn(2)] by simp
  then show ?thesis unfolding learn(1) using rows_insert_block [of "me_ymd env" observed_at "cl_cats w i" bm] learn(3)
    by (intro cluster_inv_catalog [OF inv, where S = "set (bm_compacted_from bm)" and H = "{}"]) auto
next
  case (deliver ev observed_at now grace i res cat)
  from cluster_invD(4) [OF inv deliver(2)] show ?thesis unfolding deliver(1)
    using rows_apply_event [of "me_ymd env" observed_at now grace ev "cl_cats w i"] deliver(3)
    by (intro cluster_inv_catalog [OF inv, where S = "event_supersedes ev" and H = "event_hides ev"]) auto
next
  case (move_cursor i signal writer_id date u)
  show ?thesis unfolding move_cursor by (rule cluster_inv_catalog [OF inv, where S = "{}" and H = "{}"]) auto
next
  case (stage eligible i n cat)
  show ?thesis unfolding stage(1) using rows_stage_unstaged [of eligible "cl_cats w i"] stage(2)
    by (intro cluster_inv_catalog [OF inv, where S = "{}" and H = "{}"]) auto
next
  case (plan_expiry us i cfg now)
  with cluster_inv_messages [OF inv, of "{Selected us}"] show ?thesis by simp
next
  case (expire us now eligible i)
  let ?E = "cl_expired w \<union> set us \<union> \<Union> (family ` {m \<in> sidecars env (cl_store w). bm_uuid m \<in> set us})"
  have "bucket_inv env rows (cl_data w) (cl_expired w) (cl_store w)" by (rule cluster_invD(1) [OF inv])
  note b = bucket_expire [OF this refl, of us]
  have mono: "accounted env (cl_store w) (cl_expired w) \<subseteq> accounted env (cl_store w) ?E" "cl_expired w \<subseteq> ?E"
    by (rule accounted_mono; blast) blast
  have "catalog_ok (accounted env (cl_store w) ?E) ?E (mark_deleted us now eligible (cl_cats w i))"
    using rows_mark_deleted [of us now eligible "cl_cats w i"] cluster_invD(2,3) [OF inv, of i] mono unfolding catalog_ok_def by blast
  moreover have "catalog_ok (accounted env (cl_store w) ?E) ?E (cl_cats w k)" for k
    using inv mono catalog_ok_mono unfolding cluster_inv_def by blast
  moreover have "message_ok (accounted env (cl_store w) ?E) ?E msg" if "msg \<in> cl_messages w" for msg
    using inv mono that message_ok_mono unfolding cluster_inv_def by blast
  ultimately show ?thesis unfolding expire(1) using b by (auto simp: cluster_inv_def)
next
  case (announce us i signal t e)
  then have "set us \<subseteq> cl_expired w" using cluster_invD(3) [OF inv, of i] by (auto simp: hidden_rows_def)
  with cluster_inv_messages [OF inv, of "{Event (SoftDeleted signal us t e)}"] show ?thesis unfolding announce by simp
next
  case (adopt staged now i n cat)
  have "announced (cl_messages w) \<subseteq> cl_expired w" using cluster_invD(4) [OF inv] by (fastforce simp: announced_def)
  then show ?thesis unfolding adopt(1) using rows_apply_staged [of staged now "cl_cats w i"] adopt
    by (intro cluster_inv_catalog [OF inv, where S = "{}" and H = "sd_uuid ` set staged"]) auto
next
  case (lose_catalog i bucket)
  show ?thesis unfolding lose_catalog by (rule cluster_inv_catalog [OF inv, where S = "{}" and H = "{}"]) auto
qed

lemma cluster_run_inv:
  "cluster_run env rows w w' \<Longrightarrow> documented env rows \<Longrightarrow> cluster_inv env rows w \<Longrightarrow> cluster_inv env rows w'"
  by (induction rule: cluster_run.induct) (auto intro: cluster_step_inv)

lemma cluster_run_trans: "cluster_run env rows w' w'' \<Longrightarrow> cluster_run env rows w w' \<Longrightarrow> cluster_run env rows w w''"
  by (induction rule: cluster_run.induct) (auto intro: cluster_run.intros)

lemma cluster_run_single: "cluster_step env rows w w' \<Longrightarrow> cluster_run env rows w w'"
  by (rule cluster_run.step [OF cluster_run.stay])

text \<open>The recorded rows of a block are never replaced.\<close>

lemma record_rows_keep: "D u = None \<Longrightarrow> D v = Some r \<Longrightarrow> record_rows rows u x y D v = Some r"
  by (auto simp: record_rows_def split: option.splits)

lemma cluster_step_data: "cluster_step env rows w w' \<Longrightarrow> cl_data w v = Some r \<Longrightarrow> cl_data w' v = Some r"
  by (cases rule: cluster_step.cases) (auto simp: fresh_uuid_def fresh_in_def record_rows_keep)

lemma cluster_run_data: "cluster_run env rows w w' \<Longrightarrow> cl_data w v = Some r \<Longrightarrow> cl_data w' v = Some r"
  by (induction rule: cluster_run.induct) (auto dest: cluster_step_data)

lemma kept_rows:
  assumes doc: "documented env rows" and inv: "cluster_inv env rows w"
    and m: "m \<in> committed env (cl_store w)" "objects (cl_store w) (env_path env m ''parquet'') = Some b"
    and later: "cluster_run env rows w w'"
  shows "bm_uuid m \<in> cl_expired w' \<or>
    (\<exists>m' \<in> committed env (cl_store w'). \<exists>b'. objects (cl_store w') (env_path env m' ''parquet'') = Some b' \<and>
       bm_uuid m \<in> family m' \<and> rows b \<subseteq># rows b')"
proof -
  have inv': "cluster_inv env rows w'" using cluster_run_inv [OF later doc inv] .
  have "cl_data w (bm_uuid m) = Some (rows b)"
    using bucket_invD(7) [OF cluster_invD(1) [OF inv] _ m(2)] m(1) by (simp add: committed_def)
  from cluster_run_data [OF later this] have D: "cl_data w' (bm_uuid m) = Some (rows b)" .
  show ?thesis
  proof (cases "bm_uuid m \<in> cl_expired w'")
    case False
    with D bucket_invD(6) [OF cluster_invD(1) [OF inv']] obtain m' where m': "m' \<in> committed env (cl_store w')" "bm_uuid m \<in> family m'"
      by (auto simp: covered_def)
    then obtain b' where b': "objects (cl_store w') (env_path env m' ''parquet'') = Some b'"
      by (auto simp: committed_def intact_def block_kinds_def)
    have "rows b \<subseteq># rows b'"
      using bucket_invD(5) [OF cluster_invD(1) [OF inv'] _ b' m'(2) D] m'(1) by (simp add: committed_def)
    with m' b' show ?thesis by blast
  qed blast
qed

section \<open>Properties\<close>

text \<open>C1: no data is lost. Let any number of instances run, each in any order and at any time uploading
  blocks, merging them, publishing merges, deleting the objects of blocks they hold for replaced
  or expired, reading sidecars, receiving each other's events late, repeatedly or never, adopting
  each other's retention decisions, and losing their catalogs. Once a block is committed, then at
  every later time it has been selected by a retention pass, or it is an ancestor of a block that
  was, or there is a committed block, itself or one compacted from it, whose main object holds all
  of its rows.\<close>

theorem cluster_keeps_rows:
  assumes doc: "documented env rows" and reach: "cluster_run env rows (cluster_start bucket) w"
    and m: "m \<in> committed env (cl_store w)" "objects (cl_store w) (env_path env m ''parquet'') = Some b"
    and later: "cluster_run env rows w w'"
  shows "bm_uuid m \<in> cl_expired w' \<or>
    (\<exists>m' \<in> committed env (cl_store w'). \<exists>b'. objects (cl_store w') (env_path env m' ''parquet'') = Some b' \<and>
       bm_uuid m \<in> family m' \<and> rows b \<subseteq># rows b')"
  by (rule kept_rows [OF doc cluster_run_inv [OF reach doc cluster_inv_start] m later])

text \<open>An environment whose codecs have the documented laws, for a run.\<close>

definition meta_key where
  "meta_key bm = (bm_uuid bm, bm_signal bm, bm_writer_id bm, bm_ts_min_unix_nano bm, bm_ts_max_unix_nano bm, bm_row_count bm,
     bm_byte_size bm, bm_schema_version bm, bm_level bm, bm_compacted_from bm, bm_producer_version bm,
     bm_label_fingerprint_bloom bm, bm_has_postings bm, bm_postings_size_bytes bm, bm_series_types bm,
     bm_all_fingerprints bm, bm_has_body_bloom bm, bm_body_bloom_size_bytes bm, bm_wal_seg_max bm, bm_wal_shard bm)"

definition meta_of_key where
  "meta_of_key = (\<lambda>(u, sig, wr, tmin, tmax, n, size, sv, l, cf, pv, lb, hp, ps, st, fps, hb, bs, seg, shard).
     \<lparr>bm_uuid = u, bm_signal = sig, bm_writer_id = wr, bm_ts_min_unix_nano = tmin, bm_ts_max_unix_nano = tmax, bm_row_count = n,
      bm_byte_size = size, bm_schema_version = sv, bm_level = l, bm_compacted_from = cf, bm_producer_version = pv,
      bm_label_fingerprint_bloom = lb, bm_has_postings = hp, bm_postings_size_bytes = ps, bm_series_types = st,
      bm_all_fingerprints = fps, bm_has_body_bloom = hb, bm_body_bloom_size_bytes = bs, bm_meta_json_size_bytes = None,
      bm_wal_seg_max = seg, bm_wal_shard = shard\<rparr>)"

definition fleet_env :: merge_env where
  "fleet_env = sample_env\<lparr>me_ustr := \<lambda>u. replicate (unat u) CHR ''a'',
     me_ser := \<lambda>bm. replicate (to_nat (meta_key bm)) 0, me_parse := \<lambda>b. Some (meta_of_key (from_nat (length b))),
     me_main_bytes := \<lambda>rs. replicate (to_nat rs) 0,
     me_scan := \<lambda>cols bodies. if None \<in> set bodies then [Inl ReadFailed]
       else [Inr \<lparr>sb_rows = concat (map (\<lambda>b. from_nat (length (the b))) bodies), sb_fps = [], sb_bodies = []\<rparr>]\<rparr>"

definition fleet_rows :: "bytes \<Rightarrow> bytes multiset" where
  "fleet_rows b = mset (from_nat (length b))"

lemma fleet_documented: "documented fleet_env fleet_rows"
proof -
  have "inj (\<lambda>u :: uuid. replicate (unat u) CHR ''a'')" by (rule injI) (metis length_replicate word_unat_eq_iff)
  then have "inj (me_ustr fleet_env)" "\<forall>u. CHR ''/'' \<notin> set (me_ustr fleet_env u) \<and> CHR ''.'' \<notin> set (me_ustr fleet_env u)"
    by (simp_all add: fleet_env_def)
  moreover have "meta_of_key (meta_key bm) = bm" if "bm_meta_json_size_bytes bm = None" for bm
    using that by (simp add: meta_of_key_def meta_key_def)
  then have "\<forall>bm. bm_meta_json_size_bytes bm = None \<longrightarrow> me_parse fleet_env (me_ser fleet_env bm) = Some bm"
    by (simp add: fleet_env_def)
  moreover have "me_json_len fleet_env [] \<le> MAX_COMPACTED_ANCESTRY_BYTES"
    by (simp add: fleet_env_def sample_env_def MAX_COMPACTED_ANCESTRY_BYTES_def)
  moreover have sum: "mset (concat (map (\<lambda>b. from_nat (length b)) bodies)) = (\<Sum>b \<leftarrow> bodies. fleet_rows b)" for bodies
    by (induction bodies) (simp_all add: fleet_rows_def)
  have "\<forall>cols bodies batches. me_scan fleet_env cols (map Some bodies) = map Inr batches \<longrightarrow>
      mset (concat (map sb_rows batches)) = (\<Sum>b \<leftarrow> bodies. fleet_rows b)"
    by (auto simp: fleet_env_def comp_def Cons_eq_map_conv sum)
  moreover have "\<forall>rs. fleet_rows (me_main_bytes fleet_env rs) = mset rs" by (simp add: fleet_env_def fleet_rows_def)
  ultimately show ?thesis unfolding documented_def by blast
qed

lemma put_block_objects_ok: "\<exists>s'. put_block_objects (\<lambda>_. CallOk) puts s = (Inr (), s')"
proof (induction puts arbitrary: s)
  case (Cons x puts)
  obtain p b where x: "x = (p, b)" by force
  have "\<exists>s1. put_loop (\<lambda>_. CallOk) p b 1 s = (Inr (), s1)" by (subst put_loop.simps) (simp add: store_put_def)
  with Cons.IH show ?case by (auto simp: x)
qed simp

text \<open>A block is uploaded to an empty bucket.\<close>

definition first_block :: block_meta where
  "first_block = trace_meta 3"

lemma fleet_upload:
  obtains w where "cluster_step fleet_env fleet_rows (cluster_start (\<lambda>_. ''b'')) w"
    "first_block \<in> committed fleet_env (cl_store w)"
    "objects (cl_store w) (env_path fleet_env first_block ''parquet'') = Some [9]"
    "cl_cats w = (\<lambda>_. catalog_empty ''b'')" "cl_expired w = {}"
proof -
  let ?w = "cluster_start (\<lambda>_. ''b'')" and ?puts = "upload_puts fleet_env first_block (\<lambda>_. [9])"
  have oc: "me_oc fleet_env = (\<lambda>_. CallOk)" by (simp add: fleet_env_def)
  obtain s where s: "put_block_objects (me_oc fleet_env) ?puts (cl_store ?w) = (Inr (), s)"
    unfolding oc using put_block_objects_ok by blast
  have "fresh_uuid fleet_env ?w (bm_uuid first_block)"
    by (simp add: fresh_uuid_def fresh_in_def cluster_start_def sidecars_def sidecar_at_def)
  note up = cluster_step.upload [OF this _ _ s refl, of fleet_rows]
  have kinds: "block_kinds first_block = [''parquet'', ''meta.json'']"
    by (simp add: first_block_def trace_meta_def sample_meta_def block_kinds_def)
  have dist: "distinct (map fst ?puts)" by (simp add: upload_puts_def kinds)
  have main: "objects s (env_path fleet_env first_block ''parquet'') = Some [9]"
    and marker: "objects s (env_path fleet_env first_block ''meta.json'') = Some (me_ser fleet_env first_block)"
    by (rule put_block_objects_all [OF s dist]; simp add: upload_puts_def kinds)+
  have "me_parse fleet_env (me_ser fleet_env first_block) = Some first_block"
    by (simp add: fleet_env_def meta_of_key_def meta_key_def first_block_def)
  then have "sidecar_at fleet_env s (env_path fleet_env first_block ''meta.json'') first_block"
    using marker by (simp add: sidecar_at_def)
  then have "first_block \<in> committed fleet_env s"
    using main marker by (auto simp: committed_def intact_def kinds dest: sidecar_at_meta)
  with main show thesis using that [OF up] by (simp add: first_block_def cluster_start_def)
qed

theorem cluster_keeps_rows_witness:
  "\<exists>w w'. cluster_step fleet_env fleet_rows (cluster_start (\<lambda>_. ''b'')) w \<and> first_block \<in> committed fleet_env (cl_store w) \<and>
     cluster_step fleet_env fleet_rows w w' \<and> cl_cats w' 0 = catalog_empty ''c'' \<and>
     (3 \<in> cl_expired w' \<or> (\<exists>m' \<in> committed fleet_env (cl_store w'). 3 \<in> family m'))"
proof -
  obtain w where w: "cluster_step fleet_env fleet_rows (cluster_start (\<lambda>_. ''b'')) w"
    "first_block \<in> committed fleet_env (cl_store w)" "objects (cl_store w) (env_path fleet_env first_block ''parquet'') = Some [9]"
    by (rule fleet_upload)
  let ?w' = "w\<lparr>cl_cats := (cl_cats w)(0 := catalog_empty ''c'')\<rparr>"
  have step: "cluster_step fleet_env fleet_rows w ?w'" by (rule cluster_step.lose_catalog)
  have "bm_uuid first_block = 3" by (simp add: first_block_def)
  with cluster_keeps_rows [OF fleet_documented cluster_run_single [OF w(1)] w(2,3) cluster_run_single [OF step]] w step
  show ?thesis by (intro exI [of _ w] exI [of _ ?w']) auto
qed

end
