(* ===== verification/Cluster_Passes.thy ===== *)
theory Cluster_Passes
  imports Cluster
begin

text \<open>
  The passes are runs of the system of \<^verbatim>\<open>Cluster\<close>. An instance \<open>i\<close> that runs a compaction pass, a
  retention pass or a walk over the bucket of \<^verbatim>\<open>src/crates/cluster\<close>, with whatever answers of the
  object store, the lease provider and the catalog, makes a sequence of steps of the system:
  what holds in every run of the system holds of the passes.
\<close>

section \<open>An instance in the system\<close>

definition engine_view :: "nat \<Rightarrow> cluster \<Rightarrow> engine_state \<Rightarrow> bool" where
  "engine_view i w st \<longleftrightarrow> es_store st = cl_store w \<and> es_cat st = cl_cats w i \<and> Event ` set (es_events st) \<subseteq> cl_messages w"

text \<open>Instance \<open>i\<close> gets from one state to another, expires nothing, and adds sidecars of blocks of
  \<open>U\<close> only; every other fresh UUID stays so.\<close>

definition carries :: "merge_env \<Rightarrow> (bytes \<Rightarrow> bytes multiset) \<Rightarrow> nat \<Rightarrow> uuid set \<Rightarrow> cluster \<Rightarrow> engine_state \<Rightarrow> cluster \<Rightarrow> bool" where
  "carries env rows i U w st w' \<longleftrightarrow> cluster_run env rows w w' \<and> engine_view i w' st \<and> cl_messages w \<subseteq> cl_messages w' \<and>
     cl_expired w' = cl_expired w \<and> (\<forall>m \<in> sidecars env (cl_store w') - sidecars env (cl_store w). bm_uuid m \<in> U) \<and>
     (\<forall>v. v \<notin> U \<longrightarrow> fresh_uuid env w v \<longrightarrow> fresh_uuid env w' v)"

lemma carries_refl: "engine_view i w st \<Longrightarrow> carries env rows i U w st w"
  by (simp add: carries_def cluster_run.stay)

lemma carries_trans:
  "carries env rows i U w st1 w1 \<Longrightarrow> carries env rows i V w1 st2 w2 \<Longrightarrow> carries env rows i (U \<union> V) w st2 w2"
  unfolding carries_def by (auto intro: cluster_run_trans)

lemma carries_mono: "carries env rows i U w st w' \<Longrightarrow> U \<subseteq> V \<Longrightarrow> carries env rows i V w st w'"
  unfolding carries_def by blast

lemma carries_step:
  assumes "cluster_step env rows w w'" and "engine_view i w' st" and "cl_messages w \<subseteq> cl_messages w'"
    and "cl_expired w' = cl_expired w" and "\<forall>m \<in> sidecars env (cl_store w') - sidecars env (cl_store w). bm_uuid m \<in> U"
    and "\<And>v. v \<notin> U \<Longrightarrow> fresh_uuid env w v \<Longrightarrow> fresh_uuid env w' v"
  shows "carries env rows i U w st w'"
  using assms by (auto simp: carries_def intro: cluster_run_single)

lemma carries_viewD: "carries env rows i U w st w' \<Longrightarrow> engine_view i w' st"
  by (simp add: carries_def)

lemma fresh_uuid_cats [simp]:
  "fresh_uuid env (w\<lparr>cl_cats := c\<rparr>) v = fresh_uuid env w v" "fresh_uuid env (w\<lparr>cl_messages := M\<rparr>) v = fresh_uuid env w v"
  by (simp_all add: fresh_uuid_def)

section \<open>Deleting blocks\<close>

lemma sidecars_delete:
  assumes "delete_objects_of env bm s = (r, s')"
  shows "sidecars env s' \<subseteq> sidecars env s"
proof -
  have "objects s' p = objects s p \<or> objects s' p = None" for p
    by (rule delete_paths_less) (use assms in \<open>simp add: delete_objects_of_def delete_block_objects_def\<close>)
  then show ?thesis by (auto simp: sidecars_def sidecar_at_def) (metis option.distinct(1))
qed

lemma fresh_delete:
  assumes "delete_objects_of env bm (cl_store w) = (r, s)" and "fresh_uuid env w v"
  shows "fresh_uuid env (w\<lparr>cl_store := s, cl_messages := M\<rparr>) v"
proof -
  have less: "objects s p = objects (cl_store w) p \<or> objects s p = None" for p
    by (rule delete_paths_less) (use assms(1) in \<open>simp add: delete_objects_of_def delete_block_objects_def\<close>)
  then show ?thesis using assms(2) less sidecars_delete [OF assms(1)] by (simp add: fresh_uuid_def fresh_in_def) (metis subsetD)
qed

text \<open>The objects of one block, and on success its row: all orders of the two kinds of reaper.\<close>

lemma carries_delete:
  assumes view: "engine_view i w st" and todo: "ToDelete bm \<in> cl_messages w" and run: "delete_objects_of env bm (es_store st) = (r, s)"
  obtains w' where "carries env rows i {} w (st\<lparr>es_store := s\<rparr>) w'" "\<not> isl r \<Longrightarrow> Gone (bm_uuid bm) \<in> cl_messages w'"
proof -
  let ?w = "w\<lparr>cl_store := s, cl_messages := cl_messages w \<union> (if isl r then {} else {Gone (bm_uuid bm)})\<rparr>"
  have del: "delete_objects_of env bm (cl_store w) = (r, s)" using run view by (simp add: engine_view_def)
  have "carries env rows i {} w (st\<lparr>es_store := s\<rparr>) ?w"
    by (rule carries_step [OF cluster_step.delete [OF todo del refl]])
      (use view fresh_delete [OF del] sidecars_delete [OF del] in \<open>auto simp: engine_view_def\<close>)
  then show thesis by (rule that) simp
qed

lemma carries_forget:
  assumes "engine_view i w st" and "Gone u \<in> cl_messages w"
  obtains w' where "carries env rows i {} w (st\<lparr>es_cat := delete_blocks [u] (es_cat st)\<rparr>) w'"
  by (rule that, rule carries_step [OF cluster_step.forget [OF assms(2), of env rows i]])
    (use assms(1) in \<open>auto simp: engine_view_def\<close>)

lemma carries_emit:
  assumes view: "engine_view i w st"
    and step: "cluster_step env rows w (w\<lparr>cl_messages := insert (Event ev) (cl_messages w)\<rparr>)"
  obtains w' where "carries env rows i {} w (emit ev st) w'"
  by (rule that, rule carries_step [OF step]) (use view in \<open>auto simp: engine_view_def emit_def\<close>)

lemma run_carries:
  "documented env rows \<Longrightarrow> cluster_inv env rows w \<Longrightarrow> carries env rows i U w st w' \<Longrightarrow> cluster_inv env rows w'"
  by (auto simp: carries_def intro: cluster_run_inv)

lemma carries_reap_pending:
  "engine_view i w st \<Longrightarrow> \<forall>reap \<in> set todo. ToDelete (e_meta (pr_entry reap)) \<in> cl_messages w \<Longrightarrow>
     \<exists>w'. carries env rows i {} w (snd (reap_pending env drop_fails todo report st)) w'"
proof (induction todo arbitrary: w st report)
  case (Cons reap todo)
  let ?bm = "e_meta (pr_entry reap)"
  obtain r s where del: "delete_objects_of env ?bm (es_store st) = (r, s)" by force
  from carries_delete [OF Cons.prems(1) _ del, of rows] Cons.prems(2) obtain w1 where
    w1: "carries env rows i {} w (st\<lparr>es_store := s\<rparr>) w1" "\<not> isl r \<Longrightarrow> Gone (bm_uuid ?bm) \<in> cl_messages w1" by auto
  have more: "\<exists>w'. carries env rows i {} w (snd (reap_pending env drop_fails todo report' st')) w'"
    if c: "carries env rows i {} w st' w2" for st' w2 report'
  proof -
    have "engine_view i w2 st'" "\<forall>reap \<in> set todo. ToDelete (e_meta (pr_entry reap)) \<in> cl_messages w2"
      using c Cons.prems(2) by (auto simp: carries_def)
    from Cons.IH [OF this, of report'] carries_trans [OF c] show ?thesis by fastforce
  qed
  show ?case
  proof (cases "isl r \<or> drop_fails (bm_uuid ?bm)")
    case True
    with more [OF w1(1)] show ?thesis by (cases r) (auto simp: del Let_def)
  next
    case False
    let ?st1 = "st\<lparr>es_store := s\<rparr>"
    from False w1 have gone: "Gone (bm_uuid ?bm) \<in> cl_messages w1" by blast
    from carries_forget [OF carries_viewD [OF w1(1)] gone, of env rows] obtain w2 where
      w2: "carries env rows i {} w1 (?st1\<lparr>es_cat := delete_blocks [bm_uuid ?bm] (es_cat ?st1)\<rparr>) w2" by blast
    then have "Gone (bm_uuid ?bm) \<in> cl_messages w2" using gone by (auto simp: carries_def)
    then have "cluster_step env rows w2 (w2\<lparr>cl_messages := insert (Event (Deleted (bm_signal ?bm) [bm_uuid ?bm])) (cl_messages w2)\<rparr>)"
      by (intro cluster_step.announce_gone) simp
    from carries_emit [OF carries_viewD [OF w2] this] obtain w3 where
      w3: "carries env rows i {} w2 (emit (Deleted (bm_signal ?bm) [bm_uuid ?bm]) (?st1\<lparr>es_cat := delete_blocks [bm_uuid ?bm] (es_cat ?st1)\<rparr>)) w3"
      by blast
    from carries_trans [OF carries_trans [OF w1(1) w2] w3] False more show ?thesis
      by (cases r) (auto simp: del Let_def)
  qed
qed (auto intro: carries_refl)

lemma carries_list_reaps:
  assumes "engine_view i w st" and "set reaps \<subseteq> set (list_pending_reaps (es_cat st) now)"
  shows "\<exists>w'. carries env rows i {} w st w' \<and> (\<forall>reap \<in> set reaps. ToDelete (e_meta (pr_entry reap)) \<in> cl_messages w')"
  using assms(2)
proof (induction reaps)
  case (Cons reap reaps)
  then obtain w1 where w1: "carries env rows i {} w st w1" "\<forall>reap \<in> set reaps. ToDelete (e_meta (pr_entry reap)) \<in> cl_messages w1" by auto
  let ?w = "w1\<lparr>cl_messages := insert (ToDelete (e_meta (pr_entry reap))) (cl_messages w1)\<rparr>"
  have "reap \<in> set (list_pending_reaps (cl_cats w1 i) now)" using Cons.prems carries_viewD [OF w1(1)] by (simp add: engine_view_def)
  then have "cluster_step env rows w1 ?w" by (rule cluster_step.list_reaps)
  then have "carries env rows i {} w1 st ?w"
    by (rule carries_step) (use carries_viewD [OF w1(1)] in \<open>auto simp: engine_view_def\<close>)
  from carries_trans [OF w1(1) this] w1(2) show ?case by auto
qed (use assms(1) in \<open>auto intro: carries_refl\<close>)

lemma carries_reaping:
  assumes "engine_view i w st"
  shows "\<exists>w'. carries env rows i {} w (snd (reap_pending env drop_fails (list_pending_reaps (es_cat st) now) report st)) w'"
proof -
  from carries_list_reaps [OF assms subset_refl, of env rows now] obtain w1 where w1: "carries env rows i {} w st w1"
    "\<forall>reap \<in> set (list_pending_reaps (es_cat st) now). ToDelete (e_meta (pr_entry reap)) \<in> cl_messages w1" by blast
  from carries_reap_pending [OF carries_viewD [OF w1(1)] w1(2)] carries_trans [OF w1(1)] show ?thesis by fastforce
qed

section \<open>Merging a partition\<close>

lemma fresh_merge:
  assumes doc: "documented env rows" and inv: "cluster_inv env rows w" and fresh: "fresh_uuid env w (mj_block_uuid j)"
    and run: "merge_blocks env j fence ticks (cl_store w) = (r, s)" and v: "fresh_uuid env w v" "v \<noteq> mj_block_uuid j"
  shows "fresh_uuid env (w\<lparr>cl_store := s, cl_messages := M, cl_data := record_rows rows (mj_block_uuid j) x y (cl_data w)\<rparr>) v"
proof -
  let ?s = "cl_store w"
  have fr: "fresh_in env (cl_data w) (cl_expired w) ?s (mj_block_uuid j)" using fresh by (simp add: fresh_uuid_def)
  have new: "bm_uuid m = mj_block_uuid j \<and> (\<forall>v \<in> set (bm_compacted_from m). \<exists>a \<in> sidecars env ?s. v \<in> family a)"
    if "m \<in> sidecars env s - sidecars env ?s" for m
    using merge_bucket [OF doc cluster_invD(1) [OF inv] fr run] that by blast
  have "v \<notin> family m" if "m \<in> sidecars env s" for m
    using v that new [of m] unfolding fresh_uuid_def fresh_in_def family_def by blast
  moreover have "me_ustr env v \<noteq> me_ustr env (mj_block_uuid j)" using doc v(2) by (auto simp: documented_def dest: injD)
  then have "objects s p = None" if "key_text p = me_ustr env v" for p
    using same_butD [OF merge_keys(1) [OF doc fr run], of p] v(1) that by (simp add: fresh_uuid_def fresh_in_def)
  ultimately show ?thesis using v by (auto simp: fresh_uuid_def fresh_in_def record_rows_def split: option.splits)
qed

lemma carries_merge:
  assumes doc: "documented env rows" and inv: "cluster_inv env rows w" and view: "engine_view i w st"
    and fresh: "fresh_uuid env w (mj_block_uuid j)" and run: "merge_blocks env j fence ticks (es_store st) = (r, s)"
  obtains w' where "carries env rows i {mj_block_uuid j} w (st\<lparr>es_store := s\<rparr>) w'"
    "\<And>bm. r = Inr (Some bm) \<Longrightarrow> Merged bm (uuids_of (mj_inputs j)) \<in> cl_messages w'"
proof -
  have run: "merge_blocks env j fence ticks (cl_store w) = (r, s)" using run view by (simp add: engine_view_def)
  let ?M = "case r of Inr (Some bm) \<Rightarrow> {Merged bm (uuids_of (mj_inputs j))} | _ \<Rightarrow> {}"
  let ?w = "w\<lparr>cl_store := s, cl_messages := cl_messages w \<union> ?M, cl_data := record_rows rows (mj_block_uuid j)
     (objects s (out_path env j ''meta.json'')) (objects s (out_path env j ''parquet'')) (cl_data w)\<rparr>"
  have "carries env rows i {mj_block_uuid j} w (st\<lparr>es_store := s\<rparr>) ?w"
  proof (rule carries_step [OF cluster_step.merge [OF fresh run refl]])
    show "engine_view i ?w (st\<lparr>es_store := s\<rparr>)" using view by (auto simp: engine_view_def)
  next
    have "fresh_in env (cl_data w) (cl_expired w) (cl_store w) (mj_block_uuid j)" using fresh by (simp add: fresh_uuid_def)
    from merge_bucket [OF doc cluster_invD(1) [OF inv] this run]
    show "\<forall>m \<in> sidecars env (cl_store ?w) - sidecars env (cl_store w). bm_uuid m \<in> {mj_block_uuid j}" by auto
  qed (use fresh_merge [OF doc inv fresh run] in auto)
  then show thesis by (rule that) simp
qed

lemma carries_publish:
  assumes view: "engine_view i w st" and merged: "Merged bm us \<in> cl_messages w"
  obtains w' where "carries env rows i {} w (emit (Superseded us (bm_uuid bm) bm eligible) (emit (Created bm)
     (st\<lparr>es_cat := snd (apply_compaction (me_ymd env) observed_at bm us eligible (es_cat st))\<rparr>))) w'"
proof -
  obtain new cat where cat: "apply_compaction (me_ymd env) observed_at bm us eligible (cl_cats w i) = (new, cat)" by force
  have eq: "es_cat st = cl_cats w i" using view by (simp add: engine_view_def)
  show thesis
    by (rule that, unfold eq cat snd_conv, rule carries_step [OF cluster_step.publish [OF merged cat]])
      (use view in \<open>auto simp: engine_view_def emit_def fresh_uuid_def\<close>)
qed

lemma carries_compact_partition:
  assumes doc: "documented env rows" and inv: "cluster_inv env rows w" and view: "engine_view i w st"
    and fresh: "fresh_uuid env w (pn_block_uuid pn)"
  shows "\<exists>w'. carries env rows i {pn_block_uuid pn} w (snd (compact_partition env cfg c ngram plan pn st)) w'"
proof -
  let ?result = "compact_partition env cfg c ngram plan pn st"
  have idle: "\<exists>w'. carries env rows i {pn_block_uuid pn} w st w'" using carries_refl [OF view] by blast
  show ?thesis
  proof (cases "pn_fence_start pn \<and> (\<exists>estimated units. estimate_non_datafusion_bytes plan c = Inr estimated \<and> pn_admit pn estimated = Inr units)")
    case False
    then have "snd ?result = st" by (auto simp: compact_partition_def split: sum.splits)
    with idle show ?thesis by simp
  next
    case True
    then obtain estimated units where go: "pn_fence_start pn" "estimate_non_datafusion_bytes plan c = Inr estimated" "pn_admit pn estimated = Inr units" by blast
    let ?j = "partition_job c ngram plan pn units"
    have j: "mj_block_uuid ?j = pn_block_uuid pn" "mj_inputs ?j = pm_inputs plan" by (simp_all add: partition_job_def)
    obtain r s where run: "merge_blocks env ?j (pn_fence_commit pn) (pn_fence_ticks pn) (es_store st) = (r, s)" by force
    from carries_merge [OF doc inv view _ run] fresh obtain w1 where
      w1: "carries env rows i {pn_block_uuid pn} w (st\<lparr>es_store := s\<rparr>) w1"
        "\<And>bm. r = Inr (Some bm) \<Longrightarrow> Merged bm (uuids_of (pm_inputs plan)) \<in> cl_messages w1" unfolding j by blast
    show ?thesis
    proof (cases "(\<exists>bm. r = Inr (Some bm)) \<and> \<not> pn_apply_fails pn")
      case False
      then have "snd ?result = st\<lparr>es_store := s\<rparr>"
        by (auto simp: compact_partition_def go run publish_partition_def Let_def split: sum.splits option.splits)
      with w1(1) show ?thesis by auto
    next
      case True
      then obtain bm where bm: "r = Inr (Some bm)" "\<not> pn_apply_fails pn" by blast
      let ?us = "uuids_of (pm_inputs plan)" and ?e = "sat_add (pn_now pn) (cc_grace_nanos cfg)"
      let ?st1 = "emit (Superseded ?us (bm_uuid bm) bm ?e) (emit (Created bm) (st\<lparr>es_store := s,
          es_cat := snd (apply_compaction (me_ymd env) (pn_observed_at pn) bm ?us ?e (es_cat st))\<rparr>))"
      from carries_publish [OF carries_viewD [OF w1(1)] w1(2) [OF bm(1)], of env rows ?e "pn_observed_at pn"]
      obtain w2 where "carries env rows i {} w1 ?st1 w2" by auto
      from carries_trans [OF w1(1) this] have w2: "carries env rows i {pn_block_uuid pn} w ?st1 w2" by simp
      from carries_reaping [OF carries_viewD [OF w2]] obtain w3 where
        "carries env rows i {} w2 (snd (reap_pending env (pn_drop_fails pn) (list_pending_reaps (es_cat ?st1) (pn_reap_now pn)) compact_report_default ?st1)) w3"
        by blast
      from carries_trans [OF w2 this] w2 go run bm show ?thesis
        by (auto simp: compact_partition_def publish_partition_def Let_def uuids_of_def)
    qed
  qed
qed

section \<open>Reading the bucket\<close>

text \<open>A GET that succeeds returns the bytes of the object, and the responses of a batch of requests
  come in any order.\<close>

definition reads_bucket :: "merge_env \<Rightarrow> store \<Rightarrow> poll_env \<Rightarrow> bool" where
  "reads_bucket env s pe \<longleftrightarrow> pe_ymd pe = me_ymd env \<and> pe_parse pe = me_parse env \<and>
     (\<forall>loc body. pe_fetch pe loc = Inr body \<longrightarrow> objects s loc = Some body) \<and> (\<forall>locs. set (pe_arrival pe locs) \<subseteq> set locs)"

lemma carries_cat:
  assumes view: "engine_view i w st" and step: "cluster_step env rows w (w\<lparr>cl_cats := (cl_cats w)(i := cat)\<rparr>)"
  shows "\<exists>w'. carries env rows i {} w (st\<lparr>es_cat := cat\<rparr>) w'"
  by (rule exI, rule carries_step [OF step]) (use view in \<open>auto simp: engine_view_def\<close>)

lemma carries_learn:
  assumes view: "engine_view i w st" and loc: "ends_with ''.meta.json'' loc" "objects (es_store st) loc = Some body" "me_parse env body = Some bm"
    and ins: "insert_block (me_ymd env) t (es_cat st) (fetched_meta body bm) = (new, cat)"
  shows "\<exists>w'. carries env rows i {} w (st\<lparr>es_cat := cat\<rparr>) w'"
proof -
  let ?w = "w\<lparr>cl_messages := insert (Fetched (fetched_meta body bm)) (cl_messages w)\<rparr>"
  have eq: "es_store st = cl_store w" "es_cat st = cl_cats w i" using view by (simp_all add: engine_view_def)
  have "sidecar_at env (cl_store w) loc bm" using loc eq by (simp add: sidecar_at_def)
  from cluster_step.fetch [OF this] loc(2) eq have "cluster_step env rows w ?w" by simp
  then have w1: "carries env rows i {} w st ?w" by (rule carries_step) (use view in \<open>auto simp: engine_view_def\<close>)
  have "cluster_step env rows ?w (?w\<lparr>cl_cats := (cl_cats ?w)(i := cat)\<rparr>)"
    by (rule cluster_step.learn [of "fetched_meta body bm"]) (use ins eq in auto)
  from carries_cat [OF carries_viewD [OF w1] this] carries_trans [OF w1] show ?thesis by fastforce
qed

lemma carries_fetch_loop:
  assumes "reads_bucket env (es_store st) pe"
  shows "engine_view i w (st\<lparr>es_cat := fs_cat fs\<rparr>) \<Longrightarrow> \<forall>loc \<in> set locs. ends_with ''.meta.json'' loc \<Longrightarrow>
    \<exists>w'. carries env rows i {} w (st\<lparr>es_cat := fs_cat (snd (fetch_loop pe locs fs))\<rparr>) w'"
proof (induction locs arbitrary: w fs)
  case (Cons loc locs)
  show ?case
  proof (cases "fetch_one pe loc fs")
    case None
    with carries_refl [OF Cons.prems(1)] show ?thesis by auto
  next
    case (Some fs')
    have "\<exists>w1. carries env rows i {} w (st\<lparr>es_cat := fs_cat fs'\<rparr>) w1"
    proof (cases "\<exists>body bm. pe_fetch pe loc = Inr body \<and> me_parse env body = Some bm")
      case False
      then have "fs_cat fs' = fs_cat fs" using Some assms
        by (auto simp: fetch_one_def reads_bucket_def Let_def split: sum.splits option.splits if_splits)
      with carries_refl [OF Cons.prems(1)] show ?thesis by auto
    next
      case True
      then obtain body bm where b: "pe_fetch pe loc = Inr body" "me_parse env body = Some bm" by blast
      obtain new cat where ins: "insert_block (me_ymd env) (pe_observed_at pe) (fs_cat fs) (fetched_meta body bm) = (new, cat)" by force
      then have cat: "fs_cat fs' = cat" using Some b assms
        by (auto simp: fetch_one_def reads_bucket_def Let_def split: if_splits)
      have "objects (es_store st) loc = Some body" using assms b by (simp add: reads_bucket_def)
      with carries_learn [OF Cons.prems(1), of loc body env bm "pe_observed_at pe" new cat rows] b ins Cons.prems(2) cat
      show ?thesis by simp
    qed
    then obtain w1 where w1: "carries env rows i {} w (st\<lparr>es_cat := fs_cat fs'\<rparr>) w1" by blast
    from Cons.IH [OF carries_viewD [OF w1]] Cons.prems(2) carries_trans [OF w1] Some show ?thesis by fastforce
  qed
qed (auto intro: carries_refl)

lemma carries_advance_cursors:
  "engine_view i w (st\<lparr>es_cat := cat\<rparr>) \<Longrightarrow> \<exists>w'. carries env rows i {} w (st\<lparr>es_cat := advance_cursors pe poisoned high cat\<rparr>) w'"
proof (induction pe poisoned high cat arbitrary: w rule: advance_cursors.induct)
  case (2 pe poisoned prefix u high cat)
  let ?cat = "if prefix \<in> poisoned then cat else case parse_prefix (pe_uparse pe) prefix of None \<Rightarrow> cat
     | Some parts \<Rightarrow> advance_cursor (pp_signal parts) (pp_writer_id parts) (prefix_date parts) u cat"
  have "\<exists>w1. carries env rows i {} w (st\<lparr>es_cat := ?cat\<rparr>) w1"
  proof (cases "?cat = cat")
    case False
    then obtain parts where parts: "?cat = advance_cursor (pp_signal parts) (pp_writer_id parts) (prefix_date parts) u cat"
      by (auto split: if_splits option.splits)
    have eq: "cl_cats w i = cat" using "2.prems" by (simp add: engine_view_def)
    from carries_cat [OF "2.prems" cluster_step.move_cursor [of env rows w i "pp_signal parts" "pp_writer_id parts" "prefix_date parts" u]]
    show ?thesis unfolding eq parts by simp
  qed (use carries_refl [OF "2.prems"] in auto)
  then obtain w1 where w1: "carries env rows i {} w (st\<lparr>es_cat := ?cat\<rparr>) w1" by blast
  from "2.IH" [OF carries_viewD [OF w1]] carries_trans [OF w1] show ?case by fastforce
qed (auto intro: carries_refl)

lemma split_known_subset: "split_known pe known locs high report = (fs, h, r) \<Longrightarrow> set fs \<subseteq> set locs"
proof (induction locs arbitrary: high report fs h r)
  case (Cons loc locs)
  obtain fs' h' r' where rest: "split_known pe known locs high report = (fs', h', r')" by (metis prod.exhaust)
  from Cons.prems rest Cons.IH [OF rest] show ?case
    by (auto split: option.splits if_splits) (use Cons.IH in blast)
qed simp

lemma carries_fetch_and_apply:
  assumes "reads_bucket env (es_store st) pe" and "engine_view i w st" and "\<forall>loc \<in> set locs. ends_with ''.meta.json'' loc"
  shows "\<exists>w'. carries env rows i {} w (st\<lparr>es_cat := snd (fetch_and_apply pe locs known report (es_cat st))\<rparr>) w'"
proof -
  obtain fs high report1 where split: "split_known pe known locs [] report = (fs, high, report1)" by (metis prod.exhaust)
  let ?fs = "\<lparr>fs_cat = es_cat st, fs_high = high, fs_poisoned = {}, fs_report = report1\<rparr>"
  have "\<forall>loc \<in> set (pe_arrival pe fs). ends_with ''.meta.json'' loc"
    using assms(1,3) split_known_subset [OF split] unfolding reads_bucket_def by blast
  from carries_fetch_loop [OF assms(1), of i w ?fs, OF _ this] assms(2) obtain w1 where
    w1: "carries env rows i {} w (st\<lparr>es_cat := fs_cat (snd (fetch_loop pe (pe_arrival pe fs) ?fs))\<rparr>) w1" by fastforce
  obtain ok fs' where loop: "fetch_loop pe (pe_arrival pe fs) ?fs = (ok, fs')" by force
  show ?thesis
  proof (cases ok)
    case True
    from carries_advance_cursors [OF carries_viewD [OF w1], of env rows pe "fs_poisoned fs'" "fs_high fs'"] loop obtain w2 where
      "carries env rows i {} w1 (st\<lparr>es_cat := advance_cursors pe (fs_poisoned fs') (fs_high fs') (fs_cat fs')\<rparr>) w2" by auto
    from carries_trans [OF w1 this] have "carries env rows i {} w (st\<lparr>es_cat := advance_cursors pe (fs_poisoned fs') (fs_high fs') (fs_cat fs')\<rparr>) w2"
      by simp
    moreover have "snd (fetch_and_apply pe locs known report (es_cat st)) = advance_cursors pe (fs_poisoned fs') (fs_high fs') (fs_cat fs')"
      by (simp add: fetch_and_apply_def split loop True)
    ultimately show ?thesis by (intro exI [of _ w2]) simp
  next
    case False
    then have "snd (fetch_and_apply pe locs known report (es_cat st)) = fs_cat fs'"
      by (simp add: fetch_and_apply_def split loop)
    with w1 [unfolded loop snd_conv] show ?thesis by (intro exI [of _ w1]) simp
  qed
qed

lemma meta_locations: "collect_meta_locations items = Some locs \<Longrightarrow> \<forall>loc \<in> set locs. ends_with ''.meta.json'' loc"
proof (induction items arbitrary: locs)
  case (Cons item items)
  show ?case
  proof (cases "\<exists>loc. item = Listed loc \<and> \<not> is_reserved_control_key loc \<and> ends_with ''.meta.json'' loc")
    case True
    then obtain loc ls where "item = Listed loc" "ends_with ''.meta.json'' loc" "collect_meta_locations items = Some ls" "locs = loc # ls"
      using Cons.prems by (cases "collect_meta_locations items") auto
    with Cons.IH show ?thesis by simp
  qed (use Cons in \<open>cases item; simp split: if_splits\<close>)
qed simp

lemma carries_stage:
  assumes "engine_view i w st"
  shows "\<exists>w'. carries env rows i {} w (st\<lparr>es_cat := snd (stage_unstaged_superseded e (es_cat st))\<rparr>) w'"
proof -
  obtain n cat where s: "stage_unstaged_superseded e (cl_cats w i) = (n, cat)" by force
  have "es_cat st = cl_cats w i" using assms by (simp add: engine_view_def)
  with carries_cat [OF assms cluster_step.stage [OF s]] s show ?thesis by simp
qed

text \<open>One walk over a listing, and then the staging of what has become obsolete when it went well.\<close>

lemma carries_walk:
  assumes "reads_bucket env (es_store st) pe" and "engine_view i w st" and "collect_meta_locations items = Some locs"
    and "cat = snd (fetch_and_apply pe locs known report (es_cat st)) \<or>
      cat = snd (stage_unstaged_superseded e (snd (fetch_and_apply pe locs known report (es_cat st))))"
  shows "\<exists>w'. carries env rows i {} w (st\<lparr>es_cat := cat\<rparr>) w'"
proof -
  from carries_fetch_and_apply [OF assms(1,2) meta_locations [OF assms(3)]] obtain w1 where
    w1: "carries env rows i {} w (st\<lparr>es_cat := snd (fetch_and_apply pe locs known report (es_cat st))\<rparr>) w1" by blast
  from carries_stage [OF carries_viewD [OF w1], of env rows e] carries_trans [OF w1] w1 assms(4) show ?thesis by fastforce
qed

lemma carries_reconcile_partition:
  assumes "reads_bucket env (es_store st) pe" and "engine_view i w st"
  shows "\<exists>w'. carries env rows i {} w (st\<lparr>es_cat := snd (reconcile_partition pe items now grace (es_cat st))\<rparr>) w'"
proof (cases "collect_meta_locations items")
  case None
  with carries_refl [OF assms(2)] show ?thesis by (auto simp: reconcile_partition_def)
next
  case (Some locs)
  show ?thesis
    by (rule carries_walk [OF assms Some, where known = "Some (known_block_uuids (es_cat st))" and
          report = poll_report_default and e = "of_nat (now + grace)"])
      (auto simp: reconcile_partition_def Some split: option.splits prod.splits)
qed

lemma carries_full_walk:
  assumes "reads_bucket env (es_store st) pe" and "engine_view i w st"
  shows "\<exists>w'. carries env rows i {} w (st\<lparr>es_cat := snd (full_walk_with_grace pe items now grace (es_cat st))\<rparr>) w'"
proof (cases "collect_meta_locations items")
  case None
  with carries_refl [OF assms(2)] show ?thesis by (auto simp: full_walk_with_grace_def)
next
  case (Some locs)
  show ?thesis
    by (rule carries_walk [OF assms Some, where known = "Some (known_block_uuids (es_cat st))" and
          report = poll_report_default and e = "of_nat (now + grace)"])
      (auto simp: full_walk_with_grace_def Some split: option.splits prod.splits)
qed

lemma carries_poll_heads:
  "engine_view i w (st\<lparr>es_cat := cat\<rparr>) \<Longrightarrow> reads_bucket env (es_store st) pe \<Longrightarrow>
     \<exists>w'. carries env rows i {} w (st\<lparr>es_cat := snd (poll_heads pe list_from start heads report cat)\<rparr>) w'"
proof (induction heads arbitrary: w cat report)
  case (Cons head heads)
  let ?prefix = "partition_prefix (pe_ustr pe) (ch_signal head) (ch_date head) (ch_writer_id head)"
  let ?items = "list_from ?prefix (lookback_offset (pe_ustr pe) ?prefix (ch_highest head) start)"
  show ?case
  proof (cases "collect_meta_locations ?items")
    case None
    with carries_refl [OF Cons.prems(1)] show ?thesis by (auto simp: Let_def)
  next
    case (Some locs)
    let ?known = "set (filter (has_block cat) (List.map_filter (\<lambda>loc. map_option bk_uuid (parse_block_key (pe_uparse pe) loc)) locs))"
    obtain r cat' where fa: "fetch_and_apply pe locs (Some ?known) report cat = (r, cat')" by force
    from carries_fetch_and_apply [OF _ Cons.prems(1) meta_locations [OF Some], of env pe rows "Some ?known" report] Cons.prems(2) fa
    obtain w1 where w1: "carries env rows i {} w (st\<lparr>es_cat := cat'\<rparr>) w1" by auto
    from Cons.IH [OF carries_viewD [OF w1] Cons.prems(2)] carries_trans [OF w1] w1 Some fa show ?thesis
      by (cases r) (fastforce simp: Let_def)+
  qed
qed (auto intro: carries_refl)

section \<open>The compaction pass\<close>

lemma carries_pass_partition:
  assumes doc: "documented env rows" and inv: "cluster_inv env rows w" and view: "engine_view i w st"
    and fresh: "fresh_uuid env w (pn_block_uuid (pi_run pi))" and reads: "\<And>s. reads_bucket env s (pi_poll_env pi s)"
  shows "\<exists>w'. carries env rows i {pn_block_uuid (pi_run pi)} w (snd (pass_partition env cfg c ngram plan pi st)) w'"
proof (cases "pi_lease pi")
  case LeaseAcquired
  let ?U = "{pn_block_uuid (pi_run pi)}"
  obtain r cat where rec: "reconcile_partition (pi_poll_env pi (es_store st)) (pi_listing pi (es_store st)) (pi_now_nanos pi)
      (unat (cc_grace_nanos cfg)) (es_cat st) = (r, cat)" by force
  from carries_reconcile_partition [OF reads view] rec obtain w1 where w1: "carries env rows i {} w (st\<lparr>es_cat := cat\<rparr>) w1" by (metis snd_conv)
  let ?pn = "(pi_run pi)\<lparr>pn_writer_id := min_writer (pm_inputs plan) (pn_writer_id (pi_run pi))\<rparr>"
  have pn: "pn_block_uuid ?pn = pn_block_uuid (pi_run pi)" by simp
  have fresh1: "fresh_uuid env w1 (pn_block_uuid ?pn)" using fresh w1 unfolding pn by (simp add: carries_def)
  from carries_compact_partition [OF doc run_carries [OF doc inv w1] carries_viewD [OF w1] fresh1, of cfg c ngram plan]
  obtain w2 where "carries env rows i ?U w1 (snd (compact_partition env cfg c ngram plan ?pn (st\<lparr>es_cat := cat\<rparr>))) w2" unfolding pn by blast
  from carries_trans [OF w1 this]
  have w2: "carries env rows i ?U w (snd (compact_partition env cfg c ngram plan ?pn (st\<lparr>es_cat := cat\<rparr>))) w2" by simp
  have "snd (pass_partition env cfg c ngram plan pi st) \<in>
      {st\<lparr>es_cat := cat\<rparr>, snd (compact_partition env cfg c ngram plan ?pn (st\<lparr>es_cat := cat\<rparr>))}"
    by (auto simp: pass_partition_def LeaseAcquired rec Let_def split: sum.splits prod.splits)
  with w2 carries_mono [OF w1, of ?U] show ?thesis by auto
qed (use carries_refl [OF view] in \<open>auto simp: pass_partition_def\<close>)

lemma carries_pass_partitions:
  assumes doc: "documented env rows" and "cluster_inv env rows w" and "engine_view i w st"
    and "distinct (map (\<lambda>r. pn_block_uuid (pi_run (snd r))) runs)"
    and "\<forall>r \<in> set runs. fresh_uuid env w (pn_block_uuid (pi_run (snd r))) \<and> (\<forall>s. reads_bucket env s (pi_poll_env (snd r) s))"
  shows "\<exists>w'. carries env rows i UNIV w (snd (pass_partitions env cfg c ngram runs st)) w'"
  using assms(2-)
proof (induction runs arbitrary: w st)
  case (Cons run runs)
  obtain plan pi where run: "run = (plan, pi)" by force
  let ?u = "pn_block_uuid (pi_run pi)"
  obtain r st1 where st1: "pass_partition env cfg c ngram plan pi st = (r, st1)" by force
  from carries_pass_partition [OF doc Cons.prems(1,2), of pi cfg c ngram plan] Cons.prems(4) st1
  obtain w1 where w1: "carries env rows i {?u} w st1 w1" by (auto simp: run)
  have "fresh_uuid env w1 (pn_block_uuid (pi_run (snd r)))" if "r \<in> set runs" for r
  proof -
    have "pn_block_uuid (pi_run (snd r)) \<noteq> ?u" using Cons.prems(3) that unfolding run by (auto simp: image_iff)
    with w1 Cons.prems(4) that show ?thesis by (auto simp: carries_def)
  qed
  then have "\<forall>r \<in> set runs. fresh_uuid env w1 (pn_block_uuid (pi_run (snd r))) \<and> (\<forall>s. reads_bucket env s (pi_poll_env (snd r) s))"
    using Cons.prems(4) by simp
  with Cons.IH [OF run_carries [OF doc Cons.prems(1) w1] carries_viewD [OF w1]] Cons.prems(3)
  obtain w2 where "carries env rows i UNIV w1 (snd (pass_partitions env cfg c ngram runs st1)) w2" by auto
  from carries_trans [OF w1 this] show ?case by (auto simp: run st1 split: prod.splits)
qed (auto intro: carries_refl)

lemma carries_compaction_pass:
  assumes doc: "documented env rows" and inv: "cluster_inv env rows w" and view: "engine_view i w st"
    and n: "n = length (merges (plan_merges (list_blocks (es_cat st)) cfg))"
    and fresh: "\<forall>k < n. fresh_uuid env w (pn_block_uuid (pi_run (inputs k)))" "inj_on (\<lambda>k. pn_block_uuid (pi_run (inputs k))) {..<n}"
    and reads: "\<And>k s. reads_bucket env s (pi_poll_env (inputs k) s)"
  shows "\<exists>w'. carries env rows i UNIV w (snd (run_compaction_pass env cfg c ngram now list_fails drop_fails inputs st)) w'"
proof (cases "isl (compact_config_validate cfg) \<or> list_fails")
  case True
  then have "snd (run_compaction_pass env cfg c ngram now list_fails drop_fails inputs st) = st"
    by (auto simp: run_compaction_pass_def split: sum.splits)
  with carries_refl [OF view] show ?thesis by auto
next
  case False
  then obtain x where Inr: "compact_config_validate cfg = Inr x" "\<not> list_fails" by (cases "compact_config_validate cfg") auto
  let ?plan = "plan_merges (list_blocks (es_cat st)) cfg"
  let ?report = "compact_report_default\<lparr>cr_oversized := length (oversized ?plan)\<rparr>"
  let ?runs = "map (\<lambda>(k, p). (p, inputs k)) (enumerate 0 (merges ?plan))"
  obtain report1 st1 where st1: "reap_pending env drop_fails (list_pending_reaps (es_cat st) now) ?report st = (report1, st1)" by force
  from carries_reaping [OF view, of env rows drop_fails now ?report] st1 obtain w1 where w1: "carries env rows i {} w st1 w1" by auto
  have fresh1: "fresh_uuid env w1 (pn_block_uuid (pi_run (inputs k)))" if "k < n" for k
    using w1 fresh(1) that by (simp add: carries_def)
  have ks: "map fst (enumerate 0 (merges ?plan)) = [0 ..< n]" unfolding n by simp
  have "map (\<lambda>r. pn_block_uuid (pi_run (snd r))) ?runs = map (\<lambda>k. pn_block_uuid (pi_run (inputs k))) (map fst (enumerate 0 (merges ?plan)))"
    unfolding map_map comp_def case_prod_unfold snd_conv by (rule refl)
  then have dist: "distinct (map (\<lambda>r. pn_block_uuid (pi_run (snd r))) ?runs)"
    using fresh(2) unfolding ks by (simp add: distinct_map atLeast0LessThan)
  have "\<forall>r \<in> set ?runs. fresh_uuid env w1 (pn_block_uuid (pi_run (snd r))) \<and> (\<forall>s. reads_bucket env s (pi_poll_env (snd r) s))"
    using fresh1 reads by (auto simp: n in_set_enumerate_eq)
  from carries_pass_partitions [OF doc run_carries [OF doc inv w1] carries_viewD [OF w1] dist this]
  obtain w2 where "carries env rows i UNIV w1 (snd (pass_partitions env cfg c ngram ?runs st1)) w2" by blast
  from carries_trans [OF w1 this] show ?thesis
    by (auto simp: run_compaction_pass_def Inr Let_def st1 split: prod.splits)
qed

section \<open>The retention pass\<close>

lemma carries_list_deletions:
  assumes "engine_view i w st" and "set es \<subseteq> set (list_pending_deletions (es_cat st) now)"
  shows "\<exists>w'. carries env rows i {} w st w' \<and> (\<forall>e \<in> set es. ToDelete (e_meta e) \<in> cl_messages w')"
  using assms(2)
proof (induction es)
  case (Cons e es)
  then obtain w1 where w1: "carries env rows i {} w st w1" "\<forall>e \<in> set es. ToDelete (e_meta e) \<in> cl_messages w1" by auto
  let ?w = "w1\<lparr>cl_messages := insert (ToDelete (e_meta e)) (cl_messages w1)\<rparr>"
  have "e \<in> set (list_pending_deletions (cl_cats w1 i) now)" using Cons.prems carries_viewD [OF w1(1)] by (simp add: engine_view_def)
  then have "cluster_step env rows w1 ?w" by (rule cluster_step.list_deletions)
  then have "carries env rows i {} w1 st ?w"
    by (rule carries_step) (use carries_viewD [OF w1(1)] in \<open>auto simp: engine_view_def\<close>)
  from carries_trans [OF w1(1) this] w1(2) show ?case by auto
qed (use assms(1) in \<open>auto intro: carries_refl\<close>)

definition all_gone :: "cluster \<Rightarrow> (string \<times> uuid list) list \<Rightarrow> bool" where
  "all_gone w groups \<longleftrightarrow> (\<forall>g \<in> set groups. \<forall>u \<in> set (snd g). Gone u \<in> cl_messages w)"

lemma all_gone_push: "all_gone w groups \<Longrightarrow> Gone u \<in> cl_messages w \<Longrightarrow> all_gone w (btree_push k u groups)"
  unfolding all_gone_def by (induction k u groups rule: btree_push.induct) auto

lemma all_gone_mono: "all_gone w groups \<Longrightarrow> cl_messages w \<subseteq> cl_messages w' \<Longrightarrow> all_gone w' groups"
  unfolding all_gone_def by blast

lemma carries_reap_loop:
  "engine_view i w st \<Longrightarrow> \<forall>e \<in> set todo. ToDelete (e_meta e) \<in> cl_messages w \<Longrightarrow> all_gone w reaped \<Longrightarrow>
     reap_loop env drop_fails todo reaped report st = (reaped', report', st') \<Longrightarrow>
     \<exists>w'. carries env rows i {} w st' w' \<and> all_gone w' reaped'"
proof (induction todo arbitrary: w st reaped report)
  case (Cons e todo)
  let ?bm = "e_meta e"
  obtain r s where del: "delete_objects_of env ?bm (es_store st) = (r, s)" by force
  from carries_delete [OF Cons.prems(1) _ del, of rows] Cons.prems(2) obtain w1 where
    w1: "carries env rows i {} w (st\<lparr>es_store := s\<rparr>) w1" "\<not> isl r \<Longrightarrow> Gone (bm_uuid ?bm) \<in> cl_messages w1" by auto
  have more: "\<exists>w'. carries env rows i {} w st' w' \<and> all_gone w' reaped'"
    if c: "carries env rows i {} w st2 w2" and g: "all_gone w2 reaped2"
      and l: "reap_loop env drop_fails todo reaped2 report2 st2 = (reaped', report', st')" for st2 w2 reaped2 report2
  proof -
    have "\<forall>e \<in> set todo. ToDelete (e_meta e) \<in> cl_messages w2" using c Cons.prems(2) by (auto simp: carries_def)
    from Cons.IH [OF carries_viewD [OF c] this g l] carries_trans [OF c] show ?thesis by fastforce
  qed
  have g1: "all_gone w1 reaped" using all_gone_mono [OF Cons.prems(3)] w1(1) by (simp add: carries_def)
  show ?case
  proof (cases "isl r \<or> drop_fails (bm_uuid ?bm)")
    case True
    with more [OF w1(1) g1] Cons.prems(4) show ?thesis by (cases r) (auto simp: del Let_def)
  next
    case False
    let ?st1 = "st\<lparr>es_store := s\<rparr>"
    from False w1 have gone: "Gone (bm_uuid ?bm) \<in> cl_messages w1" by blast
    from carries_forget [OF carries_viewD [OF w1(1)] gone, of env rows] obtain w2 where
      w2: "carries env rows i {} w1 (?st1\<lparr>es_cat := delete_blocks [bm_uuid ?bm] (es_cat ?st1)\<rparr>) w2" by blast
    have sub: "cl_messages w1 \<subseteq> cl_messages w2" using w2 by (simp add: carries_def)
    have "all_gone w2 (btree_push (bm_signal ?bm) (bm_uuid ?bm) reaped)"
      using all_gone_push all_gone_mono [OF g1 sub] gone sub by blast
    with carries_trans [OF w1(1) w2] False more Cons.prems(4) show ?thesis by (cases r) (auto simp: del Let_def)
  qed
qed (auto intro: carries_refl)

lemma carries_emit_deleted:
  "engine_view i w st \<Longrightarrow> all_gone w groups \<Longrightarrow> \<exists>w'. carries env rows i {} w (fold (\<lambda>(signal, us). emit (Deleted signal us)) groups st) w'"
proof (induction groups arbitrary: w st)
  case (Cons g groups)
  obtain signal us where g: "g = (signal, us)" by force
  have "cluster_step env rows w (w\<lparr>cl_messages := insert (Event (Deleted signal us)) (cl_messages w)\<rparr>)"
    by (rule cluster_step.announce_gone) (use Cons.prems(2) g in \<open>auto simp: all_gone_def\<close>)
  from carries_emit [OF Cons.prems(1) this] obtain w1 where w1: "carries env rows i {} w (emit (Deleted signal us) st) w1" by blast
  have "all_gone w1 groups" using Cons.prems(2) w1 by (auto simp: all_gone_def carries_def)
  from Cons.IH [OF carries_viewD [OF w1] this] carries_trans [OF w1] show ?case by (fastforce simp: g)
qed (auto intro: carries_refl)

lemma carries_reap_deletions:
  assumes view: "engine_view i w st"
  shows "\<exists>w'. carries env rows i {} w (snd (reap_pending_deletions env drop_fails (list_pending_deletions (es_cat st) now) report st)) w'"
proof -
  let ?todo = "list_pending_deletions (es_cat st) now"
  from carries_list_deletions [OF view subset_refl, of env rows now] obtain w1 where
    w1: "carries env rows i {} w st w1" "\<forall>e \<in> set ?todo. ToDelete (e_meta e) \<in> cl_messages w1" by blast
  obtain reaped report' st' where loop: "reap_loop env drop_fails ?todo [] report st = (reaped, report', st')" by (metis prod.exhaust)
  have "all_gone w1 []" by (simp add: all_gone_def)
  from carries_reap_loop [OF carries_viewD [OF w1(1)] w1(2) this loop] obtain w2 where
    w2: "carries env rows i {} w1 st' w2" "all_gone w2 reaped" by blast
  from carries_emit_deleted [OF carries_viewD [OF w2(1)] w2(2)] obtain w3 where
    w3: "carries env rows i {} w2 (fold (\<lambda>(signal, us). emit (Deleted signal us)) reaped st') w3" by blast
  from carries_trans [OF carries_trans [OF w1(1) w2(1)] w3] show ?thesis
    by (auto simp: reap_pending_deletions_def loop)
qed

lemma btree_push_values:
  "(\<Union>g \<in> set (btree_push k v groups). set (snd g)) = insert v (\<Union>g \<in> set groups. set (snd g))"
  by (induction k v groups rule: btree_push.induct) auto

lemma fold_push_values:
  "(\<Union>g \<in> set (fold (\<lambda>x. btree_push (key x) (val x)) xs groups). set (snd g)) = val ` set xs \<union> (\<Union>g \<in> set groups. set (snd g))"
  by (induction xs arbitrary: groups) (auto simp: btree_push_values)

lemma outstanding_rows: "g \<in> set (outstanding_groups cat) \<Longrightarrow> set (snd g) \<subseteq> hidden_rows cat"
proof -
  let ?key = "\<lambda>(u, signal, deleted_at, eligible_at). (signal, deleted_at, eligible_at)"
  have eq: "outstanding_groups cat = fold (\<lambda>x. btree_push (?key x) (fst x)) (list_staged_deletions cat) []"
    by (simp add: outstanding_groups_def case_prod_unfold)
  assume "g \<in> set (outstanding_groups cat)"
  then have "set (snd g) \<subseteq> fst ` set (list_staged_deletions cat)"
    using fold_push_values [of ?key fst "list_staged_deletions cat" "[]"] unfolding eq by auto
  also have "\<dots> \<subseteq> hidden_rows cat" by (auto simp: list_staged_deletions_def hidden_rows_def)
  finally show ?thesis .
qed

lemma carries_announce:
  assumes view: "engine_view i w st"
  shows "\<exists>w'. carries env rows i {} w (announce_outstanding_deletions st) w'"
proof -
  let ?f = "\<lambda>((signal, deleted_at, eligible_at), us). emit (SoftDeleted signal us deleted_at eligible_at)"
  have "\<exists>w'. carries env rows i {} w (fold ?f groups st') w'"
    if "engine_view i w st'" "es_cat st' = es_cat st" "set groups \<subseteq> set (outstanding_groups (es_cat st))" for groups st' w
    using that
  proof (induction groups arbitrary: st' w)
    case (Cons g groups)
    obtain signal t e us where g: "g = ((signal, t, e), us)" by (metis prod.exhaust)
    have "set us \<subseteq> hidden_rows (cl_cats w i)"
      using outstanding_rows [of g "es_cat st"] Cons.prems g by (auto simp: engine_view_def)
    then have "cluster_step env rows w (w\<lparr>cl_messages := insert (Event (SoftDeleted signal us t e)) (cl_messages w)\<rparr>)"
      by (intro cluster_step.announce) (simp add: hidden_rows_def)
    from carries_emit [OF Cons.prems(1) this] obtain w1 where w1: "carries env rows i {} w (emit (SoftDeleted signal us t e) st') w1" by blast
    have "es_cat (emit (SoftDeleted signal us t e) st') = es_cat st" using Cons.prems(2) by (simp add: emit_def)
    from Cons.IH [OF carries_viewD [OF w1] this] Cons.prems(3) obtain w2 where
      "carries env rows i {} w1 (fold ?f groups (emit (SoftDeleted signal us t e) st')) w2" by auto
    from carries_trans [OF w1 this] show ?case by (auto simp: g)
  qed (auto intro: carries_refl)
  from this [OF view refl subset_refl] show ?thesis by (simp add: announce_outstanding_deletions_def)
qed

text \<open>What a selection of blocks by a retention pass gives up.\<close>

definition given_up :: "merge_env \<Rightarrow> store \<Rightarrow> uuid set \<Rightarrow> uuid set" where
  "given_up env s us = us \<union> \<Union> (family ` {m \<in> sidecars env s. bm_uuid m \<in> us})"

lemma emit_all:
  "fold (\<lambda>(signal, us). emit (f signal us)) groups st = st\<lparr>es_events := es_events st @ map (\<lambda>(signal, us). f signal us) groups\<rparr>"
  by (induction groups arbitrary: st) (auto simp: emit_def)

lemma expire_view:
  assumes view: "engine_view i w st" and sel: "Selected (uuids_of expired) \<in> cl_messages w"
    and st': "st' = fold (\<lambda>(signal, us). emit (SoftDeleted signal us now e)) (staged_by_signal expired)
      (st\<lparr>es_cat := mark_deleted (uuids_of expired) now e (es_cat st)\<rparr>)"
  obtains w' where "cluster_step env rows w w'" "engine_view i w' st'"
    "cl_expired w' = cl_expired w \<union> given_up env (cl_store w) (set (uuids_of expired))"
proof -
  have groups: "set us \<subseteq> set (uuids_of expired)" if "(signal, us) \<in> set (staged_by_signal expired)" for signal us
  proof -
    have "staged_by_signal expired = fold (\<lambda>x. btree_push (bm_signal (e_meta x)) (bm_uuid (e_meta x))) expired []"
      by (simp add: staged_by_signal_def)
    with fold_push_values [of "\<lambda>x. bm_signal (e_meta x)" "\<lambda>x. bm_uuid (e_meta x)" expired "[]"] that
    show ?thesis by (force simp: uuids_of_def)
  qed
  from cluster_step.expire [OF sel, of env rows now e i] show thesis
  proof (rule that)
    show "engine_view i (w\<lparr>cl_cats := (cl_cats w)(i := mark_deleted (uuids_of expired) now e (cl_cats w i)),
        cl_messages := cl_messages w \<union> {Event (SoftDeleted signal us' now e) | signal us'. set us' \<subseteq> set (uuids_of expired)},
        cl_expired := cl_expired w \<union> set (uuids_of expired) \<union> \<Union> (family ` {m \<in> sidecars env (cl_store w). bm_uuid m \<in> set (uuids_of expired)})\<rparr>) st'"
      using view groups unfolding st' emit_all by (auto simp: engine_view_def)
  qed (auto simp: given_up_def)
qed

lemma carries_given_up: "carries env rows i {} w st w' \<Longrightarrow> given_up env (cl_store w') us \<subseteq> given_up env (cl_store w) us"
  unfolding carries_def given_up_def by blast

lemma retain_planned_run:
  assumes view: "engine_view i w st" and sel: "Selected (uuids_of expired) \<in> cl_messages w"
    and run: "retain_planned env drop_fails mark_fails list_fails expired cfg now fence fence_reap report st = (r, report', st')"
  shows "\<exists>w'. cluster_run env rows w w' \<and> engine_view i w' st' \<and>
    cl_expired w' \<subseteq> cl_expired w \<union> given_up env (cl_store w) (set (uuids_of expired))"
proof (cases "expired = [] \<or> \<not> fence \<or> mark_fails")
  case True
  with run view show ?thesis by (auto simp: retain_planned_def intro!: exI [of _ w] cluster_run.stay split: if_splits)
next
  case False
  let ?e = "sat_add now (nanos_u64 (rt_grace cfg))"
  define st1 where "st1 = fold (\<lambda>(signal, us). emit (SoftDeleted signal us now ?e)) (staged_by_signal expired)
      (st\<lparr>es_cat := mark_deleted (uuids_of expired) now ?e (es_cat st)\<rparr>)"
  obtain report2 st2 where reap: "reap_pending_deletions env drop_fails (list_pending_deletions (es_cat st1) now) report st1 = (report2, st2)" by force
  from view sel st1_def obtain w1 where w1: "cluster_step env rows w w1" "engine_view i w1 st1"
    "cl_expired w1 = cl_expired w \<union> given_up env (cl_store w) (set (uuids_of expired))" by (rule expire_view)
  from carries_reap_deletions [OF w1(2), of env rows drop_fails now report] reap obtain w2 where
    w2: "carries env rows i {} w1 st2 w2" by auto
  have "st' = st1 \<or> st' = st2"
    using run False unfolding retain_planned_def Let_def st1_def [symmetric] reap
    by (auto split: if_splits)
  moreover have r1: "cluster_run env rows w w1" by (rule cluster_run_single [OF w1(1)])
  moreover have "cluster_run env rows w w2" using w2 by (intro cluster_run_trans [OF _ r1]) (simp add: carries_def)
  moreover have "engine_view i w2 st2" "cl_expired w2 = cl_expired w1" using w2 by (simp_all add: carries_def)
  ultimately show ?thesis using w1(2,3) by blast
qed

lemma retention_pass_run:
  assumes view: "engine_view i w st"
    and expired: "expired = (if rt_apply cfg then plan_reaping (list_blocks (es_cat st)) cfg now else [])"
    and run: "run_retention_pass env drop_fails mark_fails qf cfg now lease fence fence_reap st = (r, st')"
  shows "\<exists>w'. cluster_run env rows w w' \<and> engine_view i w' st' \<and>
    cl_expired w' \<subseteq> cl_expired w \<union> given_up env (cl_store w) (set (uuids_of expired))"
proof (cases "rt_apply cfg \<and> \<not> qf_list qf")
  case False
  then have "st' = st" using run by (auto simp: run_retention_pass_def Let_def split: if_splits)
  with view show ?thesis by (auto intro!: exI [of _ w] cluster_run.stay)
next
  case True
  let ?us = "uuids_of expired" and ?report = "planned_report (list_blocks (es_cat st)) expired cfg"
  let ?w = "w\<lparr>cl_messages := insert (Selected ?us) (cl_messages w)\<rparr>"
  have ex: "plan_reaping (list_blocks (es_cat st)) cfg now = expired" using True expired by simp
  have "cluster_step env rows w ?w"
    by (rule cluster_step.plan_expiry [of _ _ i cfg now]) (use view ex in \<open>simp add: engine_view_def\<close>)
  then have w0: "carries env rows i {} w st ?w" by (rule carries_step) (use view in \<open>auto simp: engine_view_def\<close>)
  define st0 where "st0 = (if qf_staged qf then st else announce_outstanding_deletions st)"
  from carries_announce [OF carries_viewD [OF w0], of env rows] carries_refl [OF carries_viewD [OF w0], of env rows "{}"]
  obtain w1 where w1: "carries env rows i {} ?w st0 w1" by (cases "qf_staged qf") (auto simp: st0_def)
  obtain report1 st1 where st1: "reap_pending_deletions env drop_fails (list_pending_deletions (es_cat st0) now) ?report st0 = (report1, st1)" by force
  from carries_reap_deletions [OF carries_viewD [OF w1], of env rows drop_fails now ?report] st1 obtain w2 where c2: "carries env rows i {} w1 st1 w2" by auto
  have w01: "carries env rows i {} w st0 w1" and w2: "carries env rows i {} w st1 w2"
    using carries_trans [OF w0 w1] carries_trans [OF carries_trans [OF w0 w1] c2] by simp_all
  have sel: "Selected ?us \<in> cl_messages w2" using c2 w1 by (auto simp: carries_def)
  obtain a report2 st2 where rp: "retain_planned env drop_fails mark_fails (qf_newly_pending qf) expired cfg now fence fence_reap report1 st1 = (a, report2, st2)"
    by (metis prod.exhaust)
  have "st' = st0 \<or> st' = st1 \<or> st' = st2"
    using run True unfolding run_retention_pass_def Let_def st0_def [symmetric] ex st1 rp prod.case
    by (auto simp: st1 rp split: if_splits option.splits)
  moreover from retain_planned_run [OF carries_viewD [OF w2] sel rp, of rows] obtain w3 where
    w3: "cluster_run env rows w2 w3" "engine_view i w3 st2" "cl_expired w3 \<subseteq> cl_expired w2 \<union> given_up env (cl_store w2) (set ?us)" by blast
  moreover from w2 have "cluster_run env rows w w2" "cl_expired w2 = cl_expired w" "engine_view i w2 st1" by (simp_all add: carries_def)
  moreover from w01 have "cluster_run env rows w w1" "cl_expired w1 = cl_expired w" "engine_view i w1 st0" by (simp_all add: carries_def)
  ultimately show ?thesis using carries_given_up [OF w2, of "set ?us"] cluster_run_trans by blast
qed

section \<open>Properties\<close>

text \<open>C3: a compaction pass keeps all data. In every reachable state of the system, let any instance
  run a compaction pass, with any lease answers, fence losses, failures of the object store and of
  the catalog, in any of its partitions. Then every block that was committed before and that no
  retention pass has selected has its rows in a committed block afterwards.\<close>

theorem compaction_pass_keeps_rows:
  assumes doc: "documented env rows" and reach: "cluster_run env rows (cluster_start bucket) w" and view: "engine_view i w st"
    and run: "run_compaction_pass env cfg c ngram now list_fails drop_fails inputs st = (r, st')"
    and n: "n = length (merges (plan_merges (list_blocks (es_cat st)) cfg))"
    and fresh: "\<forall>k < n. fresh_uuid env w (pn_block_uuid (pi_run (inputs k)))" "inj_on (\<lambda>k. pn_block_uuid (pi_run (inputs k))) {..<n}"
    and reads: "\<forall>k s. reads_bucket env s (pi_poll_env (inputs k) s)"
    and m: "m \<in> committed env (es_store st)" "objects (es_store st) (env_path env m ''parquet'') = Some b" "bm_uuid m \<notin> cl_expired w"
  shows "\<exists>m' \<in> committed env (es_store st'). \<exists>b'. objects (es_store st') (env_path env m' ''parquet'') = Some b' \<and>
     bm_uuid m \<in> family m' \<and> rows b \<subseteq># rows b'"
proof -
  have inv: "cluster_inv env rows w" using cluster_run_inv [OF reach doc cluster_inv_start] .
  from carries_compaction_pass [OF doc inv view n fresh, of c ngram now list_fails drop_fails] reads run obtain w' where
    "carries env rows i UNIV w st' w'" by auto
  then have w': "cluster_run env rows w w'" "es_store st' = cl_store w'" "cl_expired w' = cl_expired w"
    by (simp_all add: carries_def engine_view_def)
  have "es_store st = cl_store w" using view by (simp add: engine_view_def)
  with kept_rows [OF doc inv _ _ w'(1)] m w'(2,3) show ?thesis by metis
qed

text \<open>C4: a retention pass gives up what its policy selects and nothing else. In every reachable state,
  after a retention pass of any instance, whatever fails in it, every block that was committed
  before, that no earlier pass has selected, and that is neither selected by the policy over the
  listed blocks nor an ancestor of a selected block, has its rows in a committed block; and a dry
  run changes nothing.\<close>

theorem retention_pass_keeps_rows:
  assumes doc: "documented env rows" and reach: "cluster_run env rows (cluster_start bucket) w" and view: "engine_view i w st"
    and run: "run_retention_pass env drop_fails mark_fails qf cfg now lease fence fence_reap st = (r, st')"
    and us: "us = set (uuids_of (plan_reaping (list_blocks (es_cat st)) cfg now))"
    and m: "m \<in> committed env (es_store st)" "objects (es_store st) (env_path env m ''parquet'') = Some b" "bm_uuid m \<notin> cl_expired w"
  shows "(bm_uuid m \<notin> given_up env (es_store st) us \<longrightarrow>
      (\<exists>m' \<in> committed env (es_store st'). \<exists>b'. objects (es_store st') (env_path env m' ''parquet'') = Some b' \<and>
         bm_uuid m \<in> family m' \<and> rows b \<subseteq># rows b')) \<and>
    (\<not> rt_apply cfg \<longrightarrow> st' = st)"
proof
  have inv: "cluster_inv env rows w" using cluster_run_inv [OF reach doc cluster_inv_start] .
  have eq: "es_store st = cl_store w" using view by (simp add: engine_view_def)
  from retention_pass_run [OF view refl run, of rows] obtain w' where
    w': "cluster_run env rows w w'" "engine_view i w' st'"
      "cl_expired w' \<subseteq> cl_expired w \<union> given_up env (cl_store w) (set (uuids_of (if rt_apply cfg then plan_reaping (list_blocks (es_cat st)) cfg now else [])))"
    by blast
  have "given_up env (cl_store w) (set (uuids_of [])) = {}" by (simp add: given_up_def uuids_of_def)
  then have sub: "cl_expired w' \<subseteq> cl_expired w \<union> given_up env (cl_store w) us" using w'(3) us by (auto split: if_splits)
  have "es_store st' = cl_store w'" using w'(2) by (simp add: engine_view_def)
  with kept_rows [OF doc inv _ _ w'(1), of m b] m sub eq
  show "bm_uuid m \<notin> given_up env (es_store st) us \<longrightarrow>
      (\<exists>m' \<in> committed env (es_store st'). \<exists>b'. objects (es_store st') (env_path env m' ''parquet'') = Some b' \<and>
         bm_uuid m \<in> family m' \<and> rows b \<subseteq># rows b')" by auto
  show "\<not> rt_apply cfg \<longrightarrow> st' = st" using run by (auto simp: run_retention_pass_def Let_def split: if_splits)
qed

text \<open>C10: the walks over the bucket are runs of the system. After an incremental poll or a full walk of
  any instance, whatever it lists, whichever requests fail and in whichever order the responses
  come, the catalog is one the instance reaches by steps of the system, and the bucket is as it
  was.\<close>

theorem walks_refine_cluster:
  assumes "reads_bucket env (es_store st) pe" and "engine_view i w st"
  shows "(\<exists>w'. cluster_run env rows w w' \<and> engine_view i w' (st\<lparr>es_cat := snd (poll_once pe list_from now_ms lookback (es_cat st))\<rparr>)) \<and>
    (\<exists>w'. cluster_run env rows w w' \<and> engine_view i w' (st\<lparr>es_cat := snd (full_walk_with_grace pe items now grace (es_cat st))\<rparr>))"
proof
  have "engine_view i w (st\<lparr>es_cat := es_cat st\<rparr>)" using assms(2) by simp
  from carries_poll_heads [OF this assms(1)]
  show "\<exists>w'. cluster_run env rows w w' \<and> engine_view i w' (st\<lparr>es_cat := snd (poll_once pe list_from now_ms lookback (es_cat st))\<rparr>)"
    unfolding poll_once_def Let_def carries_def by blast
  from carries_full_walk [OF assms]
  show "\<exists>w'. cluster_run env rows w w' \<and> engine_view i w' (st\<lparr>es_cat := snd (full_walk_with_grace pe items now grace (es_cat st))\<rparr>)"
    unfolding carries_def by blast
qed

text \<open>The first instance after the upload of a block, and a poll that reads the bucket.\<close>

definition fleet_poll :: "store \<Rightarrow> poll_env" where
  "fleet_poll s = \<lparr>pe_ymd = me_ymd fleet_env, pe_ustr = me_ustr fleet_env, pe_uparse = (\<lambda>_. None), pe_observed_at = 0,
     pe_fetch = (\<lambda>loc. case objects s loc of None \<Rightarrow> Inl NotFound | Some b \<Rightarrow> Inr b), pe_parse = me_parse fleet_env,
     pe_insert_fails = (\<lambda>_. False), pe_arrival = rev\<rparr>"

lemma fleet_reads: "reads_bucket fleet_env s (fleet_poll s)"
  by (auto simp: reads_bucket_def fleet_poll_def split: option.splits)

definition fleet_input :: "nat \<Rightarrow> pass_input" where
  "fleet_input k = \<lparr>pi_lease = LeaseAcquired, pi_poll_env = fleet_poll, pi_listing = (\<lambda>_. []), pi_now_nanos = 1, pi_relist_fails = False,
     pi_run = \<lparr>pn_writer_id = 1, pn_block_uuid = of_nat (100 + k), pn_admit = Inr, pn_fence_start = True, pn_fence_commit = True,
       pn_fence_ticks = [], pn_fence_reap = True, pn_observed_at = 0, pn_now = 1, pn_reap_now = 1, pn_apply_fails = False,
       pn_drop_fails = (\<lambda>_. False), pn_list_fails = False\<rparr>\<rparr>"

definition fleet_queries :: query_failures where
  "fleet_queries = \<lparr>qf_list = False, qf_pending = False, qf_newly_pending = False, qf_staged = False\<rparr>"

lemma fleet_instance:
  obtains w st where "cluster_run fleet_env fleet_rows (cluster_start (\<lambda>_. ''b'')) w" "engine_view 0 w st" "es_cat st = catalog_empty ''b''"
    "first_block \<in> committed fleet_env (es_store st)" "objects (es_store st) (env_path fleet_env first_block ''parquet'') = Some [9]"
    "cl_expired w = {}"
proof -
  obtain w where w: "cluster_step fleet_env fleet_rows (cluster_start (\<lambda>_. ''b'')) w"
    "first_block \<in> committed fleet_env (cl_store w)" "objects (cl_store w) (env_path fleet_env first_block ''parquet'') = Some [9]"
    "cl_cats w = (\<lambda>_. catalog_empty ''b'')" "cl_expired w = {}" by (rule fleet_upload)
  let ?st = "\<lparr>es_store = cl_store w, es_cat = cl_cats w 0, es_events = []\<rparr>"
  have "engine_view 0 w ?st" by (simp add: engine_view_def)
  from that [OF cluster_run_single [OF w(1)] this] w show thesis by simp
qed

lemma list_blocks_empty [simp]: "list_blocks (catalog_empty b) = []"
  by (simp add: list_blocks_def catalog_empty_def)

lemma plan_merges_empty [simp]: "merges (plan_merges [] cfg) = []"
  by (simp add: plan_merges_def btree_groups_def)

theorem compaction_pass_keeps_rows_witness:
  "\<exists>st r st'. first_block \<in> committed fleet_env (es_store st) \<and>
     run_compaction_pass fleet_env compact_config_default sample_config 3 1 False (\<lambda>_. False) fleet_input st = (r, st') \<and>
     (\<exists>m' \<in> committed fleet_env (es_store st'). bm_uuid first_block \<in> family m')"
proof -
  obtain w st where w: "cluster_run fleet_env fleet_rows (cluster_start (\<lambda>_. ''b'')) w" "engine_view 0 w st" "es_cat st = catalog_empty ''b''"
    "first_block \<in> committed fleet_env (es_store st)" "objects (es_store st) (env_path fleet_env first_block ''parquet'') = Some [9]"
    "cl_expired w = {}" by (rule fleet_instance)
  obtain r st' where run: "run_compaction_pass fleet_env compact_config_default sample_config 3 1 False (\<lambda>_. False) fleet_input st = (r, st')" by force
  have "\<forall>k s. reads_bucket fleet_env s (pi_poll_env (fleet_input k) s)" using fleet_reads by (simp add: fleet_input_def)
  from compaction_pass_keeps_rows [OF fleet_documented w(1,2) run refl _ _ this w(4,5)] w(3,6)
  have "\<exists>m' \<in> committed fleet_env (es_store st'). bm_uuid first_block \<in> family m'" by auto
  with w(4) run show ?thesis by blast
qed

theorem retention_pass_keeps_rows_witness:
  "\<exists>st r st'. first_block \<in> committed fleet_env (es_store st) \<and>
     run_retention_pass fleet_env (\<lambda>_. False) False fleet_queries \<lparr>rt_default_ttl = Some 1, rt_overrides = [], rt_grace = 0, rt_apply = True\<rparr> 1
       LeaseAcquired True True st = (r, st') \<and>
     (\<exists>m' \<in> committed fleet_env (es_store st'). bm_uuid first_block \<in> family m')"
proof -
  let ?cfg = "\<lparr>rt_default_ttl = Some 1, rt_overrides = [], rt_grace = 0, rt_apply = True\<rparr>"
  obtain w st where w: "cluster_run fleet_env fleet_rows (cluster_start (\<lambda>_. ''b'')) w" "engine_view 0 w st" "es_cat st = catalog_empty ''b''"
    "first_block \<in> committed fleet_env (es_store st)" "objects (es_store st) (env_path fleet_env first_block ''parquet'') = Some [9]"
    "cl_expired w = {}" by (rule fleet_instance)
  obtain r st' where run: "run_retention_pass fleet_env (\<lambda>_. False) False fleet_queries ?cfg 1 LeaseAcquired True True st = (r, st')" by force
  have "bm_uuid first_block \<notin> given_up fleet_env (es_store st) (set (uuids_of (plan_reaping (list_blocks (es_cat st)) ?cfg 1)))"
    by (simp add: w(3) plan_reaping_def uuids_of_def given_up_def)
  with retention_pass_keeps_rows [OF fleet_documented w(1,2) run refl w(4,5)] w(6)
  have "\<exists>m' \<in> committed fleet_env (es_store st'). bm_uuid first_block \<in> family m'" by auto
  with w(4) run show ?thesis by blast
qed

theorem walks_refine_cluster_witness:
  "\<exists>w st w'. engine_view 0 w st \<and> cluster_run fleet_env fleet_rows w w' \<and>
     engine_view 0 w' (st\<lparr>es_cat := snd (full_walk_with_grace (fleet_poll (es_store st))
       [Listed (env_path fleet_env first_block ''meta.json'')] 1 0 (es_cat st))\<rparr>)"
proof -
  obtain w st where w: "engine_view 0 w st" by (rule fleet_instance)
  from walks_refine_cluster [OF fleet_reads w, of fleet_rows "\<lambda>_ _. []" 0 0
      "[Listed (env_path fleet_env first_block ''meta.json'')]" 1 0] w show ?thesis by blast
qed

end
