(* ===== verification/Poll_Props.thy ===== *)
theory Poll_Props
  imports Poll
begin

text \<open>
  What the poller of \<^verbatim>\<open>src/crates/cluster/src/poll.rs\<close> guarantees: the keys blocks are written under are
  read back, the look-back lists every block it should, and no cursor moves past a gap.
\<close>

section \<open>Reading keys\<close>

lemma split_on_ConsD:
  "split_on d s = x # xs \<Longrightarrow> d \<notin> set x \<and> (if xs = [] then s = x else \<exists>s'. s = x @ d # s' \<and> split_on d s' = xs)"
proof (induction s arbitrary: x xs)
  case (Cons c cs)
  obtain y ys where y: "split_on d cs = y # ys" by (metis neq_Nil_conv split_on_not_Nil)
  from Cons.IH [OF y] Cons.prems y show ?case by (auto split: if_splits)
qed simp

lemma parse_prefix_SomeD:
  assumes "parse_prefix uparse p = Some parts"
  shows "\<exists>t. p = pp_signal parts @ ''/'' @ pp_yyyy parts @ ''/'' @ pp_mm parts @ ''/'' @ pp_dd parts @ ''/'' @ t @ ''/'' \<and>
    uparse t = Some (pp_writer_id parts) \<and> CHR ''/'' \<notin> set t \<and>
    list_all is_ascii_digit (pp_yyyy parts @ pp_mm parts @ pp_dd parts)"
proof -
  obtain s where s: "p = s @ ''/''" "strip_suffix ''/'' p = Some s"
    using assms by (auto simp: parse_prefix_def strip_suffix_SomeD split: option.splits)
  obtain a b c e t where split: "split_on CHR ''/'' s = [a, b, c, e, t]"
    and ok: "list_all is_ascii_digit (b @ c @ e)" "\<exists>w. uparse t = Some w \<and> parts = \<lparr>pp_signal = a, pp_yyyy = b, pp_mm = c, pp_dd = e, pp_writer_id = w\<rparr>"
    using assms s(2) by (auto simp: parse_prefix_def split: list.splits if_splits)
  have "s = a @ ''/'' @ b @ ''/'' @ c @ ''/'' @ e @ ''/'' @ t \<and> CHR ''/'' \<notin> set t"
    using split_on_ConsD [OF split] by (force dest: split_on_ConsD)
  with s ok show ?thesis by auto
qed

lemma digits_no_dash: "list_all is_ascii_digit s \<Longrightarrow> replace_char CHR ''-'' CHR ''/'' s = s"
proof -
  have "\<not> is_ascii_digit CHR ''-''" by (simp add: is_ascii_digit_def less_eq_char_def)
  moreover assume "list_all is_ascii_digit s"
  ultimately show ?thesis by (induction s) (auto simp: replace_char_def)
qed

text \<open>A prefix with the canonical text of its writer is the one its parts name.\<close>

definition canonical_prefix :: "poll_env \<Rightarrow> string \<Rightarrow> bool" where
  "canonical_prefix env p \<longleftrightarrow> (\<forall>parts. parse_prefix (pe_uparse env) p = Some parts \<longrightarrow>
     p = partition_prefix (pe_ustr env) (pp_signal parts) (prefix_date parts) (pp_writer_id parts))"

definition uuid_text :: "(uuid \<Rightarrow> string) \<Rightarrow> (string \<Rightarrow> uuid option) \<Rightarrow> bool" where
  "uuid_text ustr uparse \<longleftrightarrow> (\<forall>u. uparse (ustr u) = Some u \<and> CHR ''/'' \<notin> set (ustr u))"

lemma canonical_parts:
  assumes "list_all is_ascii_digit (pp_yyyy parts @ pp_mm parts @ pp_dd parts)"
  shows "partition_prefix ustr (pp_signal parts) (prefix_date parts) w =
    pp_signal parts @ ''/'' @ pp_yyyy parts @ ''/'' @ pp_mm parts @ ''/'' @ pp_dd parts @ ''/'' @ ustr w @ ''/''"
proof -
  have "replace_char CHR ''-'' CHR ''/'' (a @ CHR ''-'' # b) = replace_char CHR ''-'' CHR ''/'' a @ CHR ''/'' # replace_char CHR ''-'' CHR ''/'' b" for a b
    by (simp add: replace_char_def)
  with assms show ?thesis by (simp add: partition_prefix_def prefix_date_def digits_no_dash)
qed

lemma last_segment:
  assumes "CHR ''/'' \<notin> set t" and "CHR ''/'' \<notin> set t'" and "a @ CHR ''/'' # t @ ''/'' = b @ CHR ''/'' # t' @ ''/''"
  shows "t = t'"
proof -
  have "a @ CHR ''/'' # t = b @ CHR ''/'' # t'" using arg_cong [OF assms(3), of butlast] by (simp add: butlast_append)
  moreover have "takeWhile (\<lambda>c. c \<noteq> CHR ''/'') (rev (x @ CHR ''/'' # y)) = rev y" if "CHR ''/'' \<notin> set y" for x y
    using that by (simp add: takeWhile_tail) (metis set_rev takeWhile_eq_all_conv)
  ultimately show ?thesis using assms(1,2) by (metis rev_rev_ident)
qed

lemma own_prefix_canonical:
  assumes "uuid_text (pe_ustr env) (pe_uparse env)"
  shows "canonical_prefix env (own_prefix env bm)"
  unfolding canonical_prefix_def
proof (intro allI impI)
  fix parts assume p: "parse_prefix (pe_uparse env) (own_prefix env bm) = Some parts"
  from parse_prefix_SomeD [OF p] obtain t where
    t: "own_prefix env bm = (pp_signal parts @ ''/'' @ pp_yyyy parts @ ''/'' @ pp_mm parts @ ''/'' @ pp_dd parts) @ CHR ''/'' # t @ ''/''"
      "pe_uparse env t = Some (pp_writer_id parts)" "CHR ''/'' \<notin> set t"
    and digits: "list_all is_ascii_digit (pp_yyyy parts @ pp_mm parts @ pp_dd parts)" by auto
  have "own_prefix env bm = (bm_signal bm @ ''/'' @ replace_char CHR ''-'' CHR ''/'' (format_date (pe_ymd env) (bm_ts_min_unix_nano bm)))
      @ CHR ''/'' # pe_ustr env (bm_writer_id bm) @ ''/''"
    by (simp add: own_prefix_def partition_prefix_def)
  from trans [OF t(1) [symmetric] this] have "t = pe_ustr env (bm_writer_id bm)"
    by (rule last_segment [OF t(3), rotated]) (use assms in \<open>simp add: uuid_text_def\<close>)
  with t(2) assms have "t = pe_ustr env (pp_writer_id parts)" by (auto simp: uuid_text_def)
  with t(1) show "own_prefix env bm = partition_prefix (pe_ustr env) (pp_signal parts) (prefix_date parts) (pp_writer_id parts)"
    using canonical_parts [OF digits] by simp
qed

section \<open>What a pass leaves behind\<close>

lemma sidecar_known:
  "insert_block ymd t cat bm = (new, cat') \<Longrightarrow> has_block cat' (bm_uuid bm) \<and> (has_block cat u \<longrightarrow> has_block cat' u)"
proof -
  assume ins: "insert_block ymd t cat bm = (new, cat')"
  have "blocks cat' = map (claimed bm) (blocks cat @ insert_row ymd cat bm)"
    using insert_block_blocks [of ymd t cat bm] ins by simp
  then have "c_uuid ` set (blocks cat') = c_uuid ` set (blocks cat) \<union> c_uuid ` set (insert_row ymd cat bm)"
    by (simp add: image_Un image_image)
  moreover have "bm_uuid bm \<in> c_uuid ` set (blocks cat) \<union> c_uuid ` set (insert_row ymd cat bm)"
    by (auto simp: insert_row_def has_block_def)
  ultimately show ?thesis by (simp add: has_block_def)
qed

lemma cursors_insert: "insert_block ymd t cat bm = (new, cat') \<Longrightarrow> poll_cursors cat' = poll_cursors cat"
proof -
  have "poll_cursors (fold (apply_ancestor t bm d) us c) = poll_cursors c" for d us c
    by (induction us arbitrary: c) (simp_all add: apply_ancestor_def)
  then show "insert_block ymd t cat bm = (new, cat') \<Longrightarrow> ?thesis"
    by (auto simp: insert_block_def apply_lineage_in_def advance_watermark_in_def Let_def split: option.splits)
qed

text \<open>A listed key is settled when its block is gone, in the catalog, or holds its prefix back.\<close>

definition settled :: "poll_env \<Rightarrow> fetch_state \<Rightarrow> string \<Rightarrow> bool" where
  "settled env st loc \<longleftrightarrow> pe_fetch env loc = Inl NotFound \<or>
     (\<exists>body bm. pe_fetch env loc = Inr body \<and> pe_parse env body = Some bm \<and> has_block (fs_cat st) (bm_uuid bm)) \<or>
     (\<forall>key. parse_block_key (pe_uparse env) loc = Some key \<longrightarrow> bk_prefix key \<in> fs_poisoned st)"

definition high_canonical :: "poll_env \<Rightarrow> (string \<times> uuid) list \<Rightarrow> bool" where
  "high_canonical env high \<longleftrightarrow> (\<forall>p \<in> fst ` set high. canonical_prefix env p)"

lemma high_canonical_bump:
  assumes "high_canonical env high" and "canonical_prefix env p"
  shows "high_canonical env (bump_high p u high)"
  unfolding high_canonical_def
proof
  fix q assume "q \<in> fst ` set (bump_high p u high)"
  then have "q \<in> insert p (fst ` set high)"
    using upsert_if_keys [of "\<lambda>current. u > current" p u high] by (cases "get_version_num u = 7") (simp_all add: bump_high_def)
  with assms show "canonical_prefix env q" by (auto simp: high_canonical_def)
qed

lemma fetch_one_settles:
  assumes "fetch_one env loc st = Some st'" and utext: "uuid_text (pe_ustr env) (pe_uparse env)" and "high_canonical env (fs_high st)"
  shows "settled env st' loc \<and> (\<forall>loc'. settled env st loc' \<longrightarrow> settled env st' loc') \<and> high_canonical env (fs_high st') \<and>
      poll_cursors (fs_cat st') = poll_cursors (fs_cat st)"
proof (cases "pe_fetch env loc")
  case (Inl e)
  with assms show ?thesis
    by (auto simp: fetch_one_def settled_def poison_def Let_def split: if_splits option.splits)
next
  case (Inr body)
  show ?thesis
  proof (cases "pe_parse env body")
    case None
    with Inr assms show ?thesis by (auto simp: fetch_one_def settled_def poison_def Let_def split: option.splits)
  next
    case (Some bm)
    obtain new cat where ins: "insert_block (pe_ymd env) (pe_observed_at env) (fs_cat st) (fetched_meta body bm) = (new, cat)" by force
    have [simp]: "bm_uuid (fetched_meta body bm) = bm_uuid bm" by (simp add: fetched_meta_def)
    from Inr Some ins assms(1) have st': "fs_cat st' = cat" "fs_poisoned st' = fs_poisoned st"
      "fs_high st' = bump_high (own_prefix env (fetched_meta body bm)) (bm_uuid bm) (fs_high st)"
      by (auto simp: fetch_one_def Let_def split: if_splits)
    show ?thesis using Inr Some sidecar_known [OF ins] cursors_insert [OF ins] st'
        high_canonical_bump [OF assms(3) own_prefix_canonical [OF utext]] by (auto simp: settled_def)
  qed
qed

lemma fetch_loop_settles:
  assumes utext: "uuid_text (pe_ustr env) (pe_uparse env)"
  shows "fetch_loop env locs st = (True, st') \<Longrightarrow> high_canonical env (fs_high st) \<Longrightarrow>
    (\<forall>loc. loc \<in> set locs \<or> settled env st loc \<longrightarrow> settled env st' loc) \<and> high_canonical env (fs_high st') \<and>
    poll_cursors (fs_cat st') = poll_cursors (fs_cat st)"
proof (induction locs arbitrary: st)
  case (Cons loc locs)
  then obtain st1 where st1: "fetch_one env loc st = Some st1" "fetch_loop env locs st1 = (True, st')"
    by (auto split: option.splits)
  note one = fetch_one_settles [OF st1(1) utext Cons.prems(2)]
  from Cons.IH [OF st1(2)] one show ?case by auto
qed simp

lemma split_known_high:
  assumes "\<forall>loc \<in> set locs. \<forall>key. parse_block_key (pe_uparse env) loc = Some key \<longrightarrow> canonical_prefix env (bk_prefix key)"
  shows "split_known env known locs high report = (fs, h, r) \<Longrightarrow> high_canonical env high \<Longrightarrow>
    high_canonical env h \<and> (\<forall>loc \<in> set locs. loc \<in> set fs \<or>
      (\<exists>ks key. known = Some ks \<and> parse_block_key (pe_uparse env) loc = Some key \<and> bk_uuid key \<in> ks))"
  using assms
proof (induction locs arbitrary: high report fs h r)
  case (Cons loc locs)
  show ?case
  proof (cases "\<exists>ks key. known = Some ks \<and> parse_block_key (pe_uparse env) loc = Some key \<and> bk_uuid key \<in> ks")
    case True
    then obtain ks key where k: "known = Some ks" "parse_block_key (pe_uparse env) loc = Some key" "bk_uuid key \<in> ks" by blast
    with Cons.prems have run: "split_known env known locs (bump_high (bk_prefix key) (bk_uuid key) high)
        (report\<lparr>pl_seen := pl_seen report + 1, pl_skipped := pl_skipped report + 1\<rparr>) = (fs, h, r)" by simp
    have "high_canonical env (bump_high (bk_prefix key) (bk_uuid key) high)"
      using high_canonical_bump [OF Cons.prems(2)] Cons.prems(3) k(2) by simp
    from Cons.IH [OF run this] Cons.prems(3) k show ?thesis by auto
  next
    case False
    obtain fs' h' r' where rest: "split_known env known locs high report = (fs', h', r')" by (metis prod.exhaust)
    with False Cons.prems have "fs = loc # fs'" "h = h'" by (auto split: option.splits if_splits)
    with Cons.IH [OF rest Cons.prems(2)] Cons.prems(3) show ?thesis by auto
  qed
qed simp

text \<open>Entries of other prefixes, and entries held back, leave a cursor alone.\<close>

lemma advance_cursors_other:
  assumes "\<forall>p \<in> fst ` set high. p \<notin> poisoned \<longrightarrow> (\<forall>parts. parse_prefix (pe_uparse env) p = Some parts \<longrightarrow>
      (pp_signal parts, pp_writer_id parts, prefix_date parts) \<noteq> (s, w, d))"
  shows "get_cursor (advance_cursors env poisoned high cat) s w d = get_cursor cat s w d"
  using assms
proof (induction env poisoned high cat rule: advance_cursors.induct)
  case (2 env poisoned prefix u high cat)
  have other: "get_cursor (advance_cursor s' w' d' u cat) s w d = get_cursor cat s w d" if "(s', w', d') \<noteq> (s, w, d)" for s' w' d'
    using that by (auto simp: advance_cursor_def get_cursor_def map_of_upsert_if)
  show ?case using 2 other by (auto split: option.splits)
qed simp

lemma has_block_advance: "has_block (advance_cursors env poisoned high cat) u \<longleftrightarrow> has_block cat u"
proof -
  have "blocks (advance_cursors env poisoned high cat) = blocks cat"
    by (induction env poisoned high cat rule: advance_cursors.induct) (auto simp: advance_cursor_def split: option.splits)
  then show ?thesis by (simp add: has_block_def)
qed

lemma poll_settles:
  assumes run: "fetch_and_apply env locs known report cat = (Some report', cat')"
    and utext: "uuid_text (pe_ustr env) (pe_uparse env)" and arrival: "\<And>xs. set (pe_arrival env xs) = set xs"
    and canonical: "\<forall>loc \<in> set locs. \<forall>key. parse_block_key (pe_uparse env) loc = Some key \<longrightarrow> canonical_prefix env (bk_prefix key)"
    and loc: "loc \<in> set locs" "parse_block_key (pe_uparse env) loc = Some key" "\<forall>ks. known = Some ks \<longrightarrow> bk_uuid key \<notin> ks"
  obtains st where "settled env st loc" "high_canonical env (fs_high st)" "poll_cursors (fs_cat st) = poll_cursors cat"
    "cat' = advance_cursors env (fs_poisoned st) (fs_high st) (fs_cat st)"
proof -
  obtain fs high report1 where split: "split_known env known locs [] report = (fs, high, report1)" by (metis prod.exhaust)
  have "high_canonical env []" by (simp add: high_canonical_def)
  note known = split_known_high [OF canonical split this]
  then have "loc \<in> set (pe_arrival env fs)" using loc arrival by force
  let ?st = "\<lparr>fs_cat = cat, fs_high = high, fs_poisoned = {}, fs_report = report1\<rparr>"
  obtain ok st where loop: "fetch_loop env (pe_arrival env fs) ?st = (ok, st)" by force
  with run split have ok: "ok" and cat': "cat' = advance_cursors env (fs_poisoned st) (fs_high st) (fs_cat st)"
    by (auto simp: fetch_and_apply_def split: if_splits)
  from fetch_loop_settles [OF utext loop [unfolded ok [THEN eqTrueI]]] known \<open>loc \<in> set (pe_arrival env fs)\<close> that [of st] cat'
  show thesis by simp
qed

section \<open>The look-back\<close>

lemma unat_push_80: "n < 2 ^ 48 \<Longrightarrow> unat (push_bit 80 (of_nat n :: uuid)) = n * 2 ^ 80"
proof -
  assume n: "n < 2 ^ 48"
  have "push_bit 80 (of_nat n :: uuid) = of_nat (n * 2 ^ 80)" by (simp add: push_bit_eq_mult)
  moreover have "n * 2 ^ 80 < 2 ^ LENGTH(128)" using n by simp
  ultimately show ?thesis by (simp only: unat_of_nat) (simp add: mod_less)
qed

lemma unat_drop_uuid: "unat (drop_bit n (u :: uuid)) = unat u div 2 ^ n"
proof -
  have "take_bit LENGTH(128) (unat u) = unat u" using unsigned_less [of u, where ?'a = nat] by (simp add: take_bit_nat_eq_self)
  then show ?thesis by (simp only: unsigned_drop_bit_eq drop_bit_eq_div [where ?'a = nat])
qed

lemma less_append_text: "(s :: string) < t \<Longrightarrow> s < t @ r"
proof (induction s arbitrary: t)
  case Nil
  then show ?case by (cases t) auto
next
  case (Cons c s)
  then show ?case by (cases t) auto
qed

lemma append_less_text: "(s :: string) < t \<Longrightarrow> p @ s < p @ t @ r"
  by (induction p) (simp_all add: less_append_text)

lemma lookback_before:
  assumes "lookback_uuid cursor start = Some o'" and u: "get_version_num u = 7" "min (v7_millis cursor) start \<le> v7_millis u"
  shows "o' < u"
proof -
  let ?ms = "unat (min (v7_millis cursor) start)"
  have millis: "unat (v7_millis x) = unat x div 2 ^ 80" for x :: uuid
  proof -
    have "unat (drop_bit 80 x) = unat x div 2 ^ 80" by (rule unat_drop_uuid)
    moreover have "unat x div 2 ^ 80 < 2 ^ 64" using unsigned_less [of x, where ?'a = nat] by simp
    ultimately show ?thesis unfolding v7_millis_def by (simp add: unsigned_ucast_eq take_bit_nat_eq_self)
  qed
  have small: "?ms < 2 ^ 48"
  proof -
    have "?ms \<le> unat (v7_millis cursor)" by (simp add: word_le_nat_alt [symmetric])
    also have "\<dots> < 2 ^ 48" using unsigned_less [of cursor, where ?'a = nat] by (simp add: millis)
    finally show ?thesis .
  qed
  have "o' = push_bit 80 (of_nat ?ms)"
  proof -
    have "take_bit 48 (min (v7_millis cursor) start) = min (v7_millis cursor) start"
      using small by (simp add: word_unat_eq_iff unsigned_take_bit_eq take_bit_nat_eq_self)
    with assms(1) show ?thesis by (auto simp: lookback_uuid_def split: if_splits)
  qed
  then have o': "unat o' = ?ms * 2 ^ 80" using unat_push_80 [OF small] by simp
  have "?ms \<le> unat u div 2 ^ 80" using u(2) by (simp add: word_le_nat_alt millis)
  then have le: "?ms * 2 ^ 80 \<le> unat u" by (simp add: less_eq_div_iff_mult_less_eq)
  have "?ms * 2 ^ 80 \<noteq> unat u"
  proof
    assume "?ms * 2 ^ 80 = unat u"
    then have "unat u div 2 ^ 76 = ?ms * 16" by simp
    moreover have "unat (drop_bit 76 u) = unat u div 2 ^ 76" by (rule unat_drop_uuid)
    ultimately show False using u(1) by (simp only: get_version_num_def) simp
  qed
  with le o' show ?thesis by (simp add: word_less_nat_alt)
qed

section \<open>Properties\<close>

definition prefix_parts_wf :: "prefix_parts \<Rightarrow> bool" where
  "prefix_parts_wf parts \<longleftrightarrow> pp_signal parts \<noteq> [] \<and> CHR ''/'' \<notin> set (pp_signal parts) \<and>
     length (pp_yyyy parts) = 4 \<and> length (pp_mm parts) = 2 \<and> length (pp_dd parts) = 2 \<and>
     list_all is_ascii_digit (pp_yyyy parts @ pp_mm parts @ pp_dd parts)"

definition prefix_text :: "prefix_parts \<Rightarrow> string \<Rightarrow> string" where
  "prefix_text parts t =
     pp_signal parts @ ''/'' @ pp_yyyy parts @ ''/'' @ pp_mm parts @ ''/'' @ pp_dd parts @ ''/'' @ t @ ''/''"

lemma digits_no_slash: "list_all is_ascii_digit s \<Longrightarrow> CHR ''/'' \<notin> set s"
proof -
  have "\<not> is_ascii_digit CHR ''/''" by (simp add: is_ascii_digit_def less_eq_char_def)
  then show "list_all is_ascii_digit s \<Longrightarrow> ?thesis" by (auto simp: list_all_iff)
qed

lemma parse_prefix_text:
  assumes "prefix_parts_wf parts" and "CHR ''/'' \<notin> set t"
  shows "parse_prefix uparse (prefix_text parts t) = map_option (\<lambda>w. parts\<lparr>pp_writer_id := w\<rparr>) (uparse t)"
proof -
  let ?s = "pp_signal parts @ CHR ''/'' # pp_yyyy parts @ CHR ''/'' # pp_mm parts @ CHR ''/'' # pp_dd parts @ CHR ''/'' # t"
  have "strip_suffix ''/'' (?s @ ''/'') = Some ?s" by (rule strip_suffix_append)
  then have "strip_suffix ''/'' (prefix_text parts t) = Some ?s" by (simp add: prefix_text_def)
  moreover have "split_on CHR ''/'' ?s = [pp_signal parts, pp_yyyy parts, pp_mm parts, pp_dd parts, t]"
    using assms by (simp add: prefix_parts_wf_def split_on_append split_on_notin digits_no_slash)
  ultimately show ?thesis using assms(1) by (cases "uparse t") (simp_all add: parse_prefix_def prefix_parts_wf_def)
qed

lemma parse_prefix_wf: "parse_prefix uparse p = Some parts \<Longrightarrow> prefix_parts_wf parts"
proof -
  assume p: "parse_prefix uparse p = Some parts"
  then obtain s a b c e t where split: "split_on CHR ''/'' s = [a, b, c, e, t]"
    and parts: "a \<noteq> []" "length b = 4" "length c = 2" "length e = 2" "list_all is_ascii_digit (b @ c @ e)"
      "\<exists>w. parts = \<lparr>pp_signal = a, pp_yyyy = b, pp_mm = c, pp_dd = e, pp_writer_id = w\<rparr>"
    by (auto simp: parse_prefix_def split: option.splits list.splits if_splits)
  from split_on_ConsD [OF split] have "CHR ''/'' \<notin> set a" by simp
  with parts show ?thesis by (auto simp: prefix_parts_wf_def)
qed

lemma rsplit_once_app: "d \<notin> set t \<Longrightarrow> rsplit_once d (s @ d # t) = Some (s, t)"
proof -
  assume "d \<notin> set t"
  then have "d \<notin> set (rev t)" by simp
  moreover have "takeWhile (\<lambda>x. x \<noteq> d) (r @ d # q) = r \<and> dropWhile (\<lambda>x. x \<noteq> d) (r @ d # q) = d # q" if "d \<notin> set r" for r q
    using that by (induction r) auto
  ultimately show ?thesis by (simp add: rsplit_once_def)
qed

text \<open>The partition prefixes the poller accepts are exactly \<^verbatim>\<open>signal/yyyy/mm/dd/writer/\<close> with a signal
  that is not empty and has no slash, four, two and two ASCII digits, and a writer the UUID parser
  reads; the parts it returns are the ones spelled there.
\<close>

lemma parse_prefix_accepts:
  "parse_prefix uparse p = Some parts \<longleftrightarrow>
     prefix_parts_wf parts \<and> (\<exists>t. p = prefix_text parts t \<and> CHR ''/'' \<notin> set t \<and> uparse t = Some (pp_writer_id parts))"
proof
  assume p: "parse_prefix uparse p = Some parts"
  then show "prefix_parts_wf parts \<and> (\<exists>t. p = prefix_text parts t \<and> CHR ''/'' \<notin> set t \<and> uparse t = Some (pp_writer_id parts))"
    using parse_prefix_wf [OF p] parse_prefix_SomeD [OF p] by (auto simp: prefix_text_def)
qed (auto simp: parse_prefix_text)

text \<open>The key under which the writer stores the sidecar of a block is read back by the poller as the
  prefix of the block's partition and its UUID. The text of a UUID is assumed to be read back by the
  parser and to have no slash, a date to have four, two and two digits.
\<close>

lemma block_key_roundtrip:
  assumes "uuid_text ustr uparse" and "signal \<noteq> []" and "CHR ''/'' \<notin> set signal"
    and "ymd (ts div 1000000000) = (y, m, d)"
    and "length y = 4" and "length m = 2" and "length d = 2" and "list_all is_ascii_digit (y @ m @ d)"
  shows "parse_block_key uparse (block_path ymd ustr signal ts w u ''meta.json'') =
    Some \<lparr>bk_prefix = partition_prefix ustr signal (format_date ymd ts) w, bk_uuid = u\<rparr>"
proof -
  let ?parts = "\<lparr>pp_signal = signal, pp_yyyy = y, pp_mm = m, pp_dd = d, pp_writer_id = w\<rparr>"
  have wf: "prefix_parts_wf ?parts" using assms by (simp add: prefix_parts_wf_def)
  have slash: "CHR ''/'' \<notin> set (ustr x)" "uparse (ustr x) = Some x" for x using assms(1) by (auto simp: uuid_text_def)
  define dir where "dir = signal @ ''/'' @ y @ ''/'' @ m @ ''/'' @ d @ ''/'' @ ustr w"
  have dir: "dir @ ''/'' = prefix_text ?parts (ustr w)" by (simp add: dir_def prefix_text_def)
  have "partition_prefix ustr signal (format_date ymd ts) w = dir @ ''/''"
    using canonical_parts [of ?parts ustr w] assms(4,8) by (simp add: dir_def format_date_def prefix_date_def)
  moreover have "block_path ymd ustr signal ts w u ''meta.json'' = (dir @ CHR ''/'' # ustr u) @ ''.meta.json''"
    using assms(4) by (simp add: block_path_def dir_def)
  ultimately show ?thesis
    using parse_prefix_text [OF wf slash(1), of uparse w] dir
    by (simp only: parse_block_key_def strip_suffix_append option.case rsplit_once_app [OF slash(1)] prod.case slash) simp
qed

text \<open>An instance with short UUIDs, whose text is as long as their number.\<close>

definition unary_ustr :: "uuid \<Rightarrow> string" where
  "unary_ustr u = replicate (unat u) CHR ''a''"

definition unary_uparse :: "string \<Rightarrow> uuid option" where
  "unary_uparse t = Some (of_nat (length t))"

definition first_day :: "u64 \<Rightarrow> string \<times> string \<times> string" where
  "first_day secs = (''1970'', ''01'', ''01'')"

lemma unary_uuid_text: "uuid_text unary_ustr unary_uparse"
  by (simp add: uuid_text_def unary_ustr_def unary_uparse_def)

text \<open>The look-back of an incremental poll lists every block it should. If the cursor is a version 7
  UUID, an offset is passed to the listing, and the key of every version 7 block whose timestamp is at
  or after the start of the window, or at or after the cursor's own, sorts strictly after it. The text
  of UUIDs is assumed to sort as they do.
\<close>

lemma lookback_lists_recent:
  assumes "\<And>a b. a < b \<Longrightarrow> ustr a < ustr b" and "get_version_num cursor = 7"
    and "get_version_num u = 7" and "window_start_ms \<le> v7_millis u \<or> v7_millis cursor \<le> v7_millis u"
  shows "\<exists>offset. lookback_offset ustr prefix cursor window_start_ms = Some offset \<and> offset < prefix @ ustr u @ ''.meta.json''"
proof -
  obtain b where b: "lookback_uuid cursor window_start_ms = Some b" using assms(2) by (simp add: lookback_uuid_def)
  moreover have "min (v7_millis cursor) window_start_ms \<le> v7_millis u" using assms(4) by (auto simp: min_le_iff_disj)
  ultimately have "b < u" using lookback_before [OF b assms(3)] by simp
  with assms(1) b show ?thesis by (auto simp: lookback_offset_def intro: append_less_text)
qed

text \<open>
  C16: no cursor moves past a gap. After a pass that returns, for every listed block the catalog did
  not know, the sidecar was gone, or it is now in the catalog, or the cursor of its partition is where
  it was. Responses are assumed to arrive in any order, none lost, and keys to spell the UUID of the
  writer as the writer does.
\<close>

theorem poll_no_gap:
  assumes run: "fetch_and_apply env locs known report cat = (Some report', cat')"
    and utext: "uuid_text (pe_ustr env) (pe_uparse env)" and arrival: "\<And>xs. set (pe_arrival env xs) = set xs"
    and canonical: "\<forall>loc \<in> set locs. \<forall>key. parse_block_key (pe_uparse env) loc = Some key \<longrightarrow> canonical_prefix env (bk_prefix key)"
    and loc: "loc \<in> set locs" "parse_block_key (pe_uparse env) loc = Some key" "\<forall>ks. known = Some ks \<longrightarrow> bk_uuid key \<notin> ks"
    and parts: "parse_prefix (pe_uparse env) (bk_prefix key) = Some parts"
  shows "pe_fetch env loc = Inl NotFound \<or>
    (\<exists>body bm. pe_fetch env loc = Inr body \<and> pe_parse env body = Some bm \<and> has_block cat' (bm_uuid bm)) \<or>
    get_cursor cat' (pp_signal parts) (pp_writer_id parts) (prefix_date parts) =
      get_cursor cat (pp_signal parts) (pp_writer_id parts) (prefix_date parts)"
proof -
  obtain st where st: "settled env st loc" "high_canonical env (fs_high st)" "poll_cursors (fs_cat st) = poll_cursors cat"
    and cat': "cat' = advance_cursors env (fs_poisoned st) (fs_high st) (fs_cat st)"
    using poll_settles [OF run utext arrival canonical loc] by blast
  have same: "p = bk_prefix key" if "p \<in> fst ` set (fs_high st)" "parse_prefix (pe_uparse env) p = Some parts'"
    "(pp_signal parts', pp_writer_id parts', prefix_date parts') = (pp_signal parts, pp_writer_id parts, prefix_date parts)" for p parts'
    using st(2) that canonical loc parts by (auto simp: high_canonical_def canonical_prefix_def)
  have "get_cursor cat' (pp_signal parts) (pp_writer_id parts) (prefix_date parts) =
      get_cursor (fs_cat st) (pp_signal parts) (pp_writer_id parts) (prefix_date parts)" if "bk_prefix key \<in> fs_poisoned st"
    unfolding cat'
  proof (rule advance_cursors_other, intro ballI impI allI notI)
    fix p parts' assume free: "p \<notin> fs_poisoned st" and "p \<in> fst ` set (fs_high st)" "parse_prefix (pe_uparse env) p = Some parts'"
      "(pp_signal parts', pp_writer_id parts', prefix_date parts') = (pp_signal parts, pp_writer_id parts, prefix_date parts)"
    from same [OF this(2-)] that free show False by simp
  qed
  then show ?thesis using st(1,3) loc(2) by (auto simp: settled_def cat' has_block_advance get_cursor_def)
qed

text \<open>A bucket of one sidecar whose GET is denied.\<close>

definition denied_env :: poll_env where
  "denied_env = \<lparr>pe_ymd = first_day, pe_ustr = unary_ustr, pe_uparse = unary_uparse, pe_observed_at = 0,
     pe_fetch = (\<lambda>_. Inl Denied), pe_parse = (\<lambda>_. None), pe_insert_fails = (\<lambda>_. False), pe_arrival = rev\<rparr>"

lemma unary_ustr_2: "unary_ustr 2 = ''aa''"
  by code_simp

lemma denied_key:
  "parse_block_key unary_uparse ''l/1970/01/01/aa/a.meta.json'' = Some \<lparr>bk_prefix = ''l/1970/01/01/aa/'', bk_uuid = 1\<rparr>"
  "parse_prefix unary_uparse ''l/1970/01/01/aa/'' =
     Some \<lparr>pp_signal = ''l'', pp_yyyy = ''1970'', pp_mm = ''01'', pp_dd = ''01'', pp_writer_id = 2\<rparr>"
  by code_simp+

theorem poll_no_gap_witness:
  "get_cursor (snd (fetch_and_apply denied_env [''l/1970/01/01/aa/a.meta.json''] (Some {}) poll_report_default
     (catalog_empty ''b''))) ''l'' 2 ''1970-01-01'' = None"
proof -
  let ?loc = "''l/1970/01/01/aa/a.meta.json''"
  let ?parts = "\<lparr>pp_signal = ''l'', pp_yyyy = ''1970'', pp_mm = ''01'', pp_dd = ''01'', pp_writer_id = 2\<rparr>"
  obtain report' cat' where run: "fetch_and_apply denied_env [?loc] (Some {}) poll_report_default (catalog_empty ''b'') = (Some report', cat')"
    by (simp add: fetch_and_apply_def denied_env_def denied_key fetch_one_def)
  have "get_cursor cat' (pp_signal ?parts) (pp_writer_id ?parts) (prefix_date ?parts) =
      get_cursor (catalog_empty ''b'') (pp_signal ?parts) (pp_writer_id ?parts) (prefix_date ?parts)"
    using poll_no_gap [OF run, of ?loc "\<lparr>bk_prefix = ''l/1970/01/01/aa/'', bk_uuid = 1\<rparr>" ?parts] unary_uuid_text denied_key
    by (simp add: denied_env_def canonical_prefix_def partition_prefix_def prefix_date_def replace_char_def unary_ustr_2)
  with run show ?thesis by (simp add: prefix_date_def get_cursor_def catalog_empty_def)
qed

end
