(* ===== verification/Lease_Props.thy ===== *)
theory Lease_Props
  imports Convergence
begin

text \<open>
  Mutual exclusion of the in-process lease provider, \<^verbatim>\<open>src/crates/cluster/src/lease.rs\<close>: it holds while
  the two halves of a release, \<open>release\<close> itself and the drop of the guard it consumed, are not
  interleaved with an acquisition, and fails when they are.
\<close>

text \<open>\<open>release\<close> consumes the guard: it relinquishes, and the guard's drop relinquishes again.\<close>

definition release_guard :: "nat \<Rightarrow> local_leases \<Rightarrow> local_leases" where
  "release_guard g l = relinquish g (relinquish g l)"

text \<open>\<open>alive\<close> are the guards that are owned; a guard is released or dropped at most once.\<close>

inductive lease_run :: "local_leases \<Rightarrow> nat set \<Rightarrow> bool" where
  lease_new: "lease_run local_leases_new {}"
| lease_acquire: "lease_run l alive \<Longrightarrow> try_acquire key l = (Some g, l') \<Longrightarrow> lease_run l' (insert g alive)"
| lease_drop: "lease_run l alive \<Longrightarrow> g \<in> alive \<Longrightarrow> lease_run (relinquish g l) (alive - {g})"
| lease_release: "lease_run l alive \<Longrightarrow> g \<in> alive \<Longrightarrow> lease_run (release_guard g l) (alive - {g})"

definition lease_inv :: "local_leases \<Rightarrow> nat set \<Rightarrow> bool" where
  "lease_inv l alive \<longleftrightarrow> (\<forall>g. ll_fences l g \<longleftrightarrow> g \<in> alive) \<and> ll_held l = ll_keys l ` alive \<and>
     inj_on (ll_keys l) alive \<and> (\<forall>g \<in> alive. g < ll_next l)"

lemma relinquish_twice: "relinquish g (relinquish g l) = relinquish g l"
  by (simp add: relinquish_def)

lemma lease_inv_relinquish:
  assumes "lease_inv l alive" and "g \<in> alive"
  shows "lease_inv (relinquish g l) (alive - {g})"
proof -
  have "ll_keys l ` alive - {ll_keys l g} = ll_keys l ` (alive - {g})"
    using assms inj_on_image_set_diff [of "ll_keys l" alive alive "{g}"] by (auto simp: lease_inv_def)
  with assms show ?thesis by (auto simp: lease_inv_def relinquish_def inj_on_def)
qed

lemma lease_inv_acquire:
  assumes "lease_inv l alive" and "try_acquire key l = (Some g, l')"
  shows "lease_inv l' (insert g alive)"
proof -
  from assms(2) have g: "g = ll_next l" "key \<notin> ll_held l" and l': "l' = l\<lparr>ll_held := insert key (ll_held l),
      ll_fences := (ll_fences l)(g := True), ll_keys := (ll_keys l)(g := key), ll_next := g + 1\<rparr>"
    by (auto simp: try_acquire_def split: if_splits)
  with assms(1) have fresh: "g \<notin> alive" by (auto simp: lease_inv_def)
  with assms(1) g l' show ?thesis by (auto simp: lease_inv_def inj_on_def)
qed

lemma lease_run_inv: "lease_run l alive \<Longrightarrow> lease_inv l alive"
proof (induction rule: lease_run.induct)
  case lease_new
  then show ?case by (simp add: lease_inv_def local_leases_new_def)
qed (simp_all add: lease_inv_relinquish lease_inv_acquire release_guard_def relinquish_twice)

text \<open>
  C28: within one process, when a release is not interleaved with an acquisition, two guards whose
  fences pass have different keys, and an acquisition is refused exactly for the keys of such guards.
\<close>

theorem local_lease_exclusive:
  assumes "lease_run l alive"
  shows "inj_on (ll_keys l) {g. fence_check l g} \<and>
    (fst (try_acquire key l) = None \<longleftrightarrow> key \<in> ll_keys l ` {g. fence_check l g})"
proof -
  have "{g. fence_check l g} = alive" using lease_run_inv [OF assms] by (auto simp: lease_inv_def fence_check_def)
  then show ?thesis using lease_run_inv [OF assms] by (simp add: lease_inv_def try_acquire_def)
qed

theorem local_lease_exclusive_witness:
  "fst (try_acquire ''k'' (snd (try_acquire ''k'' local_leases_new))) = None"
proof -
  let ?l = "snd (try_acquire ''k'' local_leases_new)"
  have "lease_run ?l {0}"
    using lease_acquire [OF lease_new, of "''k''" 0] by (simp add: try_acquire_def local_leases_new_def)
  moreover have "fence_check ?l 0" "ll_keys ?l 0 = ''k''"
    by (simp_all add: try_acquire_def local_leases_new_def fence_check_def)
  ultimately show ?thesis using local_lease_exclusive [of ?l "{0}" "''k''"] by (metis image_eqI mem_Collect_eq)
qed

text \<open>
  C36: the provider's documentation claims exact mutual exclusion, but a release relinquishes twice. In
  every reachable table and for every guard, when another task acquires the key between the two halves
  of the guard's release, its acquisition succeeds and the key is refused to others; the second half then
  frees the key under it, so a third task acquires the same key while both fences pass.
\<close>

theorem local_lease_double_release:
  assumes "lease_run l alive" and "g \<in> alive" and "ll_keys l g = key"
  shows "\<exists>h1 l1 h2 l2. try_acquire key (relinquish g l) = (Some h1, l1) \<and> fst (try_acquire key l1) = None \<and>
    try_acquire key (relinquish g l1) = (Some h2, l2) \<and> h1 \<noteq> h2 \<and> fence_check l2 h1 \<and> fence_check l2 h2 \<and>
    ll_keys l2 h1 = key \<and> ll_keys l2 h2 = key"
proof -
  let ?h1 = "ll_next l" and ?l0 = "relinquish g l"
  obtain l1 where one: "try_acquire key ?l0 = (Some ?h1, l1)" and l1: "ll_keys l1 ?h1 = key" "ll_next l1 = ?h1 + 1" "ll_fences l1 ?h1" "key \<in> ll_held l1"
    "ll_keys l1 g = key" using assms(3) by (simp add: try_acquire_def relinquish_def)
  have "g \<noteq> ?h1" using lease_run_inv [OF assms(1)] assms(2) by (auto simp: lease_inv_def)
  let ?l = "relinquish g l1"
  have l: "ll_keys ?l ?h1 = key" "ll_next ?l = ?h1 + 1" "ll_fences ?l ?h1" "key \<notin> ll_held ?l"
    using l1 \<open>g \<noteq> ?h1\<close> by (simp_all add: relinquish_def)
  obtain l2 where two: "try_acquire key ?l = (Some (?h1 + 1), l2)" "fence_check l2 ?h1" "fence_check l2 (?h1 + 1)"
    "ll_keys l2 ?h1 = key" "ll_keys l2 (?h1 + 1) = key" using l by (simp add: try_acquire_def fence_check_def)
  have "fst (try_acquire key l1) = None" using l1(4) by (simp add: try_acquire_def)
  with one two show ?thesis by (intro exI [of _ ?h1] exI [of _ l1] exI [of _ "?h1 + 1"] exI [of _ l2]) simp
qed

theorem local_lease_double_release_witness:
  "\<exists>l2. fence_check l2 1 \<and> fence_check l2 2 \<and> ll_keys l2 1 = ''k'' \<and> ll_keys l2 2 = ''k'' \<and>
     (\<exists>l1. try_acquire ''k'' (relinquish 0 (snd (try_acquire ''k'' local_leases_new))) = (Some 1, l1) \<and>
        try_acquire ''k'' (relinquish 0 l1) = (Some 2, l2))"
proof -
  let ?l = "snd (try_acquire ''k'' local_leases_new)"
  have "lease_run ?l {0}"
    using lease_acquire [OF lease_new, of "''k''" 0] by (simp add: try_acquire_def local_leases_new_def)
  moreover have "ll_keys ?l 0 = ''k''" by (simp add: try_acquire_def local_leases_new_def)
  ultimately obtain h1 l1 h2 l2 where run: "try_acquire ''k'' (relinquish 0 ?l) = (Some h1, l1)" "try_acquire ''k'' (relinquish 0 l1) = (Some h2, l2)"
    and two: "fence_check l2 h1" "fence_check l2 h2" "ll_keys l2 h1 = ''k''" "ll_keys l2 h2 = ''k''"
    using local_lease_double_release [of ?l "{0}" 0 "''k''"] by blast
  from run have "h1 = 1" "h2 = 2" by (auto simp: try_acquire_def relinquish_def local_leases_new_def split: if_splits)
  with run two show ?thesis by blast
qed

end
