(* ===== verification/Alert_State.thy ===== *)
theory Alert_State
  imports Complex_Main Scry_Prelude
begin

text \<open>
  The alert state machine of \<^verbatim>\<open>src/crates/alert/src/state.rs\<close> with the monitors of
  \<^verbatim>\<open>src/crates/alert/src/model.rs\<close> and the evaluation slots of
  \<^verbatim>\<open>src/crates/alert/src/schedule.rs\<close>.

  A finite \<open>f64\<close> is its rational value: the code compares values and tests them for finiteness, and
  the two zeros are equal there. SHA-256 is not part of the repository: the jitter takes the digest
  function as an argument.
\<close>

section \<open>Monitors\<close>

datatype f64 = Finite rat | PosInf | NegInf | NaN

fun is_finite :: "f64 \<Rightarrow> bool" where
  "is_finite (Finite _) = True"
| "is_finite _ = False"

fun f64_less :: "f64 \<Rightarrow> f64 \<Rightarrow> bool" where
  "f64_less NaN _ = False"
| "f64_less _ NaN = False"
| "f64_less (Finite a) (Finite b) = (a < b)"
| "f64_less NegInf b = (b \<noteq> NegInf)"
| "f64_less a NegInf = False"
| "f64_less a PosInf = (a \<noteq> PosInf)"
| "f64_less PosInf b = False"

definition f64_equal :: "f64 \<Rightarrow> f64 \<Rightarrow> bool" where
  "f64_equal a b \<longleftrightarrow> a \<noteq> NaN \<and> a = b"

datatype comparator = Lt | Lte | Gt | Gte | Eq | Ne

fun compare_value :: "comparator \<Rightarrow> f64 \<Rightarrow> f64 \<Rightarrow> bool" where
  "compare_value Lt value threshold = f64_less value threshold"
| "compare_value Lte value threshold = (f64_less value threshold \<or> f64_equal value threshold)"
| "compare_value Gt value threshold = f64_less threshold value"
| "compare_value Gte value threshold = (f64_less threshold value \<or> f64_equal value threshold)"
| "compare_value Eq value threshold = f64_equal value threshold"
| "compare_value Ne value threshold = (\<not> f64_equal value threshold)"

datatype no_data_policy = PolicyNoData | PolicyFiring
datatype execution_error_policy = KeepLast | ReportError | ReportFiring
datatype alert_signal = Metrics | Logs | Traces | Profiles

record scalar_query =
  sq_target_id :: string
  sq_signal :: alert_signal
  sq_matchers :: "(string \<times> string) list"
  sq_lookback_seconds :: u64
  sq_sql :: string

record scalar_condition =
  sc_comparator :: comparator
  sc_threshold :: f64

record monitor =
  mo_schema_version :: u32
  mo_id :: uuid
  mo_revision :: u64
  mo_name :: string
  mo_enabled :: bool
  mo_query :: scalar_query
  mo_condition :: scalar_condition
  mo_every_seconds :: u64
  mo_jitter_seconds :: u64
  mo_for_seconds :: u64
  mo_recover_for_seconds :: u64
  mo_no_data :: no_data_policy
  mo_execution_error :: execution_error_policy
  mo_labels :: "(string \<times> string) list"
  mo_annotations :: "(string \<times> string) list"
  mo_created_at_unix_nano :: u64
  mo_updated_at_unix_nano :: u64

section \<open>States\<close>

datatype alert_status = Inactive | Pending | Firing | Recovering | NoData | Error | Disabled

fun status_as_str :: "alert_status \<Rightarrow> string" where
  "status_as_str Inactive = ''inactive''"
| "status_as_str Pending = ''pending''"
| "status_as_str Firing = ''firing''"
| "status_as_str Recovering = ''recovering''"
| "status_as_str NoData = ''no_data''"
| "status_as_str Error = ''error''"
| "status_as_str Disabled = ''disabled''"

definition is_hold :: "alert_status \<Rightarrow> bool" where
  "is_hold s \<longleftrightarrow> s = Pending \<or> s = Recovering"

record interrupted_status =
  is_status :: alert_status
  is_since_unix_nano :: u64

record alert_state =
  as_monitor_revision :: u64
  as_status :: alert_status
  as_since_unix_nano :: u64
  as_last_evaluated_at_unix_nano :: u64
  as_last_slot_id :: u64
  as_last_value :: "f64 option"
  as_last_error_class :: "string option"
  as_transition_sequence :: u64
  as_stale :: bool
  as_interrupted :: "interrupted_status option"

definition active :: "alert_state \<Rightarrow> interrupted_status option" where
  "active st =
     (case as_status st of
        Firing \<Rightarrow> Some \<lparr>is_status = Firing, is_since_unix_nano = as_since_unix_nano st\<rparr>
      | Recovering \<Rightarrow> Some \<lparr>is_status = Recovering, is_since_unix_nano = as_since_unix_nano st\<rparr>
      | NoData \<Rightarrow> as_interrupted st
      | Error \<Rightarrow> as_interrupted st
      | _ \<Rightarrow> None)"

text \<open>Revision and slot are compared lexicographically, as tuples of the language are.\<close>

definition covers :: "alert_state \<Rightarrow> u64 \<Rightarrow> u64 \<Rightarrow> bool" where
  "covers st revision slot_id \<longleftrightarrow> as_monitor_revision st > revision \<or>
     as_monitor_revision st = revision \<and> as_last_slot_id st \<ge> slot_id"

datatype observation = ObsValue f64 | ObsNoData | ObsError string

record state_change =
  chg_previous :: "alert_status option"
  chg_current :: alert_status
  chg_transitioned :: bool
  chg_resumed :: bool

section \<open>Evaluation\<close>

definition held_for :: "u64 \<Rightarrow> u64 \<Rightarrow> u64 \<Rightarrow> bool" where
  "held_for since now seconds \<longleftrightarrow> sat_sub now since \<ge> sat_mul seconds 1000000000"

text \<open>\<open>same_revision\<close> is the prior state when it is of the monitor's revision.\<close>

definition option_filter :: "('a \<Rightarrow> bool) \<Rightarrow> 'a option \<Rightarrow> 'a option" where
  "option_filter P x = (case x of Some a \<Rightarrow> if P a then Some a else None | None \<Rightarrow> None)"

definition breaching_status :: "monitor \<Rightarrow> alert_state option \<Rightarrow> alert_state option \<Rightarrow> u64 \<Rightarrow> alert_status" where
  "breaching_status monitor prior same_revision now =
     (if Option.bind prior active \<noteq> None \<or> mo_for_seconds monitor = 0 then Firing
      else
        (let pending_since =
               (case option_filter (\<lambda>st. as_status st = Pending) same_revision of
                  Some st \<Rightarrow> as_since_unix_nano st
                | None \<Rightarrow> now)
         in if held_for pending_since now (mo_for_seconds monitor) then Firing else Pending))"

definition clear_status :: "monitor \<Rightarrow> alert_state option \<Rightarrow> alert_state option \<Rightarrow> u64 \<Rightarrow> alert_status" where
  "clear_status monitor prior same_revision now =
     (case Option.bind prior active of
        None \<Rightarrow> Inactive
      | Some act \<Rightarrow>
          if mo_recover_for_seconds monitor = 0 then Inactive
          else
            (let recovering_since =
                   (case option_filter (\<lambda>a. is_status a = Recovering)
                           (if same_revision = None then None else Some act) of
                      Some a \<Rightarrow> is_since_unix_nano a
                    | None \<Rightarrow> now)
             in if held_for recovering_since now (mo_recover_for_seconds monitor) then Inactive else Recovering))"

definition breaching :: "monitor \<Rightarrow> f64 \<Rightarrow> bool" where
  "breaching monitor value \<longleftrightarrow> is_finite value \<and>
     compare_value (sc_comparator (mo_condition monitor)) value (sc_threshold (mo_condition monitor))"

definition next_status ::
  "monitor \<Rightarrow> alert_state option \<Rightarrow> alert_state option \<Rightarrow> observation \<Rightarrow> u64 \<Rightarrow>
     alert_status \<times> f64 option \<times> string option \<times> bool" where
  "next_status monitor prior same_revision obs now =
     (if \<not> mo_enabled monitor then (Disabled, None, None, False)
      else case obs of
        ObsValue value \<Rightarrow>
          (if breaching monitor value then breaching_status monitor prior same_revision now
           else clear_status monitor prior same_revision now, Some value, None, False)
      | ObsNoData \<Rightarrow>
          (case mo_no_data monitor of
             PolicyNoData \<Rightarrow> NoData
           | PolicyFiring \<Rightarrow> breaching_status monitor prior same_revision now, None, None, True)
      | ObsError c \<Rightarrow>
          (case mo_execution_error monitor of
             KeepLast \<Rightarrow>
               (case map_option as_status prior of None \<Rightarrow> Error | Some s \<Rightarrow> if s = Disabled then Error else s)
           | ReportError \<Rightarrow> Error
           | ReportFiring \<Rightarrow> breaching_status monitor prior same_revision now, None, Some c, True))"

definition outage :: "alert_status \<Rightarrow> bool" where
  "outage s \<longleftrightarrow> s = NoData \<or> s = Error"

definition suspended_by :: "alert_state option \<Rightarrow> interrupted_status option" where
  "suspended_by prior = Option.bind (option_filter (\<lambda>st. outage (as_status st)) prior) as_interrupted"

definition next_since ::
  "alert_state option \<Rightarrow> alert_state option \<Rightarrow> interrupted_status option \<Rightarrow> alert_status \<Rightarrow> u64 \<Rightarrow> u64" where
  "next_since prior same_revision resumed status now =
     (let continues = same_revision \<noteq> None \<or> \<not> is_hold status
      in case resumed of
           Some act \<Rightarrow>
             if continues then is_since_unix_nano act
             else (case prior of
                     Some st \<Rightarrow> if as_status st = status \<and> continues then as_since_unix_nano st else now
                   | None \<Rightarrow> now)
         | None \<Rightarrow>
             (case prior of
                Some st \<Rightarrow> if as_status st = status \<and> continues then as_since_unix_nano st else now
              | None \<Rightarrow> now))"

definition advanced_state ::
  "monitor \<Rightarrow> alert_state option \<Rightarrow> observation \<Rightarrow> u64 \<Rightarrow> u64 \<Rightarrow> alert_state \<times> state_change" where
  "advanced_state monitor prior obs slot_id now =
     (let same_revision = option_filter (\<lambda>st. as_monitor_revision st = mo_revision monitor) prior;
          previous = map_option as_status prior
      in case next_status monitor prior same_revision obs now of
           (status, value, error, stale) \<Rightarrow>
             (let resumed = option_filter (\<lambda>act. is_status act = status) (suspended_by prior);
                  transitioned = (previous \<noteq> Some status)
              in (\<lparr>as_monitor_revision = mo_revision monitor,
                   as_status = status,
                   as_since_unix_nano = next_since prior same_revision resumed status now,
                   as_last_evaluated_at_unix_nano = now,
                   as_last_slot_id = slot_id,
                   as_last_value =
                     (case value of Some v \<Rightarrow> Some v | None \<Rightarrow> Option.bind same_revision as_last_value),
                   as_last_error_class = error,
                   as_transition_sequence =
                     (case prior of Some st \<Rightarrow> as_transition_sequence st | None \<Rightarrow> 0) + (if transitioned then 1 else 0),
                   as_stale = stale,
                   as_interrupted = (if outage status then Option.bind prior active else None)\<rparr>,
                  \<lparr>chg_previous = previous, chg_current = status, chg_transitioned = transitioned,
                   chg_resumed = (transitioned \<and> resumed \<noteq> None)\<rparr>)))"

definition evaluate ::
  "monitor \<Rightarrow> alert_state option \<Rightarrow> observation \<Rightarrow> u64 \<Rightarrow> u64 \<Rightarrow> alert_state \<times> state_change" where
  "evaluate monitor prior obs slot_id now =
     (case option_filter (\<lambda>st. covers st (mo_revision monitor) slot_id) prior of
        Some st \<Rightarrow>
          (st, \<lparr>chg_previous = Some (as_status st), chg_current = as_status st, chg_transitioned = False,
                chg_resumed = False\<rparr>)
      | None \<Rightarrow> advanced_state monitor prior obs slot_id now)"

section \<open>Slots\<close>

definition NANOS_PER_SECOND :: u64 where
  "NANOS_PER_SECOND = 1000000000"

record evaluation_slot =
  es_id :: u64
  es_start_unix_nano :: u64
  es_end_unix_nano :: u64
  es_execute_at_unix_nano :: u64

definition jitter_tag :: bytes where
  "jitter_tag = map of_char ''scry.alert.jitter.v1'' @ [0]"

definition deterministic_jitter :: "(bytes \<Rightarrow> bytes) \<Rightarrow> uuid \<Rightarrow> u64 \<Rightarrow> u64 \<Rightarrow> u64" where
  "deterministic_jitter sha256 monitor_id slot_id cap =
     (if cap = 0 then 0
      else from_be_bytes (take 8 (sha256 (jitter_tag @ to_be_bytes monitor_id @ to_be_bytes slot_id))) mod (cap + 1))"

definition slot :: "(bytes \<Rightarrow> bytes) \<Rightarrow> uuid \<Rightarrow> u64 \<Rightarrow> u64 \<Rightarrow> u64 \<Rightarrow> u64 \<Rightarrow> evaluation_slot option" where
  "slot sha256 monitor_id slot_id every_seconds jitter_seconds evaluation_delay_nanos =
     Option.bind (checked_mul every_seconds NANOS_PER_SECOND) (\<lambda>every.
     if every = 0 then None else
     Option.bind (checked_mul slot_id every) (\<lambda>start.
     Option.bind (checked_add start every) (\<lambda>end.
     Option.bind (checked_mul jitter_seconds NANOS_PER_SECOND) (\<lambda>cap.
     let jitter = deterministic_jitter sha256 monitor_id slot_id (min cap (sat_sub every 1)) in
     Option.bind (checked_add end evaluation_delay_nanos) (\<lambda>delayed.
     Option.bind (checked_add delayed jitter) (\<lambda>execute_at.
       Some \<lparr>es_id = slot_id, es_start_unix_nano = start, es_end_unix_nano = end,
             es_execute_at_unix_nano = execute_at\<rparr>))))))"

definition latest_due_slot :: "(bytes \<Rightarrow> bytes) \<Rightarrow> uuid \<Rightarrow> u64 \<Rightarrow> u64 \<Rightarrow> u64 \<Rightarrow> u64 \<Rightarrow> evaluation_slot option" where
  "latest_due_slot sha256 monitor_id now every_seconds jitter_seconds evaluation_delay_nanos =
     Option.bind (checked_mul every_seconds NANOS_PER_SECOND) (\<lambda>every.
     if every = 0 then None else
     Option.bind (checked_sub now evaluation_delay_nanos) (\<lambda>horizon.
     Option.bind (checked_sub (horizon div every) 1) (\<lambda>newest.
     Option.bind (slot sha256 monitor_id newest every_seconds jitter_seconds evaluation_delay_nanos) (\<lambda>candidate.
     if es_execute_at_unix_nano candidate \<le> now then Some candidate else
     Option.bind (checked_sub newest 1) (\<lambda>before.
     Option.bind (slot sha256 monitor_id before every_seconds jitter_seconds evaluation_delay_nanos) (\<lambda>previous.
     if es_execute_at_unix_nano previous \<le> now then Some previous else None))))))"

end
