(* ===== verification/Alert_Store.thy ===== *)
theory Alert_Store
  imports Alert_State
begin

text \<open>
  Durable alert records: the record types and keys of \<^verbatim>\<open>src/crates/alert/src/records.rs\<close>, the
  conditional writes of \<^verbatim>\<open>src/crates/objstore/src/conditional.rs\<close> and the store of
  \<^verbatim>\<open>src/crates/alert/src/store.rs\<close> over them.

  The object store, the JSON encoding, SHA-256 and the text of a UUID are not part of the
  repository: what they answer is an argument, the functions in an \<open>alert_env\<close>, the outcome of each
  call in a fate. A call may be answered, or reported as failed with its write applied or not.
\<close>

section \<open>Object store\<close>

type_synonym control_store = "string \<Rightarrow> bytes option"

datatype object_error = ObjNotFound | AlreadyExists | Precondition | NotModified | OtherObjectError

datatype put_fate = Answered | PutFailed bool object_error
datatype get_fate = GetAnswered | GetFailed

record update_version =
  uv_e_tag :: "string option"
  uv_version :: "string option"

definition unquote_etag :: "string \<Rightarrow> string option" where
  "unquote_etag e_tag = Option.bind (strip_prefix ''\"'' e_tag) (strip_suffix ''\"'')"

definition update_options :: "update_version \<Rightarrow> update_version" where
  "update_options v =
     v\<lparr>uv_e_tag := map_option (\<lambda>e. case unquote_etag e of Some bare \<Rightarrow> bare | None \<Rightarrow> e) (uv_e_tag v)\<rparr>"

definition put_create :: "put_fate \<Rightarrow> string \<Rightarrow> bytes \<Rightarrow> control_store \<Rightarrow> (object_error + unit) \<times> control_store" where
  "put_create fate key body s =
     (let written = (if s key = None then s(key \<mapsto> body) else s)
      in case fate of
           Answered \<Rightarrow> (if s key = None then Inr () else Inl AlreadyExists, written)
         | PutFailed applied e \<Rightarrow> (Inl e, if applied then written else s))"

text \<open>\<open>matches v body\<close>: the store takes a write conditioned on \<open>v\<close> when the object is \<open>body\<close>.\<close>

definition put_update ::
  "(update_version \<Rightarrow> bytes \<Rightarrow> bool) \<Rightarrow> put_fate \<Rightarrow> string \<Rightarrow> bytes \<Rightarrow> update_version \<Rightarrow> control_store \<Rightarrow>
     (object_error + unit) \<times> control_store" where
  "put_update matches fate key body version s =
     (let current = (case s key of Some b \<Rightarrow> matches (update_options version) b | None \<Rightarrow> False);
          written = (if current then s(key \<mapsto> body) else s)
      in case fate of
           Answered \<Rightarrow> (if current then Inr () else Inl Precondition, written)
         | PutFailed applied e \<Rightarrow> (Inl e, if applied then written else s))"

section \<open>Records\<close>

definition STATE_RECORD_SCHEMA_VERSION :: u32 where
  "STATE_RECORD_SCHEMA_VERSION = 2"

definition ALERT_RECORD_SCHEMA_VERSION :: u32 where
  "ALERT_RECORD_SCHEMA_VERSION = 1"

record rule_head =
  rh_schema_version :: u32
  rh_monitor_id :: uuid
  rh_revision :: u64
  rh_revision_key :: string
  rh_updated_at_unix_nano :: u64
  rh_deleted :: bool
  rh_tombstone_key :: "string option"

record rule_tombstone =
  rb_schema_version :: u32
  rb_monitor_id :: uuid
  rb_revision :: u64
  rb_command_id :: string
  rb_deleted_at_unix_nano :: u64

record transition_record =
  tr_schema_version :: u32
  tr_deployment_id :: string
  tr_monitor_id :: uuid
  tr_monitor_revision :: u64
  tr_slot_id :: u64
  tr_evaluated_at_unix_nano :: u64
  tr_observation :: observation
  tr_previous_status :: "alert_status option"
  tr_resumed :: bool
  tr_state :: alert_state
  tr_previous_transition_key :: "string option"
  tr_notification_intents :: "(u32 \<times> string) list"

record transition_ref =
  tf_sequence :: u64
  tf_monitor_revision :: u64
  tf_slot_id :: u64
  tf_status :: alert_status
  tf_sha256 :: string

record state_head =
  sh_schema_version :: u32
  sh_deployment_id :: string
  sh_monitor_id :: uuid
  sh_state :: alert_state
  sh_latest_transition :: transition_ref
  sh_updated_at_unix_nano :: u64

record alert_env =
  ae_ustr :: "uuid \<Rightarrow> string"
  ae_sha256 :: "bytes \<Rightarrow> bytes"
  ae_version :: "bytes \<Rightarrow> update_version"
  ae_matches :: "update_version \<Rightarrow> bytes \<Rightarrow> bool"
  ae_head_ser :: "state_head \<Rightarrow> bytes option"
  ae_head_de :: "bytes \<Rightarrow> state_head option"
  ae_transition_ser :: "transition_record \<Rightarrow> bytes option"
  ae_transition_de :: "bytes \<Rightarrow> transition_record option"
  ae_rule_head_ser :: "rule_head \<Rightarrow> bytes option"
  ae_rule_head_de :: "bytes \<Rightarrow> rule_head option"
  ae_monitor_ser :: "monitor \<Rightarrow> bytes option"
  ae_monitor_de :: "bytes \<Rightarrow> monitor option"
  ae_tombstone_ser :: "rule_tombstone \<Rightarrow> bytes option"
  ae_sql_ok :: "string \<Rightarrow> string \<Rightarrow> bool"

definition hex_digit :: "nat \<Rightarrow> char" where
  "hex_digit n = ''0123456789abcdef'' ! n"

definition sha256_hex :: "alert_env \<Rightarrow> bytes \<Rightarrow> string" where
  "sha256_hex env body =
     concat (map (\<lambda>b. [hex_digit (unat b div 16), hex_digit (unat b mod 16)]) (ae_sha256 env body))"

definition padded :: "u64 \<Rightarrow> string" where
  "padded n = zero_pad 20 (dec (unat n))"

definition rule_revision_key :: "alert_env \<Rightarrow> uuid \<Rightarrow> u64 \<Rightarrow> string \<Rightarrow> string" where
  "rule_revision_key env mid revision command_id =
     ''_scry/alerts/v1/rules/'' @ ae_ustr env mid @ ''/revisions/'' @ padded revision @ ''-'' @
       sha256_hex env (map of_char command_id) @ ''.json''"

definition rule_head_key :: "alert_env \<Rightarrow> uuid \<Rightarrow> string" where
  "rule_head_key env mid = ''_scry/alerts/v1/rules/'' @ ae_ustr env mid @ ''/head.json''"

definition rule_tombstone_key :: "alert_env \<Rightarrow> uuid \<Rightarrow> string \<Rightarrow> string" where
  "rule_tombstone_key env mid command_id =
     ''_scry/alerts/v1/rules/'' @ ae_ustr env mid @ ''/tombstones/'' @ sha256_hex env (map of_char command_id) @ ''.json''"

fun contains_text :: "string \<Rightarrow> string \<Rightarrow> bool" where
  "contains_text p [] = (p = [])"
| "contains_text p (c # cs) = (strip_prefix p (c # cs) \<noteq> None \<or> contains_text p cs)"

definition is_revision_key :: "string \<Rightarrow> string \<Rightarrow> bool" where
  "is_revision_key prefix key =
     (case strip_prefix prefix key of
        None \<Rightarrow> False
      | Some tail \<Rightarrow> strip_suffix ''.json'' tail \<noteq> None \<and> tail \<noteq> ''head.json'' \<and>
          strip_prefix ''tombstones/'' tail = None \<and> \<not> contains_text ''..'' tail)"

definition is_rule_revision_key :: "alert_env \<Rightarrow> uuid \<Rightarrow> string \<Rightarrow> bool" where
  "is_rule_revision_key env mid key = is_revision_key (''_scry/alerts/v1/rules/'' @ ae_ustr env mid @ ''/'') key"

definition transition_key :: "alert_env \<Rightarrow> uuid \<Rightarrow> u64 \<Rightarrow> u64 \<Rightarrow> u64 \<Rightarrow> alert_status \<Rightarrow> string" where
  "transition_key env mid sequence monitor_revision slot_id status =
     ''_scry/alerts/v1/transitions/v2/'' @ ae_ustr env mid @ ''/'' @ padded sequence @ ''-'' @
       padded monitor_revision @ ''-'' @ padded slot_id @ ''-'' @ status_as_str status @ ''.json''"

definition state_head_key :: "alert_env \<Rightarrow> uuid \<Rightarrow> string" where
  "state_head_key env mid = ''_scry/alerts/v1/state/v2/'' @ ae_ustr env mid @ ''/head.json''"

definition ref_key :: "alert_env \<Rightarrow> transition_ref \<Rightarrow> uuid \<Rightarrow> string" where
  "ref_key env r mid = transition_key env mid (tf_sequence r) (tf_monitor_revision r) (tf_slot_id r) (tf_status r)"

definition reference :: "alert_env \<Rightarrow> transition_record \<Rightarrow> transition_ref option" where
  "reference env t = map_option (\<lambda>body.
     \<lparr>tf_sequence = as_transition_sequence (tr_state t), tf_monitor_revision = tr_monitor_revision t,
      tf_slot_id = tr_slot_id t, tf_status = as_status (tr_state t), tf_sha256 = sha256_hex env body\<rparr>)
     (ae_transition_ser env t)"

definition rule_head_of :: "alert_env \<Rightarrow> monitor \<Rightarrow> string \<Rightarrow> rule_head" where
  "rule_head_of env m command_id =
     \<lparr>rh_schema_version = ALERT_RECORD_SCHEMA_VERSION, rh_monitor_id = mo_id m, rh_revision = mo_revision m,
      rh_revision_key = rule_revision_key env (mo_id m) (mo_revision m) command_id,
      rh_updated_at_unix_nano = mo_updated_at_unix_nano m, rh_deleted = False, rh_tombstone_key = None\<rparr>"

section \<open>Structural checks\<close>

definition head_validate :: "string \<Rightarrow> uuid \<Rightarrow> state_head \<Rightarrow> string + unit" where
  "head_validate deployment_id mid h =
     (let t = sh_latest_transition h; st = sh_state h
      in if sh_schema_version h \<noteq> STATE_RECORD_SCHEMA_VERSION then Inl ''unsupported state head schema version''
         else if sh_deployment_id h \<noteq> deployment_id \<or> sh_monitor_id h \<noteq> mid
         then Inl ''state head ownership does not match its key''
         else if tf_sequence t = 0 \<or> tf_sequence t \<noteq> as_transition_sequence st \<or> tf_status t \<noteq> as_status st
         then Inl ''state head does not match its latest transition''
         else if tf_monitor_revision t > as_monitor_revision st \<or>
             tf_monitor_revision t = as_monitor_revision st \<and> tf_slot_id t > as_last_slot_id st
         then Inl ''state head is older than its latest transition''
         else Inr ())"

definition verify_transition :: "alert_env \<Rightarrow> state_head \<Rightarrow> transition_record \<Rightarrow> string + unit" where
  "verify_transition env h t =
     (case reference env t of
        None \<Rightarrow> Inl ''transition record cannot be serialized''
      | Some r \<Rightarrow>
          if tr_schema_version t \<noteq> STATE_RECORD_SCHEMA_VERSION \<or> tr_deployment_id t \<noteq> sh_deployment_id h \<or>
             tr_monitor_id t \<noteq> sh_monitor_id h \<or> tr_monitor_revision t \<noteq> as_monitor_revision (tr_state t) \<or>
             tr_slot_id t \<noteq> as_last_slot_id (tr_state t) \<or> r \<noteq> sh_latest_transition h
          then Inl ''state head and transition record do not match''
          else Inr ())"

section \<open>Calls\<close>

definition MAX_CONTROL_OBJECT_BYTES :: nat where
  "MAX_CONTROL_OBJECT_BYTES = 1024 * 1024"

datatype alert_store_error =
    Serialize
  | Decode string
  | Object string
  | Oversized string
  | Collision string
  | Missing string
  | Conflict string
  | Corrupt string string

definition is_transient :: "alert_store_error \<Rightarrow> bool" where
  "is_transient e = (case e of Object _ \<Rightarrow> True | _ \<Rightarrow> False)"

record 'a versioned =
  ve_value :: 'a
  ve_version :: update_version

definition bounded_json :: "('a \<Rightarrow> bytes option) \<Rightarrow> string \<Rightarrow> 'a \<Rightarrow> alert_store_error + bytes" where
  "bounded_json ser key value =
     (case ser value of
        None \<Rightarrow> Inl Serialize
      | Some body \<Rightarrow> if length body > MAX_CONTROL_OBJECT_BYTES then Inl (Oversized key) else Inr body)"

definition get_bounded :: "get_fate \<Rightarrow> string \<Rightarrow> control_store \<Rightarrow> alert_store_error + bytes" where
  "get_bounded fate key s =
     (case fate of
        GetFailed \<Rightarrow> Inl (Object key)
      | GetAnswered \<Rightarrow>
          (case s key of
             None \<Rightarrow> Inl (Missing key)
           | Some body \<Rightarrow> if length body > MAX_CONTROL_OBJECT_BYTES then Inl (Oversized key) else Inr body))"

definition version_of_meta :: "alert_env \<Rightarrow> bytes \<Rightarrow> update_version option" where
  "version_of_meta env body =
     (let v = ae_version env body in if uv_e_tag v = None \<and> uv_version v = None then None else Some v)"

definition read_versioned ::
  "alert_env \<Rightarrow> (bytes \<Rightarrow> 'a option) \<Rightarrow> get_fate \<Rightarrow> string \<Rightarrow> control_store \<Rightarrow> alert_store_error + 'a versioned" where
  "read_versioned env de fate key s =
     (case get_bounded fate key s of
        Inl e \<Rightarrow> Inl e
      | Inr body \<Rightarrow>
          (case version_of_meta env body of
             None \<Rightarrow> Inl (Object key)
           | Some version \<Rightarrow>
               (case de body of
                  None \<Rightarrow> Inl (Decode key)
                | Some value \<Rightarrow> Inr \<lparr>ve_value = value, ve_version = version\<rparr>)))"

definition create_identical ::
  "('a \<Rightarrow> bytes option) \<Rightarrow> put_fate \<Rightarrow> get_fate \<Rightarrow> string \<Rightarrow> 'a \<Rightarrow> control_store \<Rightarrow>
     (alert_store_error + unit) \<times> control_store" where
  "create_identical ser pf gf key value s =
     (case bounded_json ser key value of
        Inl e \<Rightarrow> (Inl e, s)
      | Inr body \<Rightarrow>
          (case put_create pf key body s of
             (Inr _, s') \<Rightarrow> (Inr (), s')
           | (Inl e, s') \<Rightarrow>
               if e = AlreadyExists \<or> e = Precondition
               then (case get_bounded gf key s' of
                       Inr existing \<Rightarrow> if existing = body then Inr () else Inl (Collision key)
                     | Inl e' \<Rightarrow> Inl e', s')
               else (Inl (Object key), s')))"

definition update ::
  "alert_env \<Rightarrow> ('a \<Rightarrow> bytes option) \<Rightarrow> put_fate \<Rightarrow> get_fate \<Rightarrow> string \<Rightarrow> 'a \<Rightarrow> update_version \<Rightarrow> control_store \<Rightarrow>
     (alert_store_error + unit) \<times> control_store" where
  "update env ser pf gf key value version s =
     (case bounded_json ser key value of
        Inl e \<Rightarrow> (Inl e, s)
      | Inr body \<Rightarrow>
          (case put_update (ae_matches env) pf key body version s of
             (Inr _, s') \<Rightarrow> (Inr (), s')
           | (Inl e, s') \<Rightarrow>
               if e = Precondition \<or> e = NotModified \<or> e = AlreadyExists
               then (case get_bounded gf key s' of
                       Inr existing \<Rightarrow> if existing = body then Inr () else Inl (Conflict key)
                     | Inl (Missing _) \<Rightarrow> Inl (Conflict key)
                     | Inl e' \<Rightarrow> Inl e', s')
               else (Inl (Object key), s')))"

definition collision_is_conflict :: "alert_store_error + unit \<Rightarrow> alert_store_error + unit" where
  "collision_is_conflict r = (case r of Inl (Collision path) \<Rightarrow> Inl (Conflict path) | _ \<Rightarrow> r)"

section \<open>State heads\<close>

definition read_state_head ::
  "alert_env \<Rightarrow> get_fate \<Rightarrow> uuid \<Rightarrow> string \<Rightarrow> control_store \<Rightarrow> alert_store_error + state_head versioned option" where
  "read_state_head env fate mid deployment_id s =
     (case read_versioned env (ae_head_de env) fate (state_head_key env mid) s of
        Inl (Missing _) \<Rightarrow> Inr None
      | Inl e \<Rightarrow> Inl e
      | Inr h \<Rightarrow>
          (case head_validate deployment_id mid (ve_value h) of
             Inl message \<Rightarrow> Inl (Corrupt (state_head_key env mid) message)
           | Inr _ \<Rightarrow> Inr (Some h)))"

text \<open>\<open>commit_state\<close> makes two writes; each half is one step of the evaluator.\<close>

definition publish_transition ::
  "alert_env \<Rightarrow> put_fate \<Rightarrow> get_fate \<Rightarrow> state_head \<Rightarrow> transition_record option \<Rightarrow> control_store \<Rightarrow>
     (alert_store_error + unit) \<times> control_store" where
  "publish_transition env pf gf h transition s =
     (let path = state_head_key env (sh_monitor_id h)
      in case head_validate (sh_deployment_id h) (sh_monitor_id h) h of
           Inl message \<Rightarrow> (Inl (Corrupt path message), s)
         | Inr _ \<Rightarrow>
             (case transition of
                None \<Rightarrow> (Inr (), s)
              | Some t \<Rightarrow>
                  (case verify_transition env h t of
                     Inl message \<Rightarrow> (Inl (Corrupt path message), s)
                   | Inr _ \<Rightarrow> create_identical (ae_transition_ser env) pf gf
                       (ref_key env (sh_latest_transition h) (sh_monitor_id h)) t s)))"

definition advance_head ::
  "alert_env \<Rightarrow> put_fate \<Rightarrow> get_fate \<Rightarrow> state_head \<Rightarrow> update_version option \<Rightarrow> control_store \<Rightarrow>
     (alert_store_error + unit) \<times> control_store" where
  "advance_head env pf gf h expected_head s =
     (let path = state_head_key env (sh_monitor_id h)
      in case expected_head of
           Some version \<Rightarrow> update env (ae_head_ser env) pf gf path h version s
         | None \<Rightarrow>
             (case create_identical (ae_head_ser env) pf gf path h s of (r, s') \<Rightarrow> (collision_is_conflict r, s')))"

definition commit_state ::
  "alert_env \<Rightarrow> put_fate \<Rightarrow> get_fate \<Rightarrow> put_fate \<Rightarrow> get_fate \<Rightarrow> state_head \<Rightarrow> transition_record option \<Rightarrow>
     update_version option \<Rightarrow> control_store \<Rightarrow> (alert_store_error + unit) \<times> control_store" where
  "commit_state env pf1 gf1 pf2 gf2 h transition expected_head s =
     (case publish_transition env pf1 gf1 h transition s of
        (Inl e, s') \<Rightarrow> (Inl e, s')
      | (Inr _, s') \<Rightarrow> advance_head env pf2 gf2 h expected_head s')"

definition read_latest_transition ::
  "alert_env \<Rightarrow> get_fate \<Rightarrow> state_head \<Rightarrow> control_store \<Rightarrow> alert_store_error + transition_record versioned" where
  "read_latest_transition env fate h s =
     (let key = ref_key env (sh_latest_transition h) (sh_monitor_id h)
      in case read_versioned env (ae_transition_de env) fate key s of
           Inl e \<Rightarrow> Inl e
         | Inr t \<Rightarrow>
             (case verify_transition env h (ve_value t) of
                Inl message \<Rightarrow> Inl (Corrupt key message)
              | Inr _ \<Rightarrow> Inr t))"

section \<open>Rules\<close>

definition read_rule_head ::
  "alert_env \<Rightarrow> get_fate \<Rightarrow> uuid \<Rightarrow> control_store \<Rightarrow> alert_store_error + rule_head versioned" where
  "read_rule_head env fate mid s =
     (case read_versioned env (ae_rule_head_de env) fate (rule_head_key env mid) s of
        Inl e \<Rightarrow> Inl e
      | Inr h \<Rightarrow>
          if rh_schema_version (ve_value h) \<noteq> ALERT_RECORD_SCHEMA_VERSION \<or> rh_monitor_id (ve_value h) \<noteq> mid
          then Inl (Corrupt (rule_head_key env mid) ''rule head does not match its key'')
          else Inr h)"

definition read_rule_revision ::
  "alert_env \<Rightarrow> get_fate \<Rightarrow> rule_head \<Rightarrow> control_store \<Rightarrow> alert_store_error + monitor versioned" where
  "read_rule_revision env fate h s =
     (if rh_deleted h \<or> \<not> is_rule_revision_key env (rh_monitor_id h) (rh_revision_key h)
      then Inl (Corrupt (rule_head_key env (rh_monitor_id h)) ''rule head does not name one of its revisions'')
      else case read_versioned env (ae_monitor_de env) fate (rh_revision_key h) s of
        Inl e \<Rightarrow> Inl e
      | Inr m \<Rightarrow>
          if mo_id (ve_value m) \<noteq> rh_monitor_id h \<or> mo_revision (ve_value m) \<noteq> rh_revision h
          then Inl (Corrupt (rh_revision_key h) ''rule revision does not match its head'')
          else Inr m)"

definition read_rule ::
  "alert_env \<Rightarrow> get_fate \<Rightarrow> get_fate \<Rightarrow> uuid \<Rightarrow> control_store \<Rightarrow> alert_store_error + monitor versioned" where
  "read_rule env gf1 gf2 mid s =
     (case read_rule_head env gf1 mid s of
        Inl e \<Rightarrow> Inl e
      | Inr h \<Rightarrow>
          if rh_deleted (ve_value h) then Inl (Missing (rule_head_key env mid))
          else read_rule_revision env gf2 (ve_value h) s)"

text \<open>
  \<open>create_rule_revision\<close> writes the revision, reads the head and then advances it; the read and the
  write of the head are steps of their own.
\<close>

datatype rule_plan = RuleDone | RuleUpdate update_version | RuleCreate

definition plan_rule_head ::
  "alert_env \<Rightarrow> get_fate \<Rightarrow> monitor \<Rightarrow> string \<Rightarrow> control_store \<Rightarrow> alert_store_error + rule_plan" where
  "plan_rule_head env gf m command_id s =
     (let h = rule_head_of env m command_id; head_path = rule_head_key env (mo_id m)
      in case read_versioned env (ae_rule_head_de env) gf head_path s of
           Inr current \<Rightarrow>
             if ve_value current = h then Inr RuleDone
             else if \<not> rh_deleted (ve_value current) \<and> checked_add (rh_revision (ve_value current)) 1 = Some (mo_revision m)
             then Inr (RuleUpdate (ve_version current))
             else Inl (Conflict head_path)
         | Inl (Missing _) \<Rightarrow> if mo_revision m = 1 then Inr RuleCreate else Inl (Conflict head_path)
         | Inl e \<Rightarrow> Inl e)"

definition advance_rule_head ::
  "alert_env \<Rightarrow> put_fate \<Rightarrow> get_fate \<Rightarrow> monitor \<Rightarrow> string \<Rightarrow> rule_plan \<Rightarrow> control_store \<Rightarrow>
     (alert_store_error + unit) \<times> control_store" where
  "advance_rule_head env pf gf m command_id plan s =
     (let h = rule_head_of env m command_id; head_path = rule_head_key env (mo_id m)
      in case plan of
           RuleDone \<Rightarrow> (Inr (), s)
         | RuleUpdate version \<Rightarrow> update env (ae_rule_head_ser env) pf gf head_path h version s
         | RuleCreate \<Rightarrow>
             (case create_identical (ae_rule_head_ser env) pf gf head_path h s of (r, s') \<Rightarrow> (collision_is_conflict r, s')))"

definition stage_rule_revision ::
  "alert_env \<Rightarrow> put_fate \<Rightarrow> get_fate \<Rightarrow> monitor \<Rightarrow> string \<Rightarrow> control_store \<Rightarrow>
     (alert_store_error + unit) \<times> control_store" where
  "stage_rule_revision env pf gf m command_id s =
     create_identical (ae_monitor_ser env) pf gf (rh_revision_key (rule_head_of env m command_id)) m s"

definition create_rule_revision ::
  "alert_env \<Rightarrow> put_fate \<Rightarrow> get_fate \<Rightarrow> get_fate \<Rightarrow> put_fate \<Rightarrow> get_fate \<Rightarrow> monitor \<Rightarrow> string \<Rightarrow> control_store \<Rightarrow>
     (alert_store_error + unit) \<times> control_store" where
  "create_rule_revision env pf1 gf1 gf2 pf3 gf3 m command_id s =
     (case stage_rule_revision env pf1 gf1 m command_id s of
        (Inl e, s') \<Rightarrow> (Inl e, s')
      | (Inr _, s') \<Rightarrow>
          (case plan_rule_head env gf2 m command_id s' of
             Inl e \<Rightarrow> (Inl e, s')
           | Inr plan \<Rightarrow> advance_rule_head env pf3 gf3 m command_id plan s'))"

definition tombstone_head :: "alert_env \<Rightarrow> rule_tombstone \<Rightarrow> rule_head" where
  "tombstone_head env t =
     \<lparr>rh_schema_version = ALERT_RECORD_SCHEMA_VERSION, rh_monitor_id = rb_monitor_id t, rh_revision = rb_revision t,
      rh_revision_key = [], rh_updated_at_unix_nano = rb_deleted_at_unix_nano t, rh_deleted = True,
      rh_tombstone_key = Some (rule_tombstone_key env (rb_monitor_id t) (rb_command_id t))\<rparr>"

definition tombstone_rule ::
  "alert_env \<Rightarrow> put_fate \<Rightarrow> get_fate \<Rightarrow> put_fate \<Rightarrow> get_fate \<Rightarrow> rule_tombstone \<Rightarrow> update_version \<Rightarrow> control_store \<Rightarrow>
     (alert_store_error + unit) \<times> control_store" where
  "tombstone_rule env pf1 gf1 pf2 gf2 t expected_head s =
     (case create_identical (ae_tombstone_ser env) pf1 gf1 (rule_tombstone_key env (rb_monitor_id t) (rb_command_id t)) t s of
        (Inl e, s') \<Rightarrow> (Inl e, s')
      | (Inr _, s') \<Rightarrow> update env (ae_rule_head_ser env) pf2 gf2 (rule_head_key env (rb_monitor_id t)) (tombstone_head env t)
          expected_head s')"

end
