(* ===== verification/Alert_Eval.thy ===== *)
theory Alert_Eval
  imports Alert_Store
begin

text \<open>
  The evaluator of \<^verbatim>\<open>src/crates/scry-alertd/src/evaluator.rs\<close>: one slot of a monitor under its lease, as
  a machine with one step for each stretch of code between two waits, so that evaluators can be
  interleaved; with the monitor checks of \<^verbatim>\<open>src/crates/alert/src/validation.rs\<close> and the local
  projection of \<^verbatim>\<open>src/crates/alert/src/sqlite.rs\<close>.

  The parser of the SQL dialect is not part of the repository: whether a query is acceptable is an
  argument. The tables of the projection are maps from monitors to rows; whether one of its
  transactions fails is an argument.
\<close>

section \<open>Validation of monitors\<close>

definition MONITOR_SCHEMA_VERSION :: u32 where "MONITOR_SCHEMA_VERSION = 1"
definition MAX_NAME_BYTES :: nat where "MAX_NAME_BYTES = 256"
definition MAX_TARGET_ID_BYTES :: nat where "MAX_TARGET_ID_BYTES = 64"
definition MAX_SQL_BYTES :: nat where "MAX_SQL_BYTES = 16 * 1024"
definition MAX_MATCHERS :: nat where "MAX_MATCHERS = 64"
definition MAX_MAP_ENTRIES :: nat where "MAX_MAP_ENTRIES = 64"
definition MAX_KEY_BYTES :: nat where "MAX_KEY_BYTES = 128"
definition MAX_VALUE_BYTES :: nat where "MAX_VALUE_BYTES = 4 * 1024"
definition MAX_LOOKBACK_SECONDS :: u64 where "MAX_LOOKBACK_SECONDS = 31 * 24 * 60 * 60"
definition MAX_HOLD_SECONDS :: u64 where "MAX_HOLD_SECONDS = 31 * 24 * 60 * 60"
definition MIN_INTERVAL_SECONDS :: u64 where "MIN_INTERVAL_SECONDS = 10"
definition MAX_INTERVAL_SECONDS :: u64 where "MAX_INTERVAL_SECONDS = 24 * 60 * 60"

fun table_name :: "alert_signal \<Rightarrow> string" where
  "table_name Metrics = ''metrics''"
| "table_name Logs = ''logs''"
| "table_name Traces = ''traces''"
| "table_name Profiles = ''profiles''"

definition bounded_nonempty :: "string \<Rightarrow> nat \<Rightarrow> bool" where
  "bounded_nonempty value maximum \<longleftrightarrow> value \<noteq> [] \<and> length value \<le> maximum"

fun validate_entries :: "(string \<times> string) list \<Rightarrow> string set \<Rightarrow> string + unit" where
  "validate_entries [] seen = Inr ()"
| "validate_entries ((key, value) # rest) seen =
     (if \<not> bounded_nonempty key MAX_KEY_BYTES then Inl ''map key is empty or too long''
      else if length value > MAX_VALUE_BYTES then Inl ''map value is too long''
      else if key \<in> seen then Inl ''duplicate map key''
      else validate_entries rest (insert key seen))"

definition validate_map :: "(string \<times> string) list \<Rightarrow> string + unit" where
  "validate_map values =
     (if length values > MAX_MAP_ENTRIES then Inl ''too many labels or annotations'' else validate_entries values {})"

fun validate_matchers :: "(string \<times> string) list \<Rightarrow> string + unit" where
  "validate_matchers [] = Inr ()"
| "validate_matchers ((name, value) # rest) =
     (if \<not> bounded_nonempty name MAX_KEY_BYTES then Inl ''matcher name is empty or too long''
      else if length value > MAX_VALUE_BYTES then Inl ''matcher value is too long''
      else validate_matchers rest)"

text \<open>\<open>sql_ok\<close> stands for what \<open>validate_scalar_sql\<close> finds in the parsed statements.\<close>

definition validate_scalar_sql :: "(string \<Rightarrow> string \<Rightarrow> bool) \<Rightarrow> string \<Rightarrow> string \<Rightarrow> string + unit" where
  "validate_scalar_sql sql_ok sql table =
     (if \<not> bounded_nonempty sql MAX_SQL_BYTES then Inl ''SQL is empty or too long''
      else if sql_ok sql table then Inr () else Inl ''invalid SQL'')"

definition validate_monitor :: "(string \<Rightarrow> string \<Rightarrow> bool) \<Rightarrow> monitor \<Rightarrow> string + unit" where
  "validate_monitor sql_ok m =
     (if mo_schema_version m \<noteq> MONITOR_SCHEMA_VERSION then Inl ''unsupported monitor schema version''
      else if \<not> bounded_nonempty (mo_name m) MAX_NAME_BYTES then Inl ''name is empty or too long''
      else if \<not> bounded_nonempty (sq_target_id (mo_query m)) MAX_TARGET_ID_BYTES then Inl ''target ID is empty or too long''
      else if mo_revision m = 0 then Inl ''revision must be at least one''
      else if mo_every_seconds m < MIN_INTERVAL_SECONDS \<or> mo_every_seconds m > MAX_INTERVAL_SECONDS
      then Inl ''evaluation interval is out of bounds''
      else if mo_jitter_seconds m \<ge> mo_every_seconds m then Inl ''jitter must be shorter than interval''
      else if sq_lookback_seconds (mo_query m) = 0 \<or> sq_lookback_seconds (mo_query m) > MAX_LOOKBACK_SECONDS
      then Inl ''lookback is out of bounds''
      else if mo_for_seconds m > MAX_HOLD_SECONDS \<or> mo_recover_for_seconds m > MAX_HOLD_SECONDS
      then Inl ''pending or recovery duration is out of bounds''
      else if mo_created_at_unix_nano m = 0 \<or> mo_updated_at_unix_nano m < mo_created_at_unix_nano m
      then Inl ''monitor timestamps are invalid''
      else if length (sq_matchers (mo_query m)) > MAX_MATCHERS then Inl ''too many matchers''
      else case validate_matchers (sq_matchers (mo_query m)) of
        Inl e \<Rightarrow> Inl e
      | Inr _ \<Rightarrow>
          (case validate_map (mo_labels m) of
             Inl e \<Rightarrow> Inl e
           | Inr _ \<Rightarrow>
               (case validate_map (mo_annotations m) of
                  Inl e \<Rightarrow> Inl e
                | Inr _ \<Rightarrow>
                    if \<not> is_finite (sc_threshold (mo_condition m)) then Inl ''threshold must be finite''
                    else validate_scalar_sql sql_ok (sq_sql (mo_query m)) (table_name (sq_signal (mo_query m))))))"

section \<open>The local projection\<close>

record monitor_row =
  mr_revision :: u64
  mr_deleted :: bool
  mr_enabled :: bool
  mr_every_seconds :: u64
  mr_jitter_seconds :: u64
  mr_name :: string
  mr_updated_at_unix_nano :: u64
  mr_record :: "monitor option"
  mr_local_seq :: u64

record alerts_db =
  db_monitors :: "uuid \<Rightarrow> monitor_row option"
  db_states :: "uuid \<Rightarrow> alert_state option"
  db_local_seq :: u64

definition alerts_db_empty :: alerts_db where
  "alerts_db_empty = \<lparr>db_monitors = (\<lambda>_. None), db_states = (\<lambda>_. None), db_local_seq = 0\<rparr>"

definition fold_rule :: "monitor \<Rightarrow> alerts_db \<Rightarrow> bool \<times> alerts_db" where
  "fold_rule m db =
     (let seq = db_local_seq db + 1; db1 = db\<lparr>db_local_seq := seq\<rparr>;
          row = \<lparr>mr_revision = mo_revision m, mr_deleted = False, mr_enabled = mo_enabled m,
                 mr_every_seconds = mo_every_seconds m, mr_jitter_seconds = mo_jitter_seconds m, mr_name = mo_name m,
                 mr_updated_at_unix_nano = mo_updated_at_unix_nano m, mr_record = Some m, mr_local_seq = seq\<rparr>;
          write = (case db_monitors db (mo_id m) of
                     None \<Rightarrow> True | Some old \<Rightarrow> \<not> mr_deleted old \<and> mo_revision m > mr_revision old)
      in if write then (True, db1\<lparr>db_monitors := (db_monitors db1)(mo_id m \<mapsto> row)\<rparr>) else (False, db1))"

definition tombstone_monitor :: "uuid \<Rightarrow> u64 \<Rightarrow> u64 \<Rightarrow> alerts_db \<Rightarrow> alerts_db" where
  "tombstone_monitor mid revision deleted_at db =
     (let seq = db_local_seq db + 1;
          row = (case db_monitors db mid of
                   None \<Rightarrow> \<lparr>mr_revision = revision, mr_deleted = True, mr_enabled = False, mr_every_seconds = 0,
                            mr_jitter_seconds = 0, mr_name = [], mr_updated_at_unix_nano = deleted_at, mr_record = None,
                            mr_local_seq = seq\<rparr>
                 | Some old \<Rightarrow>
                     if mr_deleted old then old
                     else old\<lparr>mr_revision := max (mr_revision old) revision, mr_deleted := True, mr_enabled := False,
                              mr_updated_at_unix_nano := deleted_at, mr_record := None, mr_local_seq := seq\<rparr>)
      in db\<lparr>db_local_seq := seq, db_monitors := (db_monitors db)(mid \<mapsto> row), db_states := (db_states db)(mid := None)\<rparr>)"

definition forget_monitor :: "uuid \<Rightarrow> alerts_db \<Rightarrow> alerts_db" where
  "forget_monitor mid db =
     db\<lparr>db_monitors := (db_monitors db)(mid := None), db_states := (db_states db)(mid := None)\<rparr>"

definition fold_state :: "uuid \<Rightarrow> alert_state \<Rightarrow> alerts_db \<Rightarrow> bool \<times> alerts_db" where
  "fold_state mid st db =
     (let gone = (case db_monitors db mid of Some row \<Rightarrow> mr_deleted row | None \<Rightarrow> False);
          newer = (case db_states db mid of
                     None \<Rightarrow> True
                   | Some old \<Rightarrow> as_monitor_revision st > as_monitor_revision old \<or>
                       as_monitor_revision st = as_monitor_revision old \<and> as_last_slot_id st > as_last_slot_id old)
      in if \<not> gone \<and> newer then (True, db\<lparr>db_states := (db_states db)(mid \<mapsto> st)\<rparr>) else (False, db))"

section \<open>One evaluator\<close>

datatype slot_outcome = Committed alert_state | AlreadyCovered alert_state | Superseded | Busy

datatype evaluation_failure =
    StoreFailed alert_store_error
  | DbFailed
  | FenceLost
  | RuleBehind
  | InvalidRule string
  | UnknownTarget
  | FirstStateNotTransition

datatype evaluation_error = LeaseUnavailable | Failed evaluation_failure

record evaluation_context =
  cx_deployment_id :: string
  cx_query_targets :: "string list"

text \<open>
  What the surroundings answer in one step: whether the fence passes, the fates of the store calls,
  the executor's observation, whether the database transaction fails.
\<close>

record eval_input =
  in_fence :: bool
  in_get1 :: get_fate
  in_get2 :: get_fate
  in_put :: put_fate
  in_obs :: observation
  in_db_fails :: bool

record commit_job =
  cj_head :: state_head
  cj_transition :: "transition_record option"
  cj_expected :: "update_version option"

datatype eval_phase =
    CheckRule
  | ReadHead
  | Query "state_head versioned option"
  | Recheck "state_head versioned option" observation
  | Publish commit_job
  | Advance commit_job
  | FoldWinner
  | FoldNext alert_state
  | Finished "evaluation_error + slot_outcome"

record evaluator =
  el_monitor :: monitor
  el_slot_id :: u64
  el_slot_end_unix_nano :: u64
  el_phase :: eval_phase

definition eval_start :: "monitor \<Rightarrow> u64 \<Rightarrow> u64 \<Rightarrow> evaluator" where
  "eval_start m slot_id slot_end = \<lparr>el_monitor = m, el_slot_id = slot_id, el_slot_end_unix_nano = slot_end, el_phase = CheckRule\<rparr>"

text \<open>A failing transaction leaves the projection as it was.\<close>

definition rule_is_current ::
  "alert_env \<Rightarrow> eval_input \<Rightarrow> monitor \<Rightarrow> control_store \<Rightarrow> alerts_db \<Rightarrow> (evaluation_failure + bool) \<times> alerts_db" where
  "rule_is_current env inp m s db =
     (case read_rule_head env (in_get1 inp) (mo_id m) s of
        Inl (Missing _) \<Rightarrow> (Inr False, db)
      | Inl e \<Rightarrow> (Inl (StoreFailed e), db)
      | Inr vh \<Rightarrow>
          (let h = ve_value vh
           in if rh_deleted h
              then (if in_db_fails inp then (Inl DbFailed, db)
                    else (Inr False, tombstone_monitor (mo_id m) (rh_revision h) (rh_updated_at_unix_nano h) db))
              else if rh_revision h = mo_revision m then (Inr True, db)
              else if rh_revision h < mo_revision m then (Inl RuleBehind, db)
              else case read_rule_revision env (in_get2 inp) h s of
                     Inl e \<Rightarrow> (Inl (StoreFailed e), db)
                   | Inr newer \<Rightarrow>
                       (case validate_monitor (ae_sql_ok env) (ve_value newer) of
                          Inl message \<Rightarrow> (Inl (InvalidRule message), db)
                        | Inr _ \<Rightarrow>
                            if in_db_fails inp then (Inl DbFailed, db)
                            else (Inr False, snd (fold_rule (ve_value newer) db)))))"

definition fold_then ::
  "eval_input \<Rightarrow> uuid \<Rightarrow> alert_state \<Rightarrow> slot_outcome \<Rightarrow> alerts_db \<Rightarrow> eval_phase \<times> alerts_db" where
  "fold_then inp mid st outcome db =
     (if in_db_fails inp then (Finished (Inl (Failed DbFailed)), db)
      else (Finished (Inr outcome), snd (fold_state mid st db)))"

definition check_rule_step ::
  "alert_env \<Rightarrow> eval_input \<Rightarrow> monitor \<Rightarrow> eval_phase \<Rightarrow> control_store \<Rightarrow> alerts_db \<Rightarrow> eval_phase \<times> alerts_db" where
  "check_rule_step env inp m continue s db =
     (if \<not> in_fence inp then (Finished (Inl (Failed FenceLost)), db)
      else case rule_is_current env inp m s db of
             (Inl e, db') \<Rightarrow> (Finished (Inl (Failed e)), db')
           | (Inr False, db') \<Rightarrow> (Finished (Inr Superseded), db')
           | (Inr True, db') \<Rightarrow> (continue, db'))"

definition read_head_step ::
  "alert_env \<Rightarrow> evaluation_context \<Rightarrow> eval_input \<Rightarrow> monitor \<Rightarrow> u64 \<Rightarrow> control_store \<Rightarrow> alerts_db \<Rightarrow> eval_phase \<times> alerts_db" where
  "read_head_step env cx inp m slot_id s db =
     (case read_state_head env (in_get1 inp) (mo_id m) (cx_deployment_id cx) s of
        Inl e \<Rightarrow> (Finished (Inl (Failed (StoreFailed e))), db)
      | Inr None \<Rightarrow> (Query None, db)
      | Inr (Some h) \<Rightarrow>
          (let st = sh_state (ve_value h)
           in if as_monitor_revision st > mo_revision m then fold_then inp (mo_id m) st Superseded db
              else if covers st (mo_revision m) slot_id then fold_then inp (mo_id m) st (AlreadyCovered st) db
              else (Query (Some h), db)))"

definition query_step :: "evaluation_context \<Rightarrow> eval_input \<Rightarrow> monitor \<Rightarrow> state_head versioned option \<Rightarrow> eval_phase" where
  "query_step cx inp m prior =
     (if mo_enabled m
      then (if sq_target_id (mo_query m) \<in> set (cx_query_targets cx) then Recheck prior (in_obs inp)
            else Finished (Inl (Failed UnknownTarget)))
      else Recheck prior ObsNoData)"

definition transition_of ::
  "alert_env \<Rightarrow> evaluation_context \<Rightarrow> monitor \<Rightarrow> u64 \<Rightarrow> u64 \<Rightarrow> state_head versioned option \<Rightarrow> observation \<Rightarrow>
     alert_state \<Rightarrow> state_change \<Rightarrow> transition_record option" where
  "transition_of env cx m slot_id slot_end prior obs nxt change =
     (if chg_transitioned change
      then Some \<lparr>tr_schema_version = STATE_RECORD_SCHEMA_VERSION, tr_deployment_id = cx_deployment_id cx,
                 tr_monitor_id = mo_id m, tr_monitor_revision = mo_revision m, tr_slot_id = slot_id,
                 tr_evaluated_at_unix_nano = slot_end, tr_observation = obs, tr_previous_status = chg_previous change,
                 tr_resumed = chg_resumed change, tr_state = nxt,
                 tr_previous_transition_key =
                   map_option (\<lambda>h. ref_key env (sh_latest_transition (ve_value h)) (mo_id m)) prior,
                 tr_notification_intents = []\<rparr>
      else None)"

definition commit_job_of ::
  "alert_env \<Rightarrow> evaluation_context \<Rightarrow> monitor \<Rightarrow> u64 \<Rightarrow> u64 \<Rightarrow> state_head versioned option \<Rightarrow> observation \<Rightarrow>
     evaluation_failure + commit_job" where
  "commit_job_of env cx m slot_id slot_end prior obs =
     (case evaluate m (map_option (\<lambda>h. sh_state (ve_value h)) prior) obs slot_id slot_end of
        (nxt, change) \<Rightarrow>
          (let transition = transition_of env cx m slot_id slot_end prior obs nxt change;
               job = (\<lambda>latest. \<lparr>cj_head = \<lparr>sh_schema_version = STATE_RECORD_SCHEMA_VERSION,
                        sh_deployment_id = cx_deployment_id cx, sh_monitor_id = mo_id m, sh_state = nxt,
                        sh_latest_transition = latest, sh_updated_at_unix_nano = slot_end\<rparr>,
                      cj_transition = transition, cj_expected = map_option ve_version prior\<rparr>)
           in case transition of
                Some t \<Rightarrow> (case reference env t of None \<Rightarrow> Inl (StoreFailed Serialize) | Some r \<Rightarrow> Inr (job r))
              | None \<Rightarrow>
                  (case prior of
                     Some h \<Rightarrow> Inr (job (sh_latest_transition (ve_value h)))
                   | None \<Rightarrow> Inl FirstStateNotTransition)))"

definition recheck_step ::
  "alert_env \<Rightarrow> evaluation_context \<Rightarrow> eval_input \<Rightarrow> monitor \<Rightarrow> u64 \<Rightarrow> u64 \<Rightarrow> state_head versioned option \<Rightarrow> observation \<Rightarrow>
     control_store \<Rightarrow> alerts_db \<Rightarrow> eval_phase \<times> alerts_db" where
  "recheck_step env cx inp m slot_id slot_end prior obs s db =
     check_rule_step env inp m
       (case commit_job_of env cx m slot_id slot_end prior obs of Inl e \<Rightarrow> Finished (Inl (Failed e)) | Inr job \<Rightarrow> Publish job)
       s db"

definition advanced_phase :: "alert_state \<Rightarrow> alert_store_error + unit \<Rightarrow> eval_phase" where
  "advanced_phase st r =
     (case r of
        Inr _ \<Rightarrow> FoldNext st
      | Inl (Conflict _) \<Rightarrow> FoldWinner
      | Inl e \<Rightarrow> Finished (Inl (Failed (StoreFailed e))))"

definition fold_winner_step ::
  "alert_env \<Rightarrow> evaluation_context \<Rightarrow> eval_input \<Rightarrow> monitor \<Rightarrow> control_store \<Rightarrow> alerts_db \<Rightarrow> eval_phase \<times> alerts_db" where
  "fold_winner_step env cx inp m s db =
     (case read_state_head env (in_get1 inp) (mo_id m) (cx_deployment_id cx) s of
        Inl e \<Rightarrow> (Finished (Inl (Failed (StoreFailed e))), db)
      | Inr None \<Rightarrow> (Finished (Inr Superseded), db)
      | Inr (Some winner) \<Rightarrow> fold_then inp (mo_id m) (sh_state (ve_value winner)) Superseded db)"

definition evaluator_step ::
  "alert_env \<Rightarrow> evaluation_context \<Rightarrow> eval_input \<Rightarrow> evaluator \<Rightarrow> control_store \<Rightarrow> alerts_db \<Rightarrow>
     evaluator \<times> control_store \<times> alerts_db" where
  "evaluator_step env cx inp e s db =
     (let m = el_monitor e; quiet = (\<lambda>(phase, db'). (e\<lparr>el_phase := phase\<rparr>, s, db'))
      in case el_phase e of
           CheckRule \<Rightarrow> quiet (check_rule_step env inp m ReadHead s db)
         | ReadHead \<Rightarrow> quiet (read_head_step env cx inp m (el_slot_id e) s db)
         | Query prior \<Rightarrow> quiet (query_step cx inp m prior, db)
         | Recheck prior obs \<Rightarrow>
             quiet (recheck_step env cx inp m (el_slot_id e) (el_slot_end_unix_nano e) prior obs s db)
         | Publish job \<Rightarrow>
             (case publish_transition env (in_put inp) (in_get1 inp) (cj_head job) (cj_transition job) s of
                (Inl err, s') \<Rightarrow> (e\<lparr>el_phase := Finished (Inl (Failed (StoreFailed err)))\<rparr>, s', db)
              | (Inr _, s') \<Rightarrow> (e\<lparr>el_phase := Advance job\<rparr>, s', db))
         | Advance job \<Rightarrow>
             (case advance_head env (in_put inp) (in_get1 inp) (cj_head job) (cj_expected job) s of
                (r, s') \<Rightarrow> (e\<lparr>el_phase := advanced_phase (sh_state (cj_head job)) r\<rparr>, s', db))
         | FoldWinner \<Rightarrow> quiet (fold_winner_step env cx inp m s db)
         | FoldNext st \<Rightarrow> quiet (fold_then inp (mo_id m) st (Committed st) db)
         | Finished _ \<Rightarrow> (e, s, db))"

text \<open>
  \<open>evaluate_monitor_slot\<close> runs the steps under a lease; \<open>grant\<close> is the provider's answer. Run alone,
  an evaluator makes at most eight steps.
\<close>

fun eval_run ::
  "alert_env \<Rightarrow> evaluation_context \<Rightarrow> eval_input list \<Rightarrow> evaluator \<Rightarrow> control_store \<Rightarrow> alerts_db \<Rightarrow>
     evaluator \<times> control_store \<times> alerts_db" where
  "eval_run env cx [] e s db = (e, s, db)"
| "eval_run env cx (inp # inps) e s db = (case evaluator_step env cx inp e s db of (e', s', db') \<Rightarrow> eval_run env cx inps e' s' db')"

definition evaluate_monitor_slot ::
  "alert_env \<Rightarrow> evaluation_context \<Rightarrow> unit + bool \<Rightarrow> eval_input list \<Rightarrow> monitor \<Rightarrow> u64 \<Rightarrow> u64 \<Rightarrow> control_store \<Rightarrow> alerts_db \<Rightarrow>
     (evaluation_error + slot_outcome) option \<times> control_store \<times> alerts_db" where
  "evaluate_monitor_slot env cx grant inputs m slot_id slot_end s db =
     (case grant of
        Inl _ \<Rightarrow> (Some (Inl LeaseUnavailable), s, db)
      | Inr False \<Rightarrow> (Some (Inr Busy), s, db)
      | Inr True \<Rightarrow>
          (case eval_run env cx inputs (eval_start m slot_id slot_end) s db of
             (e, s', db') \<Rightarrow> (case el_phase e of Finished r \<Rightarrow> Some r | _ \<Rightarrow> None, s', db')))"

end
