(* ===== verification/Alert_Props.thy ===== *)
theory Alert_Props
  imports Alert_State
begin

text \<open>
  What the alert state machine promises: an alert fires only after the condition has held for the
  configured time, resolves only after it has been clear for the configured time, and the scheduler
  picks the newest slot that is due.
\<close>

section \<open>Histories of evaluations\<close>

record eval_step =
  ev_monitor :: monitor
  ev_obs :: observation
  ev_slot :: u64
  ev_now :: u64

text \<open>The durable state and the steps that were folded into it, oldest first.\<close>

definition apply_step :: "eval_step \<Rightarrow> alert_state option \<times> eval_step list \<Rightarrow> alert_state option \<times> eval_step list" where
  "apply_step s = (\<lambda>(prior, h).
     (Some (fst (evaluate (ev_monitor s) prior (ev_obs s) (ev_slot s) (ev_now s))),
      if (case prior of Some st \<Rightarrow> covers st (mo_revision (ev_monitor s)) (ev_slot s) | None \<Rightarrow> False) then h else h @ [s]))"

definition alert_run :: "eval_step list \<Rightarrow> alert_state option \<times> eval_step list" where
  "alert_run steps = fold apply_step steps (None, [])"

definition treated_true :: "eval_step \<Rightarrow> bool" where
  "treated_true s \<longleftrightarrow> mo_enabled (ev_monitor s) \<and>
     (case ev_obs s of
        ObsValue v \<Rightarrow> breaching (ev_monitor s) v
      | ObsNoData \<Rightarrow> mo_no_data (ev_monitor s) = PolicyFiring
      | ObsError _ \<Rightarrow> mo_execution_error (ev_monitor s) = ReportFiring)"

definition kept :: "eval_step \<Rightarrow> bool" where
  "kept s \<longleftrightarrow> mo_enabled (ev_monitor s) \<and> (\<exists>c. ev_obs s = ObsError c) \<and> mo_execution_error (ev_monitor s) = KeepLast"

text \<open>The last steps, from one at \<open>since\<close> on, all satisfy \<open>P\<close>.\<close>

definition hold_from :: "(eval_step \<Rightarrow> bool) \<Rightarrow> eval_step list \<Rightarrow> u64 \<Rightarrow> bool" where
  "hold_from P h since \<longleftrightarrow> (\<exists>pre hold. h = pre @ hold \<and> hold \<noteq> [] \<and> ev_now (hd hold) = since \<and> list_all P hold)"

definition pending_step :: "u64 \<Rightarrow> eval_step \<Rightarrow> bool" where
  "pending_step revision s \<longleftrightarrow> mo_revision (ev_monitor s) = revision \<and> (treated_true s \<or> kept s)"

lemma hold_from_single: "P s \<Longrightarrow> hold_from P (h @ [s]) (ev_now s)"
  unfolding hold_from_def by (intro exI [of _ h] exI [of _ "[s]"]) simp

lemma hold_from_snoc: "hold_from P h t \<Longrightarrow> P s \<Longrightarrow> hold_from P (h @ [s]) t"
proof -
  assume "hold_from P h t" "P s"
  then obtain pre hold where "h = pre @ hold" "hold \<noteq> []" "ev_now (hd hold) = t" "list_all P hold" by (auto simp: hold_from_def)
  with \<open>P s\<close> show ?thesis unfolding hold_from_def by (intro exI [of _ pre] exI [of _ "hold @ [s]"]) simp
qed

definition alert_state_wf :: "alert_state \<Rightarrow> bool" where
  "alert_state_wf st \<longleftrightarrow> (\<forall>a. as_interrupted st = Some a \<longrightarrow> outage (as_status st) \<and> (is_status a = Firing \<or> is_status a = Recovering))"

definition history_inv :: "alert_state \<Rightarrow> eval_step list \<Rightarrow> bool" where
  "history_inv st h \<longleftrightarrow> alert_state_wf st \<and>
     (as_status st = Pending \<longrightarrow> hold_from (pending_step (as_monitor_revision st)) h (as_since_unix_nano st)) \<and>
     (\<forall>a. active st = Some a \<and> is_status a = Recovering \<longrightarrow> hold_from (\<lambda>s. \<not> treated_true s) h (is_since_unix_nano a))"

lemmas evaluation_defs = advanced_state_def next_status_def breaching_status_def clear_status_def

lemma active_status: "alert_state_wf st \<Longrightarrow> active st = Some a \<Longrightarrow> is_status a = Firing \<or> is_status a = Recovering"
  by (auto simp: active_def alert_state_wf_def split: alert_status.splits)

lemma held_for_now: "s \<noteq> 0 \<Longrightarrow> \<not> held_for now now s"
proof -
  assume "s \<noteq> 0"
  then have "0 < unat s" by (simp add: unat_gt_0)
  then have "0 < min (unat s * 1000000000) (2 ^ 64 - 1)" by simp
  then show ?thesis by (simp add: held_for_def word_le_nat_alt sat_simps)
qed

text \<open>The state a step leads to, and its status by what the step is.\<close>

definition step_state :: "eval_step \<Rightarrow> alert_state option \<Rightarrow> alert_state" where
  "step_state s prior = fst (advanced_state (ev_monitor s) prior (ev_obs s) (ev_slot s) (ev_now s))"

definition of_revision :: "eval_step \<Rightarrow> alert_state option \<Rightarrow> alert_state option" where
  "of_revision s prior = option_filter (\<lambda>st. as_monitor_revision st = mo_revision (ev_monitor s)) prior"

lemma step_state_fields:
  "as_monitor_revision (step_state s prior) = mo_revision (ev_monitor s)"
  "as_status (step_state s prior) = fst (next_status (ev_monitor s) prior (of_revision s prior) (ev_obs s) (ev_now s))"
  "as_since_unix_nano (step_state s prior) = next_since prior (of_revision s prior)
     (option_filter (\<lambda>act. is_status act = as_status (step_state s prior)) (suspended_by prior)) (as_status (step_state s prior)) (ev_now s)"
  "as_interrupted (step_state s prior) = (if outage (as_status (step_state s prior)) then Option.bind prior active else None)"
  "as_last_slot_id (step_state s prior) = ev_slot s"
  by (simp_all add: step_state_def advanced_state_def of_revision_def Let_def split: prod.splits)

lemma status_true: "treated_true s \<Longrightarrow>
    as_status (step_state s prior) = breaching_status (ev_monitor s) prior (of_revision s prior) (ev_now s)"
  by (auto simp: step_state_fields next_status_def treated_true_def split: observation.splits)

lemma status_not_true: "\<not> treated_true s \<Longrightarrow>
    as_status (step_state s prior) =
      (if \<not> mo_enabled (ev_monitor s) then Disabled
       else case ev_obs s of
         ObsValue v \<Rightarrow> clear_status (ev_monitor s) prior (of_revision s prior) (ev_now s)
       | ObsNoData \<Rightarrow> NoData
       | ObsError _ \<Rightarrow>
           if mo_execution_error (ev_monitor s) = KeepLast
           then (case prior of None \<Rightarrow> Error | Some st \<Rightarrow> if as_status st = Disabled then Error else as_status st)
           else Error)"
  by (cases prior) (auto simp: step_state_fields next_status_def treated_true_def
      split: observation.splits no_data_policy.splits execution_error_policy.splits)

lemma breaching_status_cases: "breaching_status m prior r now = Firing \<or> breaching_status m prior r now = Pending"
  by (simp add: breaching_status_def Let_def)

lemma clear_status_cases: "clear_status m prior r now = Inactive \<or>
    clear_status m prior r now = Recovering \<and> Option.bind prior active \<noteq> None"
  by (auto simp: clear_status_def Let_def split: option.splits)

lemma step_wf: "(\<forall>st. prior = Some st \<longrightarrow> alert_state_wf st) \<Longrightarrow> alert_state_wf (step_state s prior)"
  unfolding alert_state_wf_def [of "step_state s prior"]
  by (cases prior) (auto simp: step_state_fields dest: active_status)

lemma step_not_true:
  assumes "as_status (step_state s prior) \<noteq> Firing" and "as_status (step_state s prior) \<noteq> Pending"
  shows "\<not> treated_true s"
  using assms breaching_status_cases status_true by metis

lemma step_pending: "as_status (step_state s prior) = Pending \<Longrightarrow> treated_true s \<or> kept s"
  using clear_status_cases [of "ev_monitor s" prior "of_revision s prior" "ev_now s"]
  by (cases "treated_true s") (auto simp: status_not_true kept_def split: if_splits observation.splits)

lemma option_filter_Some: "option_filter P x = Some a \<longleftrightarrow> x = Some a \<and> P a"
  by (auto simp: option_filter_def split: option.splits)

lemma option_filter_None: "option_filter P x = None \<longleftrightarrow> (\<forall>a. x = Some a \<longrightarrow> \<not> P a)"
  by (auto simp: option_filter_def split: option.splits)

lemma of_revision_Some: "of_revision s prior = Some st \<longleftrightarrow> prior = Some st \<and> as_monitor_revision st = mo_revision (ev_monitor s)"
  by (auto simp: of_revision_def option_filter_def split: option.splits if_splits)

lemma suspended_by_Some: "suspended_by prior = Some a \<longleftrightarrow> (\<exists>st. prior = Some st \<and> outage (as_status st) \<and> as_interrupted st = Some a)"
  by (auto simp: suspended_by_def option_filter_def split: option.splits if_splits)

lemma hold_since_cases:
  assumes "is_hold q"
  shows "next_since prior r resumed q now = now \<or> r \<noteq> None \<and>
    ((\<exists>a. resumed = Some a \<and> next_since prior r resumed q now = is_since_unix_nano a) \<or>
     (\<exists>st. prior = Some st \<and> as_status st = q \<and> next_since prior r resumed q now = as_since_unix_nano st))"
  using assms by (auto simp: next_since_def Let_def split: option.splits)

lemma step_pending_hold:
  assumes inv: "\<forall>st. prior = Some st \<longrightarrow> history_inv st h" and p: "as_status (step_state s prior) = Pending"
  shows "hold_from (pending_step (mo_revision (ev_monitor s))) (h @ [s]) (as_since_unix_nano (step_state s prior))"
proof -
  have s: "pending_step (mo_revision (ev_monitor s)) s" using step_pending [OF p] by (simp add: pending_step_def)
  let ?since = "next_since prior (of_revision s prior) (option_filter (\<lambda>act. is_status act = Pending) (suspended_by prior)) Pending (ev_now s)"
  have "option_filter (\<lambda>act. is_status act = Pending) (suspended_by prior) = None"
    using inv by (auto simp: option_filter_None suspended_by_Some history_inv_def alert_state_wf_def)
  then consider "?since = ev_now s" | st where "prior = Some st" "as_status st = Pending" "?since = as_since_unix_nano st"
      "as_monitor_revision st = mo_revision (ev_monitor s)"
    using hold_since_cases [of Pending prior "of_revision s prior" None "ev_now s"]
    by (auto simp: is_hold_def of_revision_Some)
  then have "hold_from (pending_step (mo_revision (ev_monitor s))) (h @ [s]) ?since"
  proof cases
    case 1
    with hold_from_single [of "pending_step (mo_revision (ev_monitor s))", OF s] show ?thesis by simp
  next
    case 2
    with inv have "hold_from (pending_step (mo_revision (ev_monitor s))) h ?since" by (auto simp: history_inv_def)
    from hold_from_snoc [of "pending_step (mo_revision (ev_monitor s))", OF this s] show ?thesis .
  qed
  then show ?thesis by (simp add: step_state_fields(3) p)
qed

lemma active_recovering:
  "as_status st = Recovering \<Longrightarrow> active st = Some \<lparr>is_status = Recovering, is_since_unix_nano = as_since_unix_nano st\<rparr>"
  "outage (as_status st) \<Longrightarrow> active st = as_interrupted st"
  by (auto simp: active_def outage_def)

lemma step_recovering_hold:
  assumes inv: "\<forall>st. prior = Some st \<longrightarrow> history_inv st h" and r: "as_status (step_state s prior) = Recovering"
  shows "hold_from (\<lambda>s. \<not> treated_true s) (h @ [s]) (as_since_unix_nano (step_state s prior))"
proof -
  have s: "\<not> treated_true s" using step_not_true [of s prior] r by simp
  let ?resumed = "option_filter (\<lambda>act. is_status act = Recovering) (suspended_by prior)"
  let ?since = "next_since prior (of_revision s prior) ?resumed Recovering (ev_now s)"
  consider "?since = ev_now s" | st a where "prior = Some st" "active st = Some a" "is_status a = Recovering" "?since = is_since_unix_nano a"
  proof (cases "?since = ev_now s")
    case False
    with hold_since_cases [of Recovering prior "of_revision s prior" ?resumed "ev_now s"]
    consider a where "?resumed = Some a" "?since = is_since_unix_nano a"
      | st where "prior = Some st" "as_status st = Recovering" "?since = as_since_unix_nano st"
      by (auto simp: is_hold_def)
    then show thesis
    proof cases
      case 1
      then show thesis using that(2) by (auto simp: option_filter_Some suspended_by_Some active_recovering)
    next
      case 2
      then show thesis using that(2) [OF 2(1) active_recovering(1) [OF 2(2)]] by simp
    qed
  qed (rule that(1))
  then have "hold_from (\<lambda>s. \<not> treated_true s) (h @ [s]) ?since"
  proof cases
    case 1
    with hold_from_single [of "\<lambda>s. \<not> treated_true s", OF s] show ?thesis by simp
  next
    case 2
    with inv have "hold_from (\<lambda>s. \<not> treated_true s) h ?since" by (simp add: history_inv_def)
    from hold_from_snoc [of "\<lambda>s. \<not> treated_true s", OF this s] show ?thesis .
  qed
  then show ?thesis by (simp add: step_state_fields(3) r)
qed

lemma step_history_inv:
  assumes inv: "\<forall>st. prior = Some st \<longrightarrow> history_inv st h"
  shows "history_inv (step_state s prior) (h @ [s])"
  unfolding history_inv_def
proof (intro conjI impI allI; (elim conjE)?)
  show "alert_state_wf (step_state s prior)" using step_wf inv by (auto simp: history_inv_def)
  show "as_status (step_state s prior) = Pending \<Longrightarrow>
      hold_from (pending_step (as_monitor_revision (step_state s prior))) (h @ [s]) (as_since_unix_nano (step_state s prior))"
    using step_pending_hold [OF inv] by (simp add: step_state_fields(1))
  fix a assume a: "active (step_state s prior) = Some a" "is_status a = Recovering"
  show "hold_from (\<lambda>s. \<not> treated_true s) (h @ [s]) (is_since_unix_nano a)"
  proof (cases "as_status (step_state s prior) = Recovering")
    case True
    with a step_recovering_hold [OF inv True] show ?thesis by (auto simp: active_recovering)
  next
    case False
    with a have out: "outage (as_status (step_state s prior))" by (auto simp: active_def outage_def split: alert_status.splits)
    with a have "Option.bind prior active = Some a" by (simp add: active_recovering step_state_fields(4))
    with inv a have "hold_from (\<lambda>s. \<not> treated_true s) h (is_since_unix_nano a)" by (cases prior) (auto simp: history_inv_def)
    moreover have "\<not> treated_true s" using step_not_true [of s prior] out by (auto simp: outage_def)
    ultimately show ?thesis using hold_from_snoc [of "\<lambda>s. \<not> treated_true s"] by simp
  qed
qed

lemma alert_run_inv: "alert_run steps = (prior, h) \<Longrightarrow> (prior = None \<longrightarrow> h = []) \<and> (\<forall>st. prior = Some st \<longrightarrow> history_inv st h)"
proof (induction steps arbitrary: prior h rule: rev_induct)
  case (snoc s steps)
  obtain p g where run: "alert_run steps = (p, g)" by (metis prod.exhaust)
  show ?case
  proof (cases "\<exists>st. p = Some st \<and> covers st (mo_revision (ev_monitor s)) (ev_slot s)")
    case True
    with snoc.prems run have "prior = p" "h = g"
      by (auto simp: alert_run_def apply_step_def evaluate_def option_filter_def)
    with snoc.IH [OF run] show ?thesis by simp
  next
    case False
    then have "option_filter (\<lambda>st. covers st (mo_revision (ev_monitor s)) (ev_slot s)) p = None" by (auto simp: option_filter_None)
    with False snoc.prems run have "prior = Some (step_state s p)" "h = g @ [s]"
      by (auto simp: alert_run_def apply_step_def evaluate_def step_state_def split: option.splits)
    with step_history_inv snoc.IH [OF run] show ?thesis by simp
  qed
qed (simp add: alert_run_def)

section \<open>Firing and resolving\<close>

text \<open>
  C6: an alert fires only after its hold. After any sequence of evaluations under any revisions, if a
  further one turns an alert that is not active into a firing one, then its observation is treated as
  true and, unless the rule has no hold, all steps folded in since some time at least \<open>for_seconds\<close>
  ago are of the same revision and treated as true or errors that keep the last status.
\<close>

theorem fires_only_after_hold:
  assumes "alert_run steps = (prior, h)" and "Option.bind prior active = None"
    and "alert_run (steps @ [s]) = (Some st, h')" and "as_status st = Firing"
  shows "treated_true s \<and> (mo_for_seconds (ev_monitor s) = 0 \<or>
    (\<exists>t. hold_from (pending_step (mo_revision (ev_monitor s))) h t \<and> held_for t (ev_now s) (mo_for_seconds (ev_monitor s))))"
proof -
  have new: "\<not> (\<exists>st. prior = Some st \<and> covers st (mo_revision (ev_monitor s)) (ev_slot s))"
    using assms by (auto simp: alert_run_def apply_step_def evaluate_def option_filter_def active_def)
  then have st: "st = step_state s prior"
    using assms(1,3) by (auto simp: alert_run_def apply_step_def evaluate_def step_state_def option_filter_def split: option.splits)
  have true: "treated_true s"
  proof (rule ccontr)
    assume "\<not> treated_true s"
    from status_not_true [OF this, of prior] assms(2,4) st
      clear_status_cases [of "ev_monitor s" prior "of_revision s prior" "ev_now s"] show False
      by (auto simp: active_def split: if_splits observation.splits option.splits)
  qed
  have fire: "breaching_status (ev_monitor s) prior (of_revision s prior) (ev_now s) = Firing"
    using status_true [OF true, of prior] assms(4) st by simp
  show ?thesis
  proof (cases "mo_for_seconds (ev_monitor s) = 0")
    case False
    then obtain st' where st': "option_filter (\<lambda>st. as_status st = Pending) (of_revision s prior) = Some st'"
      "held_for (as_since_unix_nano st') (ev_now s) (mo_for_seconds (ev_monitor s))"
      using fire assms(2) held_for_now [OF False] by (auto simp: breaching_status_def Let_def split: if_splits option.splits)
    with alert_run_inv [OF assms(1)] have "hold_from (pending_step (mo_revision (ev_monitor s))) h (as_since_unix_nano st')"
      by (auto simp: option_filter_Some of_revision_Some history_inv_def)
    with st'(2) true show ?thesis by blast
  qed (simp add: true)
qed

text \<open>
  C7: an alert resolves only after its recovery. If a further evaluation turns an alert that is active,
  possibly behind an outage, into one that is not, then the monitor is disabled, or the observed value
  is clear and, unless the rule has no recovery time, no step folded in since some time at least
  \<open>recover_for_seconds\<close> ago was treated as true.
\<close>

theorem resolves_only_after_recovery:
  assumes "alert_run steps = (Some prior, h)" and "active prior = Some a"
    and "alert_run (steps @ [s]) = (Some st, h')" and "active st = None"
  shows "\<not> mo_enabled (ev_monitor s) \<or> (\<exists>v. ev_obs s = ObsValue v \<and> \<not> breaching (ev_monitor s) v) \<and>
    (mo_recover_for_seconds (ev_monitor s) = 0 \<or>
      (\<exists>t. hold_from (\<lambda>s. \<not> treated_true s) h t \<and> held_for t (ev_now s) (mo_recover_for_seconds (ev_monitor s))))"
proof (cases "mo_enabled (ev_monitor s)")
  case enabled: True
  have "\<not> covers prior (mo_revision (ev_monitor s)) (ev_slot s)"
    using assms by (auto simp: alert_run_def apply_step_def evaluate_def option_filter_def)
  then have st: "st = step_state s (Some prior)"
    using assms(1,3) by (auto simp: alert_run_def apply_step_def evaluate_def step_state_def option_filter_def)
  from assms(4) have status: "as_status st \<noteq> Firing" "as_status st \<noteq> Recovering" by (auto simp: active_def)
  have out: "\<not> outage (as_status st)"
    using assms(2,4) st by (auto simp: active_recovering step_state_fields(4))
  have clear: "\<not> treated_true s"
    using status_true [of s "Some prior"] status(1) assms(2) st by (auto simp: breaching_status_def)
  have keep: "as_status prior \<noteq> Disabled" "as_status prior \<noteq> Inactive" "as_status prior \<noteq> Pending"
    using assms(2) by (auto simp: active_def)
  obtain v where v: "ev_obs s = ObsValue v" "clear_status (ev_monitor s) (Some prior) (of_revision s (Some prior)) (ev_now s) = Inactive"
  proof (cases "ev_obs s")
    case (ObsValue v)
    with status_not_true [OF clear, of "Some prior"] enabled st status
      clear_status_cases [of "ev_monitor s" "Some prior" "of_revision s (Some prior)" "ev_now s"] that show thesis by auto
  qed (use status_not_true [OF clear, of "Some prior"] enabled st status out keep in \<open>auto simp: outage_def split: if_splits\<close>,
      use keep in \<open>cases "as_status prior"; auto\<close>)
  have b: "\<not> breaching (ev_monitor s) v" using clear v(1) enabled by (simp add: treated_true_def)
  show ?thesis
  proof (cases "mo_recover_for_seconds (ev_monitor s) = 0")
    case False
    with v(2) assms(2) held_for_now [OF False] have "is_status a = Recovering"
      "held_for (is_since_unix_nano a) (ev_now s) (mo_recover_for_seconds (ev_monitor s))"
      by (auto simp: clear_status_def Let_def option_filter_def split: if_splits)
    with alert_run_inv [OF assms(1)] assms(2) b v(1) show ?thesis by (auto simp: history_inv_def)
  qed (use v b in blast)
qed simp

definition high_load :: monitor where
  "high_load = \<lparr>mo_schema_version = 1, mo_id = 1, mo_revision = 1, mo_name = ''high load'', mo_enabled = True,
     mo_query = \<lparr>sq_target_id = ''local'', sq_signal = Metrics, sq_matchers = [], sq_lookback_seconds = 60,
       sq_sql = ''SELECT count(*) FROM metrics''\<rparr>,
     mo_condition = \<lparr>sc_comparator = Gt, sc_threshold = Finite 10\<rparr>,
     mo_every_seconds = 60, mo_jitter_seconds = 0, mo_for_seconds = 10, mo_recover_for_seconds = 5,
     mo_no_data = PolicyNoData, mo_execution_error = KeepLast, mo_labels = [], mo_annotations = [],
     mo_created_at_unix_nano = 1, mo_updated_at_unix_nano = 1\<rparr>"

definition load_step :: "monitor \<Rightarrow> observation \<Rightarrow> u64 \<Rightarrow> u64 \<Rightarrow> eval_step" where
  "load_step m obs i secs = \<lparr>ev_monitor = m, ev_obs = obs, ev_slot = i, ev_now = secs * 1000000000\<rparr>"

lemmas run_defs = alert_run_def apply_step_def evaluate_def evaluation_defs option_filter_def covers_def breaching_def
  f64_equal_def held_for_def sat_sub_def sat_mul_def suspended_by_def next_since_def is_hold_def outage_def active_def Let_def
  word_le_nat_alt word_less_nat_alt

theorem fires_only_after_hold_witness:
  "\<exists>t. hold_from (pending_step 1) [load_step high_load (ObsValue (Finite 11)) 1 1] t \<and> held_for t 12000000000 10"
proof -
  let ?first = "load_step high_load (ObsValue (Finite 11)) 1 1" and ?second = "load_step high_load (ObsValue (Finite 11)) 2 12"
  obtain st where "alert_run [?first] = (Some st, [?first])" "active st = None"
    by (simp add: load_step_def high_load_def run_defs)
  moreover obtain st' where "alert_run ([?first] @ [?second]) = (Some st', [?first, ?second])" "as_status st' = Firing"
    by (simp add: load_step_def high_load_def run_defs)
  ultimately have "treated_true ?second \<and> (mo_for_seconds (ev_monitor ?second) = 0 \<or>
      (\<exists>t. hold_from (pending_step (mo_revision (ev_monitor ?second))) [?first] t \<and>
        held_for t (ev_now ?second) (mo_for_seconds (ev_monitor ?second))))"
    using fires_only_after_hold [of "[?first]" "Some st" "[?first]" ?second st' "[?first, ?second]"] by simp
  then show ?thesis by (simp add: load_step_def high_load_def)
qed

definition fired_run :: "eval_step list" where
  "fired_run = [load_step high_load (ObsValue (Finite 11)) 1 1, load_step high_load (ObsValue (Finite 11)) 2 12,
     load_step high_load (ObsValue (Finite 1)) 3 13]"

theorem resolves_only_after_recovery_witness:
  "\<exists>t. hold_from (\<lambda>s. \<not> treated_true s) fired_run t \<and> held_for t 19000000000 5"
proof -
  let ?last = "load_step high_load (ObsValue (Finite 1)) 4 19"
  obtain st where run: "alert_run fired_run = (Some st, fired_run)" "as_status st = Recovering"
    by (simp add: fired_run_def load_step_def high_load_def run_defs)
  moreover obtain st' where "alert_run (fired_run @ [?last]) = (Some st', fired_run @ [?last])" "active st' = None"
    by (simp add: fired_run_def load_step_def high_load_def run_defs)
  ultimately have "\<not> mo_enabled (ev_monitor ?last) \<or> (\<exists>v. ev_obs ?last = ObsValue v \<and> \<not> breaching (ev_monitor ?last) v) \<and>
      (mo_recover_for_seconds (ev_monitor ?last) = 0 \<or>
        (\<exists>t. hold_from (\<lambda>s. \<not> treated_true s) fired_run t \<and> held_for t (ev_now ?last) (mo_recover_for_seconds (ev_monitor ?last))))"
    using resolves_only_after_recovery [OF run(1) active_recovering(1) [OF run(2)]] by simp
  then show ?thesis by (simp add: load_step_def high_load_def)
qed

text \<open>Observations that suspend an active alert, and a series of evaluations of them.\<close>

definition suspends :: "monitor \<Rightarrow> observation \<Rightarrow> bool" where
  "suspends m obs \<longleftrightarrow>
     (case obs of
        ObsValue _ \<Rightarrow> False
      | ObsNoData \<Rightarrow> mo_no_data m = PolicyNoData
      | ObsError _ \<Rightarrow> mo_execution_error m = ReportError)"

definition after_all :: "monitor \<Rightarrow> (observation \<times> u64 \<times> u64) list \<Rightarrow> alert_state \<Rightarrow> alert_state" where
  "after_all m os st = fold (\<lambda>(obs, i, now) p. fst (evaluate m (Some p) obs i now)) os st"

definition suspended_at :: "monitor \<Rightarrow> u64 \<Rightarrow> u64 \<Rightarrow> alert_state \<Rightarrow> bool" where
  "suspended_at m since i st \<longleftrightarrow> as_monitor_revision st = mo_revision m \<and> outage (as_status st) \<and> as_last_slot_id st = i \<and>
     as_interrupted st = Some \<lparr>is_status = Recovering, is_since_unix_nano = since\<rparr>"

lemma suspend_step:
  assumes "active p = Some \<lparr>is_status = Recovering, is_since_unix_nano = since\<rparr>" and "\<not> covers p (mo_revision m) i"
    and "mo_enabled m" "suspends m obs"
  shows "suspended_at m since i (fst (evaluate m (Some p) obs i now))"
  using assms by (cases obs) (simp_all add: suspended_at_def suspends_def evaluate_def option_filter_def advanced_state_def next_status_def outage_def Let_def)

lemma active_suspended: "suspended_at m since i p \<Longrightarrow> active p = Some \<lparr>is_status = Recovering, is_since_unix_nano = since\<rparr>"
  by (auto simp: suspended_at_def outage_def active_def)

lemma suspended_run:
  assumes "suspended_at m since i p" and "mo_enabled m" and "list_all (\<lambda>(obs, _, _). suspends m obs) os"
    and "sorted_wrt (<) (i # map (\<lambda>(_, k, _). k) os @ [j])"
  shows "\<exists>k < j. suspended_at m since k (after_all m os p)"
  using assms(1,3,4)
proof (induction os arbitrary: i p)
  case (Cons x os)
  obtain obs k now where x: "x = (obs, k, now)" by (metis prod.exhaust)
  have "\<not> covers p (mo_revision m) k" using Cons.prems(1,3) x by (auto simp: covers_def suspended_at_def)
  from suspend_step [OF active_suspended [OF Cons.prems(1)] this assms(2), of obs now] Cons.prems(2)
  have "suspended_at m since k (fst (evaluate m (Some p) obs k now))" by (simp add: x)
  from Cons.IH [OF this] Cons.prems(2,3) show ?case by (simp add: x after_all_def)
qed (auto simp: after_all_def)

text \<open>
  C34: an edit of a rule is documented to restart a recovery hold. For every rule and every alert that is
  recovering under an older revision: a clear value evaluated first under the new revision does restart
  the hold, but after any number of outages evaluated first the hold of the old revision counts, and the
  alert resolves as soon as that hold is over.
\<close>

theorem recovery_hold_crosses_revision:
  assumes "as_status st = Recovering" and "as_monitor_revision st < mo_revision m"
    and "mo_enabled m" and "mo_recover_for_seconds m \<noteq> 0" and "\<not> breaching m v"
    and "os \<noteq> []" and "list_all (\<lambda>(obs, _, _). suspends m obs) os" and "sorted_wrt (<) (map (\<lambda>(_, k, _). k) os @ [i])"
  shows "as_status (fst (evaluate m (Some st) (ObsValue v) i now)) = Recovering \<and>
    as_status (fst (evaluate m (Some (after_all m os st)) (ObsValue v) i now)) =
      (if held_for (as_since_unix_nano st) now (mo_recover_for_seconds m) then Inactive else Recovering)"
proof -
  let ?t = "as_since_unix_nano st"
  have act: "active st = Some \<lparr>is_status = Recovering, is_since_unix_nano = ?t\<rparr>" using assms(1) by (simp add: active_def)
  have new: "\<not> covers st (mo_revision m) k" for k using assms(2) by (auto simp: covers_def)
  have "\<not> held_for now now (mo_recover_for_seconds m)"
    using assms(4) by (simp add: held_for_def sat_sub_def word_le_nat_alt unat_sat_mul min_def unat_gt_0)
  then have direct: "as_status (fst (evaluate m (Some st) (ObsValue v) i now)) = Recovering"
    using new act assms(2-5) by (auto simp: evaluate_def option_filter_def advanced_state_def next_status_def clear_status_def Let_def)
  obtain obs k t os' where os: "os = (obs, k, t) # os'" using assms(6) by (metis list.exhaust prod.exhaust)
  have "suspended_at m ?t k (fst (evaluate m (Some st) obs k t))"
    using suspend_step [OF act new assms(3)] assms(7) by (simp add: os)
  from suspended_run [OF this assms(3), of os' i] assms(7,8) obtain k' where k': "k' < i" "suspended_at m ?t k' (after_all m os st)"
    by (auto simp: os after_all_def)
  then have "\<not> covers (after_all m os st) (mo_revision m) i" by (auto simp: covers_def suspended_at_def)
  with k' active_suspended [OF k'(2)] assms(3-5)
  have "as_status (fst (evaluate m (Some (after_all m os st)) (ObsValue v) i now)) =
      (if held_for ?t now (mo_recover_for_seconds m) then Inactive else Recovering)"
    by (simp add: suspended_at_def evaluate_def option_filter_def advanced_state_def next_status_def clear_status_def Let_def)
  with direct show ?thesis by simp
qed

theorem recovery_hold_crosses_revision_witness:
  "\<exists>st. fst (alert_run fired_run) = Some st \<and>
     as_status (fst (evaluate (high_load\<lparr>mo_revision := 2\<rparr>) (Some st) (ObsValue (Finite 1)) 5 19000000000)) = Recovering \<and>
     as_status (fst (evaluate (high_load\<lparr>mo_revision := 2\<rparr>) (Some (after_all (high_load\<lparr>mo_revision := 2\<rparr>) [(ObsNoData, 4, 14000000000)] st))
       (ObsValue (Finite 1)) 5 19000000000)) = Inactive"
proof -
  let ?m = "high_load\<lparr>mo_revision := 2\<rparr>"
  obtain st where st: "fst (alert_run fired_run) = Some st" "as_status st = Recovering" "as_monitor_revision st = 1"
    "as_since_unix_nano st = 13000000000"
    by (simp add: fired_run_def load_step_def high_load_def run_defs)
  have "held_for 13000000000 19000000000 5" by (simp add: held_for_def sat_sub_def sat_mul_def word_le_nat_alt word_less_nat_alt)
  with st recovery_hold_crosses_revision [of st ?m "Finite 1" "[(ObsNoData, 4, 14000000000)]" 5 19000000000] show ?thesis
    by (auto simp: high_load_def breaching_def suspends_def)
qed

section \<open>Slots\<close>

definition nanos :: "u64 \<Rightarrow> nat" where
  "nanos secs = unat secs * 1000000000"

lemma jitter_le_cap: "deterministic_jitter sha256 mid i cap \<le> cap"
proof (cases "cap + 1 = 0")
  case True
  then have "cap = - 1" by (simp add: eq_neg_iff_add_eq_0)
  then show ?thesis by simp
next
  case False
  then have "cap < - 1" by (metis add.left_inverse word_order.not_eq_extremum)
  then have "unat (cap + 1) = unat cap + 1" by (rule unat_plus_one)
  moreover have "unat (x mod (cap + 1)) < unat (cap + 1)" for x using False by (simp add: unat_mod_distrib Word.unat_gt_0)
  ultimately show ?thesis by (simp add: deterministic_jitter_def word_le_nat_alt less_Suc_eq_le [symmetric])
qed

lemma unat_nanos: "unat NANOS_PER_SECOND = 1000000000"
  by (simp add: NANOS_PER_SECOND_def)

lemma slot_SomeD:
  assumes "slot sha256 mid i e j d = Some s"
  shows "0 < nanos e \<and> nanos j < 2 ^ 64 \<and> es_id s = i \<and> (\<exists>jitter < nanos e.
    unat (es_execute_at_unix_nano s) = unat i * nanos e + nanos e + unat d + jitter)"
proof -
  from assms obtain every start e' cap delayed where raw: "checked_mul e NANOS_PER_SECOND = Some every" "every \<noteq> 0"
    "checked_mul i every = Some start" "checked_add start every = Some e'" "checked_mul j NANOS_PER_SECOND = Some cap"
    "checked_add e' d = Some delayed"
    "checked_add delayed (deterministic_jitter sha256 mid i (min cap (sat_sub every 1))) = Some (es_execute_at_unix_nano s)" "es_id s = i"
    by (auto simp: slot_def Let_def Option.bind_eq_Some_conv split: if_splits)
  then have every: "unat every = nanos e" "every \<noteq> 0" and start: "unat start = unat i * unat every" "unat e' = unat start + unat every"
    and cap: "unat cap = nanos j" and delayed: "unat delayed = unat e' + unat d"
    and at: "unat (es_execute_at_unix_nano s) = unat delayed + unat (deterministic_jitter sha256 mid i (min cap (sat_sub every 1)))"
    and s: "es_id s = i"
    by (simp_all add: checked_mul_SomeD checked_add_SomeD unat_nanos nanos_def)
  have pos: "0 < nanos e" using every by (metis unat_gt_0)
  have "unat (deterministic_jitter sha256 mid i (min cap (sat_sub every 1))) \<le> unat (sat_sub every 1)"
    using jitter_le_cap [of sha256 mid i "min cap (sat_sub every 1)"] by (simp add: word_le_nat_alt [symmetric])
  also have "\<dots> < nanos e" using pos every by (simp add: unat_sat_sub)
  finally have "unat (deterministic_jitter sha256 mid i (min cap (sat_sub every 1))) < nanos e" .
  moreover have "nanos j < 2 ^ 64" using cap unsigned_less [of cap, where ?'a = nat] by simp
  ultimately show ?thesis using every start delayed at s pos by auto
qed

lemma checked_exists:
  "unat a + unat b < 2 ^ 64 \<Longrightarrow> \<exists>c. checked_add (a :: u64) b = Some c \<and> unat c = unat a + unat b"
  "unat a * unat b < 2 ^ 64 \<Longrightarrow> \<exists>c. checked_mul (a :: u64) b = Some c \<and> unat c = unat a * unat b"
  by (auto simp: checked_add_def checked_mul_def unat_word_ariths intro: exI [of _ "a + b"] exI [of _ "a * b"])

lemma slot_exists:
  assumes "0 < nanos e" and "nanos j < 2 ^ 64" and "unat i * nanos e + nanos e + unat d + nanos e \<le> 2 ^ 64"
  shows "\<exists>s. slot sha256 mid i e j d = Some s"
proof -
  have e: "unat e * unat NANOS_PER_SECOND = nanos e" "unat j * unat NANOS_PER_SECOND = nanos j" by (simp_all add: nanos_def unat_nanos)
  obtain every where every: "checked_mul e NANOS_PER_SECOND = Some every" "unat every = nanos e"
    using checked_exists(2) [of e NANOS_PER_SECOND] e assms by auto
  obtain cap where cap: "checked_mul j NANOS_PER_SECOND = Some cap"
    using checked_exists(2) [of j NANOS_PER_SECOND] e assms by auto
  obtain start where start: "checked_mul i every = Some start" "unat start = unat i * nanos e"
    using checked_exists(2) [of i every] every assms by auto
  obtain end' where end': "checked_add start every = Some end'" "unat end' = unat i * nanos e + nanos e"
    using checked_exists(1) [of start every] every start assms by auto
  obtain delayed where delayed: "checked_add end' d = Some delayed" "unat delayed = unat i * nanos e + nanos e + unat d"
    using checked_exists(1) [of end' d] end' assms by auto
  let ?jitter = "deterministic_jitter sha256 mid i (min cap (sat_sub every 1))"
  have "unat ?jitter \<le> unat (sat_sub every 1)"
    using jitter_le_cap [of sha256 mid i "min cap (sat_sub every 1)"] by (simp add: word_le_nat_alt [symmetric])
  then have "unat ?jitter < nanos e" using assms(1) every(2) by (simp add: unat_sat_sub)
  then obtain execute where "checked_add delayed ?jitter = Some execute"
    using checked_exists(1) [of delayed ?jitter] delayed assms by auto
  moreover have "every \<noteq> 0" using every(2) assms(1) by auto
  ultimately show ?thesis using every cap start end' delayed by (simp add: slot_def)
qed

lemma latest_due_slot_None:
  assumes "(unat now - unat d) div nanos e = 0 \<or> \<not> unat d \<le> unat now \<or> nanos e = 0 \<or> \<not> nanos j < 2 ^ 64"
  shows "latest_due_slot sha256 mid now e j d = None"
proof (rule ccontr)
  assume "latest_due_slot sha256 mid now e j d \<noteq> None"
  then obtain every horizon newest s where raw: "checked_mul e NANOS_PER_SECOND = Some every" "every \<noteq> 0"
    "checked_sub now d = Some horizon" "checked_sub (horizon div every) 1 = Some newest" and s: "slot sha256 mid newest e j d = Some s"
    by (auto simp: latest_due_slot_def Option.bind_eq_Some_conv split: if_splits)
  then have every: "unat every = nanos e" "every \<noteq> 0" and horizon: "d \<le> now" "unat horizon = unat now - unat d"
    and newest: "1 \<le> horizon div every"
    by (simp_all add: checked_mul_SomeD checked_sub_SomeD unat_nanos nanos_def)
  have "unat (horizon div every) = unat horizon div nanos e" using every by (simp add: unat_div_distrib)
  then have "1 \<le> (unat now - unat d) div nanos e" using newest horizon by (simp add: word_le_nat_alt)
  with assms slot_SomeD [OF s] horizon show False by (auto simp: word_le_nat_alt)
qed

lemma latest_due_slot_split:
  assumes "unat now + nanos e < 2 ^ 64" and "(unat now - unat d) div nanos e \<noteq> 0" and "unat d \<le> unat now" and "nanos e \<noteq> 0"
  obtains newest where "unat newest + 1 = (unat now - unat d) div nanos e"
    "latest_due_slot sha256 mid now e j d =
       Option.bind (slot sha256 mid newest e j d) (\<lambda>candidate. if es_execute_at_unix_nano candidate \<le> now then Some candidate else
         Option.bind (checked_sub newest 1) (\<lambda>before. Option.bind (slot sha256 mid before e j d) (\<lambda>previous.
           if es_execute_at_unix_nano previous \<le> now then Some previous else None)))"
proof -
  obtain every where every: "checked_mul e NANOS_PER_SECOND = Some every" "unat every = nanos e"
    using checked_exists(2) [of e NANOS_PER_SECOND] assms(1) by (auto simp: unat_nanos nanos_def)
  have div: "unat ((now - d) div every) = (unat now - unat d) div nanos e"
    using every(2) assms(3) by (simp add: unat_div_distrib unat_sub_if')
  have pos: "\<not> (now - d) div every < 1" using assms(2) div by (auto simp: word_less_nat_alt)
  have "unat ((now - d) div every - 1) + 1 = (unat now - unat d) div nanos e"
    using pos div by (auto simp: word_less_nat_alt unat_sub_if')
  moreover have "\<not> now < d" "every \<noteq> 0" using assms(3,4) every(2) by (auto simp: word_less_nat_alt)
  ultimately show thesis using that every(1) pos by (simp add: latest_due_slot_def checked_sub_def)
qed

lemma due_slot_ended:
  assumes "slot sha256 mid i e j d = Some s" and "es_execute_at_unix_nano s \<le> now"
  shows "unat i < (unat now - unat d) div nanos e \<and> unat d \<le> unat now \<and> 0 < nanos e \<and> nanos j < 2 ^ 64"
proof -
  from slot_SomeD [OF assms(1)] assms(2)
  have e: "0 < nanos e" "nanos j < 2 ^ 64" "unat i * nanos e + nanos e + unat d \<le> unat now" by (auto simp: word_le_nat_alt)
  then have "Suc (unat i) * nanos e \<le> unat now - unat d" by simp
  then have "Suc (unat i) \<le> (unat now - unat d) div nanos e" using e(1) by (simp only: less_eq_div_iff_mult_less_eq)
  with e show ?thesis by simp
qed

text \<open>Slots that have ended with their delay exist, and all but the newest are past their jitter.\<close>

lemma ended_slot:
  assumes "unat now + nanos e < 2 ^ 64" and "unat i + k < (unat now - unat d) div nanos e" and "unat d \<le> unat now"
    and "nanos e \<noteq> 0" and "nanos j < 2 ^ 64"
  obtains s where "slot sha256 mid i e j d = Some s" "0 < k \<Longrightarrow> es_execute_at_unix_nano s \<le> now"
proof -
  have "Suc (unat i + k) * nanos e \<le> unat now - unat d"
    using assms(2) by (metis Suc_leI div_times_less_eq_dividend le_trans mult_le_mono1)
  then have ended: "unat i * nanos e + k * nanos e + nanos e + unat d \<le> unat now"
    using assms(3) by (simp add: le_diff_conv2 add_mult_distrib)
  then obtain s where s: "slot sha256 mid i e j d = Some s" using slot_exists [of e j i d] assms by auto
  moreover have "es_execute_at_unix_nano s \<le> now" if "0 < k"
  proof -
    obtain k' where "k = Suc k'" using \<open>0 < k\<close> gr0_implies_Suc by blast
    then have "k * nanos e = k' * nanos e + nanos e" by simp
    then show ?thesis using slot_SomeD [OF s] ended unfolding word_le_nat_alt by linarith
  qed
  ultimately show thesis using that by blast
qed

text \<open>The newest ended slot, or the one before it, is the newest due one.\<close>

lemma newest_or_before:
  assumes clock: "unat now + nanos e < 2 ^ 64" and newest: "unat newest + 1 = (unat now - unat d) div nanos e"
    and ok: "unat d \<le> unat now" "nanos e \<noteq> 0" "nanos j < 2 ^ 64"
    and latest: "latest_due_slot sha256 mid now e j d =
        Option.bind (slot sha256 mid newest e j d) (\<lambda>candidate. if es_execute_at_unix_nano candidate \<le> now then Some candidate else
          Option.bind (checked_sub newest 1) (\<lambda>before. Option.bind (slot sha256 mid before e j d) (\<lambda>previous.
            if es_execute_at_unix_nano previous \<le> now then Some previous else None)))"
  shows "case latest_due_slot sha256 mid now e j d of
    Some s \<Rightarrow> slot sha256 mid (es_id s) e j d = Some s \<and> es_execute_at_unix_nano s \<le> now \<and>
      (\<forall>i s'. slot sha256 mid i e j d = Some s' \<and> es_execute_at_unix_nano s' \<le> now \<longrightarrow> i \<le> es_id s)
  | None \<Rightarrow> (\<forall>i s'. slot sha256 mid i e j d = Some s' \<longrightarrow> now < es_execute_at_unix_nano s')"
proof -
  let ?slot = "\<lambda>i. slot sha256 mid i e j d"
  obtain s where s: "?slot newest = Some s"
    by (rule ended_slot [OF clock, of newest 0 d j sha256 mid]) (use newest ok in auto)
  have le: "i \<le> newest" if "?slot i = Some s'" "es_execute_at_unix_nano s' \<le> now" for i s'
    using due_slot_ended [OF that] newest by (simp add: word_le_nat_alt)
  consider "es_execute_at_unix_nano s \<le> now" | "\<not> es_execute_at_unix_nano s \<le> now" "newest = 0"
    | "\<not> es_execute_at_unix_nano s \<le> now" "newest \<noteq> 0" by blast
  then show ?thesis
  proof cases
    case 1
    then show ?thesis using s latest le slot_SomeD [OF s] by auto
  next
    case 2
    then have "now < es_execute_at_unix_nano s'" if "?slot i = Some s'" for i s'
      using le [OF that] s that by (cases "now < es_execute_at_unix_nano s'") auto
    with 2 s latest show ?thesis by (simp add: checked_sub_def)
  next
    case 3
    then have "0 < unat newest" by (simp add: unat_gt_0)
    then have pred: "checked_sub newest 1 = Some (newest - 1)" "unat (newest - 1) + 1 = unat newest"
      by (auto simp: checked_sub_def word_less_nat_alt unat_sub_if')
    obtain s1 where s1: "?slot (newest - 1) = Some s1" "es_execute_at_unix_nano s1 \<le> now"
      by (rule ended_slot [OF clock, of "newest - 1" 1 d j sha256 mid]) (use newest ok pred in auto)
    have "i \<le> newest - 1" if "?slot i = Some s'" "es_execute_at_unix_nano s' \<le> now" for i s'
      using le [OF that] s 3 that pred(2) by (cases "i = newest") (auto simp: word_le_nat_alt word_unat_eq_iff)
    with 3 s s1 pred latest slot_SomeD [OF s1(1)] show ?thesis by auto
  qed
qed

text \<open>
  C18: the scheduler picks the newest due slot: the slot it returns may be executed now and every other
  one that may be is older; when it returns none, no slot may be executed. The clock is assumed to be
  at least one interval away from the end of the 64 bits.
\<close>

theorem latest_due_slot_newest:
  assumes clock: "unat now + nanos every_seconds < 2 ^ 64"
  shows "case latest_due_slot sha256 mid now every_seconds jitter_seconds delay of
    Some s \<Rightarrow> slot sha256 mid (es_id s) every_seconds jitter_seconds delay = Some s \<and> es_execute_at_unix_nano s \<le> now \<and>
      (\<forall>i s'. slot sha256 mid i every_seconds jitter_seconds delay = Some s' \<and> es_execute_at_unix_nano s' \<le> now \<longrightarrow> i \<le> es_id s)
  | None \<Rightarrow> (\<forall>i s'. slot sha256 mid i every_seconds jitter_seconds delay = Some s' \<longrightarrow> now < es_execute_at_unix_nano s')"
proof (cases "(unat now - unat delay) div nanos every_seconds = 0 \<or> \<not> unat delay \<le> unat now \<or> nanos every_seconds = 0 \<or>
    \<not> nanos jitter_seconds < 2 ^ 64")
  case True
  then have "latest_due_slot sha256 mid now every_seconds jitter_seconds delay = None" by (rule latest_due_slot_None)
  moreover have "now < es_execute_at_unix_nano s'" if "slot sha256 mid i every_seconds jitter_seconds delay = Some s'" for i s'
  proof (rule ccontr)
    assume "\<not> now < es_execute_at_unix_nano s'"
    with due_slot_ended [OF that, of now] True show False by (simp add: linorder_not_less)
  qed
  ultimately show ?thesis by simp
next
  case False
  then obtain newest where "unat newest + 1 = (unat now - unat delay) div nanos every_seconds"
    "latest_due_slot sha256 mid now every_seconds jitter_seconds delay =
        Option.bind (slot sha256 mid newest every_seconds jitter_seconds delay) (\<lambda>candidate. if es_execute_at_unix_nano candidate \<le> now then Some candidate else
          Option.bind (checked_sub newest 1) (\<lambda>before. Option.bind (slot sha256 mid before every_seconds jitter_seconds delay) (\<lambda>previous.
            if es_execute_at_unix_nano previous \<le> now then Some previous else None)))"
    using latest_due_slot_split [OF clock] by blast
  then show ?thesis using newest_or_before [OF clock] False by blast
qed

theorem latest_due_slot_newest_witness:
  "map_option es_id (latest_due_slot (\<lambda>_. []) 1 (270 * 1000000000) 60 0 (90 * 1000000000)) = Some 2"
proof -
  let ?slot = "\<lambda>i. slot (\<lambda>_. []) 1 i 60 0 (90 * 1000000000)"
  let ?latest = "latest_due_slot (\<lambda>_. []) 1 (270 * 1000000000) 60 0 (90 * 1000000000)"
  have "unat (270 * 1000000000 :: u64) + nanos 60 < 2 ^ 64" by (simp add: nanos_def)
  note newest = latest_due_slot_newest [OF this, of "\<lambda>_. []" 1 0 "90 * 1000000000"]
  have two: "\<exists>s. ?slot 2 = Some s \<and> es_execute_at_unix_nano s \<le> 270 * 1000000000"
    by (simp add: slot_def checked_mul_def checked_add_def NANOS_PER_SECOND_def deterministic_jitter_def Let_def)
  have "i \<le> 2" if "?slot i = Some s" "es_execute_at_unix_nano s \<le> 270 * 1000000000" for i s
    using due_slot_ended [OF that] by (simp add: nanos_def word_le_nat_alt)
  with newest two show ?thesis by (cases ?latest) (fastforce simp: linorder_not_le [symmetric])+
qed

end
