(* ===== verification/Alert_Cluster.thy ===== *)
theory Alert_Cluster
  imports Alert_Eval Alert_Props
begin

text \<open>
  Any number of evaluators and rule editors on one bucket. The lease is not assumed to exclude
  anything: evaluators interleave freely, every store call may fail, be retried or be reported as
  failed after it was applied, and an evaluator may be abandoned at any step.

  The theorem: what the state head of a monitor has ever been is the result of one serial run of
  evaluations, each folded into the state before it, and the transition each state names is in the
  bucket.
\<close>

section \<open>What is assumed of the surroundings\<close>

text \<open>
  Documented behaviour: different UUIDs have different texts, without a slash; a record without a value that is not
  finite is read back from its JSON; a conditional write is taken only if the object is the one whose
  version was read.
\<close>

definition finite_value :: "f64 option \<Rightarrow> bool" where
  "finite_value v = (case v of None \<Rightarrow> True | Some x \<Rightarrow> is_finite x)"

definition finite_obs :: "observation \<Rightarrow> bool" where
  "finite_obs obs = (case obs of ObsValue x \<Rightarrow> is_finite x | _ \<Rightarrow> True)"

definition alert_env_ok :: "alert_env \<Rightarrow> bool" where
  "alert_env_ok env \<longleftrightarrow> inj (ae_ustr env) \<and> (\<forall>u. CHR ''/'' \<notin> set (ae_ustr env u)) \<and>
     (\<forall>h body. finite_value (as_last_value (sh_state h)) \<longrightarrow> ae_head_ser env h = Some body \<longrightarrow> ae_head_de env body = Some h) \<and>
     (\<forall>h body. ae_rule_head_ser env h = Some body \<longrightarrow> ae_rule_head_de env body = Some h) \<and>
     (\<forall>body body'. ae_matches env (update_options (ae_version env body)) body' \<longrightarrow> body' = body)"

section \<open>The system\<close>

record alert_system =
  sy_store :: control_store
  sy_dbs :: "nat \<Rightarrow> alerts_db"
  sy_evaluators :: "nat \<Rightarrow> evaluator option"
  sy_heads :: "uuid \<Rightarrow> bytes list"
  sy_rules :: "uuid \<Rightarrow> bytes list"
  sy_plans :: "(monitor \<times> string \<times> rule_plan) set"

text \<open>\<open>sy_heads\<close> and \<open>sy_rules\<close> record all the contents a head object has had, oldest first.\<close>

definition note_change :: "(uuid \<Rightarrow> string) \<Rightarrow> control_store \<Rightarrow> control_store \<Rightarrow> (uuid \<Rightarrow> bytes list) \<Rightarrow> uuid \<Rightarrow> bytes list" where
  "note_change key s s' history mid =
     (if s' (key mid) = s (key mid) then history mid
      else case s' (key mid) of Some body \<Rightarrow> history mid @ [body] | None \<Rightarrow> history mid)"

definition with_store :: "alert_env \<Rightarrow> control_store \<Rightarrow> alert_system \<Rightarrow> alert_system" where
  "with_store env s' y =
     y\<lparr>sy_store := s', sy_heads := note_change (state_head_key env) (sy_store y) s' (sy_heads y),
       sy_rules := note_change (rule_head_key env) (sy_store y) s' (sy_rules y)\<rparr>"

definition system_new :: alert_system where
  "system_new = \<lparr>sy_store = (\<lambda>_. None), sy_dbs = (\<lambda>_. alerts_db_empty), sy_evaluators = (\<lambda>_. None),
     sy_heads = (\<lambda>_. []), sy_rules = (\<lambda>_. []), sy_plans = {}\<rparr>"

inductive alert_system_step :: "alert_env \<Rightarrow> evaluation_context \<Rightarrow> (nat \<Rightarrow> nat) \<Rightarrow> alert_system \<Rightarrow> alert_system \<Rightarrow> bool"
  for env cx proc where
  start: "alert_system_step env cx proc y (y\<lparr>sy_evaluators := (sy_evaluators y)(i \<mapsto> eval_start m slot_id slot_end)\<rparr>)"
| run: "sy_evaluators y i = Some e \<Longrightarrow> finite_obs (in_obs inp) \<Longrightarrow>
    evaluator_step env cx inp e (sy_store y) (sy_dbs y (proc i)) = (e', s', db') \<Longrightarrow>
    alert_system_step env cx proc y
      (with_store env s' (y\<lparr>sy_evaluators := (sy_evaluators y)(i \<mapsto> e'), sy_dbs := (sy_dbs y)(proc i := db')\<rparr>))"
| abandon: "alert_system_step env cx proc y (y\<lparr>sy_evaluators := (sy_evaluators y)(i := None)\<rparr>)"
| forget: "alert_system_step env cx proc y (y\<lparr>sy_dbs := (sy_dbs y)(p := forget_monitor mid (sy_dbs y p))\<rparr>)"
| rebuild: "alert_system_step env cx proc y (y\<lparr>sy_dbs := (sy_dbs y)(p := alerts_db_empty)\<rparr>)"
| stage_rule: "stage_rule_revision env pf gf m command_id (sy_store y) = (r, s') \<Longrightarrow>
    alert_system_step env cx proc y (with_store env s' y)"
| plan_rule: "plan_rule_head env gf m command_id (sy_store y) = Inr plan \<Longrightarrow>
    alert_system_step env cx proc y (y\<lparr>sy_plans := insert (m, command_id, plan) (sy_plans y)\<rparr>)"
| advance_rule: "(m, command_id, plan) \<in> sy_plans y \<Longrightarrow> advance_rule_head env pf gf m command_id plan (sy_store y) = (r, s') \<Longrightarrow>
    alert_system_step env cx proc y (with_store env s' y)"
| delete_rule: "tombstone_rule env pf1 gf1 pf2 gf2 t expected (sy_store y) = (r, s') \<Longrightarrow>
    alert_system_step env cx proc y (with_store env s' y)"

inductive alert_system_run :: "alert_env \<Rightarrow> evaluation_context \<Rightarrow> (nat \<Rightarrow> nat) \<Rightarrow> alert_system \<Rightarrow> bool"
  for env cx proc where
  run_new: "alert_system_run env cx proc system_new"
| run_step: "alert_system_run env cx proc y \<Longrightarrow> alert_system_step env cx proc y y' \<Longrightarrow> alert_system_run env cx proc y'"

section \<open>Writes\<close>

lemma key_disjoint:
  "state_head_key env a \<noteq> transition_key env b q r l st" "rule_head_key env a \<noteq> state_head_key env b"
  "rule_head_key env a \<noteq> transition_key env b q r l st" "rule_revision_key env a v c \<noteq> state_head_key env b"
  "rule_revision_key env a v c \<noteq> transition_key env b q r l st" "rule_tombstone_key env a c \<noteq> state_head_key env b"
  "rule_tombstone_key env a c \<noteq> transition_key env b q r l st"
  by (simp_all add: state_head_key_def transition_key_def rule_head_key_def rule_revision_key_def rule_tombstone_key_def)

lemma state_head_key_inj: "inj (ae_ustr env) \<Longrightarrow> state_head_key env a = state_head_key env b \<longleftrightarrow> a = b"
  by (auto simp: state_head_key_def dest: injD)

lemma create_identical_store:
  assumes "create_identical ser pf gf key v s = (r, s')"
  shows "s' = s \<or> s key = None \<and> (\<exists>body. ser v = Some body \<and> s' = s(key \<mapsto> body))"
  using assms by (auto simp: create_identical_def bounded_json_def put_create_def Let_def
      split: option.splits if_splits sum.splits put_fate.splits)

lemma create_identical_Inr:
  assumes "create_identical ser pf gf key v s = (Inr u, s')"
  shows "\<exists>body. ser v = Some body \<and> s' key = Some body"
  using assms by (auto simp: create_identical_def bounded_json_def put_create_def get_bounded_def Let_def
      split: option.splits if_splits sum.splits put_fate.splits get_fate.splits)

lemma update_store:
  assumes "update env ser pf gf key v version s = (r, s')"
  shows "s' = s \<or> (\<exists>cur body. s key = Some cur \<and> ae_matches env (update_options version) cur \<and> ser v = Some body \<and> s' = s(key \<mapsto> body))"
  using assms by (auto simp: update_def bounded_json_def put_update_def Let_def
      split: option.splits if_splits sum.splits put_fate.splits)

lemma update_Inr:
  assumes "update env ser pf gf key v version s = (Inr u, s')"
  shows "\<exists>body. ser v = Some body \<and> s' key = Some body"
  using assms by (auto simp: update_def bounded_json_def put_update_def get_bounded_def Let_def
      split: option.splits if_splits sum.splits put_fate.splits get_fate.splits alert_store_error.splits)

section \<open>Serial histories\<close>

text \<open>Each state is the one before it with one more step folded in; no step is skipped.\<close>

definition serial :: "state_head list \<Rightarrow> eval_step list \<Rightarrow> bool" where
  "serial hs steps \<longleftrightarrow> length steps = length hs \<and>
     (\<forall>n < length hs. alert_run (take (Suc n) steps) = (Some (sh_state (hs ! n)), take (Suc n) steps))"

lemma serial_Nil [simp]: "serial [] []"
  by (simp add: serial_def)

lemma serial_last:
  assumes "serial hs steps"
  shows "alert_run steps = (if hs = [] then (None, []) else (Some (sh_state (last hs)), steps))"
proof (cases "hs = []")
  case True
  with assms show ?thesis by (simp add: serial_def alert_run_def)
next
  case False
  then have n: "length hs - 1 < length hs" "take (Suc (length hs - 1)) steps = steps" using assms by (simp_all add: serial_def)
  from assms n(1) have "alert_run (take (Suc (length hs - 1)) steps) = (Some (sh_state (hs ! (length hs - 1))), take (Suc (length hs - 1)) steps)"
    unfolding serial_def by blast
  with n(2) have "alert_run steps = (Some (sh_state (hs ! (length hs - 1))), steps)" by (simp only:)
  with False show ?thesis by (simp add: last_conv_nth)
qed

lemma serial_snoc:
  assumes "serial hs steps" and "alert_run (steps @ [x]) = (Some (sh_state h), steps @ [x])"
  shows "serial (hs @ [h]) (steps @ [x])"
  using assms by (auto simp: serial_def nth_append less_Suc_eq)

lemma alert_run_snoc:
  assumes "alert_run steps = (prior, steps)" and "\<forall>st. prior = Some st \<longrightarrow> \<not> covers st (mo_revision (ev_monitor x)) (ev_slot x)"
  shows "alert_run (steps @ [x]) = (Some (fst (evaluate (ev_monitor x) prior (ev_obs x) (ev_slot x) (ev_now x))), steps @ [x])"
  using assms by (auto simp: alert_run_def apply_step_def split: option.splits)

lemma next_status_value: "fst (snd (next_status m prior r obs now)) = None \<or> obs = ObsValue (the (fst (snd (next_status m prior r obs now))))"
  by (auto simp: next_status_def split: observation.splits)

lemma advanced_last_value:
  "as_last_value (fst (advanced_state m prior obs slot_id now)) =
     (let r = option_filter (\<lambda>st. as_monitor_revision st = mo_revision m) prior
      in case fst (snd (next_status m prior r obs now)) of Some v \<Rightarrow> Some v | None \<Rightarrow> Option.bind r as_last_value)"
  by (simp add: advanced_state_def Let_def split: prod.splits)

lemma evaluate_finite:
  assumes "\<forall>st. prior = Some st \<longrightarrow> finite_value (as_last_value st)" and "finite_obs obs"
  shows "finite_value (as_last_value (fst (evaluate m prior obs slot_id now)))"
proof (cases "option_filter (\<lambda>st. covers st (mo_revision m) slot_id) prior")
  case None
  let ?r = "option_filter (\<lambda>st. as_monitor_revision st = mo_revision m) prior"
  have "finite_value (Option.bind ?r as_last_value)"
    using assms(1) by (cases prior) (auto simp: option_filter_def finite_value_def)
  moreover have "finite_value (Some v)" if "fst (snd (next_status m prior ?r obs now)) = Some v" for v
    using next_status_value [of m prior ?r obs now] that assms(2) by (auto simp: finite_value_def finite_obs_def)
  ultimately show ?thesis by (simp add: evaluate_def None advanced_last_value Let_def split: option.splits)
next
  case (Some st)
  then have "fst (evaluate m prior obs slot_id now) = st" by (simp add: evaluate_def)
  moreover have "prior = Some st" using Some by (simp add: option_filter_Some)
  ultimately show ?thesis using assms(1) by simp
qed

section \<open>The invariant\<close>

definition transition_present :: "alert_env \<Rightarrow> control_store \<Rightarrow> state_head \<Rightarrow> bool" where
  "transition_present env s h \<longleftrightarrow> (\<exists>t body. ae_transition_ser env t = Some body \<and>
     s (ref_key env (sh_latest_transition h) (sh_monitor_id h)) = Some body \<and> verify_transition env h t = Inr ())"

definition head_ok :: "alert_env \<Rightarrow> evaluation_context \<Rightarrow> control_store \<Rightarrow> uuid \<Rightarrow> bytes \<Rightarrow> state_head \<Rightarrow> bool" where
  "head_ok env cx s mid body h \<longleftrightarrow> ae_head_ser env h = Some body \<and> finite_value (as_last_value (sh_state h)) \<and>
     sh_monitor_id h = mid \<and> sh_deployment_id h = cx_deployment_id cx \<and> transition_present env s h"

definition heads_inv :: "alert_env \<Rightarrow> evaluation_context \<Rightarrow> alert_system \<Rightarrow> uuid \<Rightarrow> bool" where
  "heads_inv env cx y mid \<longleftrightarrow>
     (\<exists>hs steps. list_all2 (head_ok env cx (sy_store y) mid) (sy_heads y mid) hs \<and> serial hs steps) \<and>
     sy_store y (state_head_key env mid) = (if sy_heads y mid = [] then None else Some (last (sy_heads y mid)))"

definition prior_ok :: "alert_env \<Rightarrow> bytes list \<Rightarrow> evaluator \<Rightarrow> state_head versioned option \<Rightarrow> bool" where
  "prior_ok env history e prior = (case prior of
       None \<Rightarrow> True
     | Some h \<Rightarrow> \<not> covers (sh_state (ve_value h)) (mo_revision (el_monitor e)) (el_slot_id e) \<and>
         (\<exists>body \<in> set history. ve_version h = ae_version env body \<and> ae_head_de env body = Some (ve_value h)))"

definition job_ok :: "alert_env \<Rightarrow> evaluation_context \<Rightarrow> bytes list \<Rightarrow> evaluator \<Rightarrow> commit_job \<Rightarrow> bool" where
  "job_ok env cx history e job \<longleftrightarrow> (\<exists>prior obs. prior_ok env history e prior \<and> finite_obs obs \<and>
     commit_job_of env cx (el_monitor e) (el_slot_id e) (el_slot_end_unix_nano e) prior obs = Inr job)"

definition committed :: "alert_env \<Rightarrow> bytes list \<Rightarrow> alert_state \<Rightarrow> bool" where
  "committed env history st \<longleftrightarrow> (\<exists>body \<in> set history. \<exists>h. ae_head_de env body = Some h \<and> sh_state h = st)"

definition phase_ok :: "alert_env \<Rightarrow> evaluation_context \<Rightarrow> control_store \<Rightarrow> bytes list \<Rightarrow> evaluator \<Rightarrow> bool" where
  "phase_ok env cx s history e = (case el_phase e of
       Query prior \<Rightarrow> prior_ok env history e prior
     | Recheck prior obs \<Rightarrow> prior_ok env history e prior \<and> finite_obs obs
     | Publish job \<Rightarrow> job_ok env cx history e job
     | Advance job \<Rightarrow> job_ok env cx history e job \<and> (cj_transition job \<noteq> None \<longrightarrow> transition_present env s (cj_head job))
     | FoldNext st \<Rightarrow> committed env history st
     | _ \<Rightarrow> True)"

definition system_inv :: "alert_env \<Rightarrow> evaluation_context \<Rightarrow> alert_system \<Rightarrow> bool" where
  "system_inv env cx y \<longleftrightarrow> (\<forall>mid. heads_inv env cx y mid) \<and>
     (\<forall>i e. sy_evaluators y i = Some e \<longrightarrow> phase_ok env cx (sy_store y) (sy_heads y (mo_id (el_monitor e))) e) \<and>
     (\<forall>p mid st. db_states (sy_dbs y p) mid = Some st \<longrightarrow> committed env (sy_heads y mid) st)"

text \<open>A store grows when the transitions in it stay and no state head changes.\<close>

definition quiet_write :: "alert_env \<Rightarrow> control_store \<Rightarrow> control_store \<Rightarrow> bool" where
  "quiet_write env s s' \<longleftrightarrow> (\<forall>mid. s' (state_head_key env mid) = s (state_head_key env mid)) \<and>
     (\<forall>mid q r l st body. s (transition_key env mid q r l st) = Some body \<longrightarrow> s' (transition_key env mid q r l st) = Some body)"

lemma transition_present_mono:
  "transition_present env s h \<Longrightarrow> (\<And>mid q r l st body. s (transition_key env mid q r l st) = Some body \<Longrightarrow>
     s' (transition_key env mid q r l st) = Some body) \<Longrightarrow> transition_present env s' h"
  by (force simp: transition_present_def ref_key_def)

lemma quiet_heads:
  assumes "heads_inv env cx y mid" and "quiet_write env (sy_store y) (sy_store y')" and "sy_heads y' = sy_heads y"
  shows "heads_inv env cx y' mid"
proof -
  have "head_ok env cx (sy_store y) mid b h \<Longrightarrow> head_ok env cx (sy_store y') mid b h" for b h
    using assms(2) transition_present_mono [of env "sy_store y" h "sy_store y'"] by (auto simp: head_ok_def quiet_write_def)
  then have "list_all2 (head_ok env cx (sy_store y) mid) bs hs \<longrightarrow> list_all2 (head_ok env cx (sy_store y') mid) bs hs" for bs hs
    by (blast intro: list_all2_mono)
  with assms show ?thesis by (auto simp: heads_inv_def quiet_write_def)
qed

lemma quiet_phase:
  "phase_ok env cx s history e \<Longrightarrow> quiet_write env s s' \<Longrightarrow> phase_ok env cx s' history e"
  using transition_present_mono [of env s _ s']
  by (auto simp: phase_ok_def quiet_write_def split: eval_phase.splits)

lemma note_change_quiet: "quiet_write env s s' \<Longrightarrow> note_change (state_head_key env) s s' history = history"
  by (auto simp: note_change_def quiet_write_def)

lemma system_inv_quiet:
  assumes "system_inv env cx y" and "quiet_write env (sy_store y) s'"
  shows "system_inv env cx (with_store env s' y)"
  unfolding system_inv_def
proof (intro conjI allI impI)
  have same: "sy_heads (with_store env s' y) = sy_heads y" using note_change_quiet [OF assms(2)] by (simp add: with_store_def)
  show "heads_inv env cx (with_store env s' y) mid" for mid
    by (rule quiet_heads [of _ _ y]) (use assms same in \<open>auto simp: system_inv_def with_store_def\<close>)
  show "phase_ok env cx (sy_store (with_store env s' y)) (sy_heads (with_store env s' y) (mo_id (el_monitor e))) e"
    if "sy_evaluators (with_store env s' y) i = Some e" for i e
    using that assms same quiet_phase [OF _ assms(2)] by (auto simp: system_inv_def with_store_def)
  show "committed env (sy_heads (with_store env s' y) mid) st" if "db_states (sy_dbs (with_store env s' y) p) mid = Some st" for p mid st
    using that assms same by (auto simp: system_inv_def with_store_def)
qed

lemma create_quiet:
  assumes "create_identical ser pf gf key v s = (r, s')" and "\<forall>mid. key \<noteq> state_head_key env mid"
  shows "quiet_write env s s'"
  using create_identical_store [OF assms(1)] assms(2) by (auto simp: quiet_write_def)

lemma update_quiet:
  assumes "update env ser pf gf key v version s = (r, s')" and "\<forall>mid. key \<noteq> state_head_key env mid"
    and "\<forall>mid q r l st. key \<noteq> transition_key env mid q r l st"
  shows "quiet_write env s s'"
  using update_store [OF assms(1)] assms(2,3) unfolding quiet_write_def by (metis fun_upd_other)

section \<open>Preservation\<close>

lemma head_ok_decode: "alert_env_ok env \<Longrightarrow> head_ok env cx s mid body h \<Longrightarrow> ae_head_de env body = Some h"
  by (auto simp: alert_env_ok_def head_ok_def)

lemma heads_inv_decode:
  assumes "alert_env_ok env" and "heads_inv env cx y mid" and "body \<in> set (sy_heads y mid)"
  obtains h where "ae_head_de env body = Some h" "head_ok env cx (sy_store y) mid body h"
proof -
  from assms(2) obtain hs where "list_all2 (head_ok env cx (sy_store y) mid) (sy_heads y mid) hs" by (auto simp: heads_inv_def)
  with assms(3) obtain h where "head_ok env cx (sy_store y) mid body h" by (metis in_set_conv_nth list_all2_conv_all_nth)
  with head_ok_decode [OF assms(1)] that show thesis by blast
qed

lemma read_versioned_Inr:
  "read_versioned env de gf key s = Inr v \<Longrightarrow> \<exists>body. s key = Some body \<and> ve_version v = ae_version env body \<and> de body = Some (ve_value v)"
  by (auto simp: read_versioned_def get_bounded_def version_of_meta_def Let_def
      split: sum.splits option.splits get_fate.splits if_splits)

lemma read_state_head_committed:
  assumes "heads_inv env cx y mid" and "read_state_head env gf mid d (sy_store y) = Inr (Some h)"
  shows "\<exists>body \<in> set (sy_heads y mid). ve_version h = ae_version env body \<and> ae_head_de env body = Some (ve_value h)"
proof -
  from assms(2) obtain body where body: "sy_store y (state_head_key env mid) = Some body" "ve_version h = ae_version env body"
    "ae_head_de env body = Some (ve_value h)"
    by (auto simp: read_state_head_def split: sum.splits alert_store_error.splits dest: read_versioned_Inr)
  with assms(1) have "body \<in> set (sy_heads y mid)" by (auto simp: heads_inv_def split: if_splits)
  with body show ?thesis by blast
qed

definition db_ok :: "alert_env \<Rightarrow> (uuid \<Rightarrow> bytes list) \<Rightarrow> alerts_db \<Rightarrow> bool" where
  "db_ok env history db \<longleftrightarrow> (\<forall>mid st. db_states db mid = Some st \<longrightarrow> committed env (history mid) st)"

lemma fold_then_ok:
  assumes "fold_then inp mid st outcome db = (ph, db')" and "committed env (history mid) st" and "db_ok env history db"
  shows "(\<exists>r. ph = Finished r) \<and> db_ok env history db'"
  using assms by (auto simp: fold_then_def fold_state_def db_ok_def Let_def split: if_splits)

lemma rule_is_current_db:
  assumes "rule_is_current env inp m s db = (r, db')" and "db_ok env history db"
  shows "db_ok env history db'"
proof -
  have "db_ok env history (tombstone_monitor mid v t db)" for mid v t
    using assms(2) by (auto simp: db_ok_def tombstone_monitor_def Let_def)
  moreover have "db_ok env history (snd (fold_rule k db))" for k using assms(2) by (auto simp: db_ok_def fold_rule_def Let_def)
  ultimately show ?thesis using assms
    by (auto simp: rule_is_current_def Let_def split: sum.splits if_splits alert_store_error.splits)
qed

lemma check_rule_ok:
  assumes "check_rule_step env inp m cont s db = (ph, db')" and "db_ok env history db"
  shows "(ph = cont \<or> (\<exists>r. ph = Finished r)) \<and> db_ok env history db'"
proof -
  obtain r db1 where r: "rule_is_current env inp m s db = (r, db1)" by force
  with rule_is_current_db [OF r assms(2)] assms show ?thesis
    by (cases r) (auto simp: check_rule_step_def split: if_splits bool.splits)
qed

lemma read_head_ok:
  assumes "read_head_step env cx inp (el_monitor e) (el_slot_id e) (sy_store y) db = (ph, db')"
    and "heads_inv env cx y (mo_id (el_monitor e))" and "db_ok env (sy_heads y) db"
  shows "((\<exists>prior. ph = Query prior \<and> prior_ok env (sy_heads y (mo_id (el_monitor e))) e prior) \<or> (\<exists>r. ph = Finished r)) \<and>
    db_ok env (sy_heads y) db'"
proof (cases "read_state_head env (in_get1 inp) (mo_id (el_monitor e)) (cx_deployment_id cx) (sy_store y)")
  case (Inl a)
  with assms show ?thesis by (auto simp: read_head_step_def)
next
  case (Inr v)
  show ?thesis
  proof (cases v)
    case None
    have "prior_ok env history e None" for history by (simp add: prior_ok_def)
    with None Inr assms show ?thesis by (auto simp: read_head_step_def)
  next
    case (Some h)
    note read = read_state_head_committed [OF assms(2) Inr [unfolded Some]]
    then have com: "committed env (sy_heads y (mo_id (el_monitor e))) (sh_state (ve_value h))" by (auto simp: committed_def)
    show ?thesis using assms(1,3) Inr Some read fold_then_ok [of inp "mo_id (el_monitor e)" "sh_state (ve_value h)" _ db ph db' env "sy_heads y", OF _ com]
      by (auto simp: read_head_step_def prior_ok_def Let_def split: if_splits)
  qed
qed

lemma winner_ok:
  assumes "fold_winner_step env cx inp m (sy_store y) db = (ph, db')"
    and "heads_inv env cx y (mo_id m)" and "db_ok env (sy_heads y) db"
  shows "(\<exists>r. ph = Finished r) \<and> db_ok env (sy_heads y) db'"
proof (cases "read_state_head env (in_get1 inp) (mo_id m) (cx_deployment_id cx) (sy_store y)")
  case (Inl a)
  with assms show ?thesis by (auto simp: fold_winner_step_def)
next
  case (Inr v)
  show ?thesis
  proof (cases v)
    case (Some h)
    from read_state_head_committed [OF assms(2) Inr [unfolded Some]]
    have "committed env (sy_heads y (mo_id m)) (sh_state (ve_value h))" by (auto simp: committed_def)
    from fold_then_ok [OF _ this assms(3)] assms(1) Inr Some show ?thesis by (simp add: fold_winner_step_def)
  qed (use Inr assms in \<open>auto simp: fold_winner_step_def\<close>)
qed

text \<open>All steps but the two writes leave the store alone.\<close>

definition writing :: "eval_phase \<Rightarrow> bool" where
  "writing ph = (case ph of Publish _ \<Rightarrow> True | Advance _ \<Rightarrow> True | _ \<Rightarrow> False)"

lemma prior_ok_phase [simp]: "prior_ok env history (e\<lparr>el_phase := ph\<rparr>) prior = prior_ok env history e prior"
  by (simp add: prior_ok_def split: option.splits)

lemma job_ok_phase [simp]: "job_ok env cx history (e\<lparr>el_phase := ph\<rparr>) job = job_ok env cx history e job"
  by (simp add: job_ok_def)

lemma quiet_evaluator_step:
  assumes step: "evaluator_step env cx inp e (sy_store y) db = (e', s', db')" and quiet: "\<not> writing (el_phase e)"
    and heads: "heads_inv env cx y (mo_id (el_monitor e))"
    and ph: "phase_ok env cx (sy_store y) (sy_heads y (mo_id (el_monitor e))) e"
    and db: "db_ok env (sy_heads y) db" and obs: "finite_obs (in_obs inp)"
  shows "s' = sy_store y \<and> el_monitor e' = el_monitor e \<and> phase_ok env cx (sy_store y) (sy_heads y (mo_id (el_monitor e))) e' \<and>
    db_ok env (sy_heads y) db'"
proof (cases "el_phase e")
  case CheckRule
  obtain q d where q: "check_rule_step env inp (el_monitor e) ReadHead (sy_store y) db = (q, d)" by force
  with step CheckRule check_rule_ok [OF q db] show ?thesis by (auto simp: evaluator_step_def phase_ok_def)
next
  case ReadHead
  obtain q d where q: "read_head_step env cx inp (el_monitor e) (el_slot_id e) (sy_store y) db = (q, d)" by force
  with step ReadHead read_head_ok [OF q heads db] show ?thesis
    by (auto simp: evaluator_step_def phase_ok_def)
next
  case (Query prior)
  have "finite_obs ObsNoData" by (simp add: finite_obs_def)
  with Query step ph obs db show ?thesis by (auto simp: evaluator_step_def phase_ok_def query_step_def Let_def)
next
  case (Recheck prior obs)
  obtain q d where q: "recheck_step env cx inp (el_monitor e) (el_slot_id e) (el_slot_end_unix_nano e) prior obs (sy_store y) db = (q, d)" by force
  have job: "job_ok env cx (sy_heads y (mo_id (el_monitor e))) e job"
    if "commit_job_of env cx (el_monitor e) (el_slot_id e) (el_slot_end_unix_nano e) prior obs = Inr job" for job
    using that ph Recheck by (auto simp: job_ok_def phase_ok_def)
  from q step Recheck check_rule_ok [OF q [unfolded recheck_step_def] db] show ?thesis
    by (auto simp: evaluator_step_def phase_ok_def job split: sum.splits)
next
  case FoldWinner
  obtain q d where q: "fold_winner_step env cx inp (el_monitor e) (sy_store y) db = (q, d)" by force
  with step FoldWinner winner_ok [OF q heads db] show ?thesis by (auto simp: evaluator_step_def phase_ok_def)
next
  case (FoldNext st)
  obtain q d where q: "fold_then inp (mo_id (el_monitor e)) st (Committed st) db = (q, d)" by force
  with step FoldNext ph fold_then_ok [OF q _ db] show ?thesis by (auto simp: evaluator_step_def phase_ok_def)
next
  case (Finished r)
  with step ph db show ?thesis by (simp add: evaluator_step_def)
qed (use quiet in \<open>auto simp: writing_def\<close>)

lemma publish_ok:
  assumes "publish_transition env pf gf h tr s = (r, s')"
  shows "quiet_write env s s'" and "r = Inr () \<Longrightarrow> tr \<noteq> None \<Longrightarrow> transition_present env s' h"
proof -
  have same: "quiet_write env s s" by (simp add: quiet_write_def)
  consider "s' = s" "r = Inr () \<longrightarrow> tr = None"
    | t where "tr = Some t" "verify_transition env h t = Inr ()"
      "create_identical (ae_transition_ser env) pf gf (ref_key env (sh_latest_transition h) (sh_monitor_id h)) t s = (r, s')"
    using assms by (auto simp: publish_transition_def Let_def split: sum.splits option.splits)
  note split = this
  show "quiet_write env s s'"
    using split by cases (auto simp: same ref_key_def key_disjoint [symmetric] key_disjoint intro: create_quiet)
  assume "r = Inr ()" "tr \<noteq> None"
  with split obtain t where t: "verify_transition env h t = Inr ()" "create_identical (ae_transition_ser env) pf gf
      (ref_key env (sh_latest_transition h) (sh_monitor_id h)) t s = (Inr (), s')" by cases auto
  from create_identical_Inr [OF t(2)] t(1) show "transition_present env s' h" by (auto simp: transition_present_def)
qed

lemma commit_job_facts:
  assumes "commit_job_of env cx m i t prior obs = Inr job"
  shows "sh_state (cj_head job) = fst (evaluate m (map_option (\<lambda>h. sh_state (ve_value h)) prior) obs i t)"
    "sh_monitor_id (cj_head job) = mo_id m" "sh_deployment_id (cj_head job) = cx_deployment_id cx"
    "cj_expected job = map_option ve_version prior"
    "cj_transition job = None \<Longrightarrow> \<exists>h. prior = Some h \<and> sh_latest_transition (cj_head job) = sh_latest_transition (ve_value h)"
  using assms by (auto simp: commit_job_of_def Let_def split: prod.splits option.splits)

lemma transition_carried:
  "transition_present env s p \<Longrightarrow> sh_latest_transition h = sh_latest_transition p \<Longrightarrow> sh_monitor_id h = sh_monitor_id p \<Longrightarrow>
     sh_deployment_id h = sh_deployment_id p \<Longrightarrow> transition_present env s h"
proof -
  assume "sh_latest_transition h = sh_latest_transition p" "sh_monitor_id h = sh_monitor_id p" "sh_deployment_id h = sh_deployment_id p"
  then have "verify_transition env h = verify_transition env p" by (auto simp: verify_transition_def fun_eq_iff split: option.split)
  moreover assume "transition_present env s p"
  ultimately show ?thesis using \<open>sh_latest_transition h = _\<close> \<open>sh_monitor_id h = _\<close> by (simp add: transition_present_def)
qed

text \<open>The head written last is the state that was current with one more step folded in.\<close>

lemma heads_inv_write:
  fixes x :: eval_step
  assumes env: "alert_env_ok env" and inv: "heads_inv env cx y mid"
    and h: "head_ok env cx s' mid body h" and s': "s' = (sy_store y)(state_head_key env mid \<mapsto> body)"
    and current: "sy_store y (state_head_key env mid) = map_option fst prior" "\<forall>b p. prior = Some (b, p) \<longrightarrow> ae_head_de env b = Some p"
    and x: "\<forall>b p. prior = Some (b, p) \<longrightarrow> \<not> covers (sh_state p) (mo_revision (ev_monitor x)) (ev_slot x)"
    and st: "sh_state h = fst (evaluate (ev_monitor x) (map_option (\<lambda>(b, p). sh_state p) prior) (ev_obs x) (ev_slot x) (ev_now x))"
    and y': "sy_store y' = s'" "sy_heads y' mid = sy_heads y mid @ [body]"
  shows "heads_inv env cx y' mid"
proof -
  from inv obtain hs steps where hs: "list_all2 (head_ok env cx (sy_store y) mid) (sy_heads y mid) hs" "serial hs steps"
    and store: "sy_store y (state_head_key env mid) = (if sy_heads y mid = [] then None else Some (last (sy_heads y mid)))"
    by (auto simp: heads_inv_def)
  have empty: "sy_heads y mid = [] \<longleftrightarrow> hs = []" using hs(1) by auto
  have prior: "map_option (\<lambda>(b, p). sh_state p) prior = (if hs = [] then None else Some (sh_state (last hs)))"
  proof (cases "hs = []")
    case False
    with empty have ne: "sy_heads y mid \<noteq> []" by simp
    with store current(1) obtain b p where bp: "prior = Some (b, p)" "b = last (sy_heads y mid)" by (cases prior) auto
    have "head_ok env cx (sy_store y) mid (last (sy_heads y mid)) (last hs)"
      using hs(1) ne False by (simp add: list_all2_conv_all_nth last_conv_nth)
    with head_ok_decode [OF env] bp current(2) False show ?thesis by auto
  qed (use store current(1) empty in auto)
  have "alert_run steps = (map_option (\<lambda>(b, p). sh_state p) prior, steps)"
    using serial_last [OF hs(2)] hs(2) prior by (auto simp: serial_def split: if_splits)
  from alert_run_snoc [OF this, of x] x st have "alert_run (steps @ [x]) = (Some (sh_state h), steps @ [x])"
    by (cases prior) auto
  from serial_snoc [OF hs(2) this] have "serial (hs @ [h]) (steps @ [x])" .
  moreover have "head_ok env cx (sy_store y) mid b k \<Longrightarrow> head_ok env cx s' mid b k" for b k
    using transition_present_mono [of env "sy_store y" k s'] key_disjoint(1) [of env mid, symmetric] unfolding s' head_ok_def by auto
  then have "list_all2 (head_ok env cx s' mid) (sy_heads y mid) hs" using hs(1) by (rule list_all2_mono [rotated])
  with h have "list_all2 (head_ok env cx s' mid) (sy_heads y mid @ [body]) (hs @ [h])" by (simp add: list_all2_appendI)
  ultimately show ?thesis using y' unfolding heads_inv_def by (auto simp: s')
qed

lemma phase_mono:
  assumes "phase_ok env cx s history e" and "set history \<subseteq> set history'"
    and "\<And>mid q r l st body. s (transition_key env mid q r l st) = Some body \<Longrightarrow> s' (transition_key env mid q r l st) = Some body"
  shows "phase_ok env cx s' history' e"
proof -
  have prior: "prior_ok env history e p \<Longrightarrow> prior_ok env history' e p" for p
    using assms(2) by (auto simp: prior_ok_def split: option.splits)
  then have "job_ok env cx history e job \<Longrightarrow> job_ok env cx history' e job" for job by (auto simp: job_ok_def)
  moreover have "committed env history st \<Longrightarrow> committed env history' st" for st using assms(2) by (auto simp: committed_def)
  moreover have "transition_present env s h \<Longrightarrow> transition_present env s' h" for h
    using transition_present_mono assms(3) by blast
  ultimately show ?thesis using assms(1) prior by (auto simp: phase_ok_def split: eval_phase.splits)
qed

lemma advance_head_store:
  assumes "advance_head env pf gf h expected s = (r, s')"
  shows "s' = s \<or> (\<exists>body. ae_head_ser env h = Some body \<and> s' = s(state_head_key env (sh_monitor_id h) \<mapsto> body) \<and>
      (case expected of
         None \<Rightarrow> s (state_head_key env (sh_monitor_id h)) = None
       | Some v \<Rightarrow> \<exists>cur. s (state_head_key env (sh_monitor_id h)) = Some cur \<and> ae_matches env (update_options v) cur))"
    and "r = Inr u \<Longrightarrow> \<exists>body. ae_head_ser env h = Some body \<and> s' (state_head_key env (sh_monitor_id h)) = Some body"
proof -
  obtain q s1 where create: "create_identical (ae_head_ser env) pf gf (state_head_key env (sh_monitor_id h)) h s = (q, s1)" by force
  show "s' = s \<or> (\<exists>body. ae_head_ser env h = Some body \<and> s' = s(state_head_key env (sh_monitor_id h) \<mapsto> body) \<and>
      (case expected of
         None \<Rightarrow> s (state_head_key env (sh_monitor_id h)) = None
       | Some v \<Rightarrow> \<exists>cur. s (state_head_key env (sh_monitor_id h)) = Some cur \<and> ae_matches env (update_options v) cur))"
    using assms create_identical_store [OF create] create
    by (cases expected) (auto simp: advance_head_def dest: update_store)
  show "\<exists>body. ae_head_ser env h = Some body \<and> s' (state_head_key env (sh_monitor_id h)) = Some body" if r: "r = Inr u"
  proof (cases expected)
    case None
    with assms create r have "q = Inr ()" "s1 = s'"
      by (auto simp: advance_head_def collision_is_conflict_def split: sum.splits alert_store_error.splits)
    with create_identical_Inr create show ?thesis by simp
  next
    case (Some v)
    with assms r show ?thesis by (simp add: advance_head_def) (rule update_Inr)
  qed
qed

lemma job_head_ok:
  assumes env: "alert_env_ok env" and inv: "heads_inv env cx y (mo_id (el_monitor e))"
    and prior: "prior_ok env (sy_heads y (mo_id (el_monitor e))) e prior" and obs: "finite_obs obs"
    and job: "commit_job_of env cx (el_monitor e) (el_slot_id e) (el_slot_end_unix_nano e) prior obs = Inr job"
    and present: "cj_transition job \<noteq> None \<longrightarrow> transition_present env (sy_store y) (cj_head job)"
    and body: "ae_head_ser env (cj_head job) = Some body"
  shows "head_ok env cx (sy_store y) (mo_id (el_monitor e)) body (cj_head job)"
proof -
  note facts = commit_job_facts [OF job]
  have prior_head: "head_ok env cx (sy_store y) (mo_id (el_monitor e)) b (ve_value h)"
    if "prior = Some h" "b \<in> set (sy_heads y (mo_id (el_monitor e)))" "ae_head_de env b = Some (ve_value h)" for h b
    using heads_inv_decode [OF env inv that(2)] that(3) by (metis option.inject)
  have "finite_value (as_last_value (sh_state (ve_value h)))" if "prior = Some h" for h
    using prior that prior_head [OF that] by (auto simp: prior_ok_def head_ok_def)
  then have "finite_value (as_last_value (sh_state (cj_head job)))"
    using evaluate_finite [OF _ obs] unfolding facts(1) by (cases prior) auto
  moreover have "transition_present env (sy_store y) (cj_head job)"
  proof (cases "cj_transition job")
    case None
    then obtain h where h: "prior = Some h" "sh_latest_transition (cj_head job) = sh_latest_transition (ve_value h)" using facts(5) by blast
    with prior obtain b where "head_ok env cx (sy_store y) (mo_id (el_monitor e)) b (ve_value h)"
      using prior_head by (auto simp: prior_ok_def)
    then show ?thesis using h(2) facts transition_carried [of env "sy_store y" "ve_value h" "cj_head job"] by (auto simp: head_ok_def)
  qed (use present in simp)
  ultimately show ?thesis using body facts by (simp add: head_ok_def)
qed

text \<open>A write of one state head leaves the other heads and the transitions alone.\<close>

lemma head_write_other:
  assumes "alert_env_ok env" and "heads_inv env cx y mid'" and "mid' \<noteq> mid"
    and "sy_store y' = (sy_store y)(state_head_key env mid \<mapsto> body)" and "sy_heads y' mid' = sy_heads y mid'"
  shows "heads_inv env cx y' mid'"
proof -
  have key: "state_head_key env mid' \<noteq> state_head_key env mid"
    using assms(1,3) state_head_key_inj [of env] by (simp add: alert_env_ok_def)
  have "transition_present env (sy_store y) h \<Longrightarrow> transition_present env (sy_store y') h" for h
    using transition_present_mono [of env "sy_store y" h "sy_store y'"] key_disjoint(1) [of env mid, symmetric] assms(4) by auto
  then have "head_ok env cx (sy_store y) mid' b h \<Longrightarrow> head_ok env cx (sy_store y') mid' b h" for b h by (simp add: head_ok_def)
  then have "list_all2 (head_ok env cx (sy_store y) mid') bs hs \<longrightarrow> list_all2 (head_ok env cx (sy_store y') mid') bs hs" for bs hs
    by (blast intro: list_all2_mono)
  with assms(2,4,5) key show ?thesis by (auto simp: heads_inv_def)
qed

lemma head_ok_committed:
  assumes "alert_env_ok env" and "head_ok env cx s mid body h" and "body \<in> set history"
  shows "committed env history (sh_state h)"
  using head_ok_decode [OF assms(1,2)] assms(3) by (auto simp: committed_def)

lemma matches_current: "alert_env_ok env \<Longrightarrow> ae_matches env (update_options (ae_version env b)) c \<Longrightarrow> c = b"
  by (auto simp: alert_env_ok_def)

lemma advance_writes:
  assumes env: "alert_env_ok env" and heads: "\<And>mid. heads_inv env cx y mid"
    and prior: "prior_ok env (sy_heads y (mo_id (el_monitor e))) e prior" and obs: "finite_obs obs"
    and job: "commit_job_of env cx (el_monitor e) (el_slot_id e) (el_slot_end_unix_nano e) prior obs = Inr job"
    and ok: "head_ok env cx (sy_store y) (mo_id (el_monitor e)) body (cj_head job)"
    and s': "s' = (sy_store y)(state_head_key env (mo_id (el_monitor e)) \<mapsto> body)" "s' \<noteq> sy_store y"
    and cas: "case cj_expected job of
         None \<Rightarrow> sy_store y (state_head_key env (mo_id (el_monitor e))) = None
       | Some v \<Rightarrow> \<exists>cur. sy_store y (state_head_key env (mo_id (el_monitor e))) = Some cur \<and> ae_matches env (update_options v) cur"
    and y': "sy_store y' = s'" "sy_heads y' = note_change (state_head_key env) (sy_store y) s' (sy_heads y)"
  shows "heads_inv env cx y' mid"
proof (cases "mid = mo_id (el_monitor e)")
  case False
  then have "sy_heads y' mid = sy_heads y mid"
    using env y'(2) s'(1) state_head_key_inj [of env mid] by (simp add: note_change_def alert_env_ok_def)
  with head_write_other [OF env heads False] y'(1) s'(1) show ?thesis by simp
next
  case True
  have new: "sy_heads y' mid = sy_heads y mid @ [body]"
    using y'(2) s' True by (auto simp: note_change_def fun_upd_idem_iff)
  let ?x = "\<lparr>ev_monitor = el_monitor e, ev_obs = obs, ev_slot = el_slot_id e, ev_now = el_slot_end_unix_nano e\<rparr>"
  have read: "\<exists>b. sy_store y (state_head_key env mid) = Some b \<and> ae_head_de env b = Some (ve_value h)" if "prior = Some h" for h
    using prior cas that True commit_job_facts(4) [OF job] by (auto simp: prior_ok_def dest: matches_current [OF env])
  obtain prior' where p: "sy_store y (state_head_key env mid) = map_option fst prior'"
    "\<forall>b p. prior' = Some (b, p) \<longrightarrow> ae_head_de env b = Some p" "map_option snd prior' = map_option ve_value prior"
  proof (cases prior)
    case None
    with cas True commit_job_facts(4) [OF job] that [of None] show thesis by simp
  next
    case (Some h)
    with read obtain b where "sy_store y (state_head_key env mid) = Some b" "ae_head_de env b = Some (ve_value h)" by blast
    with Some that [of "Some (b, ve_value h)"] show thesis by simp
  qed
  have states: "map_option (\<lambda>(b, p). sh_state p) prior' = map_option (\<lambda>h. sh_state (ve_value h)) prior"
    using p(3) by (cases prior'; cases prior) auto
  show ?thesis
  proof (rule heads_inv_write [OF env heads, where x = ?x and prior = prior' and h = "cj_head job" and s' = s' and body = body])
    show "head_ok env cx s' mid body (cj_head job)"
      using ok True transition_present_mono [of env "sy_store y" "cj_head job" s'] key_disjoint(1) [of env mid, symmetric]
      by (auto simp: head_ok_def s'(1))
    show "\<forall>b p. prior' = Some (b, p) \<longrightarrow> \<not> covers (sh_state p) (mo_revision (ev_monitor ?x)) (ev_slot ?x)"
      using p(3) prior by (cases prior) (auto simp: prior_ok_def)
    show "sh_state (cj_head job) = fst (evaluate (ev_monitor ?x) (map_option (\<lambda>(b, p). sh_state p) prior') (ev_obs ?x) (ev_slot ?x) (ev_now ?x))"
      using commit_job_facts(1) [OF job] states by simp
  qed (use p s' y' new True in simp_all)
qed

lemma advance_system:
  assumes env: "alert_env_ok env" and inv: "system_inv env cx y" and e: "sy_evaluators y i = Some e" "el_phase e = Advance job"
    and adv: "advance_head env pf gf (cj_head job) (cj_expected job) (sy_store y) = (r, s')"
    and y': "sy_store y' = s'" "sy_heads y' = note_change (state_head_key env) (sy_store y) s' (sy_heads y)"
  shows "(\<forall>mid. heads_inv env cx y' mid) \<and> (\<forall>mid. set (sy_heads y mid) \<subseteq> set (sy_heads y' mid)) \<and>
    (\<forall>mid q r l st. s' (transition_key env mid q r l st) = sy_store y (transition_key env mid q r l st)) \<and>
    (\<forall>u. r = Inr u \<longrightarrow> committed env (sy_heads y' (mo_id (el_monitor e))) (sh_state (cj_head job)))"
proof (intro conjI allI impI)
  let ?mid = "mo_id (el_monitor e)"
  have heads: "heads_inv env cx y mid" for mid using inv by (simp add: system_inv_def)
  have "phase_ok env cx (sy_store y) (sy_heads y ?mid) e" using inv e(1) by (simp add: system_inv_def)
  then have "job_ok env cx (sy_heads y ?mid) e job" and present: "cj_transition job \<noteq> None \<longrightarrow> transition_present env (sy_store y) (cj_head job)"
    using e(2) by (simp_all add: phase_ok_def)
  then obtain prior obs where prior: "prior_ok env (sy_heads y ?mid) e prior" "finite_obs obs"
    and job: "commit_job_of env cx (el_monitor e) (el_slot_id e) (el_slot_end_unix_nano e) prior obs = Inr job"
    by (auto simp: job_ok_def)
  note facts = commit_job_facts [OF job] and ok = job_head_ok [OF env heads prior job present]
  note store = advance_head_store [OF adv, unfolded facts(2)]
  show heads': "heads_inv env cx y' mid" for mid
  proof (cases "s' = sy_store y")
    case True
    then show ?thesis using heads [of mid] y' by (intro quiet_heads [OF heads]) (auto simp: quiet_write_def note_change_def fun_eq_iff)
  next
    case False
    with store(1) obtain body where "ae_head_ser env (cj_head job) = Some body" "s' = (sy_store y)(state_head_key env ?mid \<mapsto> body)"
      and "case cj_expected job of None \<Rightarrow> sy_store y (state_head_key env ?mid) = None
        | Some v \<Rightarrow> \<exists>cur. sy_store y (state_head_key env ?mid) = Some cur \<and> ae_matches env (update_options v) cur" by blast
    then show ?thesis using advance_writes [OF env heads prior job ok _ False _ y'] by blast
  qed
  show "set (sy_heads y mid) \<subseteq> set (sy_heads y' mid)" for mid using y'(2) by (auto simp: note_change_def split: option.splits)
  show "s' (transition_key env mid q r l st) = sy_store y (transition_key env mid q r l st)" for mid q r l st
    using store(1) key_disjoint(1) [of env ?mid, symmetric] by auto
  fix u assume "r = Inr u"
  with store(2) obtain body where body: "ae_head_ser env (cj_head job) = Some body" "s' (state_head_key env ?mid) = Some body" by blast
  with heads' [of ?mid] y'(1) have "body \<in> set (sy_heads y' ?mid)" by (auto simp: heads_inv_def split: if_splits)
  with head_ok_committed [OF env ok [OF body(1)]] show "committed env (sy_heads y' ?mid) (sh_state (cj_head job))" by blast
qed

lemma system_invI:
  assumes "\<And>mid. heads_inv env cx y mid"
    and "\<And>i e. sy_evaluators y i = Some e \<Longrightarrow> phase_ok env cx (sy_store y) (sy_heads y (mo_id (el_monitor e))) e"
    and "\<And>p. db_ok env (sy_heads y) (sy_dbs y p)"
  shows "system_inv env cx y"
  using assms by (auto simp: system_inv_def db_ok_def)

lemma system_invD:
  assumes "system_inv env cx y"
  shows "heads_inv env cx y mid" "sy_evaluators y i = Some e \<Longrightarrow> phase_ok env cx (sy_store y) (sy_heads y (mo_id (el_monitor e))) e"
    "db_ok env (sy_heads y) (sy_dbs y p)"
  using assms by (auto simp: system_inv_def db_ok_def)

lemma db_ok_mono: "db_ok env history db \<Longrightarrow> (\<And>mid. set (history mid) \<subseteq> set (history' mid)) \<Longrightarrow> db_ok env history' db"
  by (fastforce simp: db_ok_def committed_def)

lemma quiet_run:
  assumes inv: "system_inv env cx y" and quiet: "quiet_write env (sy_store y) s'"
    and e': "phase_ok env cx s' (sy_heads y (mo_id (el_monitor e'))) e'" and db: "db_ok env (sy_heads y) db'"
  shows "system_inv env cx (with_store env s' (y\<lparr>sy_evaluators := (sy_evaluators y)(i \<mapsto> e'), sy_dbs := (sy_dbs y)(p := db')\<rparr>))"
    (is "system_inv env cx ?y")
proof (rule system_invI)
  have same: "sy_heads ?y = sy_heads y" "sy_store ?y = s'" using note_change_quiet [OF quiet] by (simp_all add: with_store_def)
  show "heads_inv env cx ?y mid" for mid using quiet_heads [OF system_invD(1) [OF inv]] same quiet by metis
  show "phase_ok env cx (sy_store ?y) (sy_heads ?y (mo_id (el_monitor a))) a" if "sy_evaluators ?y j = Some a" for j a
  proof (cases "j = i")
    case True
    with that e' same show ?thesis by (simp add: with_store_def)
  next
    case False
    with that have "sy_evaluators y j = Some a" by (simp add: with_store_def)
    with quiet_phase [OF system_invD(2) [OF inv] quiet] same show ?thesis by simp
  qed
  show "db_ok env (sy_heads ?y) (sy_dbs ?y q)" for q using db system_invD(3) [OF inv] same(1) by (simp add: with_store_def)
qed

lemma advance_run:
  assumes env: "alert_env_ok env" and inv: "system_inv env cx y" and e: "sy_evaluators y i = Some e" "el_phase e = Advance job"
    and step: "evaluator_step env cx inp e (sy_store y) (sy_dbs y p) = (e', s', db')"
  shows "system_inv env cx (with_store env s' (y\<lparr>sy_evaluators := (sy_evaluators y)(i \<mapsto> e'), sy_dbs := (sy_dbs y)(p := db')\<rparr>))"
    (is "system_inv env cx ?y")
proof (rule system_invI)
  obtain r s1 where adv: "advance_head env (in_put inp) (in_get1 inp) (cj_head job) (cj_expected job) (sy_store y) = (r, s1)" by force
  with step e(2) have s': "s' = s1" "db' = sy_dbs y p" "e' = e\<lparr>el_phase := advanced_phase (sh_state (cj_head job)) r\<rparr>"
    by (auto simp: evaluator_step_def Let_def)
  have store: "sy_store ?y = s1" "sy_heads ?y = note_change (state_head_key env) (sy_store y) s1 (sy_heads y)" using s' by (simp_all add: with_store_def)
  note adv' = advance_system [OF env inv e adv this]
  then show "heads_inv env cx ?y mid" for mid by blast
  show "phase_ok env cx (sy_store ?y) (sy_heads ?y (mo_id (el_monitor a))) a" if a: "sy_evaluators ?y j = Some a" for j a
  proof (cases "j = i")
    case True
    with a s' have "a = e\<lparr>el_phase := advanced_phase (sh_state (cj_head job)) r\<rparr>" by (simp add: with_store_def)
    with adv' show ?thesis by (cases r) (auto simp: phase_ok_def advanced_phase_def split: alert_store_error.splits)
  next
    case False
    with a have "sy_evaluators y j = Some a" by (simp add: with_store_def)
    then show ?thesis using phase_mono [OF system_invD(2) [OF inv]] adv' store(1) by simp
  qed
  have "db_ok env (sy_heads ?y) (sy_dbs y q)" for q using db_ok_mono [OF system_invD(3) [OF inv]] adv' by blast
  then show "db_ok env (sy_heads ?y) (sy_dbs ?y q)" for q using s' by (simp add: with_store_def)
qed

lemma run_inv:
  assumes env: "alert_env_ok env" and inv: "system_inv env cx y" and e: "sy_evaluators y i = Some e" and obs: "finite_obs (in_obs inp)"
    and step: "evaluator_step env cx inp e (sy_store y) (sy_dbs y p) = (e', s', db')"
  shows "system_inv env cx (with_store env s' (y\<lparr>sy_evaluators := (sy_evaluators y)(i \<mapsto> e'), sy_dbs := (sy_dbs y)(p := db')\<rparr>))"
proof -
  consider job where "el_phase e = Advance job" | job where "el_phase e = Publish job" | "\<not> writing (el_phase e)"
    by (cases "el_phase e") (auto simp: writing_def)
  then show ?thesis
  proof cases
    case 1
    then show ?thesis by (rule advance_run [OF env inv e _ step])
  next
    case (2 job)
    obtain r s1 where pub: "publish_transition env (in_put inp) (in_get1 inp) (cj_head job) (cj_transition job) (sy_store y) = (r, s1)" by force
    with step 2 have s': "s' = s1" "db' = sy_dbs y p" "el_monitor e' = el_monitor e"
      "e' = e\<lparr>el_phase := Advance job\<rparr> \<and> r = Inr () \<or> (\<exists>q. el_phase e' = Finished q)"
      by (auto simp: evaluator_step_def Let_def split: sum.splits)
    from system_invD(2) [OF inv e] have "phase_ok env cx s1 (sy_heads y (mo_id (el_monitor e))) e'"
      using s'(4) publish_ok(2) [OF pub] 2 by (auto simp: phase_ok_def)
    then have "phase_ok env cx s1 (sy_heads y (mo_id (el_monitor e'))) e'" using s'(3) by simp
    from quiet_run [OF inv publish_ok(1) [OF pub] this system_invD(3) [OF inv]] show ?thesis unfolding s'(1,2) .
  next
    case 3
    from quiet_evaluator_step [OF step 3 system_invD(1) [OF inv] system_invD(2) [OF inv e] system_invD(3) [OF inv] obs]
    show ?thesis using quiet_run [OF inv, of s' e' db'] by (auto simp: quiet_write_def)
  qed
qed

lemma quiet_trans: "quiet_write env s s' \<Longrightarrow> quiet_write env s' s'' \<Longrightarrow> quiet_write env s s''"
  by (simp add: quiet_write_def)

lemma tombstone_quiet: "tombstone_rule env pf1 gf1 pf2 gf2 t v s = (r, s') \<Longrightarrow> quiet_write env s s'"
proof -
  assume run: "tombstone_rule env pf1 gf1 pf2 gf2 t v s = (r, s')"
  obtain q s1 where q: "create_identical (ae_tombstone_ser env) pf1 gf1 (rule_tombstone_key env (rb_monitor_id t) (rb_command_id t)) t s = (q, s1)"
    by force
  have first: "quiet_write env s s1" using create_quiet [OF q, of env] key_disjoint(6) by blast
  show ?thesis
  proof (cases q)
    case (Inr u)
    with run q have "update env (ae_rule_head_ser env) pf2 gf2 (rule_head_key env (rb_monitor_id t)) (tombstone_head env t) v s1 = (r, s')"
      by (simp add: tombstone_rule_def)
    from quiet_trans [OF first update_quiet [OF this]] key_disjoint show ?thesis by blast
  qed (use run q first in \<open>simp add: tombstone_rule_def\<close>)
qed

lemma advance_rule_quiet: "advance_rule_head env pf gf m c plan s = (r, s') \<Longrightarrow> quiet_write env s s'"
proof (cases plan)
  case (RuleUpdate v)
  moreover assume "advance_rule_head env pf gf m c plan s = (r, s')"
  ultimately have "update env (ae_rule_head_ser env) pf gf (rule_head_key env (mo_id m)) (rule_head_of env m c) v s = (r, s')"
    by (simp add: advance_rule_head_def)
  from update_quiet [OF this] key_disjoint show ?thesis by blast
next
  case RuleCreate
  moreover assume "advance_rule_head env pf gf m c plan s = (r, s')"
  moreover obtain q s1 where q: "create_identical (ae_rule_head_ser env) pf gf (rule_head_key env (mo_id m)) (rule_head_of env m c) s = (q, s1)" by force
  ultimately have "s1 = s'" by (simp add: advance_rule_head_def)
  with create_quiet [OF q] key_disjoint show ?thesis by blast
qed (simp add: advance_rule_head_def quiet_write_def)

lemma alert_step_inv:
  assumes env: "alert_env_ok env" and inv: "system_inv env cx y" and step: "alert_system_step env cx proc y y'"
  shows "system_inv env cx y'"
  using step
proof cases
  case (run i e inp e' s' db')
  with run_inv [OF env inv] show ?thesis by blast
next
  case (stage_rule pf gf m c r s')
  then have "quiet_write env (sy_store y) s'"
    using create_quiet key_disjoint unfolding stage_rule_revision_def rule_head_of_def by (metis rule_head.select_convs(4))
  with stage_rule system_inv_quiet [OF inv] show ?thesis by blast
next
  case (advance_rule m c plan pf gf r s')
  with system_inv_quiet [OF inv advance_rule_quiet] show ?thesis by blast
next
  case (delete_rule pf1 gf1 pf2 gf2 t v r s')
  with system_inv_quiet [OF inv tombstone_quiet] show ?thesis by blast
qed (use inv in \<open>auto simp: system_inv_def heads_inv_def phase_ok_def eval_start_def forget_monitor_def alerts_db_empty_def\<close>)

lemma system_new_inv: "system_inv env cx system_new"
  by (auto simp: system_inv_def system_new_def heads_inv_def alerts_db_empty_def intro: exI [of _ "[]"])

lemma alert_run_system_inv:
  assumes "alert_system_run env cx proc y" and "alert_env_ok env"
  shows "system_inv env cx y"
  using assms(1) by induction (auto simp: system_new_inv intro: alert_step_inv [OF assms(2)])

section \<open>Rule heads\<close>

text \<open>A deleted rule stays deleted; a live revision is one more than the one it replaces.\<close>

definition rule_follows :: "rule_head \<Rightarrow> rule_head \<Rightarrow> bool" where
  "rule_follows a b \<longleftrightarrow> (rh_deleted a \<longrightarrow> rh_deleted b) \<and> (\<not> rh_deleted b \<longrightarrow> unat (rh_revision b) = unat (rh_revision a) + 1)"

definition rule_chain :: "rule_head list \<Rightarrow> bool" where
  "rule_chain rs \<longleftrightarrow> (rs \<noteq> [] \<longrightarrow> \<not> rh_deleted (hd rs) \<and> rh_revision (hd rs) = 1) \<and> successively rule_follows rs"

definition rules_inv :: "alert_env \<Rightarrow> alert_system \<Rightarrow> uuid \<Rightarrow> bool" where
  "rules_inv env y mid \<longleftrightarrow> (\<exists>rs. map Some (sy_rules y mid) = map (ae_rule_head_ser env) rs \<and> rule_chain rs) \<and>
     sy_store y (rule_head_key env mid) = (if sy_rules y mid = [] then None else Some (last (sy_rules y mid)))"

definition plan_ok :: "alert_env \<Rightarrow> monitor \<Rightarrow> rule_plan \<Rightarrow> bool" where
  "plan_ok env m plan = (case plan of
       RuleDone \<Rightarrow> True
     | RuleCreate \<Rightarrow> mo_revision m = 1
     | RuleUpdate v \<Rightarrow> (\<exists>body h. v = ae_version env body \<and> ae_rule_head_de env body = Some h \<and> \<not> rh_deleted h \<and>
         unat (mo_revision m) = unat (rh_revision h) + 1))"

lemma plan_rule_head_ok: "plan_rule_head env gf m c s = Inr plan \<Longrightarrow> plan_ok env m plan"
proof (cases "read_versioned env (ae_rule_head_de env) gf (rule_head_key env (mo_id m)) s")
  case (Inl e)
  moreover assume "plan_rule_head env gf m c s = Inr plan"
  ultimately show ?thesis by (auto simp: plan_rule_head_def plan_ok_def Let_def split: alert_store_error.splits if_splits)
next
  case (Inr h)
  moreover assume "plan_rule_head env gf m c s = Inr plan"
  ultimately show ?thesis using read_versioned_Inr [OF Inr]
    by (auto simp: plan_rule_head_def plan_ok_def Let_def checked_add_SomeD split: if_splits) blast
qed

lemma no_slash_cancel:
  "CHR ''/'' \<notin> set a \<Longrightarrow> CHR ''/'' \<notin> set b \<Longrightarrow> a @ CHR ''/'' # u = b @ CHR ''/'' # v \<Longrightarrow> a = b \<and> u = v"
  by (induction a arbitrary: b) (case_tac b; auto)+

lemma rule_key_disjoint:
  assumes "alert_env_ok env"
  shows "rule_revision_key env a v c \<noteq> rule_head_key env b" "rule_tombstone_key env a c \<noteq> rule_head_key env b"
    "rule_head_key env a = rule_head_key env b \<longleftrightarrow> a = b"
proof -
  have slash: "CHR ''/'' \<notin> set (ae_ustr env u)" for u using assms by (simp add: alert_env_ok_def)
  show "rule_revision_key env a v c \<noteq> rule_head_key env b"
  proof
    assume "rule_revision_key env a v c = rule_head_key env b"
    then have "ae_ustr env a @ CHR ''/'' # (''revisions/'' @ padded v @ ''-'' @ sha256_hex env (map of_char c) @ ''.json'') =
        ae_ustr env b @ CHR ''/'' # ''head.json''" by (simp add: rule_revision_key_def rule_head_key_def)
    from no_slash_cancel [OF slash slash this] show False by simp
  qed
  show "rule_tombstone_key env a c \<noteq> rule_head_key env b"
  proof
    assume "rule_tombstone_key env a c = rule_head_key env b"
    then have "ae_ustr env a @ CHR ''/'' # (''tombstones/'' @ sha256_hex env (map of_char c) @ ''.json'') =
        ae_ustr env b @ CHR ''/'' # ''head.json''" by (simp add: rule_tombstone_key_def rule_head_key_def)
    from no_slash_cancel [OF slash slash this] show False by simp
  qed
  show "rule_head_key env a = rule_head_key env b \<longleftrightarrow> a = b" using assms by (auto simp: rule_head_key_def alert_env_ok_def dest: injD)
qed

definition rule_quiet :: "alert_env \<Rightarrow> control_store \<Rightarrow> control_store \<Rightarrow> bool" where
  "rule_quiet env s s' \<longleftrightarrow> (\<forall>mid. s' (rule_head_key env mid) = s (rule_head_key env mid))"

definition rules_ok :: "alert_env \<Rightarrow> alert_system \<Rightarrow> bool" where
  "rules_ok env y \<longleftrightarrow> (\<forall>mid. rules_inv env y mid) \<and> (\<forall>(m, c, plan) \<in> sy_plans y. plan_ok env m plan)"

lemma rules_ok_quiet:
  assumes "rules_ok env y" and "rule_quiet env (sy_store y) s'" and "sy_store y1 = sy_store y" "sy_rules y1 = sy_rules y" "sy_plans y1 = sy_plans y"
  shows "rules_ok env (with_store env s' y1)"
proof -
  have "note_change (rule_head_key env) (sy_store y) s' (sy_rules y) = sy_rules y"
    using assms(2) by (auto simp: note_change_def rule_quiet_def)
  with assms show ?thesis by (auto simp: rules_ok_def rules_inv_def with_store_def rule_quiet_def)
qed

text \<open>A head that follows the current one is written to the object of its monitor.\<close>

lemma rules_ok_write:
  assumes env: "alert_env_ok env" and ok: "rules_ok env y" and body: "ae_rule_head_ser env h = Some body"
    and s': "s' = (sy_store y)(rule_head_key env mid \<mapsto> body)"
    and follows: "case sy_store y (rule_head_key env mid) of
        None \<Rightarrow> \<not> rh_deleted h \<and> rh_revision h = 1
      | Some cur \<Rightarrow> \<forall>p. ae_rule_head_de env cur = Some p \<longrightarrow> rule_follows p h"
  shows "rules_ok env (with_store env s' y)"
proof (cases "s' = sy_store y")
  case True
  then show ?thesis using rules_ok_quiet [OF ok, of s' y] by (simp add: rule_quiet_def)
next
  case False
  let ?y = "with_store env s' y"
  have other: "rules_inv env ?y mid'" if "mid' \<noteq> mid" for mid'
    using ok that rule_key_disjoint(3) [OF env, of mid' mid] by (simp add: rules_ok_def rules_inv_def with_store_def note_change_def s')
  have new: "sy_rules ?y mid = sy_rules y mid @ [body]" using False by (auto simp: with_store_def note_change_def s' fun_upd_idem_iff)
  from ok obtain rs where rs: "map Some (sy_rules y mid) = map (ae_rule_head_ser env) rs" "rule_chain rs"
    and store: "sy_store y (rule_head_key env mid) = (if sy_rules y mid = [] then None else Some (last (sy_rules y mid)))"
    by (auto simp: rules_ok_def rules_inv_def)
  have "rule_chain (rs @ [h])"
  proof (cases "rs = []")
    case True
    with rs(1) store follows show ?thesis by (simp add: rule_chain_def)
  next
    case ne: False
    with rs(1) have "sy_rules y mid \<noteq> []" by auto
    then have "Some (last (sy_rules y mid)) = ae_rule_head_ser env (last rs)" using rs(1) ne by (metis last_map)
    then have "ae_rule_head_de env (last (sy_rules y mid)) = Some (last rs)" using env by (simp add: alert_env_ok_def)
    with follows store \<open>sy_rules y mid \<noteq> []\<close> have "rule_follows (last rs) h" by simp
    with rs(2) ne show ?thesis by (simp add: rule_chain_def successively_append_iff)
  qed
  then have "rules_inv env ?y mid" using rs(1) body new by (auto simp: rules_inv_def with_store_def s' intro!: exI [of _ "rs @ [h]"])
  with other ok show ?thesis by (auto simp: rules_ok_def with_store_def) metis
qed

lemma evaluator_rule_quiet:
  assumes "evaluator_step env cx inp e s db = (e', s', db')"
  shows "rule_quiet env s s'"
proof (cases "el_phase e")
  case (Publish job)
  obtain r s1 where pub: "publish_transition env (in_put inp) (in_get1 inp) (cj_head job) (cj_transition job) s = (r, s1)" by force
  with assms Publish have "s' = s1" by (auto simp: evaluator_step_def Let_def split: sum.splits)
  moreover consider "s1 = s"
    | t where "create_identical (ae_transition_ser env) (in_put inp) (in_get1 inp)
        (ref_key env (sh_latest_transition (cj_head job)) (sh_monitor_id (cj_head job))) t s = (r, s1)"
    using pub by (auto simp: publish_transition_def Let_def split: sum.splits option.splits)
  then have "rule_quiet env s s1"
    by cases (auto simp: rule_quiet_def ref_key_def key_disjoint dest: create_identical_store)
  ultimately show ?thesis by simp
next
  case (Advance job)
  obtain r s1 where adv: "advance_head env (in_put inp) (in_get1 inp) (cj_head job) (cj_expected job) s = (r, s1)" by force
  with assms Advance have "s' = s1" by (auto simp: evaluator_step_def Let_def)
  with advance_head_store(1) [OF adv] show ?thesis by (auto simp: rule_quiet_def key_disjoint)
qed (use assms in \<open>auto simp: evaluator_step_def rule_quiet_def Let_def split: prod.splits\<close>)

lemma advance_rule_ok:
  assumes env: "alert_env_ok env" and ok: "rules_ok env y" and plan: "(m, c, plan) \<in> sy_plans y"
    and adv: "advance_rule_head env pf gf m c plan (sy_store y) = (r, s')"
  shows "rules_ok env (with_store env s' y)"
proof -
  let ?key = "rule_head_key env (mo_id m)" and ?h = "rule_head_of env m c"
  have head: "\<not> rh_deleted ?h" "rh_revision ?h = mo_revision m" by (simp_all add: rule_head_of_def)
  have p: "plan_ok env m plan" using ok plan by (auto simp: rules_ok_def)
  have "s' = sy_store y \<or> (\<exists>body. ae_rule_head_ser env ?h = Some body \<and> s' = (sy_store y)(?key \<mapsto> body) \<and>
      (case sy_store y ?key of
         None \<Rightarrow> \<not> rh_deleted ?h \<and> rh_revision ?h = 1
       | Some cur \<Rightarrow> \<forall>q. ae_rule_head_de env cur = Some q \<longrightarrow> rule_follows q ?h))"
  proof (cases plan)
    case (RuleUpdate v)
    with p obtain b q where q: "v = ae_version env b" "ae_rule_head_de env b = Some q" "\<not> rh_deleted q"
      "unat (mo_revision m) = unat (rh_revision q) + 1" by (auto simp: plan_ok_def)
    have "update env (ae_rule_head_ser env) pf gf ?key ?h v (sy_store y) = (r, s')" using adv RuleUpdate by (simp add: advance_rule_head_def)
    from update_store [OF this] show ?thesis using q head by (auto simp: rule_follows_def dest: matches_current [OF env])
  next
    case RuleCreate
    obtain q s1 where create: "create_identical (ae_rule_head_ser env) pf gf ?key ?h (sy_store y) = (q, s1)" by force
    with adv RuleCreate have "s1 = s'" by (simp add: advance_rule_head_def)
    with create_identical_store [OF create] p RuleCreate head show ?thesis by (auto simp: plan_ok_def)
  qed (use adv in \<open>simp add: advance_rule_head_def\<close>)
  then show ?thesis using rules_ok_write [OF env ok] rules_ok_quiet [OF ok, of s' y] by (auto simp: rule_quiet_def)
qed

lemma rules_ok_cong:
  assumes "rules_ok env (with_store env s' (y\<lparr>sy_store := s1\<rparr>))" and "rule_quiet env (sy_store y) s1"
  shows "rules_ok env (with_store env s' y)"
proof -
  have "note_change (rule_head_key env) s1 s' (sy_rules y) = note_change (rule_head_key env) (sy_store y) s' (sy_rules y)"
    using assms(2) by (auto simp: note_change_def rule_quiet_def fun_eq_iff)
  with assms(1) show ?thesis by (simp add: rules_ok_def rules_inv_def with_store_def)
qed

lemma tombstone_ok:
  assumes env: "alert_env_ok env" and ok: "rules_ok env y" and run: "tombstone_rule env pf1 gf1 pf2 gf2 t v (sy_store y) = (r, s')"
  shows "rules_ok env (with_store env s' y)"
proof -
  let ?key = "rule_head_key env (rb_monitor_id t)"
  obtain q s1 where q: "create_identical (ae_tombstone_ser env) pf1 gf1 (rule_tombstone_key env (rb_monitor_id t) (rb_command_id t)) t
      (sy_store y) = (q, s1)" by force
  have first: "rule_quiet env (sy_store y) s1"
    using create_identical_store [OF q] rule_key_disjoint(2) [OF env, symmetric] by (auto simp: rule_quiet_def)
  then have ok1: "rules_ok env (y\<lparr>sy_store := s1\<rparr>)" using ok by (simp add: rules_ok_def rules_inv_def rule_quiet_def)
  consider "s' = s1" | cur body where "s1 ?key = Some cur" "ae_rule_head_ser env (tombstone_head env t) = Some body" "s' = s1(?key \<mapsto> body)"
  proof (cases q)
    case (Inl a)
    with run q that(1) show thesis by (simp add: tombstone_rule_def)
  next
    case (Inr u)
    with run q have "update env (ae_rule_head_ser env) pf2 gf2 ?key (tombstone_head env t) v s1 = (r, s')" by (simp add: tombstone_rule_def)
    from update_store [OF this] that show thesis by blast
  qed
  then have "rules_ok env (with_store env s' (y\<lparr>sy_store := s1\<rparr>))"
  proof cases
    case 1
    then show ?thesis using rules_ok_quiet [OF ok1, of s' "y\<lparr>sy_store := s1\<rparr>"] by (simp add: rule_quiet_def)
  next
    case 2
    then show ?thesis using rules_ok_write [OF env ok1 2(2), of s' "rb_monitor_id t"]
      by (simp add: rule_follows_def tombstone_head_def)
  qed
  from rules_ok_cong [OF this first] show ?thesis .
qed

lemma rules_step_ok:
  assumes env: "alert_env_ok env" and ok: "rules_ok env y" and step: "alert_system_step env cx proc y y'"
  shows "rules_ok env y'"
  using step
proof cases
  case (run i e inp e' s' db')
  then show ?thesis using rules_ok_quiet [OF ok evaluator_rule_quiet] by simp
next
  case (stage_rule pf gf m c r s')
  then have "create_identical (ae_monitor_ser env) pf gf (rule_revision_key env (mo_id m) (mo_revision m) c) m (sy_store y) = (r, s')"
    by (simp add: stage_rule_revision_def rule_head_of_def)
  from create_identical_store [OF this] have "rule_quiet env (sy_store y) s'"
    using rule_key_disjoint(1) [OF env, symmetric] by (auto simp: rule_quiet_def)
  then show ?thesis using rules_ok_quiet [OF ok] stage_rule by simp
next
  case (plan_rule gf m c plan)
  with ok plan_rule_head_ok show ?thesis by (auto simp: rules_ok_def rules_inv_def)
next
  case (advance_rule m c plan pf gf r s')
  with advance_rule_ok [OF env ok] show ?thesis by blast
next
  case (delete_rule pf1 gf1 pf2 gf2 t v r s')
  with tombstone_ok [OF env ok] show ?thesis by blast
qed (use ok in \<open>auto simp: rules_ok_def rules_inv_def\<close>)

lemma alert_run_rules_ok:
  assumes "alert_system_run env cx proc y" and "alert_env_ok env"
  shows "rules_ok env y"
  using assms(1)
proof induction
  case run_new
  show ?case by (simp add: rules_ok_def rules_inv_def system_new_def rule_chain_def)
qed (rule rules_step_ok [OF assms(2)])

section \<open>An evaluator alone, and a small system\<close>

text \<open>The steps of one evaluator, one after the other, are steps of the system.\<close>

lemma evaluator_runs:
  "alert_system_run env cx proc y \<Longrightarrow> sy_evaluators y i = Some e \<Longrightarrow> list_all (\<lambda>inp. finite_obs (in_obs inp)) inputs \<Longrightarrow>
     eval_run env cx inputs e (sy_store y) (sy_dbs y (proc i)) = (e', s', db') \<Longrightarrow>
     \<exists>y'. alert_system_run env cx proc y' \<and> sy_store y' = s' \<and> sy_dbs y' (proc i) = db' \<and> sy_evaluators y' i = Some e'"
proof (induction inputs arbitrary: y e)
  case (Cons inp inputs)
  obtain e1 s1 db1 where step: "evaluator_step env cx inp e (sy_store y) (sy_dbs y (proc i)) = (e1, s1, db1)" by (metis prod.exhaust)
  let ?y = "with_store env s1 (y\<lparr>sy_evaluators := (sy_evaluators y)(i \<mapsto> e1), sy_dbs := (sy_dbs y)(proc i := db1)\<rparr>)"
  have "finite_obs (in_obs inp)" using Cons.prems(3) by simp
  from alert_system_step.run [OF Cons.prems(2) this, where env = env and cx = cx and proc = proc, OF step]
  have "alert_system_run env cx proc ?y" by (rule run_step [OF Cons.prems(1)])
  from Cons.IH [OF this, of e1] Cons.prems step show ?case by (simp add: with_store_def)
qed auto

definition tag_version :: "bytes \<Rightarrow> update_version" where
  "tag_version body = \<lparr>uv_e_tag = Some (CHR ''e'' # map (\<lambda>b. char_of (unat b)) body), uv_version = None\<rparr>"

lemma tag_version_inj: "update_options (tag_version a) = update_options (tag_version b) \<longleftrightarrow> a = b"
proof -
  have "inj (\<lambda>b :: u8. char_of (unat b) :: char)"
  proof (rule injI)
    fix b c :: u8 assume "(char_of (unat b) :: char) = char_of (unat c)"
    then have "(of_char (char_of (unat b) :: char) :: nat) = of_char (char_of (unat c) :: char)" by simp
    then have "unat b mod 256 = unat c mod 256" by simp
    then show "b = c" using unsigned_less [of b, where ?'a = nat] unsigned_less [of c, where ?'a = nat] by (simp add: word_unat_eq_iff)
  qed
  then show ?thesis by (auto simp: update_options_def tag_version_def unquote_etag_def inj_map_eq_map)
qed

definition small_rule_head :: rule_head where
  "small_rule_head = \<lparr>rh_schema_version = 1, rh_monitor_id = 1, rh_revision = 1,
     rh_revision_key = ''_scry/alerts/v1/rules/a/revisions/00000000000000000001-.json'',
     rh_updated_at_unix_nano = 1, rh_deleted = False, rh_tombstone_key = None\<rparr>"

definition small_state :: alert_state where
  "small_state = \<lparr>as_monitor_revision = 1, as_status = Inactive, as_since_unix_nano = 60, as_last_evaluated_at_unix_nano = 60,
     as_last_slot_id = 1, as_last_value = Some (Finite 1), as_last_error_class = None, as_transition_sequence = 1,
     as_stale = False, as_interrupted = None\<rparr>"

definition small_transition :: transition_record where
  "small_transition = \<lparr>tr_schema_version = 2, tr_deployment_id = ''d'', tr_monitor_id = 1, tr_monitor_revision = 1, tr_slot_id = 1,
     tr_evaluated_at_unix_nano = 60, tr_observation = ObsValue (Finite 1), tr_previous_status = None, tr_resumed = False,
     tr_state = small_state, tr_previous_transition_key = None, tr_notification_intents = []\<rparr>"

definition small_head :: state_head where
  "small_head = \<lparr>sh_schema_version = 2, sh_deployment_id = ''d'', sh_monitor_id = 1, sh_state = small_state,
     sh_latest_transition = \<lparr>tf_sequence = 1, tf_monitor_revision = 1, tf_slot_id = 1, tf_status = Inactive, tf_sha256 = []\<rparr>,
     sh_updated_at_unix_nano = 60\<rparr>"

definition small_env :: alert_env where
  "small_env = \<lparr>ae_ustr = (\<lambda>u. replicate (unat u) CHR ''a''), ae_sha256 = (\<lambda>_. []), ae_version = tag_version,
     ae_matches = (\<lambda>v body. v = update_options (tag_version body)),
     ae_head_ser = (\<lambda>h. if h = small_head then Some [1] else None), ae_head_de = (\<lambda>b. if b = [1] then Some small_head else None),
     ae_transition_ser = (\<lambda>t. if t = small_transition then Some [2] else None),
     ae_transition_de = (\<lambda>b. if b = [2] then Some small_transition else None),
     ae_rule_head_ser = (\<lambda>h. if h = small_rule_head then Some [3] else None),
     ae_rule_head_de = (\<lambda>b. if b = [3] then Some small_rule_head else None),
     ae_monitor_ser = (\<lambda>m. if m = high_load then Some [4] else None), ae_monitor_de = (\<lambda>b. if b = [4] then Some high_load else None),
     ae_tombstone_ser = (\<lambda>_. None), ae_sql_ok = (\<lambda>_ _. True)\<rparr>"

definition small_context :: evaluation_context where
  "small_context = \<lparr>cx_deployment_id = ''d'', cx_query_targets = [''local'']\<rparr>"

definition small_input :: eval_input where
  "small_input = \<lparr>in_fence = True, in_get1 = GetAnswered, in_get2 = GetAnswered, in_put = Answered, in_obs = ObsValue (Finite 1),
     in_db_fails = False\<rparr>"

lemma small_env_ok: "alert_env_ok small_env"
proof -
  have "inj (\<lambda>u :: uuid. replicate (unat u) CHR ''a'')" by (rule injI) (metis length_replicate word_unat_eq_iff)
  then show ?thesis by (auto simp: alert_env_ok_def small_env_def tag_version_inj)
qed

lemma small_env_simps:
  "ae_version small_env = tag_version" "ae_head_ser small_env small_head = Some [1]"
  "ae_transition_ser small_env small_transition = Some [2]" "ae_rule_head_ser small_env small_rule_head = Some [3]"
  "ae_rule_head_de small_env [3] = Some small_rule_head" "ae_monitor_ser small_env high_load = Some [4]"
  "sha256_hex small_env body = []" "ae_ustr small_env 1 = ''a''"
  by (simp_all add: small_env_def sha256_hex_def)

lemma small_keys:
  "rule_revision_key small_env 1 1 [] = ''_scry/alerts/v1/rules/a/revisions/00000000000000000001-.json''"
  "rule_head_key small_env 1 = ''_scry/alerts/v1/rules/a/head.json''"
  "state_head_key small_env 1 = ''_scry/alerts/v1/state/v2/a/head.json''"
proof -
  have "padded 1 = ''00000000000000000001''" by code_simp
  then show "rule_revision_key small_env 1 1 [] = ''_scry/alerts/v1/rules/a/revisions/00000000000000000001-.json''"
    by (simp add: rule_revision_key_def small_env_simps)
qed (simp_all add: rule_head_key_def state_head_key_def small_env_simps)

lemma create_fresh:
  "s key = None \<Longrightarrow> ser v = Some [b] \<Longrightarrow> create_identical ser Answered gf key v s = (Inr (), s(key \<mapsto> [b]))"
  by (simp add: create_identical_def bounded_json_def put_create_def MAX_CONTROL_OBJECT_BYTES_def)

definition small_rule_store :: control_store where
  "small_rule_store = (\<lambda>_. None)(rule_revision_key small_env 1 1 [] \<mapsto> [4], rule_head_key small_env 1 \<mapsto> [3])"

lemma high_load_fields: "mo_id high_load = 1" "mo_revision high_load = 1" "mo_updated_at_unix_nano high_load = 1"
  "mo_enabled high_load" "sq_target_id (mo_query high_load) = ''local''"
  by (simp_all add: high_load_def)

lemma small_rule_created:
  "\<exists>y. alert_system_run small_env small_context proc y \<and> sy_store y = small_rule_store \<and> sy_dbs y = (\<lambda>_. alerts_db_empty)"
proof -
  have h: "rule_head_of small_env high_load [] = small_rule_head"
    by (simp add: rule_head_of_def high_load_fields small_keys small_rule_head_def ALERT_RECORD_SCHEMA_VERSION_def)
  let ?s1 = "(\<lambda>_. None)(rule_revision_key small_env 1 1 [] \<mapsto> [4 :: u8])"
  have key: "rh_revision_key small_rule_head = rule_revision_key small_env 1 1 []" by (simp add: small_rule_head_def small_keys)
  have stage: "stage_rule_revision small_env Answered GetAnswered high_load [] (sy_store system_new) = (Inr (), ?s1)"
    unfolding stage_rule_revision_def h key by (simp add: create_fresh system_new_def small_env_simps)
  let ?y1 = "with_store small_env ?s1 system_new"
  have plan: "plan_rule_head small_env GetAnswered high_load [] (sy_store ?y1) = Inr RuleCreate"
    by (simp add: plan_rule_head_def with_store_def read_versioned_def get_bounded_def high_load_fields small_keys)
  let ?y2 = "?y1\<lparr>sy_plans := insert (high_load, [], RuleCreate) (sy_plans ?y1)\<rparr>"
  have "create_identical (ae_rule_head_ser small_env) Answered GetAnswered (rule_head_key small_env 1) small_rule_head (sy_store ?y2) =
      (Inr (), small_rule_store)"
    unfolding small_rule_store_def by (subst create_fresh) (simp_all add: with_store_def small_env_simps small_keys)
  then have adv: "advance_rule_head small_env Answered GetAnswered high_load [] RuleCreate (sy_store ?y2) = (Inr (), small_rule_store)"
    unfolding advance_rule_head_def h high_load_fields by (simp add: collision_is_conflict_def Let_def)
  note run_step [OF run_step [OF run_step [OF run_new stage_rule [OF stage]] plan_rule [OF plan]] advance_rule [OF _ adv]]
  then show ?thesis by (intro exI [of _ "with_store small_env small_rule_store ?y2"]) (simp add: with_store_def system_new_def)
qed

lemma small_rule_current: "rule_is_current small_env small_input high_load small_rule_store db = (Inr True, db)"
proof -
  have "read_rule_head small_env GetAnswered 1 small_rule_store = Inr \<lparr>ve_value = small_rule_head, ve_version = tag_version [3]\<rparr>"
    unfolding read_rule_head_def read_versioned_def get_bounded_def small_rule_store_def
    by (simp add: small_env_simps version_of_meta_def tag_version_def MAX_CONTROL_OBJECT_BYTES_def small_rule_head_def
        ALERT_RECORD_SCHEMA_VERSION_def)
  then show ?thesis by (simp add: rule_is_current_def high_load_fields small_input_def small_rule_head_def Let_def)
qed

definition small_job :: commit_job where
  "small_job = \<lparr>cj_head = small_head, cj_transition = Some small_transition, cj_expected = None\<rparr>"

lemma small_commit_job: "commit_job_of small_env small_context high_load 1 60 None (ObsValue (Finite 1)) = Inr small_job"
proof -
  have ev: "evaluate high_load None (ObsValue (Finite 1)) 1 60 = (small_state,
      \<lparr>chg_previous = None, chg_current = Inactive, chg_transitioned = True, chg_resumed = False\<rparr>)"
    by (simp add: high_load_def run_defs small_state_def)
  then have tr: "transition_of small_env small_context high_load 1 60 None (ObsValue (Finite 1)) small_state
      \<lparr>chg_previous = None, chg_current = Inactive, chg_transitioned = True, chg_resumed = False\<rparr> = Some small_transition"
    by (simp add: transition_of_def small_transition_def STATE_RECORD_SCHEMA_VERSION_def small_context_def high_load_fields)
  have "reference small_env small_transition = Some (sh_latest_transition small_head)"
    by (simp add: reference_def small_env_simps small_head_def) (simp add: small_transition_def small_state_def)
  then show ?thesis unfolding commit_job_of_def option.map ev prod.case Let_def tr option.case
    by (simp add: small_job_def small_head_def STATE_RECORD_SCHEMA_VERSION_def small_context_def high_load_fields)
qed

lemma small_steps:
  "evaluator_step small_env small_context small_input (e\<lparr>el_monitor := high_load, el_phase := CheckRule\<rparr>) small_rule_store db =
     (e\<lparr>el_monitor := high_load, el_phase := ReadHead\<rparr>, small_rule_store, db)"
  "evaluator_step small_env small_context small_input (e\<lparr>el_monitor := high_load, el_phase := ReadHead\<rparr>) small_rule_store db =
     (e\<lparr>el_monitor := high_load, el_phase := Query None\<rparr>, small_rule_store, db)"
  "evaluator_step small_env small_context small_input (e\<lparr>el_monitor := high_load, el_phase := Query None\<rparr>) small_rule_store db =
     (e\<lparr>el_monitor := high_load, el_phase := Recheck None (ObsValue (Finite 1))\<rparr>, small_rule_store, db)"
proof -
  have fence: "in_fence small_input" "in_obs small_input = ObsValue (Finite 1)" "in_get1 small_input = GetAnswered" by (simp_all add: small_input_def)
  have none: "small_rule_store (state_head_key small_env 1) = None" by (simp add: small_rule_store_def small_keys)
  show "evaluator_step small_env small_context small_input (e\<lparr>el_monitor := high_load, el_phase := CheckRule\<rparr>) small_rule_store db =
     (e\<lparr>el_monitor := high_load, el_phase := ReadHead\<rparr>, small_rule_store, db)"
    by (simp add: evaluator_step_def check_rule_step_def small_rule_current fence)
  show "evaluator_step small_env small_context small_input (e\<lparr>el_monitor := high_load, el_phase := ReadHead\<rparr>) small_rule_store db =
     (e\<lparr>el_monitor := high_load, el_phase := Query None\<rparr>, small_rule_store, db)"
    by (simp add: evaluator_step_def read_head_step_def read_state_head_def read_versioned_def get_bounded_def fence none high_load_fields)
  show "evaluator_step small_env small_context small_input (e\<lparr>el_monitor := high_load, el_phase := Query None\<rparr>) small_rule_store db =
     (e\<lparr>el_monitor := high_load, el_phase := Recheck None (ObsValue (Finite 1))\<rparr>, small_rule_store, db)"
    by (simp add: evaluator_step_def query_step_def high_load_fields fence small_context_def)
qed

lemma small_commit:
  obtains s1 s2 where "publish_transition small_env Answered GetAnswered small_head (Some small_transition) small_rule_store = (Inr (), s1)"
    "advance_head small_env Answered GetAnswered small_head None s1 = (Inr (), s2)" "s2 (state_head_key small_env 1) = Some [1]"
proof -
  let ?key = "ref_key small_env (sh_latest_transition small_head) (sh_monitor_id small_head)"
  have fresh: "small_rule_store ?key = None"
    by (simp add: small_rule_store_def ref_key_def key_disjoint [symmetric])
  have valid: "head_validate (sh_deployment_id small_head) (sh_monitor_id small_head) small_head = Inr ()"
    by (simp add: head_validate_def small_head_def small_state_def STATE_RECORD_SCHEMA_VERSION_def)
  have "reference small_env small_transition = Some (sh_latest_transition small_head)"
    by (simp add: reference_def small_env_simps small_head_def) (simp add: small_transition_def small_state_def)
  then have verify: "verify_transition small_env small_head small_transition = Inr ()"
    by (simp add: verify_transition_def small_head_def small_transition_def small_state_def STATE_RECORD_SCHEMA_VERSION_def)
  have publish: "publish_transition small_env Answered GetAnswered small_head (Some small_transition) small_rule_store =
      (Inr (), small_rule_store(?key \<mapsto> [2]))"
    unfolding publish_transition_def Let_def valid verify sum.case option.case by (rule create_fresh) (simp_all add: fresh small_env_simps)
  have "(small_rule_store(?key \<mapsto> [2])) (state_head_key small_env (sh_monitor_id small_head)) = None"
    by (simp add: small_head_def small_rule_store_def ref_key_def key_disjoint key_disjoint [symmetric])
  then have "create_identical (ae_head_ser small_env) Answered GetAnswered (state_head_key small_env (sh_monitor_id small_head)) small_head
      (small_rule_store(?key \<mapsto> [2])) = (Inr (), small_rule_store(?key \<mapsto> [2], state_head_key small_env (sh_monitor_id small_head) \<mapsto> [1]))"
    by (rule create_fresh) (simp add: small_env_simps)
  then have "advance_head small_env Answered GetAnswered small_head None (small_rule_store(?key \<mapsto> [2])) =
      (Inr (), small_rule_store(?key \<mapsto> [2], state_head_key small_env (sh_monitor_id small_head) \<mapsto> [1]))"
    by (simp add: advance_head_def collision_is_conflict_def Let_def)
  from that [OF publish this] show thesis by (simp add: small_head_def)
qed

lemma small_system:
  "\<exists>y. alert_system_run small_env small_context proc y \<and> sy_store y (state_head_key small_env 1) = Some [1]"
proof -
  obtain y where y: "alert_system_run small_env small_context proc y" "sy_store y = small_rule_store" "sy_dbs y = (\<lambda>_. alerts_db_empty)"
    using small_rule_created by blast
  let ?e = "eval_start high_load 1 60" and ?y = "y\<lparr>sy_evaluators := (sy_evaluators y)(0 \<mapsto> eval_start high_load 1 60)\<rparr>"
  have start: "alert_system_run small_env small_context proc ?y" by (rule run_step [OF y(1) start])
  obtain s1 s2 where commit: "publish_transition small_env Answered GetAnswered small_head (Some small_transition) small_rule_store = (Inr (), s1)"
    "advance_head small_env Answered GetAnswered small_head None s1 = (Inr (), s2)" "s2 (state_head_key small_env 1) = Some [1]"
    by (rule small_commit)
  have inp: "in_fence small_input" "in_get1 small_input = GetAnswered" "in_put small_input = Answered" by (simp_all add: small_input_def)
  have e: "?e = ?e\<lparr>el_monitor := high_load, el_phase := CheckRule\<rparr>" by (simp add: eval_start_def)
  have recheck: "evaluator_step small_env small_context small_input (?e\<lparr>el_monitor := high_load, el_phase := Recheck None (ObsValue (Finite 1))\<rparr>)
      small_rule_store db = (?e\<lparr>el_monitor := high_load, el_phase := Publish small_job\<rparr>, small_rule_store, db)" for db
    by (simp add: evaluator_step_def recheck_step_def check_rule_step_def small_rule_current inp small_commit_job eval_start_def)
  have "eval_run small_env small_context (replicate 6 small_input) ?e small_rule_store alerts_db_empty =
      (?e\<lparr>el_monitor := high_load, el_phase := FoldNext small_state\<rparr>, s2, alerts_db_empty)"
    apply (subst e)
    apply (simp add: numeral_eq_Suc small_steps recheck)
    apply (simp add: evaluator_step_def small_job_def inp commit advanced_phase_def)
    apply (simp add: small_head_def)
    done
  moreover have "list_all (\<lambda>inp. finite_obs (in_obs inp)) (replicate 6 small_input)"
    by (simp add: list_all_iff small_input_def finite_obs_def)
  ultimately show ?thesis using evaluator_runs [OF start, of 0 ?e "replicate 6 small_input"] y commit(3) by auto
qed

section \<open>Properties\<close>

text \<open>
  C5: alert history is serial. In every interleaving of evaluators, with any store call failing, being
  retried or being reported as failed after it was applied, what the state head of a monitor has ever
  been is the result of one run of evaluations, each folded into the head before it and none covered
  by it; the transition record each head names is in the bucket and matches it; and a local projection
  only ever holds a state that was committed.
\<close>

theorem alert_history_serial:
  assumes "alert_env_ok env" and "alert_system_run env cx proc y"
  shows "(\<exists>hs steps. map Some (sy_heads y mid) = map (ae_head_ser env) hs \<and> serial hs steps \<and>
      list_all (transition_present env (sy_store y)) hs) \<and>
    sy_store y (state_head_key env mid) = (if sy_heads y mid = [] then None else Some (last (sy_heads y mid))) \<and>
    (case db_states (sy_dbs y p) mid of
       None \<Rightarrow> True
     | Some st \<Rightarrow> \<exists>body \<in> set (sy_heads y mid). map_option sh_state (ae_head_de env body) = Some st)"
proof -
  note inv = alert_run_system_inv [OF assms(2,1)]
  from system_invD(1) [OF inv, of mid] obtain hs steps where
    hs: "list_all2 (head_ok env cx (sy_store y) mid) (sy_heads y mid) hs" "serial hs steps"
    and store: "sy_store y (state_head_key env mid) = (if sy_heads y mid = [] then None else Some (last (sy_heads y mid)))"
    by (auto simp: heads_inv_def)
  have "map Some (sy_heads y mid) = map (ae_head_ser env) hs" "list_all (transition_present env (sy_store y)) hs"
    using hs(1) by (induction rule: list_all2_induct) (auto simp: head_ok_def)
  moreover have "\<exists>body \<in> set (sy_heads y mid). map_option sh_state (ae_head_de env body) = Some st"
    if "db_states (sy_dbs y p) mid = Some st" for st
    using system_invD(3) [OF inv] that by (fastforce simp: db_ok_def committed_def)
  ultimately show ?thesis using hs(2) store by (auto split: option.splits)
qed

theorem alert_history_serial_witness:
  "\<exists>y. alert_system_run small_env small_context id y \<and> sy_heads y 1 \<noteq> [] \<and> last (sy_heads y 1) = [1]"
proof -
  obtain y where y: "alert_system_run small_env small_context id y" "sy_store y (state_head_key small_env 1) = Some [1]"
    using small_system by blast
  with alert_history_serial [OF small_env_ok y(1), of 1 0] show ?thesis by (auto split: if_splits)
qed

text \<open>
  C19: rule edits are linear and deletion is final. In every interleaving, the heads a rule has had
  start with a live revision one, each live revision is one more than the head it replaces, and after
  a deleted head come only deleted ones.
\<close>

theorem rule_deletion_final:
  assumes "alert_env_ok env" and "alert_system_run env cx proc y"
  shows "(\<exists>rs. map Some (sy_rules y mid) = map (ae_rule_head_ser env) rs \<and> rule_chain rs) \<and>
    sy_store y (rule_head_key env mid) = (if sy_rules y mid = [] then None else Some (last (sy_rules y mid)))"
  using alert_run_rules_ok [OF assms(2,1)] by (simp add: rules_ok_def rules_inv_def)

theorem rule_deletion_final_witness:
  "\<exists>y. alert_system_run small_env small_context id y \<and> sy_rules y 1 \<noteq> [] \<and> last (sy_rules y 1) = [3]"
proof -
  obtain y where y: "alert_system_run small_env small_context id y" "sy_store y = small_rule_store"
    using small_rule_created by blast
  have "small_rule_store (rule_head_key small_env 1) = Some [3]" by (simp add: small_rule_store_def)
  with y rule_deletion_final [OF small_env_ok y(1), of 1] show ?thesis by (auto split: if_splits)
qed

end
