(* ===== verification/Spec2Isabelle.thy ===== *)
theory Spec2Isabelle
  imports Live_Seam Cluster_Passes Poll_Props Lease_Props Alert_Cluster
begin

text \<open>
  A verification library for \<^verbatim>\<open>scry\<close>, a telemetry store. Ingesters append batches to a write-ahead log,
  collect them in block builders and upload blocks to a bucket; every instance keeps a catalog of the
  blocks in the bucket and learns of changes by events and by polling; maintenance passes merge small
  blocks and delete expired ones under leases; alert evaluators keep their durable state in the same
  bucket. The bucket is the source of truth, and the theorems are about what must survive in it.

  \<^bold>\<open>Parts, theories and sources\<close> (paths under \<^verbatim>\<open>src/crates/\<close>)

  \<^item> \<^verbatim>\<open>Scry_Prelude\<close>: machine integers, byte orders and decimal digits of the standard library, and lemmas on
    lists, options and words that all components share.
  \<^item> \<^verbatim>\<open>Wal\<close>: the log of \<^verbatim>\<open>wal/src/lib.rs\<close>. A directory is an association list, the buffered writer a byte
    list. \<open>wal_rep\<close> relates it to an abstract log of records; after any crash the replay yields the records
    of the unreleased segments and the complete frames of the active one.
  \<^item> \<^verbatim>\<open>Wire\<close>: the byte reads of \<^verbatim>\<open>binschema-runtime/src/bitstream.rs\<close>, the generated codec of dummy batches
    (\<^verbatim>\<open>proto/src/generated.rs\<close>) and the streaming decoder (\<^verbatim>\<open>proto/src/streaming.rs\<close>), with their round trip.
  \<^item> \<^verbatim>\<open>Builder\<close>: the trait \<open>BlockBuilder\<close> and its configuration (\<^verbatim>\<open>block/src/lib.rs\<close>) as a record of operations
    with the locale \<open>block_builder\<close> for its contract, and the builder of \<^verbatim>\<open>block/src/dummy.rs\<close>, which meets it.
  \<^item> \<^verbatim>\<open>Pipeline\<close>, \<^verbatim>\<open>Ingest\<close>, \<^verbatim>\<open>Ingest_Props\<close>: the ingest pipeline of \<^verbatim>\<open>server/src/pipeline.rs\<close>, its runs as steps
    of one shard, and their guarantees. \<^verbatim>\<open>Ingest\<close> proves the invariant for every builder in the locale
    \<open>ingest_pipeline\<close>; \<^verbatim>\<open>Ingest_Props\<close> interprets it and shows that no acknowledged batch is lost and that
    recovery completes.
  \<^item> \<^verbatim>\<open>Live_Seam\<close>: the watermark test of merged queries, \<^verbatim>\<open>server/src/query_service.rs\<close>, and the ranges of
    segments of concurrent uploads.
  \<^item> \<^verbatim>\<open>Storage_Layout\<close>, \<^verbatim>\<open>Block\<close>: ownership of keys (\<^verbatim>\<open>storage-layout/src/lib.rs\<close>), sidecars and their
    ancestry (\<^verbatim>\<open>block/src/meta.rs\<close>), and upload and deletion of the objects of a block with retries.
  \<^item> \<^verbatim>\<open>Bloom\<close>: the body filter of \<^verbatim>\<open>block/src/bloom.rs\<close>.
  \<^item> \<^verbatim>\<open>Catalog\<close>, \<^verbatim>\<open>Catalog_Order\<close>, \<^verbatim>\<open>Catalog_Props\<close>: the tables of \<^verbatim>\<open>catalog/src/lib.rs\<close>, the independence of the
    live set from the order of inserts, and the contracts \<open>high_water\<close> (marks that only rise) and
    \<open>staged_work\<close> (work that falls due) with the invariant of the block table.
  \<^item> \<^verbatim>\<open>Compact_Policy\<close>, \<^verbatim>\<open>Compact_Resources\<close>, \<^verbatim>\<open>Postings_Merge\<close>, \<^verbatim>\<open>Compact_Merge\<close>, \<^verbatim>\<open>Compact_Engine\<close>: the planner, the
    memory envelope, the streaming merge of postings against its reference union
    (\<open>budgeted_simulation\<close>), the merge of blocks with its fenced commit, and the engine
    (\<^verbatim>\<open>compact/src\<close>, \<^verbatim>\<open>block/src/events.rs\<close>, \<^verbatim>\<open>block/src/fence.rs\<close>, \<^verbatim>\<open>block/src/postings.rs\<close>).
  \<^item> \<^verbatim>\<open>Retention\<close>, \<^verbatim>\<open>Convergence\<close>, \<^verbatim>\<open>Poll\<close>, \<^verbatim>\<open>Maintain\<close>, \<^verbatim>\<open>Poll_Props\<close>, \<^verbatim>\<open>Lease_Props\<close>: expiry
    (\<^verbatim>\<open>retention/src\<close>), events and staged deletions of peers, bucket polling, maintenance passes and local
    leases (\<^verbatim>\<open>cluster/src\<close>).
  \<^item> \<^verbatim>\<open>Cluster\<close>, \<^verbatim>\<open>Cluster_Passes\<close>: any number of instances on one bucket as a step relation whose steps are
    parts of the passes; the passes, polls and walks of the code are runs of it, so its theorem, that
    rows leave the bucket only by expiry or into a published merge, holds for them.
  \<^item> \<^verbatim>\<open>Alert_State\<close>, \<^verbatim>\<open>Alert_Store\<close>, \<^verbatim>\<open>Alert_Eval\<close>, \<^verbatim>\<open>Alert_Props\<close>, \<^verbatim>\<open>Alert_Cluster\<close>: the alert state machine and its
    schedule (\<^verbatim>\<open>alert/src\<close>), durable records over conditional writes (\<^verbatim>\<open>objstore/src/conditional.rs\<close>), the
    evaluator (\<^verbatim>\<open>scry-alertd/src/evaluator.rs\<close>), and the serial history of concurrent evaluators.

  \<^bold>\<open>How state and effects are modelled.\<close> A struct is a record, an enum a datatype, a machine integer a
  word of its width; a method takes and returns the state, an error is the left side of a sum. SQL
  tables are lists of rows. A store is a map of objects and a counter of calls; what each call answers,
  also an answer lost after the write, is a function argument over which the theorems quantify. Code
  outside the repository (Parquet, JSON, SHA-256, CRC-32, formatting of dates and UUIDs, the SQL engine)
  and clock readings are arguments too. Where tasks run concurrently, the stretches between two waits
  are steps of an inductive relation, and invariants are proved by rule induction.

  \<^bold>\<open>Bounds.\<close> Loops are structural recursion or have termination proofs; no definition takes fuel.
  A run of an ingest shard has fewer than \<open>2 ^ 63\<close> steps, so that
  segment numbers do not wrap. The target size of a block plus twice the largest frame stays below
  \<open>2 ^ 31\<close>, the range of the offsets of a builder; the default configuration is far below it.

  \<^bold>\<open>What the ingest runs leave out.\<close> A release runs in one step with any number of unlinks done, not
  interleaved with appends between two unlinks. A crash inside a start appears as a start that fails. A
  frame is identified by its bytes and segment, so the theorem on lost batches does not count copies. Adaptive compression stays off, as opening leaves it. Failing reads,
  writes and syncs of log files are not modelled; a torn active segment is, by crashes at any byte.

  \<^bold>\<open>Grain of the other steps.\<close> In \<^verbatim>\<open>Cluster\<close> a whole upload, merge or deletion of a block is one step,
  whatever its calls answer; an upload there has a fresh UUID, so a block uploaded again under the
  same UUID by a repeated recovery is covered by \<^verbatim>\<open>Ingest\<close> only. A merge reads its inputs from one state of
  the bucket, and the partitions of a compaction pass run one after the other. Entering the queue for
  admission, leaving it and dropping a permit are single steps, as is one relinquishing of a lease. The
  program asks for the watermarks of the logs signal only; \<^verbatim>\<open>Live_Seam\<close> takes them for the signal whose
  builder is modelled.

  \<^bold>\<open>Not modelled.\<close> The builders of logs, metrics, traces and profiles and the postings writer, which
  fill Arrow arrays in place; their wire formats and redaction; the query service, whose meaning is that
  of its SQL engine; connections, sessions, tailing and the live ring; the error intake; scheduling and
  delivery of notifications; Valkey, whose answers are arguments; catalog snapshots and migration;
  agents, gateway, command line, user interface and deployment.
\<close>

end
